(* ===== verification/OZPrelude.thy ===== *)
theory OZPrelude
  imports Main "HOL-Library.Multiset" "HOL-Library.Char_ord" "HOL-Library.List_Lexorder"
    "HOL-Library.Monad_Syntax" "HOL-Library.Word"
begin

text \<open>
  Shared material of the development: the outcome type of C code that may run into
  undefined behaviour, bytes and C strings, and generic facts on lists, stable sorting
  and words that several components use.

  Bytes are \<open>char\<close> (eight bits); a \<open>string\<close> is a list of bytes, ordered
  lexicographically by unsigned byte value.  A computation of type \<open>'a ub\<close> is \<open>None\<close>
  when the C code has undefined behaviour (a buffer overrun, an access through a bad
  pointer) and \<open>Some r\<close> when it returns \<open>r\<close>.
\<close>

type_synonym 'a ub = "'a option"

type_synonym u32 = "32 word"

type_synonym u64 = "64 word"

named_theorems scan_simps "evaluation of the input scanners on printed text"

named_theorems file_simps "the effect of file operations"

section \<open>Pointers\<close>

text \<open>
  A pointer is \<open>Uninit\<close> (indeterminate), \<open>Null\<close>, \<open>Freed\<close> or \<open>Ptr x\<close>; using an indeterminate
  or freed pointer, or dereferencing a null pointer, is undefined behaviour.
\<close>

datatype 'a ptr = Uninit | Null | Freed | Ptr 'a

fun deref :: "'a ptr \<Rightarrow> 'a ub" where
  "deref (Ptr x) = Some x"
| "deref _ = None"

text \<open>The test \<open>if (p)\<close>; it reads the pointer, so the pointer must not be indeterminate.\<close>

fun nonnull :: "'a ptr \<Rightarrow> bool ub" where
  "nonnull Null = Some False"
| "nonnull (Ptr x) = Some True"
| "nonnull _ = None"

text \<open>\<open>free(p)\<close>: freeing a null pointer does nothing.\<close>

fun free_ok :: "'a ptr \<Rightarrow> unit ub" where
  "free_ok Null = Some ()"
| "free_ok (Ptr x) = Some ()"
| "free_ok _ = None"

section \<open>Lists\<close>

lemma takeWhile_append_stop:
  "\<forall>x \<in> set xs. P x \<Longrightarrow> ys = [] \<or> \<not> P (hd ys) \<Longrightarrow> takeWhile P (xs @ ys) = xs"
  by (cases ys) (auto simp: takeWhile_append)

lemma dropWhile_append_stop:
  "\<forall>x \<in> set xs. P x \<Longrightarrow> ys = [] \<or> \<not> P (hd ys) \<Longrightarrow> dropWhile P (xs @ ys) = ys"
  by (cases ys) (auto simp: dropWhile_append)

lemma length_dropWhile_less:
  "xs \<noteq> [] \<Longrightarrow> P (hd xs) \<Longrightarrow> length (dropWhile P xs) < length xs"
  by (cases xs) (auto simp: length_dropWhile_le less_Suc_eq_le)

section \<open>Stable sorting\<close>

text \<open>
  \<open>sort_key f xs\<close> is the stable sort of \<open>xs\<close> by \<open>f\<close>.  A list that is sorted by \<open>f\<close> and
  keeps, for every key, the subsequence of that key is this list; so a merge that takes the
  earliest run among equal keys computes the stable sort of the concatenated runs.
\<close>

lemma filter_eq_mset_eq:
  assumes "\<And>k. filter (\<lambda>x. f x = k) xs = filter (\<lambda>x. f x = k) ys"
  shows "mset xs = mset ys"
proof (rule multiset_eqI)
  fix x
  have "count (mset zs) x = count (mset (filter (\<lambda>y. f y = f x) zs)) x" for zs
    by (induction zs) auto
  then show "count (mset xs) x = count (mset ys) x"
    using assms by metis
qed

lemma stable_sort_unique:
  fixes f :: "'a \<Rightarrow> 'k::linorder"
  assumes "sorted (map f ys)"
    and "\<And>k. filter (\<lambda>x. f x = k) ys = filter (\<lambda>x. f x = k) xs"
  shows "ys = sort_key f xs"
proof -
  have "mset ys = mset xs"
    using assms(2) by (rule filter_eq_mset_eq)
  moreover have "filter (\<lambda>x. f k = f x) ys = filter (\<lambda>x. f k = f x) xs" for k
    using assms(2) [of "f k"] by (simp add: eq_commute)
  ultimately show ?thesis
    using assms(1) by (intro properties_for_sort_key [symmetric]) auto
qed

lemma filter_sort_key_same:
  "filter (\<lambda>x. f x = k) (sort_key f xs) = filter (\<lambda>x. f x = k) xs"
  for f :: "'a \<Rightarrow> 'k::linorder"
  by (rule sort_key_stable)

lemma filter_sort_key:
  fixes f :: "'a \<Rightarrow> 'k::linorder"
  shows "filter P (sort_key f xs) = sort_key f (filter P xs)"
proof (rule stable_sort_unique)
  show "sorted (map f (filter P (sort_key f xs)))"
    by (rule sorted_filter) simp
next
  fix k
  have "filter (\<lambda>x. f x = k) (filter P zs) = filter P (filter (\<lambda>x. f x = k) zs)" for zs
    by (simp add: conj_commute)
  then show "filter (\<lambda>x. f x = k) (filter P (sort_key f xs)) = filter (\<lambda>x. f x = k) (filter P xs)"
    by (simp only: filter_sort_key_same)
qed

section \<open>Bytes and C strings\<close>

text \<open>
  A C string is the run of bytes before the first NUL byte; \<open>cstr\<close> is what a \<open>char*\<close>
  to a buffer with these bytes denotes (all buffers of the code are NUL terminated).
\<close>

definition cstr :: "string \<Rightarrow> string" where
  "cstr s = takeWhile (\<lambda>c. c \<noteq> CHR 0x00) s"

definition nul_free :: "string \<Rightarrow> bool" where
  "nul_free s \<longleftrightarrow> CHR 0x00 \<notin> set s"

lemma nul_free_simps [simp]:
  "nul_free []"
  "nul_free (c # s) \<longleftrightarrow> c \<noteq> CHR 0x00 \<and> nul_free s"
  "nul_free (s @ t) \<longleftrightarrow> nul_free s \<and> nul_free t"
  by (auto simp: nul_free_def)

lemma nul_free_cstr [simp]: "nul_free (cstr s)"
  by (auto simp: nul_free_def cstr_def dest: set_takeWhileD)

lemma cstr_id [simp]: "nul_free s \<Longrightarrow> cstr s = s"
  by (auto simp: cstr_def nul_free_def takeWhile_eq_all_conv)

lemma cstr_append_NUL [simp]: "cstr (s @ CHR 0x00 # t) = cstr s"
  by (induction s) (auto simp: cstr_def)

lemma set_cstr: "set (cstr s) \<subseteq> set s"
  by (auto simp: cstr_def dest: set_takeWhileD)

lemma length_cstr: "length (cstr s) \<le> length s"
  by (simp add: cstr_def length_takeWhile_le)

abbreviation byte :: "char \<Rightarrow> nat" where
  "byte c \<equiv> of_char c"

lemma byte_less: "byte c < 256"
  by simp

lemma byte_inj: "byte c = byte d \<longleftrightarrow> c = d"
  by simp

lemma byte_char_of: "n < 256 \<Longrightarrow> byte (char_of n) = n"
  by simp

lemma char_less_byte: "c < d \<longleftrightarrow> byte c < byte d"
  by (simp add: less_char_def)

section \<open>Words\<close>

lemma unat_less_2p: "unat w < 2 ^ LENGTH('a)" for w :: "'a::len word"
  by (rule unsigned_less)

lemma unat_of_nat_small [simp]:
  "n < 2 ^ LENGTH('a) \<Longrightarrow> unat (of_nat n :: 'a::len word) = n"
  by (simp add: unsigned_of_nat take_bit_nat_eq_self)

end
