(* ===== verification/CLib.thy ===== *)
theory CLib
  imports OZPrelude
begin

text \<open>
  The part of the C library that the sources use, for an LP64 system (64-bit \<open>long\<close> and
  \<open>off_t\<close>, 32-bit \<open>int\<close>): \<open>strcmp\<close>, decimal output of \<open>fprintf\<close>, the numeric and string
  conversions of \<open>fscanf\<close>, \<open>atoi\<close>, the merge sort behind \<open>qsort\<close>, and files.  Formatted
  input is modelled on the whole remaining text of a stream; every function returns the
  rest of that text.
\<close>

section \<open>strcmp\<close>

fun strcmp :: "string \<Rightarrow> string \<Rightarrow> int" where
  "strcmp [] [] = 0"
| "strcmp [] (d # ds) = - int (byte d)"
| "strcmp (c # cs) [] = int (byte c)"
| "strcmp (c # cs) (d # ds) = (if c = d then strcmp cs ds else int (byte c) - int (byte d))"

lemma byte_pos: "c \<noteq> CHR 0x00 \<Longrightarrow> 0 < byte c"
proof -
  assume "c \<noteq> CHR 0x00"
  then have "byte c \<noteq> byte (CHR 0x00)"
    by (simp only: byte_inj not_False_eq_True)
  then show ?thesis by simp
qed

lemma strcmp_less:
  "nul_free s \<Longrightarrow> nul_free t \<Longrightarrow> strcmp s t < 0 \<longleftrightarrow> s < t"
  by (induction s t rule: strcmp.induct) (auto simp: char_less_byte byte_pos)

lemma strcmp_eq:
  "nul_free s \<Longrightarrow> nul_free t \<Longrightarrow> strcmp s t = 0 \<longleftrightarrow> s = t"
  by (induction s t rule: strcmp.induct) (auto simp: byte_pos)

lemma strcmp_le:
  "nul_free s \<Longrightarrow> nul_free t \<Longrightarrow> strcmp s t \<le> 0 \<longleftrightarrow> s \<le> t"
  using strcmp_eq [of s t] strcmp_less [of s t] by (auto simp: le_less)

lemma strcmp_greater:
  "nul_free s \<Longrightarrow> nul_free t \<Longrightarrow> strcmp s t > 0 \<longleftrightarrow> t < s"
  using strcmp_le [of s t] by auto

section \<open>Decimal numbers\<close>

definition digit :: "nat \<Rightarrow> char" where
  "digit d = char_of (48 + d)"

definition isdigit :: "char \<Rightarrow> bool" where
  "isdigit c \<longleftrightarrow> 48 \<le> byte c \<and> byte c \<le> 57"

definition isspace :: "char \<Rightarrow> bool" where
  "isspace c \<longleftrightarrow> byte c = 32 \<or> 9 \<le> byte c \<and> byte c \<le> 13"

text \<open>The output of an unsigned conversion (\<open>%u\<close>, \<open>%llu\<close>), without padding.\<close>

fun dec :: "nat \<Rightarrow> string" where
  "dec n = (if n < 10 then [digit n] else dec (n div 10) @ [digit (n mod 10)])"

declare dec.simps [simp del]

text \<open>The output of a signed conversion (\<open>%d\<close>, \<open>%ld\<close>, \<open>%lld\<close>).\<close>

definition dec_int :: "int \<Rightarrow> string" where
  "dec_int i = (if i < 0 then CHR ''-'' # dec (nat (- i)) else dec (nat i))"

definition digits_value :: "string \<Rightarrow> nat" where
  "digits_value = foldl (\<lambda>acc c. 10 * acc + (byte c - 48)) 0"

lemma digits_0_9:
  "digit 0 = CHR ''0''" "digit 1 = CHR ''1''" "digit 2 = CHR ''2''" "digit 3 = CHR ''3''"
  "digit 4 = CHR ''4''" "digit 5 = CHR ''5''" "digit 6 = CHR ''6''" "digit 7 = CHR ''7''"
  "digit 8 = CHR ''8''" "digit 9 = CHR ''9''"
  by code_simp+

lemma byte_digit: "d < 10 \<Longrightarrow> byte (digit d) = 48 + d"
  by (simp add: digit_def)

lemma isdigit_digit: "d < 10 \<Longrightarrow> isdigit (digit d)"
  by (simp add: isdigit_def byte_digit)

lemma isdigit_not_space: "isdigit c \<Longrightarrow> \<not> isspace c"
  by (auto simp: isdigit_def isspace_def)

lemma isdigit_not_nul: "isdigit c \<Longrightarrow> c \<noteq> CHR 0x00"
  by (auto simp: isdigit_def)

lemma dec_nonempty [simp]: "dec n \<noteq> []"
  by (subst dec.simps) simp

lemma dec_digits: "c \<in> set (dec n) \<Longrightarrow> isdigit c"
proof (induction n rule: dec.induct)
  case (1 n)
  show ?case
  proof (cases "n < 10")
    case True
    with 1 show ?thesis by (simp add: dec.simps [of n] isdigit_digit)
  next
    case False
    with 1 show ?thesis by (auto simp: dec.simps [of n] isdigit_digit)
  qed
qed

lemma digits_value_snoc: "digits_value (s @ [c]) = 10 * digits_value s + (byte c - 48)"
  by (simp add: digits_value_def)

lemma digits_value_dec [simp]: "digits_value (dec n) = n"
proof (induction n rule: dec.induct)
  case (1 n)
  show ?case
  proof (cases "n < 10")
    case True
    then show ?thesis by (simp add: dec.simps [of n] digits_value_def byte_digit)
  next
    case False
    with 1 show ?thesis by (simp add: dec.simps [of n] digits_value_snoc byte_digit)
  qed
qed

lemma dec_inj: "dec m = dec n \<longleftrightarrow> m = n"
  by (metis digits_value_dec)

lemma nul_free_dec [simp]: "nul_free (dec n)"
  using dec_digits isdigit_not_nul by (auto simp: nul_free_def)

lemma length_dec_le: "n < 10 ^ k \<Longrightarrow> 0 < k \<Longrightarrow> length (dec n) \<le> k"
proof (induction n arbitrary: k rule: dec.induct)
  case (1 n)
  show ?case
  proof (cases "n < 10")
    case True
    with 1 show ?thesis by (simp add: dec.simps [of n])
  next
    case False
    obtain j where j: "k = Suc j"
      using "1.prems"(2) by (cases k) auto
    with "1.prems" False have "0 < j"
      by (cases j) auto
    note j this
    moreover from j "1.prems" have "n div 10 < 10 ^ j"
      by (simp add: less_mult_imp_div_less mult.commute)
    ultimately show ?thesis
      using 1 False by (simp add: dec.simps [of n])
  qed
qed

section \<open>Formatted input\<close>

definition skip_ws :: "string \<Rightarrow> string" where
  "skip_ws = dropWhile isspace"

text \<open>
  The text that an integer conversion of \<open>fscanf\<close> consumes (white space, an optional sign,
  decimal digits) and what it found: the sign and the value of the digits, or nothing when
  there is no digit (a matching failure).
\<close>

definition scan_sign :: "string \<Rightarrow> bool \<times> string" where
  "scan_sign s = (case s of [] \<Rightarrow> (False, [])
     | c # t \<Rightarrow> if c = CHR ''-'' then (True, t) else if c = CHR ''+'' then (False, t) else (False, s))"

definition scan_num :: "string \<Rightarrow> (bool \<times> nat) option \<times> string" where
  "scan_num s = (let (neg, t) = scan_sign (skip_ws s); ds = takeWhile isdigit t in
     (if ds = [] then None else Some (neg, digits_value ds), dropWhile isdigit t))"

text \<open>
  What is stored: \<open>%llu\<close> and \<open>%u\<close> go through \<open>strtoull\<close>/\<open>strtoul\<close> (64 bits, negation
  modulo \<open>2 ^ 64\<close>, saturation at the maximum), \<open>%u\<close> then keeps the low 32 bits; \<open>%ld\<close>,
  \<open>%lld\<close> saturate at the signed bounds; \<open>atoi\<close> keeps the low 32 bits of \<open>strtol\<close>.
\<close>

definition to_ull :: "bool \<times> nat \<Rightarrow> u64" where
  "to_ull v = (if 2 ^ 64 \<le> snd v then - 1 else if fst v then - of_nat (snd v) else of_nat (snd v))"

definition to_uint :: "bool \<times> nat \<Rightarrow> u32" where
  "to_uint v = ucast (to_ull v)"

definition to_long :: "bool \<times> nat \<Rightarrow> int" where
  "to_long v = (if fst v then max (- (2 ^ 63)) (- int (snd v)) else min (2 ^ 63 - 1) (int (snd v)))"

definition atoi :: "string \<Rightarrow> int" where
  "atoi s = (case fst (scan_num s) of None \<Rightarrow> 0
     | Some v \<Rightarrow> sint (of_int (to_long v) :: u32))"

lemma skip_ws_simps [scan_simps]:
  "skip_ws [] = []"
  "isspace c \<Longrightarrow> skip_ws (c # s) = skip_ws s"
  "\<not> isspace c \<Longrightarrow> skip_ws (c # s) = c # s"
  by (simp_all add: skip_ws_def)

lemma skip_ws_nonspace: "s \<noteq> [] \<Longrightarrow> \<not> isspace (hd s) \<Longrightarrow> skip_ws s = s"
  by (cases s) (simp_all add: scan_simps)

lemma hd_skip_ws: "skip_ws s \<noteq> [] \<Longrightarrow> \<not> isspace (hd (skip_ws s))"
  by (simp add: skip_ws_def hd_dropWhile)

lemma length_skip_ws: "length (skip_ws s) \<le> length s"
  by (simp add: skip_ws_def length_dropWhile_le)

lemma skip_ws_idem [simp]: "skip_ws (skip_ws s) = skip_ws s"
  by (simp add: skip_ws_def)

lemma length_scan_num: "length (snd (scan_num s)) \<le> length s"
proof -
  have "length (snd (scan_sign t)) \<le> length t" for t
    by (cases t) (auto simp: scan_sign_def)
  then show ?thesis
    by (simp add: scan_num_def Let_def split_beta)
      (meson length_dropWhile_le length_skip_ws order_trans)
qed

lemma scan_num_dec [scan_simps]:
  assumes "t = [] \<or> \<not> isdigit (hd t)"
  shows "scan_num (dec n @ t) = (Some (False, n), t)"
proof -
  obtain c cs where d: "dec n = c # cs"
    by (meson dec_nonempty list.exhaust)
  have "isdigit c"
    using d dec_digits [of c n] by simp
  then have "skip_ws (dec n @ t) = dec n @ t" "scan_sign (dec n @ t) = (False, dec n @ t)"
    using isdigit_not_space [of c] by (auto simp: d scan_simps scan_sign_def isdigit_def)
  moreover have "takeWhile isdigit (dec n @ t) = dec n" "dropWhile isdigit (dec n @ t) = t"
    using assms dec_digits [of _ n]
    by (intro takeWhile_append_stop dropWhile_append_stop; blast)+
  ultimately show ?thesis
    by (simp add: scan_num_def)
qed

lemma scan_num_skip_ws: "scan_num (skip_ws s) = scan_num s"
  by (simp add: scan_num_def)

lemma to_ull_unat [simp]: "to_ull (False, unat (w::u64)) = w"
proof -
  have "unat w < 2 ^ 64"
    using unat_less_2p [of w] by simp
  then show ?thesis by (simp add: to_ull_def)
qed

lemma to_uint_unat [simp]: "to_uint (False, unat (w::u32)) = w"
proof -
  have "unat w < 2 ^ 64"
    using unat_less_2p [of w] by simp
  moreover have "ucast (ucast w :: u64) = w"
    by (rule bit_word_eqI) (simp add: bit_simps)
  ultimately show ?thesis
    by (simp add: to_uint_def to_ull_def)
qed

lemma to_long_small [simp]: "n < 2 ^ 63 \<Longrightarrow> to_long (False, n) = int n"
  by (simp add: to_long_def)

lemma atoi_dec: "n < 2 ^ 31 \<Longrightarrow> atoi (dec n) = int n"
  using scan_num_dec [of "[]" n]
  by (simp add: atoi_def signed_of_nat signed_take_bit_int_eq_self_iff)

section \<open>qsort\<close>

text \<open>
  \<open>qsort\<close> of the C library these binaries link (glibc) is a merge sort: it halves the
  array and merges, taking from the left half while the comparison is not positive.
  A client relies on two laws only: the result is sorted by the key that the comparison
  function compares, and elements with equal keys keep their order.
\<close>

fun msort_merge :: "('a \<Rightarrow> 'a \<Rightarrow> int) \<Rightarrow> 'a list \<Rightarrow> 'a list \<Rightarrow> 'a list" where
  "msort_merge cmp [] ys = ys"
| "msort_merge cmp xs [] = xs"
| "msort_merge cmp (x # xs) (y # ys) =
     (if cmp x y \<le> 0 then x # msort_merge cmp xs (y # ys) else y # msort_merge cmp (x # xs) ys)"

function qsort :: "('a \<Rightarrow> 'a \<Rightarrow> int) \<Rightarrow> 'a list \<Rightarrow> 'a list" where
  "qsort cmp xs = (if length xs \<le> 1 then xs
     else msort_merge cmp (qsort cmp (take (length xs div 2) xs)) (qsort cmp (drop (length xs div 2) xs)))"
  by pat_completeness auto
termination
  by (relation "measure (\<lambda>(cmp, xs). length xs)") auto

declare qsort.simps [simp del]

locale stable_sorter =
  fixes sorter :: "'a list \<Rightarrow> 'a list"
    and key :: "'a \<Rightarrow> 'k::linorder"
    and ok :: "'a \<Rightarrow> bool"
  assumes sorter_sorted: "list_all ok xs \<Longrightarrow> sorted (map key (sorter xs))"
    and sorter_stable: "list_all ok xs \<Longrightarrow>
      filter (\<lambda>x. key x = k) (sorter xs) = filter (\<lambda>x. key x = k) xs"
begin

lemma sorter_eq: "list_all ok xs \<Longrightarrow> sorter xs = sort_key key xs"
  by (rule stable_sort_unique) (simp_all add: sorter_sorted sorter_stable)

lemma sorter_mset: "list_all ok xs \<Longrightarrow> mset (sorter xs) = mset xs"
  by (simp add: sorter_eq)

lemma sorter_set: "list_all ok xs \<Longrightarrow> set (sorter xs) = set xs"
  by (simp add: sorter_eq)

lemma sorter_length: "list_all ok xs \<Longrightarrow> length (sorter xs) = length xs"
  by (simp add: sorter_eq)

end

lemma set_msort_merge: "set (msort_merge cmp xs ys) = set xs \<union> set ys"
  by (induction cmp xs ys rule: msort_merge.induct) auto

lemma set_qsort [simp]: "set (qsort cmp xs) = set xs"
proof (induction cmp xs rule: qsort.induct)
  case (1 cmp xs)
  have "set (take n xs) \<union> set (drop n xs) = set xs" for n
    by (metis append_take_drop_id set_append)
  with 1 show ?case
    by (simp add: qsort.simps [of cmp xs] set_msort_merge)
qed

lemma msort_merge_sorted_stable:
  fixes key :: "'a \<Rightarrow> 'k::linorder"
  assumes "\<And>x y. x \<in> set xs \<Longrightarrow> y \<in> set ys \<Longrightarrow> cmp x y \<le> 0 \<longleftrightarrow> key x \<le> key y"
    and "sorted (map key xs)" and "sorted (map key ys)"
  shows "sorted (map key (msort_merge cmp xs ys)) \<and>
     filter (\<lambda>x. key x = k) (msort_merge cmp xs ys) =
       filter (\<lambda>x. key x = k) xs @ filter (\<lambda>x. key x = k) ys"
  using assms
proof (induction cmp xs ys rule: msort_merge.induct)
  case (3 cmp x xs y ys)
  show ?case
  proof (cases "cmp x y \<le> 0")
    case True
    with 3 show ?thesis
      by (auto simp: set_msort_merge)
  next
    case False
    with 3 have "key y < key x"
      by (meson list.set_intros(1) not_le)
    moreover from this "3.prems"(2) have "filter (\<lambda>x. key x = key y) (x # xs) = []"
      by (force simp: filter_empty_conv)
    ultimately show ?thesis
      using 3 False by (auto simp: set_msort_merge)
  qed
qed auto

lemma qsort_sorted_stable:
  fixes key :: "'a \<Rightarrow> 'k::linorder"
  assumes "\<And>x y. x \<in> set xs \<Longrightarrow> y \<in> set xs \<Longrightarrow> cmp x y \<le> 0 \<longleftrightarrow> key x \<le> key y"
  shows "sorted (map key (qsort cmp xs)) \<and>
     filter (\<lambda>x. key x = k) (qsort cmp xs) = filter (\<lambda>x. key x = k) xs"
  using assms
proof (induction cmp xs rule: qsort.induct)
  case (1 cmp xs)
  show ?case
  proof (cases "length xs \<le> 1")
    case True
    then have "qsort cmp xs = xs"
      by (subst qsort.simps) simp
    moreover have "sorted (map key xs)"
      using True by (cases xs) auto
    ultimately show ?thesis by simp
  next
    case False
    let ?l = "take (length xs div 2) xs" and ?r = "drop (length xs div 2) xs"
    have sub: "set ?l \<subseteq> set xs" "set ?r \<subseteq> set xs"
      by (rule set_take_subset, rule set_drop_subset)
    have l: "sorted (map key (qsort cmp ?l)) \<and>
        filter (\<lambda>x. key x = k) (qsort cmp ?l) = filter (\<lambda>x. key x = k) ?l"
      using "1.IH"(1) [OF False] "1.prems" sub by blast
    have r: "sorted (map key (qsort cmp ?r)) \<and>
        filter (\<lambda>x. key x = k) (qsort cmp ?r) = filter (\<lambda>x. key x = k) ?r"
      using "1.IH"(2) [OF False] "1.prems" sub by blast
    have "filter (\<lambda>x. key x = k) ?l @ filter (\<lambda>x. key x = k) ?r = filter (\<lambda>x. key x = k) xs"
      by (simp flip: filter_append)
    then show ?thesis
      using False l r sub "1.prems"
        msort_merge_sorted_stable [of "qsort cmp ?l" "qsort cmp ?r" cmp key k]
      by (simp add: qsort.simps [of cmp xs] subset_iff)
  qed
qed

section \<open>Files\<close>

text \<open>
  The files that matter are a map from paths to contents.  \<open>openable\<close> says for which paths
  \<open>fopen\<close> succeeds apart from the existence of the file (directory present, permissions,
  descriptors left); only making a directory adds to it.  \<open>creatable\<close> says which directories
  \<open>mkdir\<close> can make.  An append stream has unwritten
  bytes (\<open>os_buf\<close>) that reach the file when the stream is flushed, and the position its
  descriptor had after the last write (\<open>os_pos\<close>), which is what \<open>ftello\<close> starts from.
\<close>

record world =
  files :: "string \<Rightarrow> string option"
  openable :: "string \<Rightarrow> bool"
  creatable :: "string \<Rightarrow> bool"

record ostream =
  os_path :: string
  os_buf :: string
  os_pos :: nat

definition content :: "world \<Rightarrow> string \<Rightarrow> string" where
  "content w p = (case files w p of None \<Rightarrow> [] | Some c \<Rightarrow> c)"

definition fopen_r :: "world \<Rightarrow> string \<Rightarrow> string option" where
  "fopen_r w p = (if openable w p then files w p else None)"

definition fopen_w :: "world \<Rightarrow> string \<Rightarrow> world option" where
  "fopen_w w p = (if openable w p then Some (w\<lparr>files := (files w)(p \<mapsto> [])\<rparr>) else None)"

definition fopen_a :: "world \<Rightarrow> string \<Rightarrow> (ostream \<times> world) option" where
  "fopen_a w p = (if openable w p
     then Some (\<lparr>os_path = p, os_buf = [], os_pos = length (content w p)\<rparr>,
                w\<lparr>files := (files w)(p \<mapsto> content w p)\<rparr>)
     else None)"

definition in_dir :: "string \<Rightarrow> string \<Rightarrow> bool" where
  "in_dir d p \<longleftrightarrow> take (length d + 1) p = d @ ''/'' \<and> CHR ''/'' \<notin> set (drop (length d + 1) p)"

definition mkdir :: "world \<Rightarrow> string \<Rightarrow> world" where
  "mkdir w d = (if creatable w d
     then w\<lparr>openable := (\<lambda>p. openable w p \<or> in_dir d p), creatable := (creatable w)(d := False)\<rparr>
     else w)"

definition write_file :: "world \<Rightarrow> string \<Rightarrow> string \<Rightarrow> world" where
  "write_file w p c = w\<lparr>files := (files w)(p \<mapsto> c)\<rparr>"

definition unlink :: "world \<Rightarrow> string \<Rightarrow> world" where
  "unlink w p = w\<lparr>files := (files w)(p := None)\<rparr>"

definition stream_put :: "ostream \<Rightarrow> string \<Rightarrow> ostream" where
  "stream_put f bs = f\<lparr>os_buf := os_buf f @ bs\<rparr>"

definition ftello :: "ostream \<Rightarrow> nat" where
  "ftello f = os_pos f + length (os_buf f)"

definition fflush :: "world \<Rightarrow> ostream \<Rightarrow> ostream \<times> world" where
  "fflush w f = (if os_buf f = [] then (f, w)
     else let c = content w (os_path f) @ os_buf f in
       (f\<lparr>os_buf := [], os_pos := length c\<rparr>, write_file w (os_path f) c))"

lemma files_write_file [file_simps]: "files (write_file w p c) = (files w)(p \<mapsto> c)"
  by (simp add: write_file_def)

lemma openable_write_file [file_simps]: "openable (write_file w p c) = openable w"
  by (simp add: write_file_def)

lemma files_mkdir [file_simps]: "files (mkdir w d) = files w"
  by (simp add: mkdir_def)

lemma content_mkdir [file_simps]: "content (mkdir w d) p = content w p"
  by (simp add: content_def file_simps)

lemma openable_mkdir: "openable w p \<Longrightarrow> openable (mkdir w d) p"
  by (simp add: mkdir_def)

lemma files_unlink [file_simps]: "files (unlink w p) = (files w)(p := None)"
  by (simp add: unlink_def)

lemma openable_unlink [file_simps]: "openable (unlink w p) = openable w"
  by (simp add: unlink_def)

lemma content_write_file [file_simps]:
  "content (write_file w p c) q = (if p = q then c else content w q)"
  by (simp add: content_def file_simps)

lemma fopen_r_write_file [file_simps]:
  "fopen_r (write_file w p c) q = (if p = q then (if openable w q then Some c else None) else fopen_r w q)"
  by (simp add: fopen_r_def file_simps)

lemma fopen_r_unlink [file_simps]:
  "fopen_r (unlink w p) q = (if p = q then None else fopen_r w q)"
  by (simp add: fopen_r_def file_simps)

lemma fopen_w_write_file: "fopen_w w p = (if openable w p then Some (write_file w p []) else None)"
  by (simp add: fopen_w_def write_file_def)

lemma fopen_r_content: "fopen_r w p = Some c \<Longrightarrow> content w p = c"
  by (simp add: fopen_r_def content_def split: if_splits)

text \<open>
  Reading: \<open>fseeko\<close> to an unsigned 64-bit offset fails when the offset is negative as an
  \<open>off_t\<close>; \<open>fread(buf, n, 1, fp)\<close> stores the bytes that are there, at most \<open>n\<close>, and
  returns 1 only when \<open>n\<close> is not 0 and all \<open>n\<close> bytes were there.
\<close>

definition fseeko_ok :: "u64 \<Rightarrow> bool" where
  "fseeko_ok off \<longleftrightarrow> unat off < 2 ^ 63"

definition fread_bytes :: "string \<Rightarrow> nat \<Rightarrow> nat \<Rightarrow> string" where
  "fread_bytes c pos n = take n (drop pos c)"

definition fread_ret :: "string \<Rightarrow> nat \<Rightarrow> nat \<Rightarrow> nat" where
  "fread_ret c pos n = (if n \<noteq> 0 \<and> pos + n \<le> length c then 1 else 0)"

lemma length_fread_bytes: "length (fread_bytes c pos n) \<le> n"
  by (simp add: fread_bytes_def)

lemma fread_ret_full: "fread_ret c pos n = 1 \<Longrightarrow> length (fread_bytes c pos n) = n"
  by (simp add: fread_ret_def fread_bytes_def split: if_splits)

text \<open>\<open>snprintf(buf, n, "%s/%s", dir, name)\<close> keeps the first \<open>n - 1\<close> bytes.\<close>

definition snprintf_path :: "nat \<Rightarrow> string \<Rightarrow> string \<Rightarrow> string" where
  "snprintf_path n dir name = take (n - 1) (dir @ ''/'' @ name)"

lemma snprintf_path_full:
  "length dir + length name + 1 < n \<Longrightarrow> snprintf_path n dir name = dir @ ''/'' @ name"
  by (simp add: snprintf_path_def)

end
