(* ===== verification/OZone.thy ===== *)
theory OZone
  imports CLib
begin

text \<open>
  The public part of the store (src/src/ozcore/ozone.h): the constants, the record that
  maps a key to a piece of the value file, and the line format that all tools use for a
  record, written with \<open>"%s\t%llu\t%u\n"\<close> and read with the same string by \<open>fscanf\<close>.
  The main facts are that scanning inverts printing and that scanning consumes its input.
\<close>

definition OZ_KEY_BUF_SIZE :: nat where
  "OZ_KEY_BUF_SIZE = 128"

definition OZ_BUF_SIZE :: nat where
  "OZ_BUF_SIZE = 1024"

definition OZ_KEY_FILENAME :: string where
  "OZ_KEY_FILENAME = ''key.dat''"

definition OZ_VALUE_FILENAME :: string where
  "OZ_VALUE_FILENAME = ''value.dat''"

record OZRecord =
  rkey :: string
  roffset :: u64
  rlength :: u32

definition key_path :: "string \<Rightarrow> string" where
  "key_path dbpath = snprintf_path OZ_BUF_SIZE dbpath OZ_KEY_FILENAME"

definition value_path :: "string \<Rightarrow> string" where
  "value_path dbpath = snprintf_path OZ_BUF_SIZE dbpath OZ_VALUE_FILENAME"

lemma key_path_neq_value_path:
  "length dbpath \<le> 1000 \<Longrightarrow> key_path dbpath \<noteq> value_path dbpath"
  by (simp add: key_path_def value_path_def snprintf_path_full OZ_BUF_SIZE_def
      OZ_KEY_FILENAME_def OZ_VALUE_FILENAME_def)

section \<open>The line of a record\<close>

definition TAB :: string where
  "TAB = [CHR 0x09]"

definition NL :: string where
  "NL = [CHR 0x0A]"

definition print_rec :: "OZRecord \<Rightarrow> string" where
  "print_rec r = rkey r @ TAB @ dec (unat (roffset r)) @ TAB @ dec (unat (rlength r)) @ NL"

definition print_recs :: "OZRecord list \<Rightarrow> string" where
  "print_recs rs = concat (map print_rec rs)"

text \<open>
  What one \<open>fscanf(fp, "%s\t%llu\t%u\n", key, &offset, &length)\<close> returns: \<open>EOF\<close> when no
  key byte is left, else the number of conversions done.  The scan targets that were not
  reached keep their old contents (the argument \<open>old\<close>).  A key of \<open>OZ_KEY_BUF_SIZE\<close> bytes
  or more overruns the buffer it is stored in, which is undefined behaviour.
\<close>

datatype scan_ret = Eof | Items nat

definition scan_rec :: "OZRecord \<Rightarrow> string \<Rightarrow> (scan_ret \<times> OZRecord \<times> string) ub" where
  "scan_rec old s = (let s1 = skip_ws s; tok = takeWhile (\<lambda>c. \<not> isspace c) s1;
       s2 = dropWhile (\<lambda>c. \<not> isspace c) s1
     in if s1 = [] then Some (Eof, old, [])
     else if OZ_KEY_BUF_SIZE \<le> length tok then None
     else let r1 = old\<lparr>rkey := cstr tok\<rparr> in
       case scan_num s2 of
         (None, s3) \<Rightarrow> Some (Items 1, r1, s3)
       | (Some off, s3) \<Rightarrow>
           let r2 = r1\<lparr>roffset := to_ull off\<rparr> in
           (case scan_num s3 of
              (None, s4) \<Rightarrow> Some (Items 2, r2, s4)
            | (Some len, s4) \<Rightarrow> Some (Items 3, r2\<lparr>rlength := to_uint len\<rparr>, skip_ws s4)))"

text \<open>A key that survives the line format: not empty, short enough, no white space, no NUL.\<close>

definition key_ok :: "string \<Rightarrow> bool" where
  "key_ok k \<longleftrightarrow> k \<noteq> [] \<and> length k < OZ_KEY_BUF_SIZE \<and> nul_free k \<and> list_all (\<lambda>c. \<not> isspace c) k"

abbreviation recs_ok :: "OZRecord list \<Rightarrow> bool" where
  "recs_ok \<equiv> list_all (\<lambda>r. key_ok (rkey r))"

lemma isspace_TAB_NL [scan_simps]: "isspace (CHR 0x09)" "isspace (CHR 0x0A)"
  by (simp_all add: isspace_def)

lemma key_ok_nul_free: "key_ok k \<Longrightarrow> nul_free k"
  by (simp add: key_ok_def)

lemma key_ok_dec: "n < 10 ^ 127 \<Longrightarrow> key_ok (dec n)"
  using length_dec_le [of n 127] dec_digits isdigit_not_space
  by (auto simp: key_ok_def OZ_KEY_BUF_SIZE_def list_all_iff)

lemma skip_ws_key: "key_ok k \<Longrightarrow> skip_ws (k @ s) = k @ s"
  by (rule skip_ws_nonspace) (auto simp: key_ok_def neq_Nil_conv)

lemma scan_num_ws: "isspace c \<Longrightarrow> scan_num (c # s) = scan_num s"
  by (metis scan_num_skip_ws skip_ws_simps(2))

lemma not_isdigit_TAB_NL: "\<not> isdigit (CHR 0x09)" "\<not> isdigit (CHR 0x0A)"
  by (simp_all add: isdigit_def)

text \<open>Scanning a printed record gives it back, whatever the targets held before.\<close>

lemma scan_print_rec [scan_simps]:
  assumes "key_ok (rkey r)"
  shows "scan_rec old (print_rec r @ s) = Some (Items 3, r, skip_ws s)"
proof -
  let ?rest = "CHR 0x09 # dec (unat (roffset r)) @ CHR 0x09 # dec (unat (rlength r)) @ CHR 0x0A # s"
  have p: "print_rec r @ s = rkey r @ ?rest"
    by (simp add: print_rec_def TAB_def NL_def)
  have tok: "takeWhile (\<lambda>c. \<not> isspace c) (rkey r @ ?rest) = rkey r"
      "dropWhile (\<lambda>c. \<not> isspace c) (rkey r @ ?rest) = ?rest"
    using assms by (intro takeWhile_append_stop dropWhile_append_stop;
      force simp: key_ok_def list_all_iff isspace_TAB_NL)+
  have n1: "scan_num ?rest = (Some (False, unat (roffset r)),
      CHR 0x09 # dec (unat (rlength r)) @ CHR 0x0A # s)"
    by (simp add: scan_num_ws scan_num_dec isspace_TAB_NL not_isdigit_TAB_NL)
  have n2: "scan_num (CHR 0x09 # dec (unat (rlength r)) @ CHR 0x0A # s) =
      (Some (False, unat (rlength r)), CHR 0x0A # s)"
    by (simp add: scan_num_ws scan_num_dec isspace_TAB_NL not_isdigit_TAB_NL)
  have ws: "skip_ws (rkey r @ ?rest) = rkey r @ ?rest"
    using assms by (rule skip_ws_key)
  show ?thesis
    using assms unfolding p scan_rec_def Let_def ws tok n1 n2 option.case prod.case
    by (simp add: key_ok_def scan_simps)
qed

lemma scan_rec_Nil [scan_simps]: "scan_rec old [] = Some (Eof, old, [])"
  by (simp add: scan_rec_def scan_simps)

lemma scan_rec_skip_ws [simp]: "scan_rec old (skip_ws s) = scan_rec old s"
  by (simp add: scan_rec_def)

lemma skip_ws_print_recs:
  assumes "recs_ok rs"
  shows "skip_ws (print_recs rs) = print_recs rs"
proof (cases rs)
  case Nil
  then show ?thesis by (simp add: print_recs_def scan_simps)
next
  case (Cons r rs')
  with assms show ?thesis
    using skip_ws_key [of "rkey r"] by (simp add: print_recs_def print_rec_def)
qed

lemma print_recs_simps [simp]:
  "print_recs [] = []"
  "print_recs (r # rs) = print_rec r @ print_recs rs"
  "print_recs (rs @ qs) = print_recs rs @ print_recs qs"
  by (simp_all add: print_recs_def)

lemma scan_print_recs_Cons [scan_simps]:
  "recs_ok (r # rs) \<Longrightarrow> scan_rec old (print_recs (r # rs)) = Some (Items 3, r, print_recs rs)"
  by (simp add: scan_print_rec skip_ws_print_recs)

text \<open>
  Whatever \<open>fscanf\<close> returns other than \<open>EOF\<close>, it has consumed at least one byte: this is
  why the reading loops of the tools end.
\<close>

lemma scan_rec_consumes:
  assumes "scan_rec old s = Some (ret, r, t)" and "ret \<noteq> Eof"
  shows "length t < length s"
proof -
  let ?s1 = "skip_ws s"
  let ?s2 = "dropWhile (\<lambda>c. \<not> isspace c) ?s1"
  have s1: "?s1 \<noteq> []"
    using assms by (auto simp: scan_rec_def)
  then have "length ?s2 < length s"
    using length_dropWhile_less [of ?s1 "\<lambda>c. \<not> isspace c"] hd_skip_ws [of s] length_skip_ws [of s]
    by simp
  moreover have "length t \<le> length ?s2"
    using assms s1 length_scan_num [of ?s2] length_scan_num [of "snd (scan_num ?s2)"]
      length_skip_ws
    by (auto simp: scan_rec_def Let_def split: if_splits prod.splits option.splits)
      (meson le_trans)+
  ultimately show ?thesis by simp
qed

lemma scan_rec_Eof: "scan_rec old s = Some (Eof, r, t) \<Longrightarrow> r = old \<and> t = []"
  by (auto simp: scan_rec_def Let_def split: if_splits prod.splits option.splits)

text \<open>
  Every key that is read is a C string without white space that fits its buffer; it is not
  empty unless the token begins with a NUL byte.
\<close>

lemma scan_rec_key:
  assumes "scan_rec old s = Some (ret, r, t)" and "ret \<noteq> Eof"
  shows "nul_free (rkey r)" and "length (rkey r) < OZ_KEY_BUF_SIZE"
    and "list_all (\<lambda>c. \<not> isspace c) (rkey r)"
proof -
  let ?tok = "takeWhile (\<lambda>c. \<not> isspace c) (skip_ws s)"
  have r: "rkey r = cstr ?tok" and l: "length ?tok < OZ_KEY_BUF_SIZE"
    using assms
    by (auto simp: scan_rec_def Let_def split: if_splits prod.splits option.splits)
  show "nul_free (rkey r)"
    by (simp add: r)
  show "length (rkey r) < OZ_KEY_BUF_SIZE"
    using r l length_cstr [of ?tok] by simp
  show "list_all (\<lambda>c. \<not> isspace c) (rkey r)"
    using set_cstr [of ?tok] by (auto simp: r list_all_iff dest: set_takeWhileD)
qed

end
