(* ===== verification/WriteCore.thy ===== *)
theory WriteCore
  imports OZone
begin

text \<open>
  The write side of the store (src/src/ozcore/ozwrite.c): opening the two files of a
  database for appending, appending one key/value pair, closing.

  The calls whose results the code checks can fail: \<open>put_env\<close> says, for one put, whether
  \<open>ftello\<close> succeeds and after how many bytes \<open>fwrite\<close> and \<open>fprintf\<close> fail, if they do.  A
  stream reaches its file when it is flushed.
\<close>

record OZWrite =
  wkey :: "ostream ptr"
  wval :: "ostream ptr"

record put_env =
  tell_ok :: bool
  value_fault :: "nat option"
  key_fault :: "nat option"

definition no_faults :: put_env where
  "no_faults = \<lparr>tell_ok = True, value_fault = None, key_fault = None\<rparr>"

definition ozwrite_open :: "world \<Rightarrow> OZWrite option \<Rightarrow> string \<Rightarrow> nat \<times> OZWrite option \<times> world" where
  "ozwrite_open w handle dbpath = (case handle of
     None \<Rightarrow> (1, None, w)
   | Some h \<Rightarrow>
       let w0 = mkdir w dbpath in
       (case fopen_a w0 (key_path dbpath) of
          None \<Rightarrow> (2, Some (h\<lparr>wkey := Null\<rparr>), w0)
        | Some (fk, w1) \<Rightarrow>
            (case fopen_a w1 (value_path dbpath) of
               None \<Rightarrow> (3, Some (h\<lparr>wkey := Ptr fk, wval := Null\<rparr>), w1)
             | Some (fv, w2) \<Rightarrow> (0, Some (h\<lparr>wkey := Ptr fk, wval := Ptr fv\<rparr>), w2))))"

text \<open>The key line: \<open>"%s\t%lld\t%u\n"\<close> with the offset and the 32-bit length.\<close>

definition key_line :: "string \<Rightarrow> nat \<Rightarrow> u32 \<Rightarrow> string" where
  "key_line key off len = key @ TAB @ dec off @ TAB @ dec (unat len) @ NL"

text \<open>
  One put.  The length is cut to 32 bits first; the value is written before the key is
  checked, so a put with an empty key leaves the value bytes in the file.  The key stream
  is flushed before the value stream.  Reading past the end of the value is undefined.
\<close>

definition ozwrite_put :: "put_env \<Rightarrow> world \<Rightarrow> OZWrite option \<Rightarrow> string \<Rightarrow> string \<Rightarrow> int
    \<Rightarrow> (nat \<times> OZWrite option \<times> world) ub" where
  "ozwrite_put env w handle key val length_arg = (case handle of
     None \<Rightarrow> Some (1, None, w)
   | Some h \<Rightarrow>
       let len = (of_int length_arg :: u32) in
       if unat len < 1 then Some (5, Some h, w)
       else do {
         fv \<leftarrow> deref (wval h);
         let off = ftello fv;
         if \<not> tell_ok env then Some (4, Some h, w)
         else if length val < unat len then None
         else (case value_fault env of
           Some k \<Rightarrow> Some (3, Some (h\<lparr>wval := Ptr (stream_put fv (take (min k (unat len)) val))\<rparr>), w)
         | None \<Rightarrow>
             let fv1 = stream_put fv (take (unat len) val); h1 = h\<lparr>wval := Ptr fv1\<rparr> in
             if length (cstr key) < 1 then Some (6, Some h1, w)
             else do {
               fk \<leftarrow> deref (wkey h);
               let line = key_line (cstr key) off len;
               (case key_fault env of
                  Some k \<Rightarrow> Some (2, Some (h1\<lparr>wkey := Ptr (stream_put fk (take k line))\<rparr>), w)
                | None \<Rightarrow>
                    (let (fk2, w1) = fflush w (stream_put fk line);
                         (fv2, w2) = fflush w1 fv1
                     in Some (0, Some \<lparr>wkey = Ptr fk2, wval = Ptr fv2\<rparr>, w2)))
             })
       })"

text \<open>Closing flushes and closes the open streams; the pointers dangle afterwards.\<close>

definition close_stream :: "world \<Rightarrow> ostream ptr \<Rightarrow> (ostream ptr \<times> world) ub" where
  "close_stream w f = do {
     b \<leftarrow> nonnull f;
     if b then do {
       s \<leftarrow> deref f;
       Some (Freed, snd (fflush w s))
     } else Some (f, w)
   }"

definition ozwrite_close :: "world \<Rightarrow> OZWrite option \<Rightarrow> (OZWrite \<times> world) ub" where
  "ozwrite_close w handle = do {
     h \<leftarrow> handle;
     (fk, w1) \<leftarrow> close_stream w (wkey h);
     (fv, w2) \<leftarrow> close_stream w1 (wval h);
     Some (\<lparr>wkey = fk, wval = fv\<rparr>, w2)
   }"

end
