(* ===== verification/SortTool.thy ===== *)
theory SortTool
  imports OZone
begin

text \<open>
  The external sort \<open>OZoneSort\<close> (src/src/ozsort): it splits a key file into sorted chunk
  files, merges these with one record of look-ahead per chunk, keeps for each key the
  record with the largest offset, and prints the number of lines and the lines.

  A \<open>FILE*\<close> that is read is the text not yet read.  Times are the results of the two
  \<open>time(NULL)\<close> calls, which only name the temporary files.
\<close>

section \<open>Data\<close>

definition OZSORT_PER_LINE :: nat where
  "OZSORT_PER_LINE = 204800"

definition OZSORT_MAX_SPLITS :: nat where
  "OZSORT_MAX_SPLITS = 100"

text \<open>
  The parameter bundle: \<open>splits\<close> is the used part of the array \<open>_splits\<close>, so \<open>_nsplits\<close>
  is its length.
\<close>

record OZSort =
  src :: string
  splits :: "string list"
  merge :: string
  mlines :: nat

text \<open>One split file during the merge: \<open>datas[i]\<close>, \<open>flags[i]\<close> and \<open>fps[i]\<close>.\<close>

record chan =
  cdata :: OZRecord
  cflag :: bool
  cin :: string

definition zero_rec :: OZRecord where
  "zero_rec = \<lparr>rkey = [], roffset = 0, rlength = 0\<rparr>"

definition cmp_oz_record :: "OZRecord \<Rightarrow> OZRecord \<Rightarrow> int" where
  "cmp_oz_record x y = strcmp (rkey x) (rkey y)"

text \<open>The names of the temporary files; \<open>%d\<close> prints the low 32 bits of the time.\<close>

definition split_base :: "int \<Rightarrow> string" where
  "split_base now = ''/tmp/ozsort_'' @ dec_int (sint (of_int now :: u32)) @ ''_''"

definition merge_path :: "int \<Rightarrow> string" where
  "merge_path now = ''/tmp/ozsort_merge_'' @ dec_int (sint (of_int now :: u32))"

section \<open>Splitting\<close>

text \<open>
  The \<open>for\<close> loop that reads one chunk: at most \<open>per_line\<close> calls of \<open>fscanf\<close>; only a call
  that converts all three items fills a slot of \<open>buffer\<close>; \<open>EOF\<close> ends the loop.  The result
  is the last return value, the filled slots and the text not yet read.
\<close>

function read_chunk :: "nat \<Rightarrow> nat \<Rightarrow> scan_ret \<Rightarrow> OZRecord list \<Rightarrow> string
    \<Rightarrow> (scan_ret \<times> OZRecord list \<times> string) ub" where
  "read_chunk per_line i ret buf s =
     (if per_line \<le> i then Some (ret, buf, s)
      else case scan_rec zero_rec s of
        None \<Rightarrow> None
      | Some (ret', r, s') \<Rightarrow>
          let buf' = (if ret' = Items 3 then buf @ [r] else buf) in
          if ret' = Eof then Some (ret', buf', s')
          else read_chunk per_line (i + 1) ret' buf' s')"
  by pat_completeness auto
termination
  by (relation "measure (\<lambda>(n, i, _). n - i)") auto

declare read_chunk.simps [simp del]

text \<open>
  The outer loop: read a chunk, give up with 3 when all split files are used, create the
  next split file, sort the chunk and write it; the chunk that met \<open>EOF\<close> is the last.
\<close>

function split_loop :: "nat \<Rightarrow> nat \<Rightarrow> string \<Rightarrow> string list \<Rightarrow> world \<Rightarrow> string
    \<Rightarrow> (nat \<times> string list \<times> world) ub" where
  "split_loop per_line max_splits base names w s =
     (case read_chunk per_line 0 (Items 0) [] s of
        None \<Rightarrow> None
      | Some (ret, buf, s') \<Rightarrow>
          if max_splits \<le> length names then Some (3, names, w)
          else let name = base @ dec (length names) in
            case fopen_w w name of
              None \<Rightarrow> Some (2, names, w)
            | Some w1 \<Rightarrow>
                let w2 = write_file w1 name (print_recs (qsort cmp_oz_record buf)) in
                if ret = Eof then Some (0, names @ [name], w2)
                else split_loop per_line max_splits base (names @ [name]) w2 s')"
  by pat_completeness auto
termination
  by (relation "measure (\<lambda>(n, m, b, names, _). m - length names)") auto

declare split_loop.simps [simp del]

definition ozsort_split :: "int \<Rightarrow> OZSort \<Rightarrow> world \<Rightarrow> (nat \<times> OZSort \<times> world) ub" where
  "ozsort_split now p w = (case fopen_r w (src p) of
     None \<Rightarrow> Some (1, p, w)
   | Some s \<Rightarrow>
       (case split_loop OZSORT_PER_LINE OZSORT_MAX_SPLITS (split_base now) [] w s of
          None \<Rightarrow> None
        | Some (ret, names, w') \<Rightarrow> Some (ret, p\<lparr>splits := names, mlines := 0\<rparr>, w')))"

section \<open>Merging\<close>

fun open_splits :: "world \<Rightarrow> string list \<Rightarrow> string list option" where
  "open_splits w [] = Some []"
| "open_splits w (n # ns) = (case fopen_r w n of
     None \<Rightarrow> None
   | Some s \<Rightarrow> map_option ((#) s) (open_splits w ns))"

text \<open>Reading the next record of a channel; at \<open>EOF\<close> the channel is switched off.\<close>

definition read_chan :: "OZRecord \<Rightarrow> string \<Rightarrow> chan ub" where
  "read_chan old s = (case scan_rec old s of
     None \<Rightarrow> None
   | Some (ret, r, t) \<Rightarrow> Some (if ret \<noteq> Eof then \<lparr>cdata = r, cflag = True, cin = t\<rparr>
                              else \<lparr>cdata = old, cflag = False, cin = t\<rparr>))"

fun first_reads :: "string list \<Rightarrow> chan list ub" where
  "first_reads [] = Some []"
| "first_reads (s # ss) = (case read_chan zero_rec s of
     None \<Rightarrow> None
   | Some c \<Rightarrow> map_option ((#) c) (first_reads ss))"

text \<open>
  The selection of the smallest head: \<open>key\<close> starts as \<open>"~"\<close>, and a channel is taken when
  it is on and its key is strictly smaller than the smallest one so far.
\<close>

fun select_from :: "nat \<Rightarrow> chan list \<Rightarrow> string \<Rightarrow> nat option \<Rightarrow> nat option" where
  "select_from i [] key m = m"
| "select_from i (c # cs) key m =
     (if cflag c \<and> strcmp (rkey (cdata c)) key < 0
      then select_from (i + 1) cs (rkey (cdata c)) (Some i)
      else select_from (i + 1) cs key m)"

definition select_min :: "chan list \<Rightarrow> nat option" where
  "select_min cs = select_from 0 cs ''~'' None"

text \<open>
  The last output line prints \<open>prev\<close> even when no record was selected: \<open>prev._key\<close> is then
  a null pointer, which the C library prints as \<open>(null)\<close>.
\<close>

definition print_prev :: "OZRecord option \<Rightarrow> string" where
  "print_prev prev = (case prev of
     None \<Rightarrow> ''(null)'' @ TAB @ ''0'' @ TAB @ ''0'' @ NL
   | Some p \<Rightarrow> print_rec p)"

definition chan_size :: "chan \<Rightarrow> nat" where
  "chan_size c = length (cin c) + (if cflag c then 1 else 0)"

lemma select_from_on:
  "select_from n cs key m = Some i \<Longrightarrow>
     m = Some i \<or> (\<exists>j < length cs. i = n + j \<and> cflag (cs ! j))"
proof (induction n cs key m rule: select_from.induct)
  case (2 n c cs key m)
  show ?case
  proof (cases "cflag c \<and> strcmp (rkey (cdata c)) key < 0")
    case True
    with 2 have "i = n \<or> (\<exists>j < length cs. i = n + 1 + j \<and> cflag (cs ! j))"
      by auto
    with True show ?thesis
      by (metis Suc_eq_plus1 Suc_mono add.assoc add.commute add_0_right length_Cons nth_Cons_0
          nth_Cons_Suc zero_less_Suc)
  next
    case False
    with 2 have "m = Some i \<or> (\<exists>j < length cs. i = n + 1 + j \<and> cflag (cs ! j))"
      by auto
    then show ?thesis
      by (metis Suc_eq_plus1 Suc_mono add.assoc add.commute length_Cons nth_Cons_Suc)
  qed
qed auto

lemma select_min_on: "select_min cs = Some i \<Longrightarrow> i < length cs \<and> cflag (cs ! i)"
  using select_from_on [of 0 cs "''~''" None i] by (auto simp: select_min_def)

lemma read_chan_size:
  "read_chan old s = Some c \<Longrightarrow> chan_size c \<le> length s"
  using scan_rec_consumes [of old s] scan_rec_Eof [of old s]
  by (fastforce simp: read_chan_def chan_size_def split: option.splits prod.splits if_splits)

lemma sum_list_update_less:
  "i < length xs \<Longrightarrow> f y < f (xs ! i) \<Longrightarrow>
     sum_list (map f (xs[i := y])) < (sum_list (map f xs) :: nat)"
  by (induction xs arbitrary: i) (auto split: nat.splits)

text \<open>
  One selected record \<open>d\<close>: the first one becomes \<open>prev\<close>; a record with the key of \<open>prev\<close>
  replaces its offset and length unless its offset is smaller; a record with another key
  makes \<open>prev\<close> an output line.
\<close>

definition merge_record :: "OZRecord option \<Rightarrow> OZRecord \<Rightarrow> string \<Rightarrow> nat \<Rightarrow> OZRecord \<times> string \<times> nat" where
  "merge_record prev d out ml =
     (let p = (case prev of None \<Rightarrow> d | Some q \<Rightarrow> q) in
      if strcmp (rkey p) (rkey d) = 0
      then (if roffset p \<le> roffset d
            then (p\<lparr>roffset := roffset d, rlength := rlength d\<rparr>, out, ml)
            else (p, out, ml))
      else (d, out @ print_rec p, ml + 1))"

function merge_loop :: "chan list \<Rightarrow> OZRecord option \<Rightarrow> string \<Rightarrow> nat \<Rightarrow> (string \<times> nat) ub" where
  "merge_loop cs prev out ml =
     (case select_min cs of
        None \<Rightarrow> Some (out @ print_prev prev, ml + 1)
      | Some i \<Rightarrow>
          (case merge_record prev (cdata (cs ! i)) out ml of
             (p, out', ml') \<Rightarrow>
               (case read_chan (cdata (cs ! i)) (cin (cs ! i)) of
                  None \<Rightarrow> None
                | Some c \<Rightarrow> merge_loop (cs[i := c]) (Some p) out' ml')))"
  by pat_completeness auto
termination
proof (relation "measure (\<lambda>(cs, _). \<Sum>c\<leftarrow>cs. chan_size c)", goal_cases)
  case (2 cs prev out ml i p out_ml out' ml' c)
  then have "chan_size c < chan_size (cs ! i)"
    using read_chan_size [of "cdata (cs ! i)" "cin (cs ! i)" c] select_min_on [of cs i]
    by (auto simp: chan_size_def)
  then show ?case
    using select_min_on [of cs i] 2 by (auto intro: sum_list_update_less)
qed simp

declare merge_loop.simps [simp del]

definition ozsort_merge :: "int \<Rightarrow> OZSort \<Rightarrow> world \<Rightarrow> (nat \<times> OZSort \<times> world) ub" where
  "ozsort_merge now p w = (case open_splits w (splits p) of
     None \<Rightarrow> Some (1, p, w)
   | Some ss \<Rightarrow>
       let q = p\<lparr>merge := merge_path now\<rparr> in
       (case fopen_w w (merge q) of
          None \<Rightarrow> Some (2, q, w)
        | Some w1 \<Rightarrow>
            (case first_reads ss of
               None \<Rightarrow> None
             | Some cs \<Rightarrow>
                 (case merge_loop cs None [] (mlines q) of
                    None \<Rightarrow> None
                  | Some (out, ml) \<Rightarrow>
                      Some (0, q\<lparr>mlines := ml\<rparr>,
                            foldl unlink (write_file w1 (merge q) out) (splits q))))))"

section \<open>The tool\<close>

definition ozsort_work :: "int \<Rightarrow> int \<Rightarrow> OZSort \<Rightarrow> world \<Rightarrow> (nat \<times> OZSort \<times> world) ub" where
  "ozsort_work now1 now2 p w = do {
     (r1, p1, w1) \<leftarrow> ozsort_split now1 p w;
     if r1 \<noteq> 0 then Some (1, p1, w1)
     else do {
       (r2, p2, w2) \<leftarrow> ozsort_merge now2 p1 w1;
       Some (if r2 \<noteq> 0 then 2 else 0, p2, w2)
     }
   }"

text \<open>
  \<open>main\<close>: exit code, standard output, files.  The copy loop keeps \<open>fgetc\<close>'s result in a
  \<open>char\<close>, so it stops at a byte \<open>0xFF\<close> as at the end of the file.  \<open>strncpy\<close> leaves an
  argument of \<open>OZ_BUF_SIZE\<close> bytes or more unterminated.
\<close>

definition copy_stdout :: "string \<Rightarrow> string" where
  "copy_stdout c = takeWhile (\<lambda>x. x \<noteq> CHR 0xFF) c"

definition ozsort_main :: "int \<Rightarrow> int \<Rightarrow> string list \<Rightarrow> world \<Rightarrow> (int \<times> string \<times> world) ub" where
  "ozsort_main now1 now2 argv w =
     (if length argv \<noteq> 2
      then Some (- 1, ''Usage:'' @ NL @ (case argv of [] \<Rightarrow> ''(null)'' | a # _ \<Rightarrow> a)
                   @ ''  keyfile(key.dat)'' @ NL, w)
      else if OZ_BUF_SIZE \<le> length (argv ! 1) then None
      else do {
        (ret, p, w1) \<leftarrow> ozsort_work now1 now2
           \<lparr>src = argv ! 1, splits = [], merge = [], mlines = 0\<rparr> w;
        Some (if ret = 0
          then (case fopen_r w1 (merge p) of
                  None \<Rightarrow> (- 1, dec (mlines p) @ NL, w1)
                | Some c \<Rightarrow> (0, dec (mlines p) @ NL @ copy_stdout c, unlink w1 (merge p)))
          else (2, ''0'' @ NL, w1))
      })"

section \<open>Counting lines\<close>

text \<open>
  \<open>fgets(buf, n, fp)\<close> reads up to \<open>n - 1\<close> bytes, and stops after a newline.  The function
  echoes every piece, as a C string with a newline after it, and counts the pieces.
\<close>

definition fgets_piece :: "nat \<Rightarrow> string \<Rightarrow> string" where
  "fgets_piece n s = (let t = take (n - 1) s; l = takeWhile (\<lambda>c. c \<noteq> CHR 0x0A) t in
     if length l < length t then l @ NL else l)"

lemma fgets_piece_pos: "1 < n \<Longrightarrow> s \<noteq> [] \<Longrightarrow> 0 < length (fgets_piece n s)"
  by (cases s; cases "n - 1") (auto simp: fgets_piece_def NL_def Let_def)

lemma fgets_piece_shrinks: "s \<noteq> [] \<Longrightarrow> length s - length (fgets_piece 4096 s) < length s"
  using fgets_piece_pos [of 4096 s] by (intro diff_less) simp_all

function lines_loop :: "string \<Rightarrow> string \<Rightarrow> nat \<Rightarrow> nat \<times> string" where
  "lines_loop s out cnt =
     (if s = [] then (cnt, out)
      else let l = fgets_piece 4096 s in
        lines_loop (drop (length l) s) (out @ cstr l @ NL) (cnt + 1))"
  by pat_completeness auto
termination
  by (relation "measure (\<lambda>(s, _). length s)") (auto simp: Let_def fgets_piece_shrinks)

declare lines_loop.simps [simp del]

definition ozsort_lines :: "world \<Rightarrow> string \<Rightarrow> nat \<times> string" where
  "ozsort_lines w path = (case fopen_r w path of
     None \<Rightarrow> (0, [])
   | Some s \<Rightarrow> lines_loop s [] 0)"

lemma fgets_piece_line:
  "CHR 0x0A \<notin> set l \<Longrightarrow> length l + 1 < n \<Longrightarrow> fgets_piece n (l @ NL @ s) = l @ NL"
proof -
  assume l: "CHR 0x0A \<notin> set l" and n: "length l + 1 < n"
  have t: "take (n - 1) (l @ NL @ s) = l @ NL @ take (n - 2 - length l) s"
    using n by (simp add: NL_def take_Cons' numeral_2_eq_2)
  have "takeWhile (\<lambda>c. c \<noteq> CHR 0x0A) (l @ NL @ u) = l" for u
    using l by (intro takeWhile_append_stop) (auto simp: NL_def)
  then show ?thesis
    by (simp only: fgets_piece_def t Let_def) (simp add: NL_def)
qed

text \<open>For lines that fit the buffer it is the number of lines.\<close>

lemma lines_loop_count:
  "\<forall>l \<in> set ls. CHR 0x0A \<notin> set l \<and> length l < 4095 \<Longrightarrow>
     fst (lines_loop (concat (map (\<lambda>l. l @ NL) ls)) out cnt) = cnt + length ls"
proof (induction ls arbitrary: out cnt)
  case Nil
  then show ?case by (simp add: lines_loop.simps)
next
  case (Cons l ls)
  let ?s = "concat (map (\<lambda>l. l @ NL) ls)"
  have "fgets_piece 4096 (l @ NL @ ?s) = l @ NL"
    using Cons.prems by (intro fgets_piece_line) auto
  then have "lines_loop (l @ NL @ ?s) out cnt = lines_loop ?s (out @ cstr (l @ NL) @ NL) (cnt + 1)"
    by (subst lines_loop.simps) (simp add: NL_def Let_def)
  then show ?case
    using Cons by simp
qed

end
