(* ===== verification/ReadCore.thy ===== *)
theory ReadCore
  imports SortTool
begin

text \<open>
  The read side of the store (src/src/ozcore/ozread.c): opening a database by running the
  external sort on the key file, binary search in the table, reading one value, and the
  batch read that visits the value file in offset order.

  Memory is modelled where the code depends on it, with the pointers of \<open>OZPrelude\<close>.  A heap buffer is its size with the bytes written so
  far.  \<open>alloc i n\<close> tells whether the \<open>i\<close>-th checked \<open>malloc\<close> of an operation, for \<open>n\<close>
  bytes, succeeds; a \<open>malloc\<close> whose result the code does not check is taken to succeed.
\<close>

type_synonym buffer = "nat \<times> string"

type_synonym alloc = "nat \<Rightarrow> nat \<Rightarrow> bool"

text \<open>The C string in a buffer; without a NUL among the written bytes it cannot be read.\<close>

definition buffer_cstr :: "buffer \<Rightarrow> string ub" where
  "buffer_cstr b = (if CHR 0x00 \<in> set (snd b) then Some (cstr (snd b)) else None)"

section \<open>The handle and opening\<close>

text \<open>
  \<open>recs\<close> is the allocated array with its entries (\<open>Uninit\<close> until filled), \<open>fpval\<close> the open
  value file, represented by its path.
\<close>

record OZRead =
  recs :: "OZRecord ptr list ptr"
  nrecs :: int
  fpval :: "string ptr"

definition null_handle :: OZRead where
  "null_handle = \<lparr>recs = Null, nrecs = 0, fpval = Null\<rparr>"

text \<open>
  The loop that fills the table; the scan targets keep the values of the previous line when
  a line converts fewer than three items.  A line beyond the allocated size overruns it.
\<close>

function fill_table :: "OZRecord \<Rightarrow> string \<Rightarrow> nat \<Rightarrow> OZRecord ptr list \<Rightarrow> OZRecord ptr list ub" where
  "fill_table old s cnt tab = (case scan_rec old s of
     None \<Rightarrow> None
   | Some (ret, r, s') \<Rightarrow>
       if ret = Eof then Some tab
       else if length tab \<le> cnt then None
       else fill_table r s' (cnt + 1) (tab[cnt := Ptr r]))"
  by pat_completeness auto
termination
  by (relation "measure (\<lambda>(old, s, _). length s)") (auto dest: scan_rec_consumes)

declare fill_table.simps [simp del]

text \<open>
  \<open>popen\<close> belongs to the shell and is a parameter: it maps the command to the text that
  can be read from the pipe and the files afterwards, or fails.  \<open>uninit\<close> stands for the
  indeterminate initial values of the local scan targets.
\<close>

type_synonym popen_fun = "string \<Rightarrow> world \<Rightarrow> (string \<times> world) option"

definition sort_command :: "string \<Rightarrow> string" where
  "sort_command dbpath = take (OZ_BUF_SIZE - 1) (''./OZoneSort '' @ dbpath @ ''/'' @ OZ_KEY_FILENAME)"

definition ozread_open_kf :: "popen_fun \<Rightarrow> OZRecord \<Rightarrow> world \<Rightarrow> string \<Rightarrow> (nat \<times> OZRead \<times> world) ub" where
  "ozread_open_kf popen uninit w dbpath = (case popen (sort_command dbpath) w of
     None \<Rightarrow> Some (1, null_handle, w)
   | Some (out, w') \<Rightarrow>
       (case scan_num out of
          (None, _) \<Rightarrow> Some (2, null_handle, w')
        | (Some v, rest) \<Rightarrow>
            let n = to_long v; h = null_handle\<lparr>nrecs := n\<rparr> in
            if n = 0 then Some (2, h, w')
            else (case fill_table uninit rest 0 (replicate (nat n) Uninit) of
                    None \<Rightarrow> None
                  | Some tab \<Rightarrow> Some (0, h\<lparr>recs := (if n < 0 then Null else Ptr tab)\<rparr>, w'))))"

definition ozread_open_vf :: "world \<Rightarrow> OZRead \<Rightarrow> string \<Rightarrow> nat \<times> OZRead" where
  "ozread_open_vf w h dbpath = (case fopen_r w (value_path dbpath) of
     None \<Rightarrow> (1, h\<lparr>fpval := Null\<rparr>)
   | Some c \<Rightarrow> (0, h\<lparr>fpval := Ptr (value_path dbpath)\<rparr>))"

definition ozread_open :: "popen_fun \<Rightarrow> OZRecord \<Rightarrow> world \<Rightarrow> string \<Rightarrow> (nat \<times> OZRead \<times> world) ub" where
  "ozread_open popen uninit w dbpath = do {
     (ret_kf, h, w') \<leftarrow> ozread_open_kf popen uninit w dbpath;
     if ret_kf \<noteq> 0 then Some (ret_kf, h, w')
     else (let (ret, h') = ozread_open_vf w' h dbpath in Some (ret, h', w'))
   }"

text \<open>
  Closing frees the keys and the table and closes the file; the pointers keep their old
  values, so they are dangling afterwards.
\<close>

definition ozread_close :: "OZRead option \<Rightarrow> OZRead option ub" where
  "ozread_close handle = (case handle of
     None \<Rightarrow> Some None
   | Some h \<Rightarrow> do {
       b \<leftarrow> nonnull (recs h);
       recs' \<leftarrow> (if b then do {
           tab \<leftarrow> deref (recs h);
           if nat (nrecs h) \<le> length tab \<and> list_all (\<lambda>r. free_ok r = Some ()) (take (nat (nrecs h)) tab)
           then Some Freed else None
         } else Some Null);
       f \<leftarrow> nonnull (fpval h);
       Some (Some (h\<lparr>recs := recs', nrecs := 0, fpval := (if f then Freed else Null)\<rparr>))
     })"

section \<open>Binary search\<close>

definition rec_at :: "OZRead \<Rightarrow> int \<Rightarrow> OZRecord ub" where
  "rec_at h i = do {
     tab \<leftarrow> deref (recs h);
     if 0 \<le> i \<and> i < int (length tab) then deref (tab ! nat i) else None
   }"

text \<open>\<open>strcmp(handle->_recs[mid]._key, key)\<close>; both pointers must be valid.\<close>

definition compare_at :: "OZRead \<Rightarrow> string ptr \<Rightarrow> int \<Rightarrow> (int \<times> OZRecord) ub" where
  "compare_at h key i = do {
     r \<leftarrow> rec_at h i;
     k \<leftarrow> deref key;
     Some (strcmp (rkey r) k, r)
   }"

function search :: "OZRead \<Rightarrow> string ptr \<Rightarrow> int \<Rightarrow> int \<Rightarrow> (nat \<times> OZRecord option) ub" where
  "search h key low high =
     (if low \<le> high
      then let mid = (low + high) div 2 in
        (case compare_at h key mid of
           None \<Rightarrow> None
         | Some (val, r) \<Rightarrow>
             if val = 0 then Some (0, Some r)
             else if val > 0 then search h key low (mid - 1)
             else search h key (mid + 1) high)
      else Some (1, None))"
  by pat_completeness auto
termination
  by (relation "measure (\<lambda>(h, key, low, high). nat (high - low + 1))") auto

declare search.simps [simp del]

definition ozread_get_key :: "OZRead \<Rightarrow> string ptr \<Rightarrow> (nat \<times> OZRecord option) ub" where
  "ozread_get_key h key = search h key 0 (nrecs h - 1)"

section \<open>Reading one value\<close>

record OZRead_Get =
  gkey :: "string ptr"
  gvalue :: "buffer ptr"
  glen :: u32

text \<open>\<open>fread\<close> into a buffer, and storing a NUL byte at an index.\<close>

definition buffer_read :: "buffer \<Rightarrow> string \<Rightarrow> buffer ub" where
  "buffer_read b bs = (if length bs \<le> fst b then Some (fst b, bs @ drop (length bs) (snd b)) else None)"

definition buffer_nul :: "buffer \<Rightarrow> nat \<Rightarrow> buffer ub" where
  "buffer_nul b i = (if i < fst b \<and> i \<le> length (snd b)
     then Some (fst b, take i (snd b) @ CHR 0x00 # drop (Suc i) (snd b)) else None)"

definition ozread_get_value :: "world \<Rightarrow> OZRead \<Rightarrow> OZRecord \<Rightarrow> buffer \<Rightarrow> (nat \<times> buffer) ub" where
  "ozread_get_value w h r buf = do {
     path \<leftarrow> deref (fpval h);
     if \<not> fseeko_ok (roffset r) then Some (2, buf)
     else do {
       let pos = unat (roffset r);
       let n = unat (rlength r);
       let c = content w path;
       buf1 \<leftarrow> buffer_read buf (fread_bytes c pos n);
       if fread_ret c pos n \<noteq> 1 then Some (3, buf1)
       else do {
         buf2 \<leftarrow> buffer_nul buf1 n;
         Some (0, buf2)
       }
     }
   }"

text \<open>The buffer for a value has \<open>_length + 1\<close> bytes, computed in 32 bits.\<close>

definition value_bufsize :: "u32 \<Rightarrow> nat" where
  "value_bufsize len = unat (len + 1)"

definition ozread_get :: "alloc \<Rightarrow> world \<Rightarrow> OZRead option \<Rightarrow> OZRead_Get option
    \<Rightarrow> (nat \<times> OZRead_Get option) ub" where
  "ozread_get alloc w handle param = (case handle of
     None \<Rightarrow> Some (1, param)
   | Some h \<Rightarrow>
       (case param of
          None \<Rightarrow> Some (2, None)
        | Some p \<Rightarrow> do {
            (nf, rec) \<leftarrow> ozread_get_key h (gkey p);
            if nf \<noteq> 0 then Some (3, Some p)
            else do {
              r \<leftarrow> rec;
              let n = value_bufsize (rlength r);
              if \<not> alloc 0 n then Some (5, Some (p\<lparr>gvalue := Null, glen := rlength r\<rparr>))
              else do {
                (ret, buf) \<leftarrow> ozread_get_value w h r (n, []);
                Some (if ret \<noteq> 0 then 4 else 0, Some (p\<lparr>gvalue := Ptr buf, glen := rlength r\<rparr>))
              }
            }
          }))"

definition ozread_get_free :: "OZRead_Get \<Rightarrow> OZRead_Get ub" where
  "ozread_get_free p = do {
     b \<leftarrow> nonnull (gvalue p);
     Some (p\<lparr>gkey := Null, gvalue := Null\<rparr>)
   }"

section \<open>The batch read\<close>

text \<open>
  \<open>cookies\<close> is the part of the cookie array in use (\<open>_ncookies\<close> entries); its allocated
  size is \<open>cookie_cap\<close>.
\<close>

record OZRead_Cookie =
  coffset :: u64
  clength :: u32
  cindex :: nat

record OZRead_Gets =
  skeys :: "string ptr list ptr"
  nkeys :: nat
  svalues :: "buffer ptr list ptr"
  cookie_cap :: "nat ptr"
  cookies :: "OZRead_Cookie list"

text \<open>
  Allocation of the parameter bundle for \<open>n\<close> keys.  The keys array is allocated twice (the
  first block is lost), and only the first result is checked.  \<open>alloc\<close> numbers the checked
  calls 0, 1, 2.
\<close>

definition ozread_gets_init :: "alloc \<Rightarrow> OZRead_Gets \<Rightarrow> nat \<Rightarrow> nat \<times> OZRead_Gets" where
  "ozread_gets_init alloc p n =
     (let p1 = p\<lparr>nkeys := n\<rparr> in
      if \<not> alloc 0 (8 * n) then (1, p1\<lparr>skeys := Null\<rparr>)
      else let p2 = p1\<lparr>skeys := Ptr (replicate n Uninit)\<rparr> in
      if \<not> alloc 1 (8 * n) then (1, p2\<lparr>svalues := Null\<rparr>)
      else let p3 = p2\<lparr>svalues := Ptr (replicate n Null)\<rparr> in
      if \<not> alloc 2 (24 * n) then (1, p3\<lparr>cookie_cap := Null\<rparr>)
      else (0, p3\<lparr>cookie_cap := Ptr n\<rparr>))"

definition ozread_gets_free :: "OZRead_Gets \<Rightarrow> OZRead_Gets ub" where
  "ozread_gets_free p = do {
     free_ok (skeys p);
     vs \<leftarrow> (if nkeys p = 0 then Some [] else deref (svalues p));
     (if nkeys p \<le> length vs \<and> list_all (\<lambda>v. free_ok v = Some ()) (take (nkeys p) vs)
      then Some () else None);
     free_ok (svalues p);
     free_ok (cookie_cap p);
     Some (p\<lparr>skeys := Null, svalues := Null, cookie_cap := Null, nkeys := 0\<rparr>)
   }"

definition cmp_ozread_gets_keys :: "OZRead_Cookie \<Rightarrow> OZRead_Cookie \<Rightarrow> int" where
  "cmp_ozread_gets_keys a b =
     (let x = sint (coffset a); y = sint (coffset b) in
      if x > y then 1 else if x < y then - 1 else 0)"

text \<open>The loop over the keys: null keys and keys that are not found get no cookie.\<close>

fun find_cookies :: "OZRead \<Rightarrow> nat \<Rightarrow> string ptr list \<Rightarrow> OZRead_Cookie list ub" where
  "find_cookies h i [] = Some []"
| "find_cookies h i (k # ks) = do {
     b \<leftarrow> nonnull k;
     c \<leftarrow> (if b then do {
              (nf, rec) \<leftarrow> ozread_get_key h k;
              if nf = 0 then do {
                r \<leftarrow> rec;
                Some [\<lparr>coffset = roffset r, clength = rlength r, cindex = i\<rparr>]
              } else Some []
            } else Some []);
     cs \<leftarrow> find_cookies h (i + 1) ks;
     Some (c @ cs)
   }"

definition ozread_gets_keys :: "OZRead \<Rightarrow> OZRead_Gets \<Rightarrow> (nat \<times> OZRead_Gets) ub" where
  "ozread_gets_keys h p = do {
     ks \<leftarrow> (if nkeys p = 0 then Some [] else deref (skeys p));
     if length ks < nkeys p then None else do {
       cs \<leftarrow> find_cookies h 0 (take (nkeys p) ks);
       cap \<leftarrow> (if cs = [] then Some 0 else deref (cookie_cap p));
       if cap < length cs then None
       else Some (0, p\<lparr>cookies := qsort cmp_ozread_gets_keys cs\<rparr>)
     }
   }"

text \<open>The buffers for the values, in cookie order; the first failure ends the request.\<close>

fun alloc_values :: "alloc \<Rightarrow> nat \<Rightarrow> OZRead_Cookie list \<Rightarrow> buffer ptr list \<Rightarrow> (nat \<times> buffer ptr list) ub" where
  "alloc_values alloc i [] vs = Some (0, vs)"
| "alloc_values alloc i (c # cs) vs =
     (if length vs \<le> cindex c then None
      else if \<not> alloc i (value_bufsize (clength c)) then Some (1, vs[cindex c := Null])
      else alloc_values alloc (i + 1) cs (vs[cindex c := Ptr (value_bufsize (clength c), [])]))"

text \<open>
  Reading the values: a failed seek leaves the buffer as it is, a missing buffer is skipped,
  and a short read turns the value into the empty string.
\<close>

definition read_cookie :: "string \<Rightarrow> OZRead_Cookie \<Rightarrow> buffer ptr list \<Rightarrow> buffer ptr list ub" where
  "read_cookie c pc vs =
     (if \<not> fseeko_ok (coffset pc) then Some vs
      else if length vs \<le> cindex pc then None
      else do {
        b \<leftarrow> nonnull (vs ! cindex pc);
        if \<not> b then Some vs
        else do {
          buf \<leftarrow> deref (vs ! cindex pc);
          let pos = unat (coffset pc);
          let n = unat (clength pc);
          buf1 \<leftarrow> buffer_read buf (fread_bytes c pos n);
          buf2 \<leftarrow> buffer_nul buf1 (if fread_ret c pos n \<noteq> 1 then 0 else n);
          Some (vs[cindex pc := Ptr buf2])
        }
      })"

fun read_values :: "string \<Rightarrow> OZRead_Cookie list \<Rightarrow> buffer ptr list \<Rightarrow> buffer ptr list ub" where
  "read_values c [] vs = Some vs"
| "read_values c (pc # pcs) vs = do {
     vs' \<leftarrow> read_cookie c pc vs;
     read_values c pcs vs'
   }"

definition ozread_gets_values :: "world \<Rightarrow> OZRead \<Rightarrow> OZRead_Gets \<Rightarrow> (nat \<times> OZRead_Gets) ub" where
  "ozread_gets_values w h p =
     (if cookies p = [] then Some (0, p)
      else do {
        path \<leftarrow> deref (fpval h);
        vs \<leftarrow> deref (svalues p);
        vs' \<leftarrow> read_values (content w path) (cookies p) vs;
        Some (0, p\<lparr>svalues := Ptr vs'\<rparr>)
      })"

definition ozread_gets :: "alloc \<Rightarrow> world \<Rightarrow> OZRead option \<Rightarrow> OZRead_Gets option
    \<Rightarrow> (nat \<times> OZRead_Gets option) ub" where
  "ozread_gets alloc w handle param = (case handle of
     None \<Rightarrow> Some (1, param)
   | Some h \<Rightarrow>
       (case param of
          None \<Rightarrow> Some (2, None)
        | Some p \<Rightarrow> do {
            (ret, p1) \<leftarrow> ozread_gets_keys h p;
            if ret \<noteq> 0 then Some (3, Some p1)
            else do {
              vs \<leftarrow> (if cookies p1 = [] then Some [] else deref (svalues p1));
              (ret2, vs') \<leftarrow> alloc_values alloc 0 (cookies p1) vs;
              let p2 = (if cookies p1 = [] then p1 else p1\<lparr>svalues := Ptr vs'\<rparr>);
              if ret2 \<noteq> 0 then Some (1, Some p2)
              else do {
                (ret3, p3) \<leftarrow> ozread_gets_values w h p2;
                Some (0, Some p3)
              }
            }
          }))"

end
