(* ===== verification/SortCorrect.thy ===== *)
theory SortCorrect
  imports SortTool
begin

text \<open>
  Correctness of \<open>OZoneSort\<close>.  The records of the key file, in file order, are \<open>rs\<close>.  The
  merge of the sorted chunks is the stable sort of \<open>rs\<close> by key (restricted to the keys
  below \<open>"~"\<close>, the sentinel of the selection), and the output is that list with one record
  per key: the one with the largest offset, the later one in the file among equal offsets.
\<close>

section \<open>The abstract result\<close>

definition newer :: "OZRecord \<Rightarrow> OZRecord \<Rightarrow> OZRecord" where
  "newer p d = (if roffset p \<le> roffset d then d else p)"

fun compress :: "OZRecord \<Rightarrow> OZRecord list \<Rightarrow> OZRecord list" where
  "compress p [] = [p]"
| "compress p (d # ds) =
     (if rkey p = rkey d then compress (newer p d) ds else p # compress d ds)"

fun compress_all :: "OZRecord list \<Rightarrow> OZRecord list" where
  "compress_all [] = []"
| "compress_all (p # ds) = compress p ds"

definition visible :: "OZRecord \<Rightarrow> bool" where
  "visible r \<longleftrightarrow> rkey r < ''~''"

text \<open>The table that a reader of the key file is given.\<close>

definition sort_table :: "OZRecord list \<Rightarrow> OZRecord list" where
  "sort_table rs = compress_all (sort_key rkey (filter visible rs))"

text \<open>The record that stands for a key: a fold over the key file.\<close>

definition pick :: "OZRecord option \<Rightarrow> OZRecord \<Rightarrow> OZRecord option" where
  "pick m d = Some (case m of None \<Rightarrow> d | Some p \<Rightarrow> newer p d)"

definition latest :: "OZRecord list \<Rightarrow> string \<Rightarrow> OZRecord option" where
  "latest rs k = foldl pick None (filter (\<lambda>r. rkey r = k) rs)"

lemma rkey_newer [simp]: "rkey p = rkey d \<Longrightarrow> rkey (newer p d) = rkey d"
  by (simp add: newer_def)

lemma keys_compress [simp]: "rkey ` set (compress p ds) = rkey ` set (p # ds)"
  by (induction p ds rule: compress.induct) auto

lemma compress_sorted:
  "sorted (map rkey (p # ds)) \<Longrightarrow> sorted_wrt (<) (map rkey (compress p ds))"
proof (induction p ds rule: compress.induct)
  case (2 p d ds)
  show ?case
  proof (cases "rkey p = rkey d")
    case True
    with 2 show ?thesis by simp
  next
    case False
    have "rkey p < k" if "k \<in> rkey ` set (compress d ds)" for k
      using 2(3) False that by (auto simp only: keys_compress) (auto simp: less_le)
    with 2 False show ?thesis by auto
  qed
qed simp

lemma latest_Cons_other: "rkey p \<noteq> k \<Longrightarrow> latest (p # ds) k = latest ds k"
  by (simp add: latest_def)

lemma latest_newer: "rkey p = rkey d \<Longrightarrow> latest (newer p d # ds) k = latest (p # d # ds) k"
  by (simp add: latest_def pick_def)

lemma latest_only_first: "rkey p \<notin> rkey ` set ds \<Longrightarrow> latest (p # ds) (rkey p) = Some p"
  by (simp add: latest_def pick_def filter_False image_iff eq_commute)

lemma compress_latest:
  "sorted (map rkey (p # ds)) \<Longrightarrow> r \<in> set (compress p ds) \<Longrightarrow> latest (p # ds) (rkey r) = Some r"
proof (induction p ds rule: compress.induct)
  case (1 p)
  then show ?case by (simp add: latest_only_first)
next
  case (2 p d ds)
  show ?case
  proof (cases "rkey p = rkey d")
    case True
    then have "sorted (map rkey (newer p d # ds))" "r \<in> set (compress (newer p d) ds)"
      using "2.prems" by simp_all
    then have "latest (newer p d # ds) (rkey r) = Some r"
      by (rule "2.IH"(1) [OF True])
    then show ?thesis by (simp add: latest_newer [OF True])
  next
    case False
    have d: "sorted (map rkey (d # ds))" "r = p \<or> r \<in> set (compress d ds)"
      using "2.prems" False by auto
    have p: "rkey p \<notin> rkey ` set (d # ds)"
      using "2.prems"(1) False by auto
    show ?thesis
    proof (cases "r = p")
      case True
      with p show ?thesis by (metis latest_only_first)
    next
      case r: False
      with d have rd: "r \<in> set (compress d ds)" by simp
      then have "rkey r \<in> rkey ` set (d # ds)"
        by (metis image_eqI keys_compress)
      with p have "rkey p \<noteq> rkey r" by metis
      with "2.IH"(2) [OF False d(1) rd] show ?thesis
        by (simp add: latest_Cons_other)
    qed
  qed
qed

lemma latest_sort_key: "latest (sort_key rkey rs) = latest rs"
  by (simp add: latest_def filter_sort_key_same fun_eq_iff)

lemma latest_visible:
  "k < ''~'' \<Longrightarrow> latest (filter visible rs) k = latest rs k"
  by (simp add: latest_def visible_def conj_commute cong: conj_cong)

lemma latest_None: "latest rs k = None \<longleftrightarrow> k \<notin> rkey ` set rs"
proof -
  have "foldl pick m ds = None \<longleftrightarrow> m = None \<and> ds = []" for m ds
    by (induction ds arbitrary: m) (auto simp: pick_def)
  then show ?thesis
    by (auto simp: latest_def filter_empty_conv)
qed

lemma latest_mem:
  assumes "latest rs k = Some r"
  shows "r \<in> set rs \<and> rkey r = k"
proof -
  have "foldl pick m ds = Some r \<Longrightarrow> m = Some r \<or> r \<in> set ds" for m ds
    by (induction ds arbitrary: m) (fastforce simp: pick_def newer_def split: if_splits option.splits)+
  with assms show ?thesis
    by (fastforce simp: latest_def)
qed

lemma keys_compress_all: "rkey ` set (compress_all xs) = rkey ` set xs"
  by (cases xs) (simp_all only: compress_all.simps keys_compress)

lemma keys_sort_table: "rkey ` set (sort_table rs) = rkey ` set (filter visible rs)"
  by (simp only: sort_table_def keys_compress_all set_sort)

lemma sort_table_sorted: "sorted_wrt (<) (map rkey (sort_table rs))"
proof (cases "sort_key rkey (filter visible rs)")
  case (Cons p ds)
  then have "sorted (map rkey (p # ds))"
    by (metis sorted_sort_key)
  then show ?thesis
    using Cons compress_sorted by (simp add: sort_table_def del: sorted_wrt.simps list.map)
qed (simp add: sort_table_def)

lemma sort_table_latest:
  assumes "r \<in> set (sort_table rs)"
  shows "latest rs (rkey r) = Some r"
proof (cases "sort_key rkey (filter visible rs)")
  case (Cons p ds)
  then have "sorted (map rkey (p # ds))"
    by (metis sorted_sort_key)
  then have "latest (filter visible rs) (rkey r) = Some r"
    using assms Cons compress_latest [of p ds r] latest_sort_key [of "filter visible rs"]
    by (simp add: sort_table_def)
  moreover have "rkey r < ''~''"
    using assms keys_sort_table [of rs] by (force simp: visible_def)
  ultimately show ?thesis by (simp add: latest_visible)
qed (use assms in \<open>simp add: sort_table_def\<close>)

section \<open>Sorting one chunk\<close>

interpretation record_sort: stable_sorter "qsort cmp_oz_record" rkey "\<lambda>r. nul_free (rkey r)"
proof
  fix xs :: "OZRecord list" and k
  assume "list_all (\<lambda>r. nul_free (rkey r)) xs"
  then have "cmp_oz_record x y \<le> 0 \<longleftrightarrow> rkey x \<le> rkey y" if "x \<in> set xs" "y \<in> set xs" for x y
    using that by (simp add: cmp_oz_record_def strcmp_le list_all_iff)
  from qsort_sorted_stable [of xs cmp_oz_record rkey, OF this]
  show "sorted (map rkey (qsort cmp_oz_record xs))"
    and "filter (\<lambda>x. rkey x = k) (qsort cmp_oz_record xs) = filter (\<lambda>x. rkey x = k) xs"
    by blast+
qed

lemma recs_ok_nul_free: "recs_ok rs \<Longrightarrow> list_all (\<lambda>r. nul_free (rkey r)) rs"
  by (simp add: list_all_iff key_ok_nul_free)

lemma recs_ok_qsort: "recs_ok rs \<Longrightarrow> recs_ok (qsort cmp_oz_record rs)"
  by (simp add: list_all_iff)

section \<open>The merge of sorted chunks\<close>

text \<open>A channel holds the records \<open>rs\<close>: its head is in memory, the rest is text.\<close>

definition chan_rep :: "chan \<Rightarrow> OZRecord list \<Rightarrow> bool" where
  "chan_rep c rs = (case rs of [] \<Rightarrow> \<not> cflag c
     | r # rs' \<Rightarrow> cflag c \<and> cdata c = r \<and> cin c = print_recs rs')"

lemma chan_rep_simps [simp]:
  "chan_rep c [] \<longleftrightarrow> \<not> cflag c"
  "chan_rep c (r # rs) \<longleftrightarrow> cflag c \<and> cdata c = r \<and> cin c = print_recs rs"
  by (simp_all add: chan_rep_def)

lemma read_chan_print:
  assumes "recs_ok rs"
  shows "\<exists>c. read_chan old (print_recs rs) = Some c \<and> chan_rep c rs"
proof (cases rs)
  case Nil
  then show ?thesis by (simp add: read_chan_def scan_simps)
next
  case (Cons r rs')
  with assms scan_print_recs_Cons [of r rs' old] show ?thesis
    by (simp add: read_chan_def)
qed

lemma first_reads_print:
  "list_all recs_ok rss \<Longrightarrow>
     \<exists>cs. first_reads (map print_recs rss) = Some cs \<and> list_all2 chan_rep cs rss"
proof (induction rss)
  case (Cons rs rss)
  then obtain cs where "first_reads (map print_recs rss) = Some cs" "list_all2 chan_rep cs rss"
    by auto
  moreover obtain c where "read_chan zero_rec (print_recs rs) = Some c" "chan_rep c rs"
    using Cons.prems read_chan_print [of rs zero_rec] by auto
  ultimately show ?case by simp
qed simp

text \<open>
  What the selection finds, over the record lists of the channels: the first list whose head
  has the smallest key, among the heads below the start key.
\<close>

definition head_below :: "OZRecord list \<Rightarrow> string \<Rightarrow> bool" where
  "head_below rs key \<longleftrightarrow> rs \<noteq> [] \<and> rkey (hd rs) < key"

fun select_list :: "nat \<Rightarrow> OZRecord list list \<Rightarrow> string \<Rightarrow> nat option \<Rightarrow> nat option" where
  "select_list i [] key m = m"
| "select_list i (rs # rss) key m =
     (if head_below rs key then select_list (i + 1) rss (rkey (hd rs)) (Some i)
      else select_list (i + 1) rss key m)"

lemma select_from_list:
  "list_all2 chan_rep cs rss \<Longrightarrow> list_all recs_ok rss \<Longrightarrow> nul_free key \<Longrightarrow>
     select_from n cs key m = select_list n rss key m"
proof (induction cs rss arbitrary: n key m rule: list_all2_induct)
  case (Cons c cs rs rss)
  then show ?case
    by (cases rs) (simp_all add: head_below_def strcmp_less key_ok_nul_free)
qed simp

lemma head_below_trans: "head_below rs key \<Longrightarrow> \<not> head_below qs (rkey (hd rs)) \<Longrightarrow>
    qs = [] \<or> rkey (hd rs) \<le> rkey (hd qs)"
  by (auto simp: head_below_def)

lemma select_list_None:
  "select_list n rss key m = None \<Longrightarrow> m = None \<and> (\<forall>rs \<in> set rss. \<not> head_below rs key)"
  by (induction n rss key m rule: select_list.induct) (auto split: if_splits)

definition first_min :: "OZRecord list list \<Rightarrow> string \<Rightarrow> nat \<Rightarrow> bool" where
  "first_min rss key j \<longleftrightarrow> j < length rss \<and> head_below (rss ! j) key
     \<and> (\<forall>i < j. \<not> (rss ! i \<noteq> [] \<and> rkey (hd (rss ! i)) \<le> rkey (hd (rss ! j))))
     \<and> (\<forall>i < length rss. \<not> head_below (rss ! i) (rkey (hd (rss ! j))))"

lemma first_min_0:
  assumes "head_below rs key" and "\<forall>qs \<in> set rss. \<not> head_below qs (rkey (hd rs))"
  shows "first_min (rs # rss) key 0"
  using assms by (auto simp: first_min_def less_Suc_eq_0_disj head_below_def)

lemma first_min_Suc:
  assumes "first_min rss key' j"
    and "key' = (if head_below rs key then rkey (hd rs) else key)"
  shows "first_min (rs # rss) key (Suc j)"
  using assms unfolding first_min_def less_Suc_eq_0_disj length_Cons
  by (auto simp: head_below_def not_less split: if_splits dest: less_trans less_le_trans)

lemma select_list_Some:
  "select_list n rss key m = Some i \<Longrightarrow>
     (m = Some i \<and> (\<forall>rs \<in> set rss. \<not> head_below rs key))
     \<or> (\<exists>j. i = n + j \<and> first_min rss key j)"
proof (induction n rss key m rule: select_list.induct)
  case (2 n rs rss key m)
  show ?case
  proof (cases "head_below rs key")
    case True
    with 2 have "(i = n \<and> (\<forall>qs \<in> set rss. \<not> head_below qs (rkey (hd rs))))
        \<or> (\<exists>j. i = n + 1 + j \<and> first_min rss (rkey (hd rs)) j)"
      by auto
    then show ?thesis
    proof (elim disjE conjE exE)
      assume "i = n" "\<forall>qs \<in> set rss. \<not> head_below qs (rkey (hd rs))"
      with True show ?thesis by (auto intro: first_min_0)
    next
      fix j
      assume "i = n + 1 + j" "first_min rss (rkey (hd rs)) j"
      with True show ?thesis
        by (intro disjI2 exI [of _ "Suc j"]) (auto intro: first_min_Suc)
    qed
  next
    case False
    with 2 have "(m = Some i \<and> (\<forall>qs \<in> set rss. \<not> head_below qs key))
        \<or> (\<exists>j. i = n + 1 + j \<and> first_min rss key j)"
      by auto
    then show ?thesis
    proof (elim disjE conjE exE)
      assume "m = Some i" "\<forall>qs \<in> set rss. \<not> head_below qs key"
      with False show ?thesis by simp
    next
      fix j
      assume "i = n + 1 + j" "first_min rss key j"
      with False show ?thesis
        by (intro disjI2 exI [of _ "Suc j"]) (auto intro: first_min_Suc)
    qed
  qed
qed simp

text \<open>The position that is selected splits the channels.\<close>

lemma first_min_split:
  assumes "first_min rss key i"
  obtains pre r rs post where "rss = pre @ (r # rs) # post" and "i = length pre" and "rkey r < key"
    and "\<forall>qs \<in> set pre. qs \<noteq> [] \<longrightarrow> rkey r < rkey (hd qs)"
    and "\<forall>qs \<in> set post. qs \<noteq> [] \<longrightarrow> rkey r \<le> rkey (hd qs)"
proof -
  let ?pre = "take i rss" and ?post = "drop (Suc i) rss"
  have i: "i < length rss" and below: "head_below (rss ! i) key"
    using assms by (simp_all add: first_min_def)
  then obtain r rs where r: "rss ! i = r # rs" "rkey r < key"
    by (auto simp: head_below_def neq_Nil_conv)
  have "\<forall>qs \<in> set ?pre. qs \<noteq> [] \<longrightarrow> rkey r < rkey (hd qs)"
    using assms r by (force simp: first_min_def in_set_conv_nth not_le)
  moreover have "\<forall>qs \<in> set rss. qs \<noteq> [] \<longrightarrow> rkey r \<le> rkey (hd qs)"
    using assms r by (force simp: first_min_def in_set_conv_nth head_below_def not_less)
  then have "\<forall>qs \<in> set ?post. qs \<noteq> [] \<longrightarrow> rkey r \<le> rkey (hd qs)"
    using set_drop_subset [of "Suc i" rss] by blast
  moreover have "rss = ?pre @ (r # rs) # ?post" "i = length ?pre"
    using i r(1) id_take_nth_drop [OF i] by simp_all
  ultimately show ?thesis
    using r(2) that by blast
qed

text \<open>Taking that head is taking the head of the stable sort of all the records.\<close>

lemma sort_key_take_head:
  fixes r :: OZRecord
  assumes sorted: "\<forall>qs \<in> set (pre @ (r # rs) # post). sorted (map rkey qs)"
    and pre: "\<forall>qs \<in> set pre. qs \<noteq> [] \<longrightarrow> rkey r < rkey (hd qs)"
    and post: "\<forall>qs \<in> set post. qs \<noteq> [] \<longrightarrow> rkey r \<le> rkey (hd qs)"
  shows "sort_key rkey (concat (pre @ (r # rs) # post)) = r # sort_key rkey (concat (pre @ rs # post))"
proof (rule stable_sort_unique [symmetric])
  have hd_le: "rkey (hd qs) \<le> rkey q" if "sorted (map rkey qs)" "q \<in> set qs" for q :: OZRecord and qs
    using that by (cases qs) auto
  have above: "rkey r < rkey q" if q: "q \<in> set (concat pre)" for q
  proof -
    obtain qs where qs: "qs \<in> set pre" "q \<in> set qs"
      using q by auto
    then have "rkey r < rkey (hd qs)"
      using pre by (metis empty_iff empty_set)
    also have "\<dots> \<le> rkey q"
      using qs sorted by (auto intro!: hd_le)
    finally show ?thesis .
  qed
  have post_le: "rkey r \<le> rkey q" if q: "q \<in> set (concat post)" for q
  proof -
    obtain qs where qs: "qs \<in> set post" "q \<in> set qs"
      using q by auto
    then have "rkey r \<le> rkey (hd qs)"
      using post by (metis empty_iff empty_set)
    also have "\<dots> \<le> rkey q"
      using qs sorted by (auto intro!: hd_le)
    finally show ?thesis .
  qed
  have "\<forall>q \<in> set rs. rkey r \<le> rkey q"
    using sorted by simp
  moreover have "\<forall>q \<in> set (concat pre) \<union> set (concat post). rkey r \<le> rkey q"
    using less_imp_le [OF above] post_le by blast
  ultimately have "\<forall>q \<in> set (concat (pre @ rs # post)). rkey r \<le> rkey q"
    by auto
  then show "sorted (map rkey (r # sort_key rkey (concat (pre @ rs # post))))"
    by simp
  show "filter (\<lambda>x. rkey x = k) (r # sort_key rkey (concat (pre @ rs # post))) =
      filter (\<lambda>x. rkey x = k) (concat (pre @ (r # rs) # post))" for k
  proof (cases "rkey r = k")
    case True
    with above have "filter (\<lambda>x. rkey x = k) (concat pre) = []"
      by (force simp: filter_empty_conv)
    with True show ?thesis by (simp add: filter_sort_key_same)
  next
    case False
    then show ?thesis by (simp add: filter_sort_key_same)
  qed
qed

text \<open>The merge loop writes the compressed stable sort of the visible records.\<close>

definition final_lines :: "OZRecord option \<Rightarrow> OZRecord list \<Rightarrow> string \<times> nat" where
  "final_lines prev ds = (case prev of
     None \<Rightarrow> (case ds of [] \<Rightarrow> (print_prev None, 1)
              | d # ds' \<Rightarrow> (print_recs (compress d ds'), length (compress d ds')))
   | Some p \<Rightarrow> (print_recs (compress p ds), length (compress p ds)))"

lemma list_all2_split_mid:
  assumes "list_all2 P cs (pre @ x # post)"
  shows "length pre < length cs" and "P (cs ! length pre) x"
    and "P c y \<Longrightarrow> list_all2 P (cs[length pre := c]) (pre @ y # post)"
proof -
  show "length pre < length cs"
    using list_all2_lengthD [OF assms] by simp
  show "P (cs ! length pre) x"
    using list_all2_nthD2 [OF assms, of "length pre"] by simp
  assume "P c y"
  then show "list_all2 P (cs[length pre := c]) (pre @ y # post)"
    using list_all2_update_cong [OF assms, of c y "length pre"] by simp
qed

lemma update_same_key:
  "rkey q = rkey r \<Longrightarrow> q\<lparr>roffset := roffset r, rlength := rlength r\<rparr> = r"
  for q r :: OZRecord
  by simp

lemma merge_record_lines:
  assumes "merge_record prev r out ml = (p, out', ml')" and "nul_free (rkey r)"
    and "\<forall>q. prev = Some q \<longrightarrow> nul_free (rkey q)"
  shows "out' @ print_recs (compress p ds) = out @ fst (final_lines prev (r # ds)) \<and>
    ml' + length (compress p ds) = ml + snd (final_lines prev (r # ds))"
proof (cases prev)
  case None
  with assms show ?thesis
    by (auto simp: merge_record_def final_lines_def strcmp_eq)
next
  case (Some q)
  with assms show ?thesis
    by (auto simp: merge_record_def final_lines_def strcmp_eq newer_def update_same_key
        split: if_splits)
qed

lemma merge_loop_spec:
  assumes "list_all2 chan_rep cs rss" and "list_all recs_ok rss"
    and "\<forall>rs \<in> set rss. sorted (map rkey rs)"
    and "\<forall>p. prev = Some p \<longrightarrow> nul_free (rkey p)"
  shows "merge_loop cs prev out ml =
    (let (t, n) = final_lines prev (filter visible (sort_key rkey (concat rss)))
     in Some (out @ t, ml + n))"
  using assms
proof (induction cs prev out ml arbitrary: rss rule: merge_loop.induct)
  case (1 cs prev out ml)
  have sel: "select_min cs = select_list 0 rss ''~'' None"
    using select_from_list [OF "1.prems"(1,2), of "''~''"] by (simp add: select_min_def)
  show ?case
  proof (cases "select_min cs")
    case None
    then have none: "\<forall>rs \<in> set rss. \<not> head_below rs ''~''"
      using select_list_None [of 0 rss "''~''" None] sel by simp
    have "\<not> visible r" if "rs \<in> set rss" "r \<in> set rs" for r rs
      using none "1.prems"(3) that
      by (cases rs) (auto simp: head_below_def visible_def dest!: bspec dest: less_le_trans)
    then have "filter visible (sort_key rkey (concat rss)) = []"
      by (auto simp: filter_empty_conv)
    with None show ?thesis
      by (simp add: merge_loop.simps [of cs] final_lines_def print_prev_def split: option.splits)
  next
    case (Some i)
    then have "first_min rss ''~'' i"
      using select_list_Some [of 0 rss "''~''" None i] sel by simp
    then obtain pre r rs post where rss: "rss = pre @ (r # rs) # post" and i: "i = length pre"
      and r: "rkey r < ''~''" and min: "\<forall>qs \<in> set pre. qs \<noteq> [] \<longrightarrow> rkey r < rkey (hd qs)"
        "\<forall>qs \<in> set post. qs \<noteq> [] \<longrightarrow> rkey r \<le> rkey (hd qs)"
      by (rule first_min_split)
    have ci: "cdata (cs ! i) = r" "cin (cs ! i) = print_recs rs"
      using list_all2_split_mid(2) [OF "1.prems"(1) [unfolded rss]] i by simp_all
    have ok: "recs_ok rs" "nul_free (rkey r)"
      using "1.prems"(2) rss by (simp_all add: key_ok_nul_free)
    then obtain c where c: "read_chan r (print_recs rs) = Some c" "chan_rep c rs"
      using read_chan_print by blast
    let ?rss = "pre @ rs # post" and ?ds = "filter visible (sort_key rkey (concat (pre @ rs # post)))"
    have step: "list_all2 chan_rep (cs[i := c]) ?rss" "list_all recs_ok ?rss"
      "\<forall>rs \<in> set ?rss. sorted (map rkey rs)"
      using list_all2_split_mid(3) [OF "1.prems"(1) [unfolded rss] c(2)] "1.prems"(2,3) rss i
      by auto
    have vis: "filter visible (sort_key rkey (concat rss)) = r # ?ds"
      using sort_key_take_head [OF "1.prems"(3) [unfolded rss] min] rss r
      by (simp add: visible_def)
    obtain p out' ml' where mr: "merge_record prev r out ml = (p, out', ml')"
      by (metis prod_cases3)
    have p: "nul_free (rkey p)"
      using mr ok "1.prems"(4) by (auto simp: merge_record_def Let_def split: if_splits option.splits)
    have "merge_loop (cs[i := c]) (Some p) out' ml' =
        (let (t, n) = final_lines (Some p) ?ds in Some (out' @ t, ml' + n))"
      using "1.IH" [OF Some, of p "(out', ml')" out' ml' c] mr ci c p step by simp
    moreover have "out' @ print_recs (compress p ?ds) =
        out @ fst (final_lines prev (r # ?ds)) \<and>
        ml' + length (compress p ?ds) = ml + snd (final_lines prev (r # ?ds))"
      using merge_record_lines [OF mr ok(2)] "1.prems"(4) by blast
    ultimately show ?thesis
      using Some mr ci c unfolding vis
      by (simp add: merge_loop.simps [of cs] final_lines_def split_beta split: option.splits)
  qed
qed

section \<open>Splitting a well-formed key file\<close>

function chunks :: "nat \<Rightarrow> 'a list \<Rightarrow> 'a list list" where
  "chunks n xs = (if length xs < n \<or> n = 0 then [xs] else take n xs # chunks n (drop n xs))"
  by pat_completeness auto
termination
  by (relation "measure (\<lambda>(n, xs). length xs)") auto

declare chunks.simps [simp del]

lemma concat_chunks [simp]: "concat (chunks n xs) = xs"
proof (induction n xs rule: chunks.induct)
  case (1 n xs)
  then show ?case by (simp add: chunks.simps [of n xs])
qed

lemma length_chunks: "0 < n \<Longrightarrow> length (chunks n xs) = length xs div n + 1"
proof (induction n xs rule: chunks.induct)
  case (1 n xs)
  show ?case
  proof (cases "length xs < n")
    case True
    then show ?thesis by (simp add: chunks.simps [of n xs])
  next
    case False
    with 1 show ?thesis by (simp add: chunks.simps [of n xs] le_div_geq)
  qed
qed

lemma recs_ok_take_drop: "recs_ok rs \<Longrightarrow> recs_ok (take n rs)" "recs_ok rs \<Longrightarrow> recs_ok (drop n rs)"
  by (auto simp: list_all_iff dest: in_set_takeD in_set_dropD)

lemma recs_ok_chunks: "recs_ok rs \<Longrightarrow> list_all recs_ok (chunks n rs)"
proof (induction n rs rule: chunks.induct)
  case (1 n rs)
  then show ?case by (simp add: chunks.simps [of n rs] recs_ok_take_drop)
qed

lemma read_chunk_print:
  "recs_ok rs \<Longrightarrow> i \<le> n \<Longrightarrow> read_chunk n i ret buf (print_recs rs) =
     Some (if length rs < n - i then (Eof, buf @ rs, [])
           else (if i = n then ret else Items 3, buf @ take (n - i) rs, print_recs (drop (n - i) rs)))"
proof (induction "n - i" arbitrary: i ret buf rs)
  case 0
  then show ?case by (simp add: read_chunk.simps [of i i])
next
  case (Suc m)
  show ?case
  proof (cases rs)
    case Nil
    with Suc show ?thesis by (simp add: read_chunk.simps [of n] scan_simps)
  next
    case (Cons r rs')
    have "m = n - (i + 1)" "i + 1 \<le> n" "i < n"
      using Suc.hyps(2) by simp_all
    with Suc.hyps(1) [of "i + 1" rs' "Items 3" "buf @ [r]"] Suc.prems Cons
    have "read_chunk n (i + 1) (Items 3) (buf @ [r]) (print_recs rs') =
      Some (if length rs' < n - (i + 1) then (Eof, buf @ rs, [])
            else (Items 3, buf @ r # take (n - (i + 1)) rs', print_recs (drop (n - (i + 1)) rs')))"
      by simp
    moreover have "n - i = Suc (n - (i + 1))"
      using \<open>i < n\<close> by simp
    ultimately show ?thesis
      using Suc.prems Cons \<open>i < n\<close> scan_print_recs_Cons [of r rs' zero_rec]
      by (simp add: read_chunk.simps [of n i] del: print_recs_simps(2))
  qed
qed

definition split_names :: "string \<Rightarrow> nat \<Rightarrow> nat \<Rightarrow> string list" where
  "split_names base k n = map (\<lambda>j. base @ dec j) [k..<k + n]"

lemma split_names_Suc: "split_names base k (Suc n) = (base @ dec k) # split_names base (Suc k) n"
  by (simp add: split_names_def upt_conv_Cons del: upt_Suc)

fun write_splits :: "string \<Rightarrow> nat \<Rightarrow> OZRecord list list \<Rightarrow> world \<Rightarrow> world" where
  "write_splits base k [] w = w"
| "write_splits base k (c # cs) w =
     write_splits base (Suc k) cs (write_file w (base @ dec k) (print_recs c))"

text \<open>The names of the temporary files begin like this.\<close>

abbreviation is_tmp :: "string \<Rightarrow> bool" where
  "is_tmp p \<equiv> take 12 p = ''/tmp/ozsort_''"

definition tmp_openable :: "world \<Rightarrow> bool" where
  "tmp_openable w \<longleftrightarrow> (\<forall>p. is_tmp p \<longrightarrow> openable w p)"

lemma tmp_openable_write [simp]: "tmp_openable (write_file w p c) = tmp_openable w"
  by (simp add: tmp_openable_def file_simps)

lemma is_tmp_split_base: "is_tmp (split_base now @ s)"
  by (simp add: split_base_def)

lemma is_tmp_merge_path: "is_tmp (merge_path now)"
  by (simp add: merge_path_def)

lemma write_file_twice [simp]: "write_file (write_file w p c) p d = write_file w p d"
  by (simp add: write_file_def)

lemma split_loop_print:
  assumes "recs_ok rs" and "0 < n" and "tmp_openable w"
    and "length names + length (chunks n rs) \<le> m"
  shows "split_loop n m (split_base now) names w (print_recs rs) =
    Some (0, names @ split_names (split_base now) (length names) (length (chunks n rs)),
      write_splits (split_base now) (length names) (map (qsort cmp_oz_record) (chunks n rs)) w)"
  using assms
proof (induction n rs arbitrary: names w rule: chunks.induct)
  case (1 n rs)
  let ?p = "split_base now @ dec (length names)"
  have open_p: "fopen_w w ?p = Some (write_file w ?p [])"
    using 1(4) is_tmp_split_base [of now] by (simp add: fopen_w_write_file tmp_openable_def)
  have room: "length names < m"
    using 1(5) 1(3) by (simp add: length_chunks)
  show ?case
  proof (cases "length rs < n")
    case True
    with 1 open_p room show ?thesis
      by (simp add: split_loop.simps [of n] read_chunk_print chunks.simps [of n rs] split_names_def
          Let_def)
  next
    case False
    let ?w = "write_file w ?p (print_recs (qsort cmp_oz_record (take n rs)))"
    have "split_loop n m (split_base now) (names @ [?p]) ?w (print_recs (drop n rs)) =
      Some (0, (names @ [?p]) @ split_names (split_base now) (Suc (length names)) (length (chunks n (drop n rs))),
        write_splits (split_base now) (Suc (length names))
          (map (qsort cmp_oz_record) (chunks n (drop n rs))) ?w)"
      using "1.IH" [of ?w "names @ [?p]"] False 1(2-5)
      by (simp add: chunks.simps [of n rs] recs_ok_take_drop)
    with False 1(2-5) open_p room show ?thesis
      by (simp add: split_loop.simps [of n m _ names] read_chunk_print chunks.simps [of n rs]
          split_names_Suc Let_def)
  qed
qed

text \<open>One chunk more than there are split files: the split gives up with 3.\<close>

lemma split_loop_too_many:
  assumes "recs_ok rs" and "0 < n" and "tmp_openable w"
    and "m < length names + length (chunks n rs)" and "length names \<le> m"
  shows "\<exists>names' w'. split_loop n m (split_base now) names w (print_recs rs) = Some (3, names', w')"
  using assms
proof (induction n rs arbitrary: names w rule: chunks.induct)
  case (1 n rs)
  let ?p = "split_base now @ dec (length names)"
  have open_p: "fopen_w w ?p = Some (write_file w ?p [])"
    using 1(4) is_tmp_split_base [of now] by (simp add: fopen_w_write_file tmp_openable_def)
  show ?case
  proof (cases "m \<le> length names")
    case True
    with 1 show ?thesis
      by (simp add: split_loop.simps [of n] read_chunk_print)
  next
    case room: False
    with 1 have long: "\<not> length rs < n"
      by (auto simp: chunks.simps [of n rs])
    let ?w = "write_file w ?p (print_recs (qsort cmp_oz_record (take n rs)))"
    have "\<exists>names' w'. split_loop n m (split_base now) (names @ [?p]) ?w (print_recs (drop n rs)) = Some (3, names', w')"
      using "1.IH" [of ?w "names @ [?p]"] long room 1(2-6)
      by (simp add: chunks.simps [of n rs] recs_ok_take_drop)
    with long room 1(2-5) open_p show ?thesis
      by (simp add: split_loop.simps [of n m _ names] read_chunk_print Let_def)
  qed
qed

section \<open>The whole tool\<close>

lemma files_write_splits_other:
  "\<forall>j. p \<noteq> base @ dec j \<Longrightarrow> files (write_splits base k cs w) p = files w p"
  by (induction base k cs w rule: write_splits.induct) (simp_all add: file_simps)

lemma openable_write_splits [simp]: "openable (write_splits base k cs w) = openable w"
  by (induction base k cs w rule: write_splits.induct) (simp_all add: file_simps)

lemma files_write_splits_below:
  "j < k \<Longrightarrow> files (write_splits base k cs w) (base @ dec j) = files w (base @ dec j)"
  by (induction base k cs w rule: write_splits.induct) (auto simp: file_simps dec_inj)

lemma open_splits_written:
  assumes "tmp_openable w"
  shows "open_splits (write_splits (split_base now) k cs w) (split_names (split_base now) k (length cs))
    = Some (map print_recs cs)"
  using assms
proof (induction cs arbitrary: k w)
  case Nil
  then show ?case by (simp add: split_names_def)
next
  case (Cons c cs)
  let ?w = "write_file w (split_base now @ dec k) (print_recs c)"
  have "fopen_r (write_splits (split_base now) (Suc k) cs ?w) (split_base now @ dec k) = Some (print_recs c)"
    using Cons.prems is_tmp_split_base [of now]
    by (simp add: fopen_r_def files_write_splits_below file_simps tmp_openable_def)
  with Cons.IH [of ?w "Suc k"] Cons.prems show ?case
    by (simp add: split_names_Suc)
qed

lemma files_foldl_unlink: "files (foldl unlink w ps) p = (if p \<in> set ps then None else files w p)"
  by (induction ps arbitrary: w) (simp_all add: file_simps)

lemma openable_foldl_unlink [simp]: "openable (foldl unlink w ps) = openable w"
  by (induction ps arbitrary: w) (simp_all add: file_simps)

lemma dec_int_head: "\<exists>c s. dec_int i = c # s \<and> (c = CHR ''-'' \<or> isdigit c)"
proof (cases "i < 0")
  case False
  then show ?thesis
    using dec_digits [of "hd (dec (nat i))" "nat i"]
    by (cases "dec (nat i)") (auto simp: dec_int_def)
qed (simp add: dec_int_def)

lemma merge_path_not_split: "merge_path now2 \<noteq> split_base now @ s"
  using dec_int_head [of "sint (of_int now :: u32)"]
  by (auto simp: merge_path_def split_base_def isdigit_def)

lemma sort_key_concat: "sort_key f (concat (map (sort_key f) xss)) = sort_key f (concat xss)"
  for f :: "'a \<Rightarrow> 'k::linorder"
proof (rule stable_sort_unique)
  have "filter (\<lambda>x. f x = k) (concat (map (sort_key f) xss)) = filter (\<lambda>x. f x = k) (concat xss)" for k
    by (induction xss) (simp_all add: filter_sort_key_same)
  then show "filter (\<lambda>x. f x = k) (sort_key f (concat (map (sort_key f) xss))) =
      filter (\<lambda>x. f x = k) (concat xss)" for k
    by (simp add: filter_sort_key_same)
qed simp

text \<open>The text and the line count of the merge file for the records of the key file.\<close>

definition tool_lines :: "OZRecord list \<Rightarrow> string \<times> nat" where
  "tool_lines rs = (case sort_table rs of [] \<Rightarrow> (print_prev None, 1)
     | t \<Rightarrow> (print_recs t, length t))"

lemma compress_not_Nil [simp]: "compress p ds \<noteq> []"
  by (induction p ds rule: compress.induct) auto

lemma final_lines_tool:
  "final_lines None (filter visible (sort_key rkey rs)) = tool_lines rs"
proof (cases "sort_key rkey (filter visible rs)")
  case (Cons p ds)
  then show ?thesis
    by (cases "compress p ds")
      (simp_all add: final_lines_def tool_lines_def sort_table_def filter_sort_key)
qed (simp add: final_lines_def tool_lines_def sort_table_def filter_sort_key)

text \<open>Everything a run on a well-formed key file leaves behind.\<close>

definition fits_splits :: "OZRecord list \<Rightarrow> bool" where
  "fits_splits rs \<longleftrightarrow> length rs < OZSORT_PER_LINE * OZSORT_MAX_SPLITS"

lemma fits_splits_chunks: "fits_splits rs \<longleftrightarrow> length (chunks OZSORT_PER_LINE rs) \<le> OZSORT_MAX_SPLITS"
  by (simp add: fits_splits_def length_chunks OZSORT_PER_LINE_def OZSORT_MAX_SPLITS_def) arith

lemma ozsort_split_print:
  assumes "fopen_r w (src p) = Some (print_recs rs)" and "recs_ok rs" and "tmp_openable w"
    and "fits_splits rs"
  shows "ozsort_split now p w =
    Some (0, p\<lparr>splits := split_names (split_base now) 0 (length (chunks OZSORT_PER_LINE rs)), mlines := 0\<rparr>,
      write_splits (split_base now) 0 (map (sort_key rkey) (chunks OZSORT_PER_LINE rs)) w)"
proof -
  have "map (qsort cmp_oz_record) (chunks OZSORT_PER_LINE rs) = map (sort_key rkey) (chunks OZSORT_PER_LINE rs)"
    using recs_ok_chunks [OF assms(2), of OZSORT_PER_LINE] record_sort.sorter_eq recs_ok_nul_free
    by (simp add: list_all_iff [of recs_ok])
  with assms split_loop_print [of rs OZSORT_PER_LINE w "[]" OZSORT_MAX_SPLITS now] show ?thesis
    by (simp add: ozsort_split_def fits_splits_chunks) (simp add: OZSORT_PER_LINE_def)
qed

lemma ozsort_merge_print:
  assumes "recs_ok (concat css)" and "tmp_openable w" and "mlines p = 0"
    and "splits p = split_names (split_base now) 0 (length css)"
    and "w1 = write_splits (split_base now) 0 (map (sort_key rkey) css) w"
  shows "ozsort_merge now2 p w1 =
    Some (0, p\<lparr>merge := merge_path now2, mlines := snd (tool_lines (concat css))\<rparr>,
      foldl unlink (write_file w1 (merge_path now2) (fst (tool_lines (concat css)))) (splits p))"
proof -
  let ?rss = "map (sort_key rkey) css"
  have ok: "list_all recs_ok ?rss"
    using assms(1) by (auto simp: list_all_iff)
  obtain cs where cs: "first_reads (map print_recs ?rss) = Some cs" "list_all2 chan_rep cs ?rss"
    using first_reads_print [OF ok] by blast
  have "open_splits w1 (splits p) = Some (map print_recs ?rss)"
    using open_splits_written [OF assms(2), of now 0 ?rss] assms(4,5) by simp
  moreover have "fopen_w w1 (merge_path now2) = Some (write_file w1 (merge_path now2) [])"
    using assms(2,5) is_tmp_merge_path [of now2] by (simp add: fopen_w_write_file tmp_openable_def)
  moreover have "merge_loop cs None [] 0 = Some (tool_lines (concat css))"
    using merge_loop_spec [OF cs(2) ok, of None "[]" 0]
    by (simp add: sort_key_concat final_lines_tool split_beta)
  ultimately show ?thesis
    using cs(1) assms(3) by (simp add: ozsort_merge_def Let_def split_beta)
qed

definition clean_up :: "world \<Rightarrow> string list \<Rightarrow> world \<Rightarrow> bool" where
  "clean_up w tmps w' \<longleftrightarrow> openable w' = openable w
     \<and> (\<forall>p. \<not> is_tmp p \<longrightarrow> files w' p = files w p)
     \<and> (\<forall>p \<in> set tmps. files w' p = None)"

definition tool_tmps :: "int \<Rightarrow> int \<Rightarrow> OZRecord list \<Rightarrow> string list" where
  "tool_tmps now1 now2 rs =
     merge_path now2 # split_names (split_base now1) 0 (length rs div OZSORT_PER_LINE + 1)"

lemma per_line_pos [simp]: "0 < OZSORT_PER_LINE"
  by (simp add: OZSORT_PER_LINE_def)

lemma set_split_names: "set (split_names base k n) = {base @ dec j | j. k \<le> j \<and> j < k + n}"
  by (auto simp: split_names_def)

lemma ozsort_work_print:
  assumes "fopen_r w (src p) = Some (print_recs rs)" and "recs_ok rs" and "tmp_openable w"
    and "fits_splits rs"
  shows "\<exists>q w'. ozsort_work now1 now2 p w = Some (0, q, w')
    \<and> merge q = merge_path now2 \<and> mlines q = snd (tool_lines rs)
    \<and> files w' (merge q) = Some (fst (tool_lines rs))
    \<and> clean_up w (tool_tmps now1 now2 rs) (unlink w' (merge q))"
proof -
  let ?css = "chunks OZSORT_PER_LINE rs"
  let ?names = "split_names (split_base now1) 0 (length ?css)"
  let ?q = "p\<lparr>splits := ?names, mlines := 0\<rparr>"
  let ?w1 = "write_splits (split_base now1) 0 (map (sort_key rkey) ?css) w"
  let ?w' = "foldl unlink (write_file ?w1 (merge_path now2) (fst (tool_lines rs))) ?names"
  have run: "ozsort_work now1 now2 p w =
      Some (0, ?q\<lparr>merge := merge_path now2, mlines := snd (tool_lines rs)\<rparr>, ?w')"
    using ozsort_split_print [OF assms, of now1] ozsort_merge_print [of ?css w ?q now1 ?w1 now2] assms
    by (simp add: ozsort_work_def)
  have not_split: "merge_path now2 \<notin> set ?names"
    using merge_path_not_split by (auto simp: set_split_names)
  have no_tmp: "q \<noteq> split_base now1 @ s" "q \<noteq> merge_path now2" if "\<not> is_tmp q" for q s
    using that is_tmp_split_base is_tmp_merge_path by metis+
  then have other: "files ?w1 q = files w q" "q \<notin> set ?names" "q \<noteq> merge_path now2"
    if "\<not> is_tmp q" for q
    using that by (auto simp: set_split_names files_write_splits_other)
  have "clean_up w (tool_tmps now1 now2 rs) (unlink ?w' (merge_path now2))"
    using other
    by (auto simp: clean_up_def tool_tmps_def files_foldl_unlink file_simps length_chunks)
  with run not_split show ?thesis
    by (simp add: files_foldl_unlink file_simps)
qed

lemma ozsort_main_print:
  assumes "fopen_r w path = Some (print_recs rs)" and "recs_ok rs" and "tmp_openable w"
    and "fits_splits rs" and "length path < OZ_BUF_SIZE"
  shows "\<exists>w'. ozsort_main now1 now2 [a0, path] w =
      Some (0, dec (snd (tool_lines rs)) @ NL @ copy_stdout (fst (tool_lines rs)), w')
    \<and> clean_up w (tool_tmps now1 now2 rs) w'"
proof -
  let ?p = "\<lparr>src = path, splits = [], merge = [], mlines = 0\<rparr>"
  obtain q w' where q: "ozsort_work now1 now2 ?p w = Some (0, q, w')"
      "merge q = merge_path now2" "mlines q = snd (tool_lines rs)"
      "files w' (merge q) = Some (fst (tool_lines rs))"
      "clean_up w (tool_tmps now1 now2 rs) (unlink w' (merge q))"
    using ozsort_work_print [of w ?p rs now1 now2] assms by auto
  have "openable w' (merge q)"
    using q(2,5) assms(3) is_tmp_merge_path [of now2]
    by (simp add: clean_up_def tmp_openable_def file_simps)
  with q assms(5) show ?thesis
    by (simp add: ozsort_main_def fopen_r_def)
qed

text \<open>With more records than the split files hold, the tool reports \<open>0\<close> lines.\<close>

lemma ozsort_main_too_many:
  assumes "fopen_r w path = Some (print_recs rs)" and "recs_ok rs" and "tmp_openable w"
    and "\<not> fits_splits rs" and "length path < OZ_BUF_SIZE"
  shows "\<exists>w'. ozsort_main now1 now2 [a0, path] w = Some (2, ''0'' @ NL, w')"
proof -
  let ?p = "\<lparr>src = path, splits = [], merge = [], mlines = 0\<rparr>"
  obtain names w' where "split_loop OZSORT_PER_LINE OZSORT_MAX_SPLITS (split_base now1) [] w (print_recs rs)
      = Some (3, names, w')"
    using split_loop_too_many [of rs OZSORT_PER_LINE w OZSORT_MAX_SPLITS "[]" now1] assms
    by (auto simp: fits_splits_chunks not_le)
  then show ?thesis
    using assms by (simp add: ozsort_main_def ozsort_work_def ozsort_split_def)
qed

text \<open>Keys without the byte \<open>0xFF\<close> pass the copy to the standard output.\<close>

lemma copy_stdout_id: "CHR 0xFF \<notin> set c \<Longrightarrow> copy_stdout c = c"
  by (auto simp: copy_stdout_def takeWhile_eq_all_conv)

lemma FF_not_digit: "\<not> isdigit (CHR 0xFF)"
  by (simp add: isdigit_def)

lemma FF_print_recs:
  "list_all (\<lambda>r. CHR 0xFF \<notin> set (rkey r)) rs \<Longrightarrow> CHR 0xFF \<notin> set (print_recs rs)"
proof (induction rs)
  case (Cons r rs)
  moreover have "CHR 0xFF \<notin> set (dec n)" for n
    using dec_digits FF_not_digit by blast
  ultimately show ?case
    by (simp add: print_rec_def TAB_def NL_def)
qed simp

end
