(* ===== verification/ReadCorrect.thy ===== *)
theory ReadCorrect
  imports ReadCore SortCorrect
begin

text \<open>
  Correctness of the read side: the loaded table is the sorted table of the key file, the
  binary search finds exactly the keys of a strictly sorted table, a read returns the bytes
  that the record describes, and the batch read returns for every key what a single read
  would return, although it visits the value file in another order.
\<close>

section \<open>Loading the table\<close>

definition null_rec :: OZRecord where
  "null_rec = \<lparr>rkey = ''(null)'', roffset = 0, rlength = 0\<rparr>"

definition reader_table :: "OZRecord list \<Rightarrow> OZRecord list" where
  "reader_table rs = (if sort_table rs = [] then [null_rec] else sort_table rs)"

lemma print_prev_None: "print_prev None = print_rec null_rec"
  by (simp add: print_prev_def print_rec_def null_rec_def dec.simps [of 0] digits_0_9)

lemma tool_lines_reader: "tool_lines rs = (print_recs (reader_table rs), length (reader_table rs))"
  by (simp add: tool_lines_def reader_table_def print_prev_None split: list.split)

lemma reader_table_not_Nil [simp]: "reader_table rs \<noteq> []"
  by (simp add: reader_table_def)

lemma key_ok_null_rec: "key_ok (rkey null_rec)"
  by (simp add: key_ok_def null_rec_def OZ_KEY_BUF_SIZE_def isspace_def)

lemma sort_table_mem: "r \<in> set (sort_table rs) \<Longrightarrow> r \<in> set rs"
  using sort_table_latest latest_mem by blast

lemma recs_ok_reader_table: "recs_ok rs \<Longrightarrow> recs_ok (reader_table rs)"
  by (auto simp: reader_table_def list_all_iff key_ok_null_rec dest: sort_table_mem)

lemma reader_table_sorted: "sorted_wrt (<) (map rkey (reader_table rs))"
  using sort_table_sorted [of rs] by (simp add: reader_table_def)

lemma length_reader_table: "length (reader_table rs) \<le> length rs + 1"
proof -
  have "length (sort_table rs) \<le> length rs"
  proof -
    have "distinct (sort_table rs)"
      using sort_table_sorted [of rs]
      by (metis distinct_map strict_sorted_iff)
    then have "length (sort_table rs) = card (set (sort_table rs))"
      by (simp add: distinct_card)
    also have "\<dots> \<le> card (set rs)"
      using sort_table_mem by (intro card_mono) auto
    also have "\<dots> \<le> length rs"
      by (rule card_length)
    finally show ?thesis .
  qed
  then show ?thesis by (simp add: reader_table_def)
qed

lemma fill_table_print:
  "recs_ok rs \<Longrightarrow> length pre + length rs = length tab \<Longrightarrow> take (length pre) tab = map Ptr pre \<Longrightarrow>
     fill_table old (print_recs rs) (length pre) tab = Some (map Ptr (pre @ rs))"
proof (induction rs arbitrary: old pre tab)
  case Nil
  then show ?case by (simp add: fill_table.simps [of old] scan_simps)
next
  case (Cons r rs)
  let ?tab = "tab[length pre := Ptr r]"
  have "take (length (pre @ [r])) ?tab = map Ptr (pre @ [r])"
    using Cons.prems by (simp add: take_Suc_conv_app_nth)
  then have "fill_table r (print_recs rs) (length (pre @ [r])) ?tab = Some (map Ptr ((pre @ [r]) @ rs))"
    using Cons.prems by (intro Cons.IH) auto
  then show ?case
    using Cons.prems scan_print_recs_Cons [of r rs old]
    by (simp add: fill_table.simps [of old] del: print_recs_simps(2))
qed

lemma fill_table_skip_ws: "fill_table old (skip_ws s) cnt tab = fill_table old s cnt tab"
  by (subst (1 2) fill_table.simps) simp

text \<open>The handle holds exactly the records \<open>rs\<close>, sorted by key.\<close>

definition holds_table :: "OZRead \<Rightarrow> OZRecord list \<Rightarrow> bool" where
  "holds_table h rs \<longleftrightarrow> recs h = Ptr (map Ptr rs) \<and> nrecs h = int (length rs)
     \<and> sorted_wrt (<) (map rkey rs) \<and> list_all (\<lambda>r. nul_free (rkey r)) rs"

text \<open>
  What is relied on of the shell behind \<open>popen\<close>: a command of two plain words runs the
  program with the second word as its argument, and its output can be read.
\<close>

definition plain_word :: "string \<Rightarrow> bool" where
  "plain_word p \<longleftrightarrow> p \<noteq> [] \<and> list_all (\<lambda>c. c \<in> set ''/._-'' \<or> isdigit c
     \<or> (65 \<le> byte c \<and> byte c \<le> 90) \<or> (97 \<le> byte c \<and> byte c \<le> 122)) p"

definition runs_sort :: "popen_fun \<Rightarrow> int \<Rightarrow> int \<Rightarrow> bool" where
  "runs_sort popen now1 now2 \<longleftrightarrow> (\<forall>path w code out w'. plain_word path \<longrightarrow>
     ozsort_main now1 now2 [''./OZoneSort'', path] w = Some (code, out, w') \<longrightarrow>
     popen (''./OZoneSort '' @ path) w = Some (out, w'))"

definition no_FF :: "OZRecord list \<Rightarrow> bool" where
  "no_FF rs \<longleftrightarrow> list_all (\<lambda>r. CHR 0xFF \<notin> set (rkey r)) rs"

lemma no_FF_reader_table: "no_FF rs \<Longrightarrow> no_FF (reader_table rs)"
  by (auto simp: no_FF_def reader_table_def list_all_iff null_rec_def dest: sort_table_mem)

lemma open_kf_print:
  assumes "runs_sort popen now1 now2" and "plain_word (key_path db)" and "length db \<le> 900"
    and "fopen_r w (key_path db) = Some (print_recs rs)" and "recs_ok rs" and "no_FF rs"
    and "fits_splits rs" and "tmp_openable w"
  shows "\<exists>h w'. ozread_open_kf popen uninit w db = Some (0, h, w')
    \<and> holds_table h (reader_table rs) \<and> fpval h = Null \<and> clean_up w (tool_tmps now1 now2 rs) w'"
proof -
  let ?t = "reader_table rs"
  have path: "key_path db = db @ ''/'' @ OZ_KEY_FILENAME"
    using assms(3) by (simp add: key_path_def snprintf_path_full OZ_BUF_SIZE_def OZ_KEY_FILENAME_def)
  have cmd: "sort_command db = ''./OZoneSort '' @ key_path db"
    using assms(3) unfolding path
    by (simp add: sort_command_def OZ_BUF_SIZE_def OZ_KEY_FILENAME_def)
  have short: "length (key_path db) < OZ_BUF_SIZE"
    using assms(3) by (simp add: path OZ_BUF_SIZE_def OZ_KEY_FILENAME_def)
  have ok: "recs_ok ?t" and ff: "copy_stdout (print_recs ?t) = print_recs ?t"
    using recs_ok_reader_table [OF assms(5)] no_FF_reader_table [OF assms(6)] FF_print_recs
    by (auto simp: no_FF_def intro: copy_stdout_id)
  obtain w' where main: "ozsort_main now1 now2 [''./OZoneSort'', key_path db] w =
      Some (0, dec (length ?t) @ NL @ print_recs ?t, w')" "clean_up w (tool_tmps now1 now2 rs) w'"
    using ozsort_main_print [OF assms(4,5,8,7) short, of now1 now2 "''./OZoneSort''"] ff
    by (auto simp: tool_lines_reader)
  then have pipe: "popen (sort_command db) w = Some (dec (length ?t) @ NL @ print_recs ?t, w')"
    using assms(1,2) unfolding runs_sort_def cmd by blast
  have small: "length ?t < 2 ^ 63"
    using length_reader_table [of rs] assms(7)
    by (simp add: fits_splits_def OZSORT_PER_LINE_def OZSORT_MAX_SPLITS_def)
  have hdr: "scan_num (dec (length ?t) @ NL @ print_recs ?t) =
      (Some (False, length ?t), NL @ print_recs ?t)"
    by (rule scan_num_dec) (simp add: NL_def not_isdigit_TAB_NL)
  have "fill_table uninit (NL @ print_recs ?t) 0 (replicate (length ?t) Uninit) = Some (map Ptr ?t)"
    using fill_table_print [of ?t "[]" "replicate (length ?t) Uninit" uninit] ok
      fill_table_skip_ws [of uninit "NL @ print_recs ?t"]
    by (simp add: NL_def scan_simps skip_ws_print_recs)
  then show ?thesis
    using main(2) reader_table_sorted [of rs] recs_ok_nul_free [OF ok] small
    by (simp add: ozread_open_kf_def pipe hdr null_handle_def holds_table_def Let_def)
qed

section \<open>Binary search\<close>

definition lookup_rec :: "OZRecord list \<Rightarrow> string \<Rightarrow> OZRecord option" where
  "lookup_rec rs k = find (\<lambda>r. rkey r = k) rs"

lemma lookup_rec_None: "lookup_rec rs k = None \<longleftrightarrow> k \<notin> rkey ` set rs"
  by (auto simp: lookup_rec_def find_None_iff)

lemma lookup_rec_nth:
  assumes "sorted_wrt (<) (map rkey rs)" and "i < length rs"
  shows "lookup_rec rs (rkey (rs ! i)) = Some (rs ! i)"
proof -
  have "distinct (map rkey rs)"
    using assms(1) by (simp add: strict_sorted_iff)
  then have "rkey (rs ! j) \<noteq> rkey (rs ! i)" if "j < i" for j
    using assms(2) that nth_eq_iff_index_eq [of "map rkey rs" j i] by simp
  then show ?thesis
    using assms(2) by (auto simp: lookup_rec_def find_Some_iff)
qed

lemma compare_at_table:
  "holds_table h rs \<Longrightarrow> 0 \<le> i \<Longrightarrow> i < int (length rs) \<Longrightarrow>
     compare_at h (Ptr k) i = Some (strcmp (rkey (rs ! nat i)) k, rs ! nat i)"
  by (simp add: compare_at_def rec_at_def holds_table_def nat_less_iff)

text \<open>The two halves of a sorted table, and an empty gap between them.\<close>

lemma table_less:
  "sorted_wrt (<) (map rkey rs) \<Longrightarrow> i < j \<Longrightarrow> j < length rs \<Longrightarrow> rkey (rs ! i) < rkey (rs ! j)"
  using sorted_wrt_nth_less [of "(<)" "map rkey rs" i j] by simp

lemma below_mid:
  assumes "sorted_wrt (<) (map rkey rs)" and "0 \<le> mid" and "nat mid < length rs" and "rkey (rs ! nat mid) < k"
  shows "\<forall>i < length rs. int i < mid + 1 \<longrightarrow> rkey (rs ! i) < k"
proof (intro allI impI)
  fix i assume "i < length rs" "int i < mid + 1"
  then have "i = nat mid \<or> i < nat mid" using assms(2) by linarith
  then show "rkey (rs ! i) < k"
    using table_less [OF assms(1) _ assms(3), of i] assms(4) by force
qed

lemma above_mid:
  assumes "sorted_wrt (<) (map rkey rs)" and "0 \<le> mid" and "k < rkey (rs ! nat mid)"
  shows "\<forall>i < length rs. mid - 1 < int i \<longrightarrow> k < rkey (rs ! i)"
proof (intro allI impI)
  fix i assume i: "i < length rs" "mid - 1 < int i"
  then have "i = nat mid \<or> nat mid < i" using assms(2) by linarith
  then show "k < rkey (rs ! i)"
    using table_less [OF assms(1) _ i(1), of "nat mid"] assms(3) by force
qed

lemma lookup_gap:
  assumes "\<forall>i < length rs. int i < low \<longrightarrow> rkey (rs ! i) < k"
    and "\<forall>i < length rs. high < int i \<longrightarrow> k < rkey (rs ! i)" and "high < low"
  shows "lookup_rec rs k = None"
proof -
  have "rkey (rs ! i) \<noteq> k" if "i < length rs" for i
    using assms that by (cases "int i < low") force+
  then show ?thesis
    by (force simp: lookup_rec_None in_set_conv_nth)
qed

lemma search_correct:
  assumes "holds_table h rs" and "nul_free k" and "0 \<le> low" and "high < int (length rs)"
    and "\<forall>i < length rs. int i < low \<longrightarrow> rkey (rs ! i) < k"
    and "\<forall>i < length rs. high < int i \<longrightarrow> k < rkey (rs ! i)"
  shows "search h (Ptr k) low high =
    Some (case lookup_rec rs k of None \<Rightarrow> (1, None) | Some r \<Rightarrow> (0, Some r))"
  using assms
proof (induction h "Ptr k" low high rule: search.induct)
  case (1 h low high)
  note unfold = search.simps [of h "Ptr k" low high]
  show ?case
  proof (cases "low \<le> high")
    case False
    then show ?thesis
      using lookup_gap [OF "1.prems"(5,6)] by (simp add: unfold)
  next
    case True
    define mid where "mid = (low + high) div 2"
    let ?r = "rs ! nat mid"
    have mid: "low \<le> mid" "mid \<le> high" "0 \<le> mid" "mid < int (length rs)" "nat mid < length rs"
      using True "1.prems"(3,4) by (auto simp: mid_def)
    have cmp: "compare_at h (Ptr k) mid = Some (strcmp (rkey ?r) k, ?r)"
      using "1.prems"(1) mid by (simp add: compare_at_table)
    have nf: "nul_free (rkey ?r)" and srt: "sorted_wrt (<) (map rkey rs)"
      using "1.prems"(1) mid by (simp_all add: holds_table_def list_all_length)
    consider "rkey ?r = k" | "k < rkey ?r" | "rkey ?r < k"
      by force
    then show ?thesis
    proof cases
      case 1
      then show ?thesis
        using True cmp nf lookup_rec_nth [OF srt mid(5)] by (simp add: unfold mid_def [symmetric] strcmp_eq)
    next
      case 2
      then show ?thesis
        using "1.hyps"(1) [OF True mid_def cmp] above_mid [OF srt mid(3) 2] "1.prems" True cmp
          less_imp_neq [OF 2] nf mid
        by (simp add: unfold mid_def [symmetric] strcmp_eq strcmp_greater)
    next
      case 3
      then show ?thesis
        using "1.hyps"(2) [OF True mid_def cmp] below_mid [OF srt mid(3,5) 3] "1.prems" True cmp
          less_imp_neq [OF 3] less_not_sym [OF 3] nf mid
        by (simp add: unfold mid_def [symmetric] strcmp_eq strcmp_greater)
    qed
  qed
qed

lemma get_key_correct:
  assumes "holds_table h rs" and "nul_free k"
  shows "ozread_get_key h (Ptr k) =
    Some (case lookup_rec rs k of None \<Rightarrow> (1, None) | Some r \<Rightarrow> (0, Some r))"
  unfolding ozread_get_key_def
  using assms by (intro search_correct) (auto simp: holds_table_def)

section \<open>One value\<close>

text \<open>
  A record is readable when its bytes are in the file and its length is neither 0 nor the
  one length whose buffer size wraps around.  The value buffer then holds the bytes and a
  final NUL.
\<close>

definition readable :: "string \<Rightarrow> OZRecord \<Rightarrow> bool" where
  "readable c r \<longleftrightarrow> fseeko_ok (roffset r) \<and> rlength r \<noteq> 0 \<and> rlength r \<noteq> - 1
     \<and> unat (roffset r) + unat (rlength r) \<le> length c"

definition rec_bytes :: "string \<Rightarrow> OZRecord \<Rightarrow> string" where
  "rec_bytes c r = fread_bytes c (unat (roffset r)) (unat (rlength r))"

definition value_buffer :: "string \<Rightarrow> OZRecord \<Rightarrow> buffer" where
  "value_buffer c r = (value_bufsize (rlength r), rec_bytes c r @ [CHR 0x00])"

lemma value_bufsize: "len \<noteq> - 1 \<Longrightarrow> value_bufsize len = unat len + 1"
proof -
  assume "len \<noteq> - 1"
  then have "1 + len \<noteq> 0"
    by (metis add.commute add_eq_0_iff minus_minus)
  then show ?thesis
    by (simp add: value_bufsize_def unatSuc add.commute [of len])
qed

lemma fread_ret_readable:
  "readable c r \<Longrightarrow> fread_ret c (unat (roffset r)) (unat (rlength r)) = 1"
  by (simp add: readable_def fread_ret_def unat_eq_0)

lemma length_rec_bytes: "readable c r \<Longrightarrow> length (rec_bytes c r) = unat (rlength r)"
  using fread_ret_readable fread_ret_full by (simp add: rec_bytes_def)

lemma get_value_readable:
  assumes "readable (content w path) r" and "fpval h = Ptr path"
  shows "ozread_get_value w h r (value_bufsize (rlength r), []) = Some (0, value_buffer (content w path) r)"
  using assms fread_ret_readable [OF assms(1)] length_rec_bytes [OF assms(1)]
  by (simp add: ozread_get_value_def readable_def value_bufsize buffer_read_def buffer_nul_def
      value_buffer_def rec_bytes_def Let_def)

text \<open>The value of a key in a table over the contents of the value file.\<close>

definition table_get :: "OZRecord list \<Rightarrow> string \<Rightarrow> string \<Rightarrow> string option" where
  "table_get rs c k = map_option (rec_bytes c) (lookup_rec rs k)"

lemma lookup_rec_mem: "lookup_rec rs k = Some r \<Longrightarrow> r \<in> set rs \<and> rkey r = k"
  by (auto simp: lookup_rec_def find_Some_iff)

text \<open>Every outcome of a single read on a loaded table.\<close>

lemma get_missing:
  assumes "holds_table h rs" and "nul_free k" and "gkey p = Ptr k" and "lookup_rec rs k = None"
  shows "ozread_get alloc w (Some h) (Some p) = Some (3, Some p)"
  using get_key_correct [OF assms(1,2)] assms(3,4) by (simp add: ozread_get_def)

lemma get_no_memory:
  assumes "holds_table h rs" and "nul_free k" and "gkey p = Ptr k" and "lookup_rec rs k = Some r"
    and "\<not> alloc 0 (value_bufsize (rlength r))"
  shows "ozread_get alloc w (Some h) (Some p) = Some (5, Some (p\<lparr>gvalue := Null, glen := rlength r\<rparr>))"
  using get_key_correct [OF assms(1,2)] assms(3-5) by (simp add: ozread_get_def)

lemma get_found:
  assumes "holds_table h rs" and "nul_free k" and "gkey p = Ptr k" and "lookup_rec rs k = Some r"
    and "alloc 0 (value_bufsize (rlength r))" and "fpval h = Ptr path"
    and "readable (content w path) r"
  shows "ozread_get alloc w (Some h) (Some p) =
    Some (0, Some (p\<lparr>gvalue := Ptr (value_buffer (content w path) r), glen := rlength r\<rparr>))"
  using get_key_correct [OF assms(1,2)] get_value_readable [OF assms(7,6)] assms(3-5)
  by (simp add: ozread_get_def Let_def)

lemma get_value_unreadable:
  assumes "\<not> readable (content w path) r" and "rlength r \<noteq> - 1" and "fpval h = Ptr path"
  shows "\<exists>ret buf. ozread_get_value w h r (value_bufsize (rlength r), []) = Some (ret, buf) \<and> ret \<noteq> 0"
proof (cases "fseeko_ok (roffset r)")
  case False
  with assms show ?thesis by (simp add: ozread_get_value_def)
next
  case True
  let ?c = "content w path" and ?pos = "unat (roffset r)" and ?n = "unat (rlength r)"
  have "fread_ret ?c ?pos ?n \<noteq> 1"
    using assms(1,2) True by (auto simp: fread_ret_def readable_def unat_eq_0 split: if_splits)
  moreover have "length (fread_bytes ?c ?pos ?n) \<le> ?n"
    by (rule length_fread_bytes)
  ultimately show ?thesis
    using assms True
    by (simp add: ozread_get_value_def buffer_read_def value_bufsize Let_def)
qed

lemma get_unreadable:
  assumes "holds_table h rs" and "nul_free k" and "gkey p = Ptr k" and "lookup_rec rs k = Some r"
    and "alloc 0 (value_bufsize (rlength r))" and "fpval h = Ptr path"
    and "\<not> readable (content w path) r" and "rlength r \<noteq> - 1"
  shows "\<exists>buf. ozread_get alloc w (Some h) (Some p) =
    Some (4, Some (p\<lparr>gvalue := Ptr buf, glen := rlength r\<rparr>))"
proof -
  obtain ret buf where "ozread_get_value w h r (value_bufsize (rlength r), []) = Some (ret, buf)" "ret \<noteq> 0"
    using get_value_unreadable [OF assms(7,8,6)] by blast
  then show ?thesis
    using get_key_correct [OF assms(1,2)] assms(3-5)
    by (intro exI [of _ buf]) (simp add: ozread_get_def Let_def)
qed

section \<open>The batch read\<close>

interpretation cookie_sort: stable_sorter "qsort cmp_ozread_gets_keys" "\<lambda>c. sint (coffset c)" "\<lambda>_. True"
proof
  fix xs :: "OZRead_Cookie list" and k
  have "cmp_ozread_gets_keys x y \<le> 0 \<longleftrightarrow> sint (coffset x) \<le> sint (coffset y)" for x y
    by (simp add: cmp_ozread_gets_keys_def Let_def)
  from qsort_sorted_stable [of xs cmp_ozread_gets_keys "\<lambda>c. sint (coffset c)", OF this]
  show "sorted (map (\<lambda>c. sint (coffset c)) (qsort cmp_ozread_gets_keys xs))"
    and "filter (\<lambda>x. sint (coffset x) = k) (qsort cmp_ozread_gets_keys xs) =
      filter (\<lambda>x. sint (coffset x) = k) xs"
    by blast+
qed

definition cookie_of :: "OZRecord \<Rightarrow> nat \<Rightarrow> OZRead_Cookie" where
  "cookie_of r i = \<lparr>coffset = roffset r, clength = rlength r, cindex = i\<rparr>"

definition rec_of :: "OZRead_Cookie \<Rightarrow> OZRecord" where
  "rec_of c = \<lparr>rkey = [], roffset = coffset c, rlength = clength c\<rparr>"

text \<open>The record that answers request \<open>i\<close>, if any; null keys and missing keys have none.\<close>

definition request_rec :: "OZRecord list \<Rightarrow> string ptr list \<Rightarrow> nat \<Rightarrow> OZRecord option" where
  "request_rec rs ks i = (case ks ! i of Ptr k \<Rightarrow> lookup_rec rs k | _ \<Rightarrow> None)"

definition keys_valid :: "string ptr list \<Rightarrow> bool" where
  "keys_valid ks \<longleftrightarrow> list_all (\<lambda>k. case k of Null \<Rightarrow> True | Ptr s \<Rightarrow> nul_free s | _ \<Rightarrow> False) ks"

lemma find_cookies_correct:
  assumes "holds_table h rs" and "keys_valid ks"
  shows "\<exists>cs. find_cookies h n ks = Some cs \<and> distinct (map cindex cs) \<and>
    (\<forall>c. c \<in> set cs \<longleftrightarrow> (\<exists>i < length ks. \<exists>r. request_rec rs ks i = Some r \<and> c = cookie_of r (n + i)))"
  using assms(2)
proof (induction ks arbitrary: n)
  case (Cons k ks)
  then obtain cs where cs: "find_cookies h (n + 1) ks = Some cs" "distinct (map cindex cs)"
      "\<And>c. c \<in> set cs \<longleftrightarrow> (\<exists>i < length ks. \<exists>r. request_rec rs ks i = Some r \<and> c = cookie_of r (n + 1 + i))"
    using Cons.IH [of "n + 1"] by (auto simp: keys_valid_def)
  have "n < cindex c" if "c \<in> set cs" for c
  proof -
    obtain i r where "c = cookie_of r (n + 1 + i)"
      using cs(3) \<open>c \<in> set cs\<close> by blast
    then show ?thesis by (simp add: cookie_of_def)
  qed
  then have fresh: "n \<notin> cindex ` set cs"
    by fastforce
  have ex: "(\<exists>i < length (k # ks). \<exists>r. request_rec rs (k # ks) i = Some r \<and> c = cookie_of r (n + i))
      \<longleftrightarrow> (\<exists>r. request_rec rs (k # ks) 0 = Some r \<and> c = cookie_of r n) \<or> c \<in> set cs" for c
    by (simp add: cs(3) Ex_less_Suc2 request_rec_def)
  consider "k = Null" | s where "k = Ptr s" "nul_free s"
    using Cons.prems by (cases k) (auto simp: keys_valid_def)
  then show ?case
  proof cases
    case 1
    then show ?thesis
      using cs fresh unfolding ex by (simp add: request_rec_def)
  next
    case 2
    then show ?thesis
      using cs(1,2) fresh get_key_correct [OF assms(1) 2(2)] unfolding ex
      by (cases "lookup_rec rs s") (auto simp: request_rec_def cookie_of_def)
  qed
qed (simp add: request_rec_def)

text \<open>Storing into distinct slots: the order of the cookies does not matter.\<close>

definition put_slots :: "(OZRead_Cookie \<Rightarrow> 'b) \<Rightarrow> OZRead_Cookie list \<Rightarrow> 'b list \<Rightarrow> 'b list" where
  "put_slots f cs vs = foldl (\<lambda>us c. us[cindex c := f c]) vs cs"

lemma put_slots_simps [simp]:
  "put_slots f [] vs = vs"
  "put_slots f (c # cs) vs = put_slots f cs (vs[cindex c := f c])"
  by (simp_all add: put_slots_def)

lemma length_put_slots [simp]: "length (put_slots f cs vs) = length vs"
  by (induction cs arbitrary: vs) auto

lemma nth_put_slots_other:
  "i \<notin> cindex ` set cs \<Longrightarrow> put_slots f cs vs ! i = vs ! i"
  by (induction cs arbitrary: vs) auto

lemma nth_put_slots:
  "distinct (map cindex cs) \<Longrightarrow> c \<in> set cs \<Longrightarrow> cindex c < length vs \<Longrightarrow>
     put_slots f cs vs ! cindex c = f c"
proof (induction cs arbitrary: vs)
  case (Cons d cs)
  then show ?case
    by (cases "c = d") (auto simp: nth_put_slots_other)
qed simp

lemma put_slots_perm:
  assumes "set cs = set ds" and "distinct (map cindex cs)" and "distinct (map cindex ds)"
    and "\<forall>c \<in> set cs. cindex c < length vs"
  shows "put_slots f cs vs = put_slots f ds vs"
proof (rule nth_equalityI)
  fix i assume "i < length (put_slots f cs vs)"
  show "put_slots f cs vs ! i = put_slots f ds vs ! i"
  proof (cases "i \<in> cindex ` set cs")
    case True
    then obtain c where "c \<in> set cs" "i = cindex c" by auto
    with assms show ?thesis by (simp add: nth_put_slots)
  next
    case False
    with assms(1) show ?thesis by (simp add: nth_put_slots_other)
  qed
qed simp

lemma alloc_values_ok:
  "\<forall>c \<in> set cs. cindex c < length vs \<Longrightarrow> (\<And>i n. alloc i n) \<Longrightarrow>
    alloc_values alloc i cs vs = Some (0, put_slots (\<lambda>c. Ptr (value_bufsize (clength c), [])) cs vs)"
  by (induction cs arbitrary: i vs) auto

lemma read_cookie_ok:
  assumes "readable c (rec_of pc)" and "cindex pc < length vs"
    and "vs ! cindex pc = Ptr (value_bufsize (clength pc), [])"
  shows "read_cookie c pc vs = Some (vs[cindex pc := Ptr (value_buffer c (rec_of pc))])"
  using assms fread_ret_readable [OF assms(1)] length_rec_bytes [OF assms(1)]
  by (simp add: read_cookie_def readable_def rec_of_def value_bufsize buffer_read_def
      buffer_nul_def value_buffer_def rec_bytes_def Let_def)

lemma read_values_ok:
  "distinct (map cindex cs) \<Longrightarrow> \<forall>pc \<in> set cs. readable c (rec_of pc) \<and> cindex pc < length vs
      \<and> vs ! cindex pc = Ptr (value_bufsize (clength pc), []) \<Longrightarrow>
    read_values c cs vs = Some (put_slots (\<lambda>pc. Ptr (value_buffer c (rec_of pc))) cs vs)"
proof (induction cs arbitrary: vs)
  case (Cons pc cs)
  let ?vs = "vs[cindex pc := Ptr (value_buffer c (rec_of pc))]"
  have "\<forall>pd \<in> set cs. cindex pd \<noteq> cindex pc"
    using Cons.prems(1) by (force simp: image_iff)
  then have "read_values c cs ?vs = Some (put_slots (\<lambda>pc. Ptr (value_buffer c (rec_of pc))) cs ?vs)"
    using Cons.prems by (intro Cons.IH) auto
  then show ?case
    using Cons.prems read_cookie_ok [of c pc vs] by simp
qed simp

text \<open>
  The values that a batch read returns: for each request the buffer of its record, or a
  null pointer.
\<close>

definition batch_values :: "OZRecord list \<Rightarrow> string \<Rightarrow> string ptr list \<Rightarrow> buffer ptr list" where
  "batch_values rs c ks = map (\<lambda>i. case request_rec rs ks i of
       None \<Rightarrow> Null | Some r \<Rightarrow> Ptr (value_buffer c r)) [0..<length ks]"

lemma value_buffer_rec_of: "value_buffer c (rec_of (cookie_of r i)) = value_buffer c r"
  by (simp add: value_buffer_def rec_bytes_def rec_of_def cookie_of_def)

lemma readable_rec_of: "readable c (rec_of (cookie_of r i)) \<longleftrightarrow> readable c r"
  by (simp add: readable_def rec_of_def cookie_of_def)

text \<open>Filling the slots of the cookies gives the values of the batch.\<close>

lemma batch_slots:
  assumes "distinct (map cindex ds)"
    and mem: "\<And>c. c \<in> set ds \<longleftrightarrow> (\<exists>i < length ks. \<exists>r. request_rec rs ks i = Some r \<and> c = cookie_of r i)"
  shows "put_slots (\<lambda>pc. Ptr (value_buffer v (rec_of pc))) ds
      (put_slots (\<lambda>c. Ptr (value_bufsize (clength c), [])) ds (replicate (length ks) Null)) = batch_values rs v ks"
    (is "?us = _")
proof (rule nth_equalityI)
  fix i assume "i < length ?us"
  then have i: "i < length ks" by simp
  show "?us ! i = batch_values rs v ks ! i"
  proof (cases "request_rec rs ks i")
    case None
    then have "i \<notin> cindex ` set ds"
      using mem by (auto simp: cookie_of_def)
    with None i show ?thesis
      by (simp add: nth_put_slots_other batch_values_def)
  next
    case (Some r)
    then have "cookie_of r i \<in> set ds" "cindex (cookie_of r i) = i"
      using mem i by auto (simp add: cookie_of_def)
    then show ?thesis
      using nth_put_slots [OF assms(1), of "cookie_of r i" "put_slots (\<lambda>c. Ptr (value_bufsize (clength c), [] :: string)) ds
          (replicate (length ks) Null)"] i Some
      by (simp add: batch_values_def value_buffer_rec_of)
  qed
qed (simp add: batch_values_def)

text \<open>The cookies in the order of their offsets.\<close>

lemma sorted_cookies:
  assumes "holds_table h rs" and "keys_valid ks"
  shows "\<exists>cs. find_cookies h 0 ks = Some cs \<and> distinct (map cindex (qsort cmp_ozread_gets_keys cs))
    \<and> length cs \<le> length ks
    \<and> (\<forall>c. c \<in> set (qsort cmp_ozread_gets_keys cs) \<longleftrightarrow>
        (\<exists>i < length ks. \<exists>r. request_rec rs ks i = Some r \<and> c = cookie_of r i))"
proof -
  obtain cs where find: "find_cookies h 0 ks = Some cs" and dist: "distinct (map cindex cs)"
    and mem: "\<And>c. c \<in> set cs \<longleftrightarrow> (\<exists>i < length ks. \<exists>r. request_rec rs ks i = Some r \<and> c = cookie_of r i)"
    using find_cookies_correct [OF assms, of 0] by auto
  have "mset (map cindex (qsort cmp_ozread_gets_keys cs)) = mset (map cindex cs)"
    using cookie_sort.sorter_mset [of cs] by (simp add: list_all_iff)
  then have "distinct (map cindex (qsort cmp_ozread_gets_keys cs))"
    using dist by (metis mset_eq_imp_distinct_iff)
  moreover have "card (cindex ` set cs) \<le> card {..<length ks}"
    using mem by (intro card_mono) (auto simp: cookie_of_def)
  ultimately show ?thesis
    using find mem dist by (intro exI [of _ cs]) (simp add: card_image distinct_map distinct_card)
qed

lemma gets_correct:
  assumes table: "holds_table h rs" and vfile: "fpval h = Ptr path"
    and rng: "list_all (readable (content w path)) rs"
    and mem: "\<And>i n. alloc i n"
    and param: "skeys p = Ptr ks" "nkeys p = length ks" "keys_valid ks"
      "svalues p = Ptr (replicate (length ks) Null)" "cookie_cap p = Ptr (length ks)"
  shows "\<exists>cs. ozread_gets alloc w (Some h) (Some p) =
    Some (0, Some (p\<lparr>svalues := Ptr (batch_values rs (content w path) ks), cookies := cs\<rparr>))"
proof -
  let ?c = "content w path" and ?n = "length ks"
  obtain cs where find: "find_cookies h 0 ks = Some cs" and cap: "length cs \<le> ?n"
    and dist: "distinct (map cindex (qsort cmp_ozread_gets_keys cs))"
    and mem_cs: "\<And>c. c \<in> set (qsort cmp_ozread_gets_keys cs) \<longleftrightarrow>
      (\<exists>i < ?n. \<exists>r. request_rec rs ks i = Some r \<and> c = cookie_of r i)"
    using sorted_cookies [OF table param(3)] by blast
  define ds where "ds = qsort cmp_ozread_gets_keys cs"
  note ds = dist [folded ds_def] mem_cs [folded ds_def]
  have empty: "ds = [] \<longleftrightarrow> cs = []"
    using set_empty [of ds] set_empty [of cs] by (simp add: ds_def)
  have below: "\<forall>c \<in> set ds. cindex c < ?n"
    using ds(2) by (auto simp: cookie_of_def)
  have rd: "\<forall>pc \<in> set ds. readable ?c (rec_of pc)"
    using ds(2) rng lookup_rec_mem
    by (fastforce simp: readable_rec_of request_rec_def list_all_iff split: ptr.splits)
  define vs :: "buffer ptr list" where "vs = put_slots (\<lambda>c. Ptr (value_bufsize (clength c), [])) ds (replicate ?n Null)"
  have alloc_run: "alloc_values alloc 0 ds (replicate ?n Null) = Some (0, vs)"
    using below mem unfolding vs_def by (intro alloc_values_ok) auto
  have read_run: "read_values ?c ds vs = Some (batch_values rs ?c ks)"
    unfolding batch_slots [OF ds, of ?c, symmetric] vs_def [symmetric]
    using rd below ds(1) by (intro read_values_ok) (auto simp: vs_def nth_put_slots)
  have keys_run: "ozread_gets_keys h p = Some (0, p\<lparr>cookies := ds\<rparr>)"
    using param find cap by (auto simp: ozread_gets_keys_def ds_def)
  show ?thesis
  proof (cases "cs = []")
    case True
    then have "batch_values rs ?c ks = replicate ?n Null"
      using batch_slots [OF ds, of ?c] empty by simp
    then show ?thesis
      using True keys_run empty param mem
      by (intro exI [of _ "[]"]) (simp add: ozread_gets_def ozread_gets_values_def)
  next
    case False
    then show ?thesis
      using keys_run empty param alloc_run read_run vfile
      by (intro exI [of _ ds]) (simp add: ozread_gets_def ozread_gets_values_def)
  qed
qed

end
