(* ===== verification/Store.thy ===== *)
theory Store
  imports WriteCore ReadCorrect
begin

text \<open>
  The store as a map.  A database is the text of its key file and its value file; \<open>db_inv\<close>
  is the invariant that every operation of the writer keeps, \<open>db_map\<close> the map from keys to
  values that the two files stand for.  A put is a map update, and what a reader gets is the
  map, when it opens the database later.
\<close>

section \<open>The invariant and the abstraction\<close>

definition in_file :: "string \<Rightarrow> OZRecord \<Rightarrow> bool" where
  "in_file v r \<longleftrightarrow> rlength r \<noteq> 0 \<and> unat (roffset r) + unat (rlength r) \<le> length v"

definition db_inv :: "string \<Rightarrow> string \<Rightarrow> OZRecord list \<Rightarrow> bool" where
  "db_inv k v rs \<longleftrightarrow> k = print_recs rs \<and> recs_ok rs \<and> list_all (in_file v) rs
     \<and> sorted_wrt (<) (map (\<lambda>r. unat (roffset r)) rs) \<and> length v < 2 ^ 63"

definition db_map :: "string \<Rightarrow> OZRecord list \<Rightarrow> string \<Rightarrow> string option" where
  "db_map v rs key = map_option (rec_bytes v) (latest rs key)"

lemma db_inv_empty: "db_inv [] [] []"
  by (simp add: db_inv_def)

lemma db_map_empty: "db_map v [] = (\<lambda>_. None)"
  by (simp add: db_map_def latest_def fun_eq_iff)

definition new_rec :: "string \<Rightarrow> string \<Rightarrow> string \<Rightarrow> OZRecord" where
  "new_rec v key val = \<lparr>rkey = key, roffset = of_nat (length v), rlength = of_nat (length val)\<rparr>"

lemma rec_bytes_append:
  "in_file v r \<Longrightarrow> rec_bytes (v @ u) r = rec_bytes v r"
  by (simp add: rec_bytes_def fread_bytes_def in_file_def)

lemma in_file_append: "in_file v r \<Longrightarrow> in_file (v @ u) r"
  by (simp add: in_file_def)

lemma latest_snoc:
  "latest (rs @ [r]) k = (if rkey r = k then pick (latest rs k) r else latest rs k)"
  by (simp add: latest_def)

lemma latest_snoc_larger:
  assumes "\<forall>q \<in> set rs. roffset q \<le> roffset r"
  shows "latest (rs @ [r]) k = (if rkey r = k then Some r else latest rs k)"
  using assms latest_mem [of rs k]
  by (auto simp: latest_snoc pick_def newer_def split: option.splits)

lemma new_rec_simps [simp]:
  "rkey (new_rec v key val) = key"
  "length v < 2 ^ 63 \<Longrightarrow> unat (roffset (new_rec v key val)) = length v"
  "length val < 2 ^ 32 \<Longrightarrow> unat (rlength (new_rec v key val)) = length val"
  by (simp_all add: new_rec_def)

lemma in_file_offset_le:
  "in_file v r \<Longrightarrow> unat (roffset r) < length v"
  using unat_gt_0 [of "rlength r"] by (simp add: in_file_def)

text \<open>Appending a record for the value that is appended to the value file.\<close>

lemma db_inv_append:
  assumes "db_inv k v rs" and "key_ok key" and "val \<noteq> []" and "length val < 2 ^ 32"
    and "length (v @ val) < 2 ^ 63"
  shows "db_inv (k @ print_rec (new_rec v key val)) (v @ val) (rs @ [new_rec v key val])"
proof -
  have v: "length v < 2 ^ 63" using assms(5) by simp
  have "rlength (new_rec v key val) \<noteq> 0"
    using new_rec_simps(3) [OF assms(4), of v key] assms(3) by (metis length_0_conv unat_0)
  then have "in_file (v @ val) (new_rec v key val)"
    using assms(4) v by (simp add: in_file_def)
  moreover have "\<forall>r \<in> set rs. unat (roffset r) < length v"
    using assms(1) by (simp add: db_inv_def list_all_iff in_file_offset_le)
  ultimately show ?thesis
    using assms v
    by (auto simp: db_inv_def sorted_wrt_append in_file_append list_all_iff)
qed

lemma db_map_append:
  assumes "db_inv k v rs" and "val \<noteq> []" and "length val < 2 ^ 32" and "length (v @ val) < 2 ^ 63"
  shows "db_map (v @ val) (rs @ [new_rec v key val]) = (db_map v rs)(key \<mapsto> val)"
proof
  fix k'
  have v: "length v < 2 ^ 63" using assms(4) by simp
  have "\<forall>q \<in> set rs. roffset q \<le> roffset (new_rec v key val)"
    using assms(1) v in_file_offset_le
    by (fastforce simp: word_le_nat_alt db_inv_def list_all_iff)
  note l = latest_snoc_larger [OF this]
  have "rec_bytes (v @ val) (new_rec v key val) = val"
    using assms(3) v by (simp add: rec_bytes_def fread_bytes_def)
  moreover have "rec_bytes (v @ val) r = rec_bytes v r" if "latest rs k' = Some r" for r
    using latest_mem [OF that] assms(1) by (simp add: db_inv_def list_all_iff rec_bytes_append)
  ultimately show "db_map (v @ val) (rs @ [new_rec v key val]) k' = ((db_map v rs)(key \<mapsto> val)) k'"
    by (cases "latest rs k'") (auto simp: db_map_def l)
qed

text \<open>Bytes appended without a record do not change the map.\<close>

lemma db_inv_orphan:
  assumes "db_inv k v rs" and "length (v @ u) < 2 ^ 63"
  shows "db_inv k (v @ u) rs"
  using assms by (auto simp: db_inv_def list_all_iff in_file_append)

lemma db_map_orphan:
  assumes "db_inv k v rs"
  shows "db_map (v @ u) rs = db_map v rs"
proof
  fix key
  show "db_map (v @ u) rs key = db_map v rs key"
    using assms latest_mem [of rs key]
    by (cases "latest rs key") (auto simp: db_map_def db_inv_def list_all_iff rec_bytes_append)
qed

section \<open>The writer\<close>

text \<open>
  An open writer on a database: the streams belong to the two files; the text of a file is
  what is on disk followed by what is buffered, and \<open>ftello\<close> on the value stream is the
  length of that text.
\<close>

definition stream_text :: "world \<Rightarrow> ostream \<Rightarrow> string" where
  "stream_text w f = content w (os_path f) @ os_buf f"

definition writer_inv :: "string \<Rightarrow> world \<Rightarrow> OZWrite \<Rightarrow> string \<Rightarrow> OZRecord list \<Rightarrow> bool" where
  "writer_inv db w h v rs \<longleftrightarrow> (\<exists>fk fv. wkey h = Ptr fk \<and> wval h = Ptr fv
     \<and> os_path fk = key_path db \<and> os_path fv = value_path db \<and> key_path db \<noteq> value_path db
     \<and> os_pos fv = length (content w (value_path db))
     \<and> stream_text w fv = v \<and> db_inv (stream_text w fk) v rs)"

lemma stream_put_simps [simp]:
  "os_path (stream_put f b) = os_path f" "os_pos (stream_put f b) = os_pos f"
  "os_buf (stream_put f b) = os_buf f @ b"
  by (simp_all add: stream_put_def)

lemma stream_text_put [simp]: "stream_text w (stream_put f b) = stream_text w f @ b"
  by (simp add: stream_text_def)

lemma fflush_cases:
  obtains f' w' where "fflush w f = (f', w')" and "os_path f' = os_path f" and "os_buf f' = []"
    and "content w' (os_path f) = stream_text w f"
    and "\<And>p. p \<noteq> os_path f \<Longrightarrow> content w' p = content w p"
    and "\<And>p. p \<noteq> os_path f \<Longrightarrow> files w' p = files w p"
    and "openable w' = openable w"
    and "os_pos f = length (content w (os_path f)) \<Longrightarrow> os_pos f' = length (content w' (os_path f))"
    and "os_buf f \<noteq> [] \<Longrightarrow> files w' (os_path f) = Some (stream_text w f)"
  by (cases "os_buf f = []") (auto simp: fflush_def stream_text_def file_simps Let_def)

lemma key_line_new_rec:
  "length v < 2 ^ 63 \<Longrightarrow> length val < 2 ^ 32 \<Longrightarrow>
     key_line key (length v) (of_nat (length val)) = print_rec (new_rec v key val)"
  by (simp add: key_line_def print_rec_def new_rec_def)

text \<open>A put that succeeds is a map update, on disk when it returns.\<close>

lemma put_success:
  assumes inv: "writer_inv db w h v rs" and key: "key_ok key"
    and val: "val \<noteq> []" "length val < 2 ^ 32" "length (v @ val) < 2 ^ 63"
    and env: "tell_ok env" "value_fault env = None" "key_fault env = None"
  shows "\<exists>h' w'. ozwrite_put env w (Some h) key val (int (length val)) = Some (0, Some h', w')
    \<and> writer_inv db w' h' (v @ val) (rs @ [new_rec v key val])
    \<and> files w' (value_path db) = Some (v @ val)
    \<and> files w' (key_path db) = Some (print_recs (rs @ [new_rec v key val]))
    \<and> openable w' = openable w
    \<and> (\<forall>p. p \<noteq> key_path db \<longrightarrow> p \<noteq> value_path db \<longrightarrow> files w' p = files w p)"
proof -
  obtain fk fv where h: "wkey h = Ptr fk" "wval h = Ptr fv" "os_path fk = key_path db"
      "os_path fv = value_path db" "key_path db \<noteq> value_path db"
      "os_pos fv = length (content w (value_path db))" "stream_text w fv = v"
      "db_inv (stream_text w fk) v rs"
    using inv by (auto simp: writer_inv_def)
  let ?r = "new_rec v key val" and ?fk = "stream_put fk (print_rec (new_rec v key val))"
    and ?fv = "stream_put fv val"
  have v: "length v < 2 ^ 63" using val(3) by simp
  have off: "ftello fv = length v"
    using h(4,6,7) by (auto simp: ftello_def stream_text_def)
  have len: "of_int (int (length val)) = (of_nat (length val) :: u32)" "unat (of_nat (length val) :: u32) = length val"
    using val(2) by simp_all
  have klen: "cstr key = key" "\<not> length key < 1"
    using key by (simp_all add: key_ok_def less_Suc_eq_le)
  obtain fk2 w1 where f1: "fflush w ?fk = (fk2, w1)" "os_path fk2 = key_path db" "os_buf fk2 = []"
      "content w1 (key_path db) = stream_text w ?fk" "openable w1 = openable w"
      "\<And>p. p \<noteq> key_path db \<Longrightarrow> content w1 p = content w p"
      "\<And>p. p \<noteq> key_path db \<Longrightarrow> files w1 p = files w p"
      "files w1 (key_path db) = Some (stream_text w ?fk)"
    using h(3) by (rule_tac fflush_cases [of w ?fk]) (auto simp: print_rec_def TAB_def)
  have t1: "stream_text w1 ?fv = v @ val"
    using h f1(6) by (auto simp: stream_text_def)
  obtain fv2 w2 where f2: "fflush w1 ?fv = (fv2, w2)" "os_path fv2 = value_path db" "os_buf fv2 = []"
      "content w2 (value_path db) = v @ val" "openable w2 = openable w1"
      "\<And>p. p \<noteq> value_path db \<Longrightarrow> content w2 p = content w1 p"
      "\<And>p. p \<noteq> value_path db \<Longrightarrow> files w2 p = files w1 p"
      "os_pos fv2 = length (content w2 (value_path db))"
      "files w2 (value_path db) = Some (v @ val)"
    using h(4,5,6) t1 f1(6) val(1) by (rule_tac fflush_cases [of w1 ?fv]) auto
  have run: "ozwrite_put env w (Some h) key val (int (length val)) =
      Some (0, Some \<lparr>wkey = Ptr fk2, wval = Ptr fv2\<rparr>, w2)"
    using h env val(1) klen len off f1(1) f2(1) key_line_new_rec [OF v val(2), of key]
    by (simp add: ozwrite_put_def Let_def)
  have inv': "db_inv (stream_text w fk @ print_rec ?r) (v @ val) (rs @ [?r])"
    by (rule db_inv_append) (use h(8) key val in auto)
  then have "writer_inv db w2 \<lparr>wkey = Ptr fk2, wval = Ptr fv2\<rparr> (v @ val) (rs @ [?r])"
    using f1 f2 h(5) by (auto simp: writer_inv_def stream_text_def)
  moreover have "stream_text w ?fk = print_recs (rs @ [?r])"
    using inv' by (simp add: db_inv_def)
  ultimately show ?thesis
    using run f1 f2 h(5) by auto
qed

text \<open>
  A put that fails changes no file and no entry of the map.  The exception is a key line
  that was written in part (\<open>key_fault env = Some k\<close> with \<open>k > 0\<close>): it stays in the stream.
\<close>

lemma writer_inv_orphan:
  assumes "writer_inv db w h v rs" and "wval h = Ptr fv" and "length (v @ u) < 2 ^ 63"
  shows "writer_inv db w (h\<lparr>wval := Ptr (stream_put fv u)\<rparr>) (v @ u) rs"
  using assms db_inv_orphan [of _ v rs u]
  by (auto simp: writer_inv_def stream_text_def)

lemma put_failure:
  assumes inv: "writer_inv db w h v rs"
    and run: "ozwrite_put env w (Some h) key val (int (length val)) = Some (ret, Some h', w')"
    and fail: "ret \<noteq> 0" and torn: "key_fault env = None \<or> key_fault env = Some 0"
    and len: "length val < 2 ^ 32" "length (v @ val) < 2 ^ 63"
  shows "w' = w \<and> (\<exists>u. length u \<le> length val \<and> writer_inv db w h' (v @ u) rs \<and> db_map (v @ u) rs = db_map v rs)"
proof -
  obtain fk fv where h: "wkey h = Ptr fk" "wval h = Ptr fv"
    using inv by (auto simp: writer_inv_def)
  have n: "unat (of_int (int (length val)) :: u32) = length val"
    using len(1) by simp
  have orphan: "\<exists>u. length u \<le> length val \<and> writer_inv db w (h\<lparr>wval := Ptr (stream_put fv (take m val))\<rparr>) (v @ u) rs
      \<and> db_map (v @ u) rs = db_map v rs" for m
  proof (intro exI conjI)
    show "length (take m val) \<le> length val" by simp
    have "length (v @ take m val) < 2 ^ 63" using len(2) by simp
    then show "writer_inv db w (h\<lparr>wval := Ptr (stream_put fv (take m val))\<rparr>) (v @ take m val) rs"
      by (rule writer_inv_orphan [OF inv h(2)])
    show "db_map (v @ take m val) rs = db_map v rs"
      using inv by (auto simp: writer_inv_def intro: db_map_orphan)
  qed
  have same: "\<exists>u. length u \<le> length val \<and> writer_inv db w h (v @ u) rs \<and> db_map (v @ u) rs = db_map v rs"
    using inv by (intro exI [of _ "[]"]) simp
  have key0: "h\<lparr>wval := x, wkey := Ptr (stream_put fk [])\<rparr> = h\<lparr>wval := x\<rparr>" for x
    using h(1) by (simp add: stream_put_def)
  show ?thesis
    using run fail torn h orphan [of "length val"] same orphan
    by (auto simp: ozwrite_put_def Let_def n key0 split: if_splits option.splits prod.splits)
qed

text \<open>On a consistent writer no put is undefined, and a put without faults does not report a failed call.\<close>

lemma put_total:
  assumes "writer_inv db w h v rs" and "length val < 2 ^ 32"
  shows "\<exists>ret h' w'. ozwrite_put env w (Some h) key val (int (length val)) = Some (ret, Some h', w')
    \<and> (ret = 0 \<longrightarrow> val \<noteq> [] \<and> tell_ok env \<and> value_fault env = None \<and> key_fault env = None)"
  using assms
  by (auto simp: writer_inv_def ozwrite_put_def Let_def split: option.splits prod.splits)

text \<open>Opening a database: the streams are positioned at the ends of the two files.\<close>

lemma open_writer_inv:
  assumes "openable (mkdir w db) (key_path db)" and "openable (mkdir w db) (value_path db)"
    and "key_path db \<noteq> value_path db"
    and "db_inv (content w (key_path db)) (content w (value_path db)) rs"
  shows "\<exists>h' w'. ozwrite_open w (Some h) db = (0, Some h', w')
    \<and> writer_inv db w' h' (content w (value_path db)) rs
    \<and> files w' (key_path db) = Some (content w (key_path db))
    \<and> files w' (value_path db) = Some (content w (value_path db))
    \<and> openable w' = openable (mkdir w db)
    \<and> (\<forall>p. p \<noteq> key_path db \<longrightarrow> p \<noteq> value_path db \<longrightarrow> files w' p = files w p)"
  using assms
  by (simp add: ozwrite_open_def fopen_a_def writer_inv_def stream_text_def content_def file_simps Let_def)

text \<open>Closing writes what was buffered; the streams are closed once.\<close>

lemma close_writer:
  assumes "writer_inv db w h v rs"
  shows "\<exists>h' w'. ozwrite_close w (Some h) = Some (h', w') \<and> wkey h' = Freed \<and> wval h' = Freed
    \<and> content w' (value_path db) = v \<and> content w' (key_path db) = print_recs rs
    \<and> ozwrite_close w' (Some h') = None"
proof -
  obtain fk fv where h: "wkey h = Ptr fk" "wval h = Ptr fv" "os_path fk = key_path db"
      "os_path fv = value_path db" "key_path db \<noteq> value_path db" "stream_text w fv = v"
      "stream_text w fk = print_recs rs"
    using assms by (auto simp: writer_inv_def db_inv_def)
  obtain fk2 w1 where f1: "fflush w fk = (fk2, w1)" "content w1 (key_path db) = print_recs rs"
      "\<And>p. p \<noteq> key_path db \<Longrightarrow> content w1 p = content w p"
    using h(3,7) by (rule_tac fflush_cases [of w fk]) auto
  have "stream_text w1 fv = v"
    using f1(3) h(4,5,6) by (simp add: stream_text_def)
  then obtain fv2 w2 where f2: "fflush w1 fv = (fv2, w2)" "content w2 (value_path db) = v"
      "\<And>p. p \<noteq> value_path db \<Longrightarrow> content w2 p = content w1 p"
    using h(4) by (rule_tac fflush_cases [of w1 fv]) auto
  show ?thesis
    using h f1 f2 by (simp add: ozwrite_close_def close_stream_def)
qed

section \<open>Reading what was written\<close>

lemma lookup_sort_table:
  "lookup_rec (sort_table rs) k = (if k < ''~'' then latest rs k else None)"
proof (cases "k \<in> rkey ` set (sort_table rs)")
  case True
  then obtain i where i: "i < length (sort_table rs)" "k = rkey (sort_table rs ! i)"
    by (auto simp: in_set_conv_nth)
  then have "lookup_rec (sort_table rs) k = Some (sort_table rs ! i)"
    using lookup_rec_nth [OF sort_table_sorted] by simp
  moreover have "latest rs k = Some (sort_table rs ! i)"
    using sort_table_latest [of "sort_table rs ! i" rs] i by simp
  moreover have "k < ''~''"
    using True by (auto simp: keys_sort_table visible_def)
  ultimately show ?thesis by simp
next
  case False
  then have "lookup_rec (sort_table rs) k = None" by (simp add: lookup_rec_None)
  moreover have "k < ''~'' \<Longrightarrow> latest rs k = None"
    using False by (auto simp: latest_None keys_sort_table visible_def)
  ultimately show ?thesis by simp
qed

text \<open>What a reader needs of the records: keys it can see and lengths it can buffer.\<close>

definition rec_readable :: "OZRecord \<Rightarrow> bool" where
  "rec_readable r \<longleftrightarrow> visible r \<and> CHR 0xFF \<notin> set (rkey r) \<and> rlength r \<noteq> - 1"

definition reader_for :: "string \<Rightarrow> OZRead \<Rightarrow> OZRecord list \<Rightarrow> bool" where
  "reader_for db h rs \<longleftrightarrow> holds_table h (reader_table rs) \<and> fpval h = Ptr (value_path db)"

lemma open_reader:
  assumes "runs_sort popen now1 now2" and "plain_word (key_path db)" and "length db \<le> 900"
    and "fopen_r w (key_path db) = Some (print_recs rs)" and "fopen_r w (value_path db) = Some v"
    and "\<not> is_tmp (value_path db)"
    and "recs_ok rs" and "list_all rec_readable rs" and "fits_splits rs" and "tmp_openable w"
  shows "\<exists>h w'. ozread_open popen uninit w db = Some (0, h, w') \<and> reader_for db h rs
    \<and> clean_up w (tool_tmps now1 now2 rs) w'"
proof -
  have "no_FF rs"
    using assms(8) by (simp add: no_FF_def rec_readable_def list_all_iff)
  then obtain h w' where kf: "ozread_open_kf popen uninit w db = Some (0, h, w')"
      "holds_table h (reader_table rs)" "clean_up w (tool_tmps now1 now2 rs) w'"
    using open_kf_print [OF assms(1-4,7) _ assms(9,10), of uninit] by blast
  then have "fopen_r w' (value_path db) = Some v"
    using assms(5,6) by (simp add: clean_up_def fopen_r_def split: if_splits)
  with kf show ?thesis
    by (simp add: ozread_open_def ozread_open_vf_def reader_for_def holds_table_def)
qed

lemma lookup_reader_table:
  assumes "list_all rec_readable rs" and "rs \<noteq> []"
  shows "lookup_rec (reader_table rs) k = latest rs k"
proof -
  have "filter visible rs = rs"
    using assms(1) by (simp add: filter_id_conv rec_readable_def list_all_iff)
  then have "rkey ` set (sort_table rs) = rkey ` set rs"
    by (simp add: keys_sort_table)
  then have "sort_table rs \<noteq> []"
    using assms(2) by auto
  moreover have "\<not> k < ''~'' \<Longrightarrow> latest rs k = None"
    using assms(1) by (force simp: latest_None rec_readable_def visible_def list_all_iff)
  ultimately show ?thesis
    by (simp add: reader_table_def lookup_sort_table)
qed

lemma readable_in_file:
  "in_file v r \<Longrightarrow> rec_readable r \<Longrightarrow> length v < 2 ^ 63 \<Longrightarrow> readable v r"
  by (simp add: in_file_def rec_readable_def readable_def fseeko_ok_def)

text \<open>A read of a key is the map at that key.\<close>

lemma get_db_map:
  assumes "reader_for db h rs" and "list_all rec_readable rs" and "rs \<noteq> []"
    and "db_inv k v rs" and "content w (value_path db) = v"
    and "nul_free key" and "gkey p = Ptr key" and "\<And>i n. alloc i n"
  shows "ozread_get alloc w (Some h) (Some p) = Some (case db_map v rs key of
      None \<Rightarrow> (3, Some p)
    | Some val \<Rightarrow> (0, Some (p\<lparr>gvalue := Ptr (length val + 1, val @ [CHR 0x00]), glen := of_nat (length val)\<rparr>)))"
proof -
  have table: "holds_table h (reader_table rs)" "fpval h = Ptr (value_path db)"
    using assms(1) by (simp_all add: reader_for_def)
  note lk = lookup_reader_table [OF assms(2,3), of key]
  show ?thesis
  proof (cases "latest rs key")
    case None
    then show ?thesis
      using get_missing [OF table(1) assms(6,7)] lk by (simp add: db_map_def)
  next
    case (Some r)
    then have "r \<in> set rs" using latest_mem by blast
    then have r: "readable v r" "rlength r \<noteq> - 1"
      using assms(2,4) by (auto simp: db_inv_def list_all_iff rec_readable_def
          intro: readable_in_file)
    then have "length (rec_bytes v r) = unat (rlength r)"
      by (simp add: length_rec_bytes)
    then show ?thesis
      using get_found [OF table(1) assms(6,7) _ assms(8) table(2)] lk Some assms(5) r
      by (simp add: db_map_def value_buffer_def value_bufsize)
  qed
qed

end
