(* ===== verification/ReadServer.thy ===== *)
theory ReadServer
  imports Store
begin

text \<open>
  The read server (src/src/server/OZReadService_server.skeleton.cc): the handler object with
  its reader, and the two requests \<open>get\<close> and \<open>gets\<close>.  The handler runs in a pool of
  threads that share the reader without a lock; the last section models the two calls on
  the shared value file as separate steps.
\<close>

section \<open>Replies\<close>

text \<open>
  A request returns a value, throws the declared \<open>OZException\<close> with its text, or throws a
  \<open>TException\<close>, which the service does not declare.
\<close>

datatype 'a reply = Return 'a | OZError string | TError string

text \<open>\<open>str.assign(p, n)\<close>: \<open>n\<close> bytes from a buffer; the bytes must have been written.\<close>

definition assign_bytes :: "buffer ptr \<Rightarrow> nat \<Rightarrow> string ub" where
  "assign_bytes p n = do {
     b \<leftarrow> deref p;
     if n \<le> length (snd b) then Some (take n (snd b)) else None
   }"

section \<open>The handler\<close>

definition read_handler_new :: "popen_fun \<Rightarrow> OZRecord \<Rightarrow> world \<Rightarrow> string \<Rightarrow> (OZRead reply \<times> world) ub" where
  "read_handler_new popen uninit w path = do {
     (ret, h, w') \<leftarrow> ozread_open popen uninit w (cstr path);
     Some (if ret \<noteq> 0 then TError ''Open db fail.'' else Return h, w')
   }"

definition read_handler_delete :: "OZRead \<Rightarrow> OZRead option ub" where
  "read_handler_delete h = ozread_close (Some h)"

definition get_why :: "nat \<Rightarrow> string" where
  "get_why ret = (if ret = 1 then ''invalid handle'' else if ret = 2 then ''invalid param''
     else if ret = 3 then ''key not found'' else if ret = 4 then ''get value fail''
     else if ret = 5 then ''malloc for value fail'' else ''unknown error'')"

definition server_get :: "alloc \<Rightarrow> world \<Rightarrow> OZRead \<Rightarrow> string \<Rightarrow> string reply ub" where
  "server_get alloc w h key = do {
     (ret, param) \<leftarrow> ozread_get alloc w (Some h) (Some \<lparr>gkey = Ptr (cstr key), gvalue = Null, glen = 0\<rparr>);
     p \<leftarrow> param;
     reply \<leftarrow> (if ret = 0 then map_option Return (assign_bytes (gvalue p) (unat (glen p)))
              else Some (OZError (get_why ret)));
     ozread_get_free p;
     Some reply
   }"

text \<open>
  The values of a batch are copied as C strings; a null pointer gives the empty string.  The
  members of a fresh \<open>OZRead_Gets\<close> are indeterminate.
\<close>

definition fresh_gets :: OZRead_Gets where
  "fresh_gets = \<lparr>skeys = Uninit, nkeys = 0, svalues = Uninit, cookie_cap = Uninit, cookies = []\<rparr>"

fun copy_values :: "buffer ptr list \<Rightarrow> string list ub" where
  "copy_values [] = Some []"
| "copy_values (v # vs) = do {
     b \<leftarrow> nonnull v;
     s \<leftarrow> (if b then do { buf \<leftarrow> deref v; buffer_cstr buf } else Some []);
     ss \<leftarrow> copy_values vs;
     Some (s # ss)
   }"

definition gets_why :: "nat \<Rightarrow> string" where
  "gets_why ret = (if ret = 1 then ''invalid handle'' else if ret = 2 then ''invalid param''
     else if ret = 3 then ''malloc for values fail'' else [])"

text \<open>\<open>alloc0\<close> decides the allocations of the bundle, \<open>alloc\<close> those of the values.\<close>

definition server_gets :: "alloc \<Rightarrow> alloc \<Rightarrow> world \<Rightarrow> OZRead \<Rightarrow> string list \<Rightarrow> string list
    \<Rightarrow> string list reply ub" where
  "server_gets alloc0 alloc w h result keys =
     (let (ri, p0) = ozread_gets_init alloc0 fresh_gets (length keys) in
      if ri \<noteq> 0 then Some (OZError ''malloc for OZRead_Gets fail'')
      else do {
        (ret, param) \<leftarrow> ozread_gets alloc w (Some h)
           (Some (p0\<lparr>skeys := Ptr (map (\<lambda>k. Ptr (cstr k)) keys)\<rparr>));
        p \<leftarrow> param;
        reply \<leftarrow> (if ret = 0
            then do {
              vs \<leftarrow> (if nkeys p = 0 then Some [] else deref (svalues p));
              ss \<leftarrow> copy_values (take (nkeys p) vs);
              Some (Return (result @ ss))
            }
            else Some (OZError (gets_why ret)));
        ozread_gets_free p;
        Some reply
      })"

section \<open>What the requests return\<close>

lemma assign_value_buffer:
  "n = length s \<Longrightarrow> assign_bytes (Ptr (m, s @ t)) n = Some s"
  by (simp add: assign_bytes_def)

lemma db_map_short: "db_map v rs k = Some val \<Longrightarrow> length val < 2 ^ 32"
proof -
  assume "db_map v rs k = Some val"
  then obtain r where "val = rec_bytes v r"
    by (auto simp: db_map_def)
  then have "length val \<le> unat (rlength r)"
    by (simp add: rec_bytes_def length_fread_bytes)
  also have "\<dots> < 2 ^ LENGTH(32)"
    by (rule unsigned_less)
  finally show ?thesis by simp
qed

text \<open>On an opened database a \<open>get\<close> is a lookup in the map of the database.\<close>

lemma server_get_db_map:
  assumes "reader_for db h rs" and "list_all rec_readable rs" and "rs \<noteq> []"
    and "db_inv k v rs" and "content w (value_path db) = v" and "\<And>i n. alloc i n"
  shows "server_get alloc w h key = Some (case db_map v rs (cstr key) of
      None \<Rightarrow> OZError ''key not found'' | Some val \<Rightarrow> Return val)"
proof -
  let ?p = "\<lparr>gkey = Ptr (cstr key), gvalue = Null, glen = 0\<rparr>"
  note g = get_db_map [OF assms(1-5) nul_free_cstr [of key] _ assms(6), of ?p]
  show ?thesis
  proof (cases "db_map v rs (cstr key)")
    case None
    with g show ?thesis by (simp add: server_get_def get_why_def ozread_get_free_def)
  next
    case (Some val)
    with Some g db_map_short show ?thesis
      by (simp add: server_get_def ozread_get_free_def assign_value_buffer)
  qed
qed

lemma copy_values_batch:
  "copy_values (map (\<lambda>i. case f i of None \<Rightarrow> Null | Some r \<Rightarrow> Ptr (value_buffer c r)) xs) =
     Some (map (\<lambda>i. case f i of None \<Rightarrow> [] | Some r \<Rightarrow> cstr (rec_bytes c r)) xs)"
  by (induction xs) (auto simp: value_buffer_def buffer_cstr_def split: option.split)

lemma batch_values_keys:
  "batch_values rs c (map (\<lambda>k. Ptr (cstr k)) keys) =
     map (\<lambda>k. case lookup_rec rs (cstr k) of None \<Rightarrow> Null | Some r \<Rightarrow> Ptr (value_buffer c r)) keys"
  by (rule nth_equalityI) (simp_all add: batch_values_def request_rec_def)

lemma free_batch:
  "list_all (\<lambda>v. free_ok v = Some ())
     (map (\<lambda>k. case f k of None \<Rightarrow> Null | Some r \<Rightarrow> Ptr (value_buffer c r)) keys)"
  by (auto simp: list_all_iff split: option.split)

text \<open>
  The null record of an empty table is never read by a batch over visible records, so all
  records of a non-empty table are readable.
\<close>

lemma readable_reader_table:
  assumes "list_all rec_readable rs" and "rs \<noteq> []" and "db_inv k v rs"
  shows "list_all (readable v) (reader_table rs)"
proof -
  have "r \<in> set rs" if "r \<in> set (reader_table rs)" for r
  proof -
    have "lookup_rec (reader_table rs) (rkey r) \<noteq> None"
      using that by (auto simp: lookup_rec_None)
    moreover have "lookup_rec (reader_table rs) (rkey r) = Some r"
      using that lookup_rec_nth [OF reader_table_sorted] by (metis in_set_conv_nth)
    ultimately show ?thesis
      using lookup_reader_table [OF assms(1,2)] latest_mem by metis
  qed
  then show ?thesis
    using assms by (fastforce simp: list_all_iff db_inv_def intro: readable_in_file)
qed

lemma server_gets_db_map:
  assumes "reader_for db h rs" and "list_all rec_readable rs" and "rs \<noteq> []"
    and "db_inv k v rs" and "content w (value_path db) = v" and "\<And>i n. alloc0 i n"
    and "\<And>i n. alloc i n"
  shows "server_gets alloc0 alloc w h result keys = Some (Return (result @
    map (\<lambda>k. case db_map v rs (cstr k) of None \<Rightarrow> [] | Some val \<Rightarrow> cstr val) keys))"
proof -
  let ?n = "length keys" and ?ks = "map (\<lambda>k. Ptr (cstr k)) keys" and ?t = "reader_table rs"
  let ?p = "\<lparr>skeys = Ptr ?ks, nkeys = ?n, svalues = Ptr (replicate ?n Null),
    cookie_cap = Ptr ?n, cookies = []\<rparr>"
  have table: "holds_table h ?t" "fpval h = Ptr (value_path db)"
    using assms(1) by (simp_all add: reader_for_def)
  have "keys_valid ?ks"
    by (simp add: keys_valid_def list_all_iff)
  moreover have "list_all (readable (content w (value_path db))) ?t"
    using readable_reader_table [OF assms(2-4)] assms(5) by simp
  ultimately obtain cs where run: "ozread_gets alloc w (Some h) (Some ?p) =
      Some (0, Some (?p\<lparr>svalues := Ptr (batch_values ?t v ?ks), cookies := cs\<rparr>))"
    using gets_correct [OF table, of w alloc ?p ?ks] assms(5,7) by auto
  have vals: "copy_values (batch_values ?t v ?ks) = Some (map (\<lambda>k. case lookup_rec ?t (cstr k) of
      None \<Rightarrow> [] | Some r \<Rightarrow> cstr (rec_bytes v r)) keys)"
    using copy_values_batch [where f = "\<lambda>k. lookup_rec ?t (cstr k)" and c = v and xs = keys] by (simp only: batch_values_keys)
  have len: "length (batch_values ?t v ?ks) = ?n"
    by (simp add: batch_values_def)
  have init: "ozread_gets_init alloc0 fresh_gets ?n = (0, ?p\<lparr>skeys := Ptr (replicate ?n Uninit)\<rparr>)"
    using assms(6) by (simp add: ozread_gets_init_def fresh_gets_def)
  have free: "ozread_gets_free (?p\<lparr>svalues := Ptr (batch_values ?t v ?ks), cookies := cs\<rparr>) \<noteq> None"
    using free_batch [where f = "\<lambda>k. lookup_rec ?t (cstr k)" and c = v and keys = keys] len
    by (simp add: ozread_gets_free_def batch_values_keys)
  have "(case lookup_rec ?t (cstr k) of None \<Rightarrow> [] | Some r \<Rightarrow> cstr (rec_bytes v r)) =
      (case db_map v rs (cstr k) of None \<Rightarrow> [] | Some val \<Rightarrow> cstr val)" for k
    by (simp add: lookup_reader_table [OF assms(2,3)] db_map_def split: option.split)
  then show ?thesis
    using run vals len free by (auto simp: server_gets_def init)
qed

section \<open>Threads on one stream\<close>

text \<open>
  The pool serves requests of several clients at the same time, and all of them use the one
  value stream of the handler.  \<open>fseeko\<close> and \<open>fread\<close> each lock the stream, but nothing locks
  it between the two calls of \<open>ozread_get_value\<close>: they are separate steps, with the position
  of the stream as the shared state.  A thread is at one of the points of a \<open>get\<close>; memory is
  taken to be available.
\<close>

datatype get_phase =
  Asked string
| Sought string OZRecord
| Answered string "string reply"

record pool =
  spos :: nat
  phase :: "nat \<Rightarrow> get_phase"

inductive read_step :: "world \<Rightarrow> OZRead \<Rightarrow> string \<Rightarrow> nat \<Rightarrow> pool \<Rightarrow> pool \<Rightarrow> bool"
  for w h path t st where
  seek: "phase st t = Asked k \<Longrightarrow> ozread_get_key h (Ptr (cstr k)) = Some (0, Some r) \<Longrightarrow>
    fseeko_ok (roffset r) \<Longrightarrow>
    read_step w h path t st (st\<lparr>spos := unat (roffset r), phase := (phase st)(t := Sought k r)\<rparr>)"
| seek_fails: "phase st t = Asked k \<Longrightarrow> ozread_get_key h (Ptr (cstr k)) = Some (0, Some r) \<Longrightarrow>
    \<not> fseeko_ok (roffset r) \<Longrightarrow>
    read_step w h path t st (st\<lparr>phase := (phase st)(t := Answered k (OZError (get_why 4)))\<rparr>)"
| missing: "phase st t = Asked k \<Longrightarrow> ozread_get_key h (Ptr (cstr k)) = Some (nf, res) \<Longrightarrow> nf \<noteq> 0 \<Longrightarrow>
    read_step w h path t st (st\<lparr>phase := (phase st)(t := Answered k (OZError (get_why 3)))\<rparr>)"
| read: "phase st t = Sought k r \<Longrightarrow> n = unat (rlength r) \<Longrightarrow> bs = fread_bytes (content w path) (spos st) n \<Longrightarrow>
    reply = (if fread_ret (content w path) (spos st) n = 1 then Return bs else OZError (get_why 4)) \<Longrightarrow>
    read_step w h path t st (st\<lparr>spos := spos st + length bs, phase := (phase st)(t := Answered k reply)\<rparr>)"

inductive_cases read_stepE: "read_step w h path t st st'"

inductive pool_run :: "world \<Rightarrow> OZRead \<Rightarrow> string \<Rightarrow> pool \<Rightarrow> pool \<Rightarrow> bool" for w h path st0 where
  start: "pool_run w h path st0 st0"
| step: "pool_run w h path st0 st \<Longrightarrow> read_step w h path t st st' \<Longrightarrow> pool_run w h path st0 st'"

text \<open>The same pool when a thread may only step while no other thread is between its two calls.\<close>

definition alone :: "pool \<Rightarrow> nat \<Rightarrow> bool" where
  "alone st t \<longleftrightarrow> (\<forall>u k r. phase st u = Sought k r \<longrightarrow> u = t)"

inductive locked_run :: "world \<Rightarrow> OZRead \<Rightarrow> string \<Rightarrow> pool \<Rightarrow> pool \<Rightarrow> bool" for w h path st0 where
  start: "locked_run w h path st0 st0"
| step: "locked_run w h path st0 st \<Longrightarrow> alone st t \<Longrightarrow> read_step w h path t st st' \<Longrightarrow>
    locked_run w h path st0 st'"

text \<open>The answer that one \<open>get\<close> on its own gives.\<close>

definition pool_inv :: "world \<Rightarrow> OZRead \<Rightarrow> pool \<Rightarrow> bool" where
  "pool_inv w h st \<longleftrightarrow> (\<forall>t k r. phase st t = Sought k r \<longrightarrow>
       spos st = unat (roffset r) \<and> fseeko_ok (roffset r) \<and> ozread_get_key h (Ptr (cstr k)) = Some (0, Some r))
   \<and> (\<forall>t k reply. phase st t = Answered k reply \<longrightarrow> server_get (\<lambda>_ _. True) w h k = Some reply)
   \<and> (\<forall>t u k r k' r'. phase st t = Sought k r \<longrightarrow> phase st u = Sought k' r' \<longrightarrow> u = t)"

lemma server_get_missing:
  "ozread_get_key h (Ptr (cstr k)) = Some (nf, res) \<Longrightarrow> nf \<noteq> 0 \<Longrightarrow>
     server_get alloc w h k = Some (OZError (get_why 3))"
  by (simp add: server_get_def ozread_get_def ozread_get_free_def)

lemma server_get_no_seek:
  "ozread_get_key h (Ptr (cstr k)) = Some (0, Some r) \<Longrightarrow> \<not> fseeko_ok (roffset r) \<Longrightarrow>
     fpval h = Ptr path \<Longrightarrow> server_get (\<lambda>_ _. True) w h k = Some (OZError (get_why 4))"
  by (simp add: server_get_def ozread_get_def ozread_get_value_def ozread_get_free_def Let_def)

lemma server_get_read:
  assumes "ozread_get_key h (Ptr (cstr k)) = Some (0, Some r)" and "fseeko_ok (roffset r)"
    and "fpval h = Ptr path" and "rlength r \<noteq> - 1"
  shows "server_get (\<lambda>_ _. True) w h k = Some
    (if fread_ret (content w path) (unat (roffset r)) (unat (rlength r)) = 1
     then Return (fread_bytes (content w path) (unat (roffset r)) (unat (rlength r)))
     else OZError (get_why 4))"
  using assms fread_ret_full [of "content w path" "unat (roffset r)" "unat (rlength r)"]
    length_fread_bytes [of "content w path" "unat (roffset r)" "unat (rlength r)"]
  by (simp add: server_get_def ozread_get_def ozread_get_value_def ozread_get_free_def Let_def
      buffer_read_def buffer_nul_def value_bufsize assign_bytes_def)

lemma pool_inv_step:
  assumes "pool_inv w h st" and "alone st t" and "read_step w h path t st st'"
    and "fpval h = Ptr path" and "holds_table h rs" and "list_all (\<lambda>r. rlength r \<noteq> - 1) rs"
  shows "pool_inv w h st'"
  using assms(3)
proof (cases rule: read_step.cases)
  case (seek k r)
  then show ?thesis
    using assms(1,2) by (auto simp: pool_inv_def alone_def)
next
  case (seek_fails k r)
  then show ?thesis
    using assms(1) server_get_no_seek [OF seek_fails(3,4) assms(4)] by (auto simp: pool_inv_def)
next
  case (missing k nf res)
  then show ?thesis
    using assms(1) server_get_missing [OF missing(3,4)] by (auto simp: pool_inv_def)
next
  case (read k r n bs reply)
  have s: "spos st = unat (roffset r)" "fseeko_ok (roffset r)"
      "ozread_get_key h (Ptr (cstr k)) = Some (0, Some r)"
    using assms(1) read(2) by (auto simp: pool_inv_def)
  have "lookup_rec rs (cstr k) = Some r"
    using get_key_correct [OF assms(5) nul_free_cstr [of k]] s(3) by (auto split: option.splits)
  then have "rlength r \<noteq> - 1"
    using assms(6) lookup_rec_mem by (force simp: list_all_iff)
  from server_get_read [OF s(3,2) assms(4) this]
  have "server_get (\<lambda>_ _. True) w h k = Some reply"
    using read s(1) by simp
  moreover have "phase st u \<noteq> Sought k' r'" if "u \<noteq> t" for u k' r'
    using assms(1) read(2) that by (auto simp: pool_inv_def)
  ultimately show ?thesis
    using assms(1) read(1) by (auto simp: pool_inv_def)
qed

text \<open>With the two calls kept together, every answer is the answer of a \<open>get\<close> on its own.\<close>

lemma locked_run_inv:
  assumes "locked_run w h path st0 st" and "\<forall>t. \<exists>k. phase st0 t = Asked k"
    and "fpval h = Ptr path" and "holds_table h rs" and "list_all (\<lambda>r. rlength r \<noteq> - 1) rs"
  shows "pool_inv w h st"
  using assms(1)
proof (induction rule: locked_run.induct)
  case start
  then show ?case
    unfolding pool_inv_def by (metis assms(2) get_phase.distinct(1,3))
next
  case (step st t st')
  then show ?case
    using pool_inv_step [OF step.IH step.hyps(2,3) assms(3-5)] by simp
qed

text \<open>
  Without it, a thread can answer with the bytes of another thread's record.  Two clients ask
  for \<open>a\<close> and \<open>b\<close>; both seek before the first one reads.
\<close>

definition race_table :: "OZRecord list" where
  "race_table = [\<lparr>rkey = ''a'', roffset = 0, rlength = 1\<rparr>, \<lparr>rkey = ''b'', roffset = 1, rlength = 1\<rparr>]"

definition race_handle :: OZRead where
  "race_handle = \<lparr>recs = Ptr (map Ptr race_table), nrecs = 2, fpval = Ptr ''v''\<rparr>"

definition race_world :: world where
  "race_world = \<lparr>files = [''v'' \<mapsto> ''xy''], openable = (\<lambda>_. True), creatable = (\<lambda>_. False)\<rparr>"

definition race_start :: pool where
  "race_start = \<lparr>spos = 0, phase = (\<lambda>t. if t = 0 then Asked ''a'' else Asked ''b'')\<rparr>"

lemma holds_race_table: "holds_table race_handle race_table"
  by (simp add: holds_table_def race_handle_def race_table_def)

lemma race_keys:
  "ozread_get_key race_handle (Ptr ''a'') = Some (0, Some (race_table ! 0))"
  "ozread_get_key race_handle (Ptr ''b'') = Some (0, Some (race_table ! 1))"
  using get_key_correct [OF holds_race_table, of "''a''"] get_key_correct [OF holds_race_table, of "''b''"]
  by (simp_all add: lookup_rec_def race_table_def)

lemma race_content: "content race_world ''v'' = ''xy''"
  by (simp add: content_def race_world_def)

lemma race_run:
  "\<exists>st. pool_run race_world race_handle ''v'' race_start st \<and> phase st 0 = Answered ''a'' (Return ''y'')"
proof -
  let ?s1 = "race_start\<lparr>spos := 0, phase := (phase race_start)(0 := Sought ''a'' (race_table ! 0))\<rparr>"
  let ?s2 = "?s1\<lparr>spos := 1, phase := (phase ?s1)(1 := Sought ''b'' (race_table ! 1))\<rparr>"
  let ?s3 = "?s2\<lparr>spos := 2, phase := (phase ?s2)(0 := Answered ''a'' (Return ''y''))\<rparr>"
  have "read_step race_world race_handle ''v'' 0 race_start ?s1"
    using read_step.seek [of race_start 0 "''a''" race_handle "race_table ! 0"] race_keys(1)
    by (simp add: race_start_def race_table_def fseeko_ok_def)
  moreover have "read_step race_world race_handle ''v'' 1 ?s1 ?s2"
    using read_step.seek [of ?s1 1 "''b''" race_handle "race_table ! 1"] race_keys(2)
    by (simp add: race_start_def race_table_def fseeko_ok_def)
  moreover have "read_step race_world race_handle ''v'' 0 ?s2 ?s3"
    using read_step.read [of ?s2 0 "''a''" "race_table ! 0" 1 "''y''" race_world "''v''" "Return ''y''" race_handle]
    by (simp add: race_start_def race_table_def race_content fread_ret_def fread_bytes_def eval_nat_numeral)
  ultimately have "pool_run race_world race_handle ''v'' race_start ?s3"
    by (meson pool_run.start pool_run.step)
  then show ?thesis by (intro exI [of _ ?s3]) simp
qed

lemma race_alone: "server_get (\<lambda>_ _. True) race_world race_handle ''a'' = Some (Return ''x'')"
  using server_get_read [of race_handle "''a''" "race_table ! 0" "''v''" race_world] race_keys(1)
  by (simp add: race_table_def race_handle_def race_content fread_ret_def fread_bytes_def fseeko_ok_def)

end
