(* ===== verification/WriteServer.thy ===== *)
theory WriteServer
  imports ReadServer
begin

text \<open>
  The write server (src/src/server/OZWriteService_server.skeleton.cc): the handler object
  with its writer, the search for the largest identifier in the key file, and the requests
  \<open>put\<close> and \<open>puts\<close>, which choose the keys.  The last section runs requests of several
  threads under the mutex of the handler.
\<close>

section \<open>The handler\<close>

definition KEY_LEN :: nat where
  "KEY_LEN = 16"

text \<open>\<open>wid\<close> is the next identifier; a \<open>long\<close> that overflows is undefined.\<close>

record write_handler =
  ow :: OZWrite
  wkeybuf :: string
  wid :: int

definition long_max :: int where
  "long_max = 2 ^ 63 - 1"

definition incr :: "int \<Rightarrow> int ub" where
  "incr i = (if i < long_max then Some (i + 1) else None)"

text \<open>
  One \<open>fscanf(fp, "%s\t%lld\t%u", sid, &off, &len)\<close>: the key that was read, if any, and the
  text left.  Offset and length are not used afterwards.
\<close>

definition scan_sid :: "string \<Rightarrow> (string option \<times> string) ub" where
  "scan_sid s = (let s1 = skip_ws s; tok = takeWhile (\<lambda>c. \<not> isspace c) s1;
       s2 = dropWhile (\<lambda>c. \<not> isspace c) s1
     in if s1 = [] then Some (None, [])
     else if OZ_KEY_BUF_SIZE \<le> length tok then None
     else Some (Some (cstr tok), case scan_num s2 of
         (None, s3) \<Rightarrow> s3
       | (Some _, s3) \<Rightarrow> snd (scan_num s3)))"

lemma scan_sid_consumes:
  assumes "scan_sid s = Some (Some sid, t)"
  shows "length t < length s"
proof -
  let ?s1 = "skip_ws s"
  let ?s2 = "dropWhile (\<lambda>c. \<not> isspace c) ?s1"
  have s1: "?s1 \<noteq> []"
    using assms by (auto simp: scan_sid_def)
  then have "length ?s2 < length s"
    using length_dropWhile_less [of ?s1 "\<lambda>c. \<not> isspace c"] hd_skip_ws [of s] length_skip_ws [of s]
    by simp
  moreover have "length t \<le> length ?s2"
    using assms length_scan_num [of ?s2] length_scan_num [of "snd (scan_num ?s2)"]
    by (auto simp: scan_sid_def Let_def split: if_splits prod.splits option.splits)
  ultimately show ?thesis by simp
qed

function max_id :: "string \<Rightarrow> int \<Rightarrow> int ub" where
  "max_id s m = (case scan_sid s of
     None \<Rightarrow> None
   | Some (None, _) \<Rightarrow> Some m
   | Some (Some sid, t) \<Rightarrow> max_id t (if atoi sid > m then atoi sid else m))"
  by pat_completeness auto
termination
  by (relation "measure (\<lambda>(s, m). length s)") (auto dest: scan_sid_consumes)

declare max_id.simps [simp del]

definition getmax :: "world \<Rightarrow> string \<Rightarrow> int ub" where
  "getmax w dbpath = (case fopen_r w (key_path dbpath) of
     None \<Rightarrow> Some 0
   | Some s \<Rightarrow> do { m \<leftarrow> max_id s 0; incr m })"

definition write_handler_new :: "world \<Rightarrow> OZWrite \<Rightarrow> bool \<Rightarrow> string \<Rightarrow> (write_handler reply \<times> world) ub" where
  "write_handler_new w uninit mutex_ok path =
     (case ozwrite_open w (Some uninit) (cstr path) of
        (ret, h, w1) \<Rightarrow>
          if ret \<noteq> 0 then Some (TError ''Open db fail.'', w1)
          else if \<not> mutex_ok then Some (TError ''Init mutex fail.'', w1)
          else do {
            o' \<leftarrow> h;
            i \<leftarrow> getmax w1 (cstr path);
            Some (Return \<lparr>ow = o', wkeybuf = [], wid = i\<rparr>, w1)
          })"

definition write_handler_delete :: "world \<Rightarrow> write_handler \<Rightarrow> (OZWrite \<times> world) ub" where
  "write_handler_delete w st = ozwrite_close w (Some (ow st))"

section \<open>The requests\<close>

text \<open>
  The texts of the exceptions.  Case 4 has no \<open>break\<close>, so its text is replaced by the one of
  case 5.
\<close>

definition put_why :: "nat \<Rightarrow> string" where
  "put_why ret = (if ret = 1 then ''invalid handle'' else if ret = 2 then ''write key error''
     else if ret = 3 then ''write value error''
     else if ret = 4 then (let why = ''ftello fail''; why = ''value length can't be zero'' in why)
     else if ret = 5 then ''value length can't be zero''
     else if ret = 6 then ''key length can't be zero'' else ''unknown error'')"

text \<open>\<open>snprintf(_key, KEY_LEN, "%ld", _id++)\<close>.\<close>

definition make_key :: "write_handler \<Rightarrow> write_handler ub" where
  "make_key st = do {
     i \<leftarrow> incr (wid st);
     Some (st\<lparr>wkeybuf := take (KEY_LEN - 1) (dec_int (wid st)), wid := i\<rparr>)
   }"

definition write_value :: "put_env \<Rightarrow> world \<Rightarrow> write_handler \<Rightarrow> string \<Rightarrow> (nat \<times> write_handler \<times> world) ub" where
  "write_value env w st val = do {
     (ret, h, w') \<leftarrow> ozwrite_put env w (Some (ow st)) (wkeybuf st) val (int (length val));
     o' \<leftarrow> h;
     Some (ret, st\<lparr>ow := o'\<rparr>, w')
   }"

text \<open>A request that cannot lock the mutex returns as if it had succeeded.\<close>

definition server_put :: "bool \<Rightarrow> put_env \<Rightarrow> world \<Rightarrow> write_handler \<Rightarrow> string
    \<Rightarrow> (unit reply \<times> write_handler \<times> world) ub" where
  "server_put lock_ok env w st val =
     (if \<not> lock_ok then Some (Return (), st, w)
      else do {
        st1 \<leftarrow> make_key st;
        (ret, st2, w') \<leftarrow> write_value env w st1 val;
        Some (if ret = 0 then Return () else OZError (put_why ret), st2, w')
      })"

fun put_all :: "(nat \<Rightarrow> put_env) \<Rightarrow> nat \<Rightarrow> world \<Rightarrow> write_handler \<Rightarrow> string list
    \<Rightarrow> (write_handler \<times> world) ub" where
  "put_all env i w st [] = Some (st, w)"
| "put_all env i w st (val # vals) = do {
     st1 \<leftarrow> make_key st;
     (ret, st2, w') \<leftarrow> write_value (env i) w st1 val;
     put_all env (i + 1) w' st2 vals
   }"

definition server_puts :: "bool \<Rightarrow> (nat \<Rightarrow> put_env) \<Rightarrow> world \<Rightarrow> write_handler \<Rightarrow> string list
    \<Rightarrow> (unit reply \<times> write_handler \<times> world) ub" where
  "server_puts lock_ok env w st vals =
     (if \<not> lock_ok then Some (Return (), st, w)
      else do {
        (st', w') \<leftarrow> put_all env 0 w st vals;
        Some (Return (), st', w')
      })"

section \<open>The search for the next identifier\<close>

lemma scan_sid_skip_ws [simp]: "scan_sid (skip_ws s) = scan_sid s"
  by (simp add: scan_sid_def)

lemma scan_sid_NL: "scan_sid (CHR 0x0A # s) = scan_sid s"
  by (simp add: scan_sid_def scan_simps)

lemma scan_sid_Nil: "scan_sid [] = Some (None, [])"
  by (simp add: scan_sid_def scan_simps)

lemma scan_sid_print_rec:
  assumes "key_ok (rkey r)"
  shows "scan_sid (print_rec r @ s) = Some (Some (rkey r), CHR 0x0A # s)"
proof -
  let ?rest = "CHR 0x09 # dec (unat (roffset r)) @ CHR 0x09 # dec (unat (rlength r)) @ CHR 0x0A # s"
  have p: "print_rec r @ s = rkey r @ ?rest"
    by (simp add: print_rec_def TAB_def NL_def)
  have tok: "takeWhile (\<lambda>c. \<not> isspace c) (rkey r @ ?rest) = rkey r"
      "dropWhile (\<lambda>c. \<not> isspace c) (rkey r @ ?rest) = ?rest"
    using assms by (intro takeWhile_append_stop dropWhile_append_stop;
      force simp: key_ok_def list_all_iff isspace_TAB_NL)+
  have n1: "scan_num ?rest = (Some (False, unat (roffset r)),
      CHR 0x09 # dec (unat (rlength r)) @ CHR 0x0A # s)"
    by (simp add: scan_num_ws scan_num_dec isspace_TAB_NL not_isdigit_TAB_NL)
  have n2: "scan_num (CHR 0x09 # dec (unat (rlength r)) @ CHR 0x0A # s) =
      (Some (False, unat (rlength r)), CHR 0x0A # s)"
    by (simp add: scan_num_ws scan_num_dec isspace_TAB_NL not_isdigit_TAB_NL)
  have ws: "skip_ws (rkey r @ ?rest) = rkey r @ ?rest"
    using assms by (rule skip_ws_key)
  show ?thesis
    using assms unfolding p scan_sid_def Let_def ws tok n1 n2 option.case prod.case
    by (simp add: key_ok_def)
qed

lemma max_id_NL: "max_id (CHR 0x0A # s) m = max_id s m"
  by (simp add: max_id.simps scan_sid_NL)

text \<open>The largest identifier of a list of records, as the code computes it.\<close>

definition largest_id :: "OZRecord list \<Rightarrow> int \<Rightarrow> int" where
  "largest_id rs m = foldl (\<lambda>m r. max m (atoi (rkey r))) m rs"

lemma max_id_print: "recs_ok rs \<Longrightarrow> max_id (print_recs rs) m = Some (largest_id rs m)"
proof (induction rs arbitrary: m)
  case Nil
  then show ?case by (simp add: max_id.simps scan_sid_Nil largest_id_def)
next
  case (Cons r rs)
  then have "scan_sid (print_recs (r # rs)) = Some (Some (rkey r), CHR 0x0A # print_recs rs)"
    using scan_sid_print_rec [of r "print_recs rs"] by simp
  then have "max_id (print_recs (r # rs)) m = max_id (print_recs rs) (max m (atoi (rkey r)))"
    by (simp add: max_id.simps [of "print_recs (r # rs)"] max_id_NL max_def del: print_recs_simps)
  with Cons show ?case by (simp add: largest_id_def)
qed

lemma largest_id_ge: "m \<le> largest_id rs m" "r \<in> set rs \<Longrightarrow> atoi (rkey r) \<le> largest_id rs m"
proof -
  have "m \<le> largest_id rs m \<and> (\<forall>r \<in> set rs. atoi (rkey r) \<le> largest_id rs m)"
  proof (induction rs arbitrary: m)
    case (Cons a rs)
    from Cons.IH [of "max m (atoi (rkey a))"] show ?case
      by (simp add: largest_id_def)
  qed (simp add: largest_id_def)
  then show "m \<le> largest_id rs m" "r \<in> set rs \<Longrightarrow> atoi (rkey r) \<le> largest_id rs m"
    by blast+
qed

lemma atoi_less: "atoi s < 2 ^ 31"
proof (cases "fst (scan_num s)")
  case None
  then show ?thesis by (simp add: atoi_def)
next
  case (Some v)
  then show ?thesis
    using sint_less [of "of_int (to_long v) :: u32"] by (simp add: atoi_def)
qed

lemma largest_id_less: "m < 2 ^ 31 \<Longrightarrow> largest_id rs m < 2 ^ 31"
  using atoi_less by (induction rs arbitrary: m) (simp_all add: largest_id_def)

lemma getmax_print:
  assumes "fopen_r w (key_path db) = Some (print_recs rs)" and "recs_ok rs"
  shows "getmax w db = Some (largest_id rs 0 + 1)"
  using assms largest_id_less [of 0 rs] by (simp add: getmax_def max_id_print incr_def long_max_def)

text \<open>
  No key in the file is the decimal form of an identifier that will be used later.  The
  search establishes this as long as the identifiers in the file fit an \<open>int\<close>.
\<close>

definition fresh_from :: "OZRecord list \<Rightarrow> int \<Rightarrow> bool" where
  "fresh_from rs i \<longleftrightarrow> (\<forall>r \<in> set rs. \<forall>n. rkey r = dec n \<longrightarrow> int n < i)"

lemma largest_id_fresh:
  assumes "\<forall>r \<in> set rs. \<forall>n. rkey r = dec n \<longrightarrow> n < 2 ^ 31"
  shows "fresh_from rs (largest_id rs 0 + 1)"
  unfolding fresh_from_def
proof (intro ballI allI impI)
  fix r n assume r: "r \<in> set rs" and k: "rkey r = dec n"
  then have "atoi (rkey r) = int n"
    using assms by (simp add: k atoi_dec)
  then show "int n < largest_id rs 0 + 1"
    using largest_id_ge(2) [OF r, of 0] by simp
qed

lemma fresh_from_snoc:
  "fresh_from rs i \<Longrightarrow> 0 \<le> i \<Longrightarrow> rkey r = dec (nat i) \<Longrightarrow> fresh_from (rs @ [r]) (i + 1)"
  by (auto simp: fresh_from_def dec_inj)

lemma fresh_from_mono: "fresh_from rs i \<Longrightarrow> i \<le> j \<Longrightarrow> fresh_from rs j"
  by (fastforce simp: fresh_from_def)

lemma fresh_key: "fresh_from rs i \<Longrightarrow> 0 \<le> i \<Longrightarrow> db_map v rs (dec (nat i)) = None"
proof -
  assume fresh: "fresh_from rs i" and i: "0 \<le> i"
  have "rkey r \<noteq> dec (nat i)" if "r \<in> set rs" for r
  proof
    assume "rkey r = dec (nat i)"
    with fresh that have "int (nat i) < i"
      unfolding fresh_from_def by blast
    with i show False by (simp only: nat_0_le less_irrefl)
  qed
  then have "dec (nat i) \<notin> rkey ` set rs"
    by (metis image_iff)
  then show ?thesis
    by (simp add: db_map_def latest_None)
qed

section \<open>A put of the server\<close>

text \<open>
  An open server on a database: its writer is consistent and no key of the file is ahead of
  the next identifier.  Keys of less than \<open>10 ^ 15\<close> fit the key buffer.
\<close>

definition server_inv :: "string \<Rightarrow> world \<Rightarrow> write_handler \<Rightarrow> string \<Rightarrow> OZRecord list \<Rightarrow> bool" where
  "server_inv db w st v rs \<longleftrightarrow> writer_inv db w (ow st) v rs \<and> 0 \<le> wid st \<and> fresh_from rs (wid st)"

definition on_disk :: "string \<Rightarrow> world \<Rightarrow> string \<Rightarrow> OZRecord list \<Rightarrow> bool" where
  "on_disk db w v rs \<longleftrightarrow> files w (key_path db) = Some (print_recs rs) \<and> files w (value_path db) = Some v"

lemma make_key_ok:
  assumes "0 \<le> wid st" and "wid st < 10 ^ 15"
  shows "make_key st = Some (st\<lparr>wkeybuf := dec (nat (wid st)), wid := wid st + 1\<rparr>)"
proof -
  have "nat (wid st) < 10 ^ 15"
    using assms by simp
  then have "length (dec (nat (wid st))) \<le> 15"
    by (rule length_dec_le) simp
  then show ?thesis
    using assms by (simp add: make_key_def incr_def long_max_def KEY_LEN_def dec_int_def)
qed

lemma key_ok_id: "0 \<le> i \<Longrightarrow> i < 10 ^ 15 \<Longrightarrow> key_ok (dec (nat i))"
  by (rule key_ok_dec) simp

lemma no_faults_simps [simp]:
  "tell_ok no_faults" "value_fault no_faults = None" "key_fault no_faults = None"
  by (simp_all add: no_faults_def)

text \<open>A put of a value that is not empty stores it under the next identifier, on disk.\<close>

lemma write_value_ok:
  assumes inv: "server_inv db w st v rs" and id: "wid st < 10 ^ 15"
    and val: "val \<noteq> []" "length val < 2 ^ 32" "length (v @ val) < 2 ^ 63"
  shows "\<exists>st1 st2 w'. make_key st = Some st1 \<and> write_value no_faults w st1 val = Some (0, st2, w')
    \<and> server_inv db w' st2 (v @ val) (rs @ [new_rec v (dec (nat (wid st))) val])
    \<and> wid st2 = wid st + 1 \<and> on_disk db w' (v @ val) (rs @ [new_rec v (dec (nat (wid st))) val])
    \<and> openable w' = openable w"
proof -
  let ?k = "dec (nat (wid st))" and ?st1 = "st\<lparr>wkeybuf := dec (nat (wid st)), wid := wid st + 1\<rparr>"
  have i: "0 \<le> wid st" "writer_inv db w (ow st) v rs" "fresh_from rs (wid st)"
    using inv by (simp_all add: server_inv_def)
  obtain h' w' where put: "ozwrite_put no_faults w (Some (ow st)) ?k val (int (length val)) = Some (0, Some h', w')"
      "writer_inv db w' h' (v @ val) (rs @ [new_rec v ?k val])"
      "files w' (value_path db) = Some (v @ val)"
      "files w' (key_path db) = Some (print_recs (rs @ [new_rec v ?k val]))" "openable w' = openable w"
    using put_success [OF i(2) key_ok_id [OF i(1) id] val, of no_faults] by auto
  have "fresh_from (rs @ [new_rec v ?k val]) (wid st + 1)"
    using i by (intro fresh_from_snoc) simp_all
  then have "server_inv db w' (?st1\<lparr>ow := h'\<rparr>) (v @ val) (rs @ [new_rec v ?k val])"
    using put(2) i(1) by (simp add: server_inv_def)
  moreover have "write_value no_faults w ?st1 val = Some (0, ?st1\<lparr>ow := h'\<rparr>, w')"
    using put(1) by (simp add: write_value_def)
  ultimately show ?thesis
    using make_key_ok [OF i(1) id] put(3-5) by (auto simp: on_disk_def)
qed

lemma server_put_ok:
  assumes "server_inv db w st v rs" and "wid st < 10 ^ 15"
    and "val \<noteq> []" "length val < 2 ^ 32" "length (v @ val) < 2 ^ 63"
  shows "\<exists>st' w'. server_put True no_faults w st val = Some (Return (), st', w')
    \<and> server_inv db w' st' (v @ val) (rs @ [new_rec v (dec (nat (wid st))) val])
    \<and> wid st' = wid st + 1 \<and> on_disk db w' (v @ val) (rs @ [new_rec v (dec (nat (wid st))) val])
    \<and> openable w' = openable w"
  using write_value_ok [OF assms] by (auto simp: server_put_def)

text \<open>An empty value is refused; the identifier is used up.\<close>

lemma write_value_empty:
  "writer_inv db w (ow st) v rs \<Longrightarrow> write_value env w st [] = Some (5, st, w)"
  by (simp add: write_value_def ozwrite_put_def)

lemma server_put_empty:
  assumes "server_inv db w st v rs" and "wid st < 10 ^ 15"
  shows "\<exists>st'. server_put True env w st [] = Some (OZError ''value length can't be zero'', st', w)
    \<and> server_inv db w st' v rs \<and> wid st' = wid st + 1"
proof -
  have i: "0 \<le> wid st" "writer_inv db w (ow st) v rs" "fresh_from rs (wid st)"
    using assms(1) by (simp_all add: server_inv_def)
  let ?st1 = "st\<lparr>wkeybuf := dec (nat (wid st)), wid := wid st + 1\<rparr>"
  have "write_value env w ?st1 [] = Some (5, ?st1, w)"
    using i(2) by (intro write_value_empty) simp
  then show ?thesis
    using make_key_ok [OF i(1) assms(2)] i fresh_from_mono [OF i(3), of "wid st + 1"]
    by (simp add: server_put_def server_inv_def put_why_def)
qed

text \<open>When the position of the value file cannot be told, the client is given another reason.\<close>

lemma server_put_tell:
  assumes "server_inv db w st v rs" and "wid st < 10 ^ 15" and "\<not> tell_ok env"
    and "val \<noteq> []" and "length val < 2 ^ 32"
  shows "\<exists>st'. server_put True env w st val = Some (OZError ''value length can't be zero'', st', w)"
proof -
  have i: "0 \<le> wid st" "writer_inv db w (ow st) v rs"
    using assms(1) by (simp_all add: server_inv_def)
  then obtain fv where fv: "wval (ow st) = Ptr fv"
    by (auto simp: writer_inv_def)
  have n: "\<not> unat (of_nat (length val) :: u32) < 1"
    using assms(4,5) by (simp add: less_Suc_eq_le)
  show ?thesis
    using make_key_ok [OF i(1) assms(2)] fv n assms(3)
    by (simp add: server_put_def write_value_def ozwrite_put_def put_why_def)
qed

section \<open>A batch of puts\<close>

text \<open>What \<open>puts\<close> does to the map: consecutive identifiers; empty values are skipped.\<close>

fun stored :: "int \<Rightarrow> string list \<Rightarrow> (string \<Rightarrow> string option) \<Rightarrow> (string \<Rightarrow> string option)" where
  "stored i [] m = m"
| "stored i (val # vals) m = stored (i + 1) vals (if val = [] then m else m(dec (nat i) \<mapsto> val))"

lemma server_inv_skip:
  assumes "server_inv db w st v rs" and "wid st < 10 ^ 15"
  shows "\<exists>st1. make_key st = Some st1 \<and> write_value env w st1 [] = Some (5, st1, w)
    \<and> server_inv db w st1 v rs \<and> wid st1 = wid st + 1"
proof -
  have i: "0 \<le> wid st" "writer_inv db w (ow st) v rs" "fresh_from rs (wid st)"
    using assms(1) by (simp_all add: server_inv_def)
  let ?st1 = "st\<lparr>wkeybuf := dec (nat (wid st)), wid := wid st + 1\<rparr>"
  have "write_value env w ?st1 [] = Some (5, ?st1, w)"
    using i(2) by (intro write_value_empty) simp
  then show ?thesis
    using make_key_ok [OF i(1) assms(2)] i fresh_from_mono [OF i(3), of "wid st + 1"]
    by (simp add: server_inv_def)
qed

lemma server_inv_db:
  "server_inv db w st v rs \<Longrightarrow> \<exists>k. db_inv k v rs"
  by (auto simp: server_inv_def writer_inv_def)

text \<open>
  The contract of a numbered store: a request stores its value under the next number, unless
  the value is empty, and uses the number up.  \<open>rep s i n m\<close> says that the state \<open>s\<close> has the
  next number \<open>i\<close>, \<open>n\<close> bytes of values and the map \<open>m\<close>; the contract holds for numbers below
  \<open>limit\<close> and values shorter than \<open>maxlen\<close>.
\<close>

fun run_puts :: "('s \<Rightarrow> string \<Rightarrow> 's ub) \<Rightarrow> 's \<Rightarrow> string list \<Rightarrow> 's ub" where
  "run_puts put s [] = Some s"
| "run_puts put s (val # vals) = do { s' \<leftarrow> put s val; run_puts put s' vals }"

lemma stored_other:
  "(\<And>j. j < length vals \<Longrightarrow> k \<noteq> dec (nat (i + int j))) \<Longrightarrow> stored i vals m k = m k"
proof (induction vals arbitrary: i m)
  case (Cons val vals)
  have "k \<noteq> dec (nat (i + 1 + int j))" if "j < length vals" for j
    using Cons.prems [of "Suc j"] that by (simp add: add.assoc)
  moreover have "k \<noteq> dec (nat i)"
    using Cons.prems [of 0] by simp
  ultimately show ?case
    by (simp add: Cons.IH)
qed simp

lemma stored_nth:
  "0 \<le> i \<Longrightarrow> j < length vals \<Longrightarrow> vals ! j \<noteq> [] \<Longrightarrow> stored i vals m (dec (nat (i + int j))) = Some (vals ! j)"
proof (induction vals arbitrary: i j m)
  case (Cons val vals)
  show ?case
  proof (cases j)
    case 0
    then show ?thesis
      using Cons.prems by (simp add: stored_other dec_inj nat_eq_iff)
  next
    case (Suc l)
    then show ?thesis
      using Cons.prems Cons.IH [of "i + 1" l] by (simp add: add.assoc)
  qed
qed simp

locale numbered_store =
  fixes put :: "'s \<Rightarrow> string \<Rightarrow> 's ub"
    and rep :: "'s \<Rightarrow> int \<Rightarrow> nat \<Rightarrow> (string \<Rightarrow> string option) \<Rightarrow> bool"
    and limit :: int and maxlen :: nat
  assumes put_law: "rep s i n m \<Longrightarrow> i < limit \<Longrightarrow> length val < maxlen \<Longrightarrow> n + length val < 2 ^ 63 \<Longrightarrow>
    \<exists>s'. put s val = Some s' \<and> rep s' (i + 1) (n + length val) (if val = [] then m else m(dec (nat i) \<mapsto> val))"
begin

lemma run_puts_stored:
  assumes "rep s i n m" and "i + int (length vals) \<le> limit"
    and "\<forall>val \<in> set vals. length val < maxlen" and "n + length (concat vals) < 2 ^ 63"
  shows "\<exists>s'. run_puts put s vals = Some s'
    \<and> rep s' (i + int (length vals)) (n + length (concat vals)) (stored i vals m)"
  using assms
proof (induction vals arbitrary: s i n m)
  case (Cons val vals)
  let ?m = "if val = [] then m else m(dec (nat i) \<mapsto> val)"
  obtain s' where s': "put s val = Some s'" "rep s' (i + 1) (n + length val) ?m"
    using put_law [OF Cons.prems(1), of val] Cons.prems(2-4) by auto
  have bounds: "i + 1 + int (length vals) \<le> limit" "\<forall>val \<in> set vals. length val < maxlen"
      "n + length val + length (concat vals) < 2 ^ 63"
    using Cons.prems by auto
  from Cons.IH [OF s'(2) bounds] s'(1) show ?case
    by (simp add: add.assoc)
qed simp

end

text \<open>The handler with the files is a numbered store.\<close>

definition put_one :: "world \<times> write_handler \<Rightarrow> string \<Rightarrow> (world \<times> write_handler) ub" where
  "put_one s val = do {
     st1 \<leftarrow> make_key (snd s);
     (ret, st2, w') \<leftarrow> write_value no_faults (fst s) st1 val;
     Some (w', st2)
   }"

lemma put_one_pair: "put_one (w, st) val = do {
     st1 \<leftarrow> make_key st;
     (ret, st2, w') \<leftarrow> write_value no_faults w st1 val;
     Some (w', st2)
   }"
  by (simp add: put_one_def)

definition store_rep :: "string \<Rightarrow> world \<times> write_handler \<Rightarrow> int \<Rightarrow> nat \<Rightarrow> (string \<Rightarrow> string option) \<Rightarrow> bool" where
  "store_rep db s i n m \<longleftrightarrow> (\<exists>v rs. server_inv db (fst s) (snd s) v rs \<and> on_disk db (fst s) v rs
     \<and> wid (snd s) = i \<and> length v = n \<and> db_map v rs = m)"

text \<open>One request: what the files hold afterwards.\<close>

definition after_put :: "string \<times> OZRecord list \<Rightarrow> int \<Rightarrow> string \<Rightarrow> string \<times> OZRecord list" where
  "after_put d i val = (if val = [] then d else (fst d @ val, snd d @ [new_rec (fst d) (dec (nat i)) val]))"

lemma put_one_ok:
  assumes "server_inv db w st v rs" and "on_disk db w v rs" and "wid st < 10 ^ 15"
    and "length val < 2 ^ 32" and "length v + length val < 2 ^ 63"
    and "after_put (v, rs) (wid st) val = (v', rs')"
  shows "\<exists>w' st'. put_one (w, st) val = Some (w', st') \<and> server_inv db w' st' v' rs' \<and> on_disk db w' v' rs'
    \<and> wid st' = wid st + 1 \<and> openable w' = openable w"
proof (cases "val = []")
  case True
  then show ?thesis
    using server_inv_skip [OF assms(1,3), of no_faults] assms(2,6)
    by (auto simp: put_one_pair after_put_def)
next
  case False
  then show ?thesis
    using write_value_ok [OF assms(1,3) False assms(4)] assms(5,6)
    by (auto simp: put_one_pair after_put_def)
qed

lemma after_put_map:
  assumes "server_inv db w st v rs" and "length val < 2 ^ 32" and "length v + length val < 2 ^ 63"
    and "after_put (v, rs) i val = (v', rs')"
  shows "db_map v' rs' = (if val = [] then db_map v rs else (db_map v rs)(dec (nat i) \<mapsto> val))"
    and "length v' = length v + length val"
  using server_inv_db [OF assms(1)] db_map_append [of _ v rs val "dec (nat i)"] assms(2-4)
  by (auto simp: after_put_def split: if_splits)

interpretation handler_store: numbered_store put_one "store_rep db" "10 ^ 15" "2 ^ 32" for db
proof
  fix s :: "world \<times> write_handler" and i n m and val :: string
  assume "store_rep db s i n m" and id: "i < 10 ^ 15" and val: "length val < 2 ^ 32" "n + length val < 2 ^ 63"
  then obtain w st v rs where s: "s = (w, st)" "server_inv db w st v rs" "on_disk db w v rs"
      "wid st = i" "length v = n" "db_map v rs = m"
    by (cases s) (auto simp: store_rep_def)
  obtain v' rs' where d: "after_put (v, rs) (wid st) val = (v', rs')"
    by (cases "after_put (v, rs) (wid st) val")
  have bounds: "wid st < 10 ^ 15" "length v + length val < 2 ^ 63"
    using id val(2) s(4,5) by simp_all
  show "\<exists>s'. put_one s val = Some s' \<and>
    store_rep db s' (i + 1) (n + length val) (if val = [] then m else m(dec (nat i) \<mapsto> val))"
    using put_one_ok [OF s(2,3) bounds(1) val(1) bounds(2) d]
      after_put_map [OF s(2) val(1) bounds(2) d] s(1,4-6)
    unfolding store_rep_def by (metis fst_conv snd_conv)
qed

lemma put_all_run_puts:
  "map_option (\<lambda>(st', w'). (w', st')) (put_all (\<lambda>_. no_faults) i w st vals) = run_puts put_one (w, st) vals"
proof (induction vals arbitrary: i w st)
  case (Cons val vals)
  show ?case
    by (cases "make_key st") (auto simp: put_one_pair simp flip: Cons.IH [of "Suc i"] split: bind_split)
qed simp

lemma server_puts_run:
  assumes "run_puts put_one (w, st) vals = Some s"
  shows "\<exists>w' st'. s = (w', st') \<and> server_puts True (\<lambda>_. no_faults) w st vals = Some (Return (), st', w')"
  using assms put_all_run_puts [of 0 w st vals] by (auto simp: server_puts_def)

lemma put_all_ok:
  assumes "server_inv db w st v rs" and "on_disk db w v rs"
    and "wid st + int (length vals) \<le> 10 ^ 15" and "\<forall>val \<in> set vals. length val < 2 ^ 32"
    and "length v + length (concat vals) < 2 ^ 63"
  shows "\<exists>st' w'. put_all (\<lambda>_. no_faults) i w st vals = Some (st', w')
    \<and> store_rep db (w', st') (wid st + int (length vals)) (length v + length (concat vals))
        (stored (wid st) vals (db_map v rs))"
proof -
  have "store_rep db (w, st) (wid st) (length v) (db_map v rs)"
    using assms(1,2) by (auto simp: store_rep_def)
  from handler_store.run_puts_stored [OF this assms(3-5)] show ?thesis
    using put_all_run_puts [of i w st vals] by auto
qed

text \<open>Identifiers that do not fit an \<open>int\<close> are read back wrong, so they are handed out again.\<close>

lemma atoi_wraps: "atoi (dec 2147483648) = - 2147483648"
  using scan_num_dec [of "[]" 2147483648] by (simp add: atoi_def to_long_def)

lemma largest_id_reuse:
  assumes "rs = [\<lparr>rkey = dec 2147483647, roffset = 0, rlength = 1\<rparr>,
                 \<lparr>rkey = dec 2147483648, roffset = 1, rlength = 1\<rparr>]"
  shows "largest_id rs 0 + 1 = 2147483648 \<and> \<not> fresh_from rs (largest_id rs 0 + 1)"
proof -
  have "largest_id rs 0 + 1 = 2147483648"
    by (simp add: assms largest_id_def atoi_wraps atoi_dec)
  moreover have "\<not> fresh_from rs 2147483648"
  proof
    assume "fresh_from rs 2147483648"
    then have "int 2147483648 < 2147483648"
      unfolding fresh_from_def assms by force
    then show False by simp
  qed
  ultimately show ?thesis by simp
qed

section \<open>Starting the server, and reading what it stored\<close>

lemma write_handler_new_ok:
  assumes "nul_free db" and "openable (mkdir w db) (key_path db)" and "openable (mkdir w db) (value_path db)"
    and "key_path db \<noteq> value_path db"
    and "db_inv (content w (key_path db)) (content w (value_path db)) rs"
    and "\<forall>r \<in> set rs. \<forall>n. rkey r = dec n \<longrightarrow> n < 2 ^ 31"
  shows "\<exists>st w'. write_handler_new w uninit True db = Some (Return st, w')
    \<and> server_inv db w' st (content w (value_path db)) rs
    \<and> on_disk db w' (content w (value_path db)) rs \<and> wid st = largest_id rs 0 + 1
    \<and> openable w' = openable (mkdir w db)"
proof -
  let ?k = "content w (key_path db)" and ?v = "content w (value_path db)"
  have rs: "?k = print_recs rs" "recs_ok rs"
    using assms(5) by (simp_all add: db_inv_def)
  obtain h' w' where o: "ozwrite_open w (Some uninit) db = (0, Some h', w')" "writer_inv db w' h' ?v rs"
      "files w' (key_path db) = Some ?k" "files w' (value_path db) = Some ?v" "openable w' = openable (mkdir w db)"
    using open_writer_inv [OF assms(2-5), of uninit] by auto
  have "getmax w' db = Some (largest_id rs 0 + 1)"
    using o(3,5) assms(2) rs by (intro getmax_print) (simp_all add: fopen_r_def)
  moreover have "0 \<le> largest_id rs 0"
    by (rule largest_id_ge)
  ultimately show ?thesis
    using o rs assms(1) largest_id_fresh [OF assms(6)]
    by (simp add: write_handler_new_def server_inv_def on_disk_def)
qed

lemma dec_visible: "dec n < ''~''" "CHR 0xFF \<notin> set (dec n)"
proof -
  have "isdigit (hd (dec n))"
    using dec_digits [of "hd (dec n)" n] by simp
  then have "hd (dec n) < CHR ''~''"
    by (simp add: isdigit_def char_less_byte)
  then show "dec n < ''~''"
    by (metis Cons_less_Cons dec_nonempty list.collapse)
  have "\<not> isdigit (CHR 0xFF)"
    by (simp add: isdigit_def)
  then show "CHR 0xFF \<notin> set (dec n)"
    using dec_digits by blast
qed

lemma rec_readable_new:
  assumes "length val < 2 ^ 32 - 1"
  shows "rec_readable (new_rec v (dec n) val)"
proof -
  have "unat (rlength (new_rec v (dec n) val)) = length val"
    using assms by simp
  moreover have "unat (- 1 :: u32) = 2 ^ 32 - 1"
    by (simp add: unsigned_minus_1_eq_mask mask_eq_exp_minus_1)
  ultimately have "rlength (new_rec v (dec n) val) \<noteq> - 1"
    using assms by (metis less_irrefl)
  then show ?thesis
    by (simp add: rec_readable_def visible_def dec_visible)
qed

text \<open>
  A database that a write server has written is opened by a read server, which then answers
  every request from the map.
\<close>

lemma read_handler_on_disk:
  assumes "runs_sort popen now1 now2" and "plain_word (key_path db)" and "length db \<le> 900"
    and "nul_free db" and "openable w (key_path db)" and "openable w (value_path db)"
    and "\<not> is_tmp (value_path db)" and "tmp_openable w"
    and "on_disk db w v rs" and "db_inv k v rs" and "list_all rec_readable rs" and "rs \<noteq> []"
    and "fits_splits rs"
  shows "\<exists>h w'. read_handler_new popen uninit w db = Some (Return h, w') \<and> reader_for db h rs
    \<and> content w' (value_path db) = v"
proof -
  have f: "fopen_r w (key_path db) = Some (print_recs rs)" "fopen_r w (value_path db) = Some v"
    using assms(5,6,9) by (simp_all add: on_disk_def fopen_r_def)
  have ok: "recs_ok rs" using assms(10) by (simp add: db_inv_def)
  obtain h w' where o: "ozread_open popen uninit w db = Some (0, h, w')" "reader_for db h rs"
      "clean_up w (tool_tmps now1 now2 rs) w'"
    using open_reader [OF assms(1-3) f assms(7) ok assms(11,13,8), of uninit] by blast
  have "content w' (value_path db) = v"
    using o(3) assms(7,9) by (auto simp: clean_up_def on_disk_def content_def)
  with o assms(4) show ?thesis
    by (simp add: read_handler_new_def)
qed

end
