(* ===== verification/EndToEnd.thy ===== *)
theory EndToEnd
  imports WriteServer
begin

text \<open>
  The two servers together: the contract of a numbered store is extended by a read, and the
  model of the write server, with a read server that is started on what it left on disk, meets
  it.  What is stored is read back, and nothing else changes.
\<close>

locale numbered_db = numbered_store put rep limit maxlen
  for put :: "'s \<Rightarrow> string \<Rightarrow> 's ub"
    and rep :: "'s \<Rightarrow> int \<Rightarrow> nat \<Rightarrow> (string \<Rightarrow> string option) \<Rightarrow> bool"
    and limit :: int and maxlen :: nat +
  fixes get :: "'s \<Rightarrow> string \<Rightarrow> string reply ub"
  assumes number_law: "rep s i n m \<Longrightarrow> 0 \<le> i"
    and get_law: "rep s i n m \<Longrightarrow> m \<noteq> Map.empty \<Longrightarrow> get s k = Some (case m (cstr k) of
      None \<Rightarrow> OZError ''key not found'' | Some val \<Rightarrow> Return val)"
begin

lemma get_stored:
  assumes "rep s i n m" and "i + int (length vals) \<le> limit"
    and "\<forall>val \<in> set vals. length val < maxlen" and "n + length (concat vals) < 2 ^ 63"
    and "j < length vals" and "vals ! j \<noteq> []"
  shows "\<exists>s'. run_puts put s vals = Some s' \<and> get s' (dec (nat (i + int j))) = Some (Return (vals ! j))"
proof -
  have st: "stored i vals m (dec (nat (i + int j))) = Some (vals ! j)"
    using number_law [OF assms(1)] assms(5,6) by (rule stored_nth)
  then have ne: "stored i vals m \<noteq> Map.empty" by auto
  obtain s' where s': "run_puts put s vals = Some s'"
      "rep s' (i + int (length vals)) (n + length (concat vals)) (stored i vals m)"
    using run_puts_stored [OF assms(1-4)] by blast
  from get_law [OF s'(2) ne, of "dec (nat (i + int j))"] s'(1) st show ?thesis
    by (simp only: cstr_id nul_free_dec option.case option.inject ex_simps simp_thms)
qed

lemma get_unchanged:
  assumes "rep s i n m" and "i + int (length vals) \<le> limit"
    and "\<forall>val \<in> set vals. length val < maxlen" and "n + length (concat vals) < 2 ^ 63"
    and "m (cstr k) = Some val" and "\<And>j. j < length vals \<Longrightarrow> cstr k \<noteq> dec (nat (i + int j))"
  shows "\<exists>s'. run_puts put s vals = Some s' \<and> get s' k = Some (Return val)"
proof -
  have st: "stored i vals m (cstr k) = Some val"
    using stored_other [of vals "cstr k" i m] assms(5,6) by simp
  then have ne: "stored i vals m \<noteq> Map.empty" by auto
  obtain s' where s': "run_puts put s vals = Some s'"
      "rep s' (i + int (length vals)) (n + length (concat vals)) (stored i vals m)"
    using run_puts_stored [OF assms(1-4)] by blast
  from get_law [OF s'(2) ne, of k] s'(1) st show ?thesis
    by simp
qed

end

section \<open>The model as an instance\<close>

text \<open>
  Where the database may live: its path is a plain word without NUL, not that of a temporary file, and
  the files can be opened.
\<close>

definition db_place :: "string \<Rightarrow> world \<Rightarrow> bool" where
  "db_place db w \<longleftrightarrow> plain_word (key_path db) \<and> length db \<le> 900 \<and> nul_free db
     \<and> \<not> is_tmp (value_path db) \<and> openable w (key_path db) \<and> openable w (value_path db)
     \<and> tmp_openable w"

text \<open>The number of records is limited by the sort tool, the length of a value by the reader.\<close>

definition max_records :: int where
  "max_records = int OZSORT_PER_LINE * int OZSORT_MAX_SPLITS - 1"

definition db_rep :: "string \<Rightarrow> world \<times> write_handler \<Rightarrow> int \<Rightarrow> nat \<Rightarrow> (string \<Rightarrow> string option) \<Rightarrow> bool" where
  "db_rep db s i n m \<longleftrightarrow> (\<exists>v rs. server_inv db (fst s) (snd s) v rs \<and> on_disk db (fst s) v rs
     \<and> wid (snd s) = i \<and> length v = n \<and> db_map v rs = m \<and> db_place db (fst s)
     \<and> list_all rec_readable rs \<and> int (length rs) \<le> i \<and> int (length rs) \<le> max_records)"

text \<open>A shell that runs the sort tool and nothing else.\<close>

definition sh_popen :: "int \<Rightarrow> int \<Rightarrow> popen_fun" where
  "sh_popen now1 now2 cmd w = (if take 12 cmd = ''./OZoneSort ''
     then (case ozsort_main now1 now2 [''./OZoneSort'', drop 12 cmd] w of
             None \<Rightarrow> None | Some (code, out, w') \<Rightarrow> Some (out, w'))
     else None)"

lemma runs_sort_sh_popen: "runs_sort (sh_popen now1 now2) now1 now2"
  by (simp add: runs_sort_def sh_popen_def)

text \<open>Starting a read server on the disk and asking it once.\<close>

definition start_and_get :: "popen_fun \<Rightarrow> OZRecord \<Rightarrow> string \<Rightarrow> world \<times> write_handler \<Rightarrow> string
    \<Rightarrow> string reply ub" where
  "start_and_get popen uninit db s k = do {
     (r, w) \<leftarrow> read_handler_new popen uninit (fst s) db;
     (case r of
        Return h \<Rightarrow> server_get (\<lambda>_ _. True) w h k
      | OZError e \<Rightarrow> Some (OZError e)
      | TError e \<Rightarrow> Some (TError e))
   }"

lemma start_and_get_Return:
  assumes "start_and_get popen uninit db s k = Some (Return val)"
  shows "\<exists>h w. read_handler_new popen uninit (fst s) db = Some (Return h, w)
    \<and> server_get (\<lambda>_ _. True) w h k = Some (Return val)"
  using assms by (auto simp: start_and_get_def split: bind_splits reply.splits)

lemma start_and_get_map:
  assumes "runs_sort popen now1 now2" and "db_rep db s i n m" and "m \<noteq> Map.empty"
  shows "start_and_get popen uninit db s k = Some (case m (cstr k) of
      None \<Rightarrow> OZError ''key not found'' | Some val \<Rightarrow> Return val)"
proof -
  obtain v rs where s: "server_inv db (fst s) (snd s) v rs" "on_disk db (fst s) v rs"
      "db_map v rs = m" "db_place db (fst s)" "list_all rec_readable rs" "int (length rs) \<le> max_records"
    using assms(2) unfolding db_rep_def by blast
  obtain kf where inv: "db_inv kf v rs"
    using server_inv_db [OF s(1)] by blast
  have rs: "rs \<noteq> []"
    using s(3) assms(3) by (auto simp: db_map_empty)
  have fits: "fits_splits rs"
    using s(6) by (simp add: fits_splits_def max_records_def OZSORT_PER_LINE_def OZSORT_MAX_SPLITS_def)
  obtain h w' where h: "read_handler_new popen uninit (fst s) db = Some (Return h, w')"
      "reader_for db h rs" "content w' (value_path db) = v"
    using read_handler_on_disk [OF assms(1) _ _ _ _ _ _ _ s(2) inv s(5) rs fits, of uninit] s(4)
    unfolding db_place_def by blast
  have "server_get (\<lambda>_ _. True) w' h k = Some (case m (cstr k) of
      None \<Rightarrow> OZError ''key not found'' | Some val \<Rightarrow> Return val)"
    using server_get_db_map [OF h(2) s(5) rs inv h(3)] s(3) by simp
  with h(1) show ?thesis by (simp add: start_and_get_def)
qed

lemma db_rep_put:
  assumes "db_rep db s i n m" and "i < max_records" and "length val < 2 ^ 32 - 1" and "n + length val < 2 ^ 63"
  shows "\<exists>s'. put_one s val = Some s' \<and>
    db_rep db s' (i + 1) (n + length val) (if val = [] then m else m(dec (nat i) \<mapsto> val))"
proof -
  obtain w st v rs where s: "s = (w, st)" "server_inv db w st v rs" "on_disk db w v rs" "wid st = i"
      "length v = n" "db_map v rs = m" "db_place db w" "list_all rec_readable rs"
      "int (length rs) \<le> i" "int (length rs) \<le> max_records"
    using assms(1) by (cases s) (auto simp: db_rep_def)
  obtain v' rs' where d: "after_put (v, rs) (wid st) val = (v', rs')"
    by (cases "after_put (v, rs) (wid st) val")
  have bounds: "wid st < 10 ^ 15" "length val < 2 ^ 32" "length v + length val < 2 ^ 63"
    using assms(2-4) s(4,5) by (simp_all add: max_records_def OZSORT_PER_LINE_def OZSORT_MAX_SPLITS_def)
  obtain w' st' where p: "put_one (w, st) val = Some (w', st')" "server_inv db w' st' v' rs'"
      "on_disk db w' v' rs'" "wid st' = wid st + 1" "openable w' = openable w"
    using put_one_ok [OF s(2,3) bounds d] by blast
  have "list_all rec_readable rs'" "int (length rs') \<le> i + 1" "int (length rs') \<le> max_records"
    using d s(8-10) assms(2) rec_readable_new [OF assms(3)]
    by (auto simp: after_put_def split: if_splits)
  moreover have "db_place db w'"
    using s(7) p(5) by (simp add: db_place_def tmp_openable_def)
  ultimately have "db_rep db (w', st') (i + 1) (n + length val)
      (if val = [] then m else m(dec (nat i) \<mapsto> val))"
    unfolding db_rep_def using p(2-4) after_put_map [OF s(2) bounds(2,3) d] s(4-6)
    by (metis fst_conv snd_conv)
  with p(1) s(1) show ?thesis by blast
qed

lemma servers_numbered_db:
  assumes "runs_sort popen now1 now2"
  shows "numbered_db put_one (db_rep db) max_records (2 ^ 32 - 1) (start_and_get popen uninit db)"
proof
  fix s i n m val
  show "db_rep db s i n m \<Longrightarrow> i < max_records \<Longrightarrow> length val < 2 ^ 32 - 1 \<Longrightarrow> n + length val < 2 ^ 63 \<Longrightarrow>
    \<exists>s'. put_one s val = Some s' \<and>
      db_rep db s' (i + 1) (n + length val) (if val = [] then m else m(dec (nat i) \<mapsto> val))"
    by (rule db_rep_put)
next
  fix s i n m
  show "db_rep db s i n m \<Longrightarrow> 0 \<le> i"
    by (auto simp: db_rep_def server_inv_def)
next
  fix s i n m k
  show "db_rep db s i n m \<Longrightarrow> m \<noteq> Map.empty \<Longrightarrow> start_and_get popen uninit db s k =
    Some (case m (cstr k) of None \<Rightarrow> OZError ''key not found'' | Some val \<Rightarrow> Return val)"
    by (rule start_and_get_map [OF assms])
qed

interpretation servers: numbered_db put_one "db_rep db" max_records "2 ^ 32 - 1"
    "start_and_get (sh_popen now1 now2) uninit db" for db now1 now2 uninit
  by (rule servers_numbered_db [OF runs_sort_sh_popen])

end
