(* ===== verification/WriteThreads.thy ===== *)
theory WriteThreads
  imports WriteServer
begin

text \<open>
  Threads of the write server under its mutex.  Each thread serves one \<open>put\<close>: it locks the
  mutex, makes the key in the shared buffer, writes, and unlocks.  The steps of different
  threads interleave in any way; the steps that use the shared handler are not guarded by
  anything else than the position in the code.  The main fact is that every run is, for the
  handler, the files and the replies, the same as serving the requests one after the other in
  the order in which the mutex was locked.
\<close>

datatype put_phase =
  Waiting string
| Locked string
| Keyed string
| Written "unit reply"
| Finished "unit reply"

text \<open>\<open>entered\<close> records the order in which the threads locked the mutex.\<close>

record put_pool =
  mutex :: "nat option"
  handler :: write_handler
  disk :: world
  point :: "nat \<Rightarrow> put_phase"
  entered :: "nat list"

inductive put_step :: "(nat \<Rightarrow> put_env) \<Rightarrow> nat \<Rightarrow> put_pool \<Rightarrow> put_pool \<Rightarrow> bool" for env t s where
  lock: "mutex s = None \<Longrightarrow> point s t = Waiting val \<Longrightarrow>
    put_step env t s (s\<lparr>mutex := Some t, point := (point s)(t := Locked val), entered := entered s @ [t]\<rparr>)"
| key: "point s t = Locked val \<Longrightarrow> make_key (handler s) = Some st \<Longrightarrow>
    put_step env t s (s\<lparr>handler := st, point := (point s)(t := Keyed val)\<rparr>)"
| store: "point s t = Keyed val \<Longrightarrow> write_value (env t) (disk s) (handler s) val = Some (ret, st, w) \<Longrightarrow>
    put_step env t s (s\<lparr>handler := st, disk := w,
      point := (point s)(t := Written (if ret = 0 then Return () else OZError (put_why ret)))\<rparr>)"
| unlock: "point s t = Written reply \<Longrightarrow>
    put_step env t s (s\<lparr>mutex := None, point := (point s)(t := Finished reply)\<rparr>)"

inductive_cases put_stepE: "put_step env t s s'"

inductive put_run :: "(nat \<Rightarrow> put_env) \<Rightarrow> put_pool \<Rightarrow> put_pool \<Rightarrow> bool" for env s0 where
  start: "put_run env s0 s0"
| step: "put_run env s0 s \<Longrightarrow> put_step env t s s' \<Longrightarrow> put_run env s0 s'"

definition start_pool :: "(nat \<Rightarrow> string) \<Rightarrow> world \<Rightarrow> write_handler \<Rightarrow> put_pool" where
  "start_pool vals w st = \<lparr>mutex = None, handler = st, disk = w, point = (\<lambda>t. Waiting (vals t)), entered = []\<rparr>"

text \<open>The reference: the requests of the threads, one after the other.\<close>

fun serve :: "(nat \<Rightarrow> put_env) \<Rightarrow> (nat \<Rightarrow> string) \<Rightarrow> nat list \<Rightarrow> world \<Rightarrow> write_handler
    \<Rightarrow> ((nat \<times> unit reply) list \<times> write_handler \<times> world) ub" where
  "serve env vals [] w st = Some ([], st, w)"
| "serve env vals (t # ts) w st = do {
     (reply, st1, w1) \<leftarrow> server_put True (env t) w st (vals t);
     (rs, st2, w2) \<leftarrow> serve env vals ts w1 st1;
     Some ((t, reply) # rs, st2, w2)
   }"

lemma serve_snoc:
  assumes "serve env vals ts w st = Some (rs, st1, w1)"
    and "server_put True (env t) w1 st1 (vals t) = Some (reply, st2, w2)"
  shows "serve env vals (ts @ [t]) w st = Some (rs @ [(t, reply)], st2, w2)"
  using assms(1)
proof (induction ts arbitrary: w st rs)
  case (Cons u ts)
  then show ?case by (fastforce split: bind_splits)
qed (use assms(2) in simp)

section \<open>The invariant\<close>

text \<open>What the thread that holds the mutex has done since the last completed request.\<close>

definition progress :: "(nat \<Rightarrow> put_env) \<Rightarrow> (nat \<Rightarrow> string) \<Rightarrow> nat \<Rightarrow> write_handler \<Rightarrow> world \<Rightarrow> put_pool \<Rightarrow> bool" where
  "progress env vals t st1 w1 s \<longleftrightarrow> (case point s t of
       Locked val \<Rightarrow> val = vals t \<and> handler s = st1 \<and> disk s = w1
     | Keyed val \<Rightarrow> val = vals t \<and> make_key st1 = Some (handler s) \<and> disk s = w1
     | Written reply \<Rightarrow> server_put True (env t) w1 st1 (vals t) = Some (reply, handler s, disk s)
     | _ \<Rightarrow> False)"

definition outside :: "(nat \<Rightarrow> string) \<Rightarrow> put_phase \<Rightarrow> nat \<Rightarrow> (nat \<times> unit reply) list \<Rightarrow> bool" where
  "outside vals p u rs \<longleftrightarrow> (case p of Waiting val \<Rightarrow> val = vals u \<and> u \<notin> fst ` set rs
     | Finished reply \<Rightarrow> (u, reply) \<in> set rs | _ \<Rightarrow> False)"

definition put_inv :: "(nat \<Rightarrow> put_env) \<Rightarrow> (nat \<Rightarrow> string) \<Rightarrow> world \<Rightarrow> write_handler \<Rightarrow> put_pool \<Rightarrow> bool" where
  "put_inv env vals w0 st0 s \<longleftrightarrow> (\<exists>ts rs st1 w1. serve env vals ts w0 st0 = Some (rs, st1, w1)
     \<and> distinct (entered s)
     \<and> (case mutex s of
          None \<Rightarrow> entered s = ts \<and> handler s = st1 \<and> disk s = w1 \<and> (\<forall>u. outside vals (point s u) u rs)
        | Some t \<Rightarrow> entered s = ts @ [t] \<and> progress env vals t st1 w1 s
            \<and> (\<forall>u. u \<noteq> t \<longrightarrow> outside vals (point s u) u rs)))"

lemma serve_threads: "serve env vals ts w st = Some (rs, st1, w1) \<Longrightarrow> map fst rs = ts"
  by (induction ts arbitrary: w st rs) (auto split: bind_splits)

lemma put_inv_start: "put_inv env vals w st (start_pool vals w st)"
  by (auto simp: put_inv_def start_pool_def outside_def intro!: exI [of _ "[]"])

definition holds_lock :: "put_phase \<Rightarrow> bool" where
  "holds_lock p \<longleftrightarrow> (case p of Waiting _ \<Rightarrow> False | Finished _ \<Rightarrow> False | _ \<Rightarrow> True)"

lemma holds_lock_simps [simp]:
  "holds_lock (Locked val)" "holds_lock (Keyed val)" "holds_lock (Written reply)"
  "\<not> holds_lock (Waiting val)" "\<not> holds_lock (Finished reply)"
  by (simp_all add: holds_lock_def)

lemma outside_not_locked: "outside vals p u rs \<Longrightarrow> \<not> holds_lock p"
  by (cases p) (simp_all add: outside_def)

text \<open>Mutual exclusion: a thread between lock and unlock is the one recorded in the mutex.\<close>

lemma put_inv_mutex: "put_inv env vals w0 st0 s \<Longrightarrow> holds_lock (point s t) \<Longrightarrow> mutex s = Some t"
proof -
  assume inv: "put_inv env vals w0 st0 s" and lock: "holds_lock (point s t)"
  then have no: "\<not> outside vals (point s t) t rs" for rs
    using outside_not_locked by blast
  show ?thesis
  proof (cases "mutex s")
    case None
    with inv have "\<exists>rs. \<forall>u. outside vals (point s u) u rs"
      unfolding put_inv_def by auto
    with no show ?thesis by blast
  next
    case (Some y)
    with inv have "\<exists>rs. \<forall>u. u \<noteq> y \<longrightarrow> outside vals (point s u) u rs"
      unfolding put_inv_def by auto
    with no have "t = y" by blast
    with Some show ?thesis by simp
  qed
qed

lemma put_inv_held:
  assumes "put_inv env vals w0 st0 s" and "holds_lock (point s t)"
  obtains ts rs st1 w1 where "serve env vals ts w0 st0 = Some (rs, st1, w1)" "distinct (entered s)"
    "mutex s = Some t" "entered s = ts @ [t]" "progress env vals t st1 w1 s"
    "\<And>u. u \<noteq> t \<Longrightarrow> outside vals (point s u) u rs"
  using assms(1) put_inv_mutex [OF assms] unfolding put_inv_def by auto

lemma put_inv_step:
  assumes inv: "put_inv env vals w0 st0 s" and "put_step env t s s'"
  shows "put_inv env vals w0 st0 s'"
  using assms(2)
proof (cases rule: put_step.cases)
  case (lock val)
  then obtain ts rs st1 w1 where h: "serve env vals ts w0 st0 = Some (rs, st1, w1)" "distinct ts"
      "entered s = ts" "handler s = st1" "disk s = w1" "\<And>u. outside vals (point s u) u rs"
    using inv unfolding put_inv_def by auto
  have "val = vals t" "t \<notin> set ts"
    using h(6) [of t] lock(3) serve_threads [OF h(1)] by (auto simp: outside_def)
  then show ?thesis
    unfolding put_inv_def using h lock(1)
    by (intro exI [of _ ts] exI [of _ rs] exI [of _ st1] exI [of _ w1]) (simp add: progress_def)
next
  case (key val st)
  then have "holds_lock (point s t)" by simp
  from put_inv_held [OF inv this] obtain ts rs st1 w1 where h:
      "serve env vals ts w0 st0 = Some (rs, st1, w1)" "distinct (entered s)" "mutex s = Some t"
      "entered s = ts @ [t]" "progress env vals t st1 w1 s" "\<And>u. u \<noteq> t \<Longrightarrow> outside vals (point s u) u rs"
    by blast
  then show ?thesis
    unfolding put_inv_def using key
    by (intro exI [of _ ts] exI [of _ rs] exI [of _ st1] exI [of _ w1]) (simp add: progress_def)
next
  case (store val ret st w)
  then have "holds_lock (point s t)" by simp
  from put_inv_held [OF inv this] obtain ts rs st1 w1 where h:
      "serve env vals ts w0 st0 = Some (rs, st1, w1)" "distinct (entered s)" "mutex s = Some t"
      "entered s = ts @ [t]" "progress env vals t st1 w1 s" "\<And>u. u \<noteq> t \<Longrightarrow> outside vals (point s u) u rs"
    by blast
  then show ?thesis
    unfolding put_inv_def using store
    by (intro exI [of _ ts] exI [of _ rs] exI [of _ st1] exI [of _ w1])
      (simp add: progress_def server_put_def)
next
  case (unlock reply)
  then have "holds_lock (point s t)" by simp
  from put_inv_held [OF inv this] obtain ts rs st1 w1 where h:
      "serve env vals ts w0 st0 = Some (rs, st1, w1)" "distinct (entered s)" "mutex s = Some t"
      "entered s = ts @ [t]" "progress env vals t st1 w1 s" "\<And>u. u \<noteq> t \<Longrightarrow> outside vals (point s u) u rs"
    by blast
  have "serve env vals (ts @ [t]) w0 st0 = Some (rs @ [(t, reply)], handler s, disk s)"
    using h(1,5) unlock(2) by (intro serve_snoc) (simp_all add: progress_def)
  moreover have "outside vals (point s u) u (rs @ [(t, reply)])" if "u \<noteq> t" for u
    using h(6) [OF that] that by (cases "point s u") (auto simp: outside_def)
  ultimately show ?thesis
    unfolding put_inv_def using h unlock
    by (intro exI [of _ "ts @ [t]"] exI [of _ "rs @ [(t, reply)]"] exI [of _ "handler s"] exI [of _ "disk s"])
      (simp add: outside_def)
qed

lemma put_run_inv: "put_run env (start_pool vals w st) s \<Longrightarrow> put_inv env vals w st s"
  by (induction rule: put_run.induct) (auto intro: put_inv_start put_inv_step)

section \<open>Every run is a sequence of puts\<close>

lemma put_run_serial:
  assumes "put_run env (start_pool vals w st) s" and "mutex s = None"
  shows "\<exists>rs. serve env vals (entered s) w st = Some (rs, handler s, disk s)
    \<and> distinct (entered s) \<and> (\<forall>t reply. point s t = Finished reply \<longrightarrow> (t, reply) \<in> set rs)
    \<and> (\<forall>t. t \<in> set (entered s) \<longleftrightarrow> (\<exists>reply. point s t = Finished reply))"
proof -
  obtain rs where rs: "serve env vals (entered s) w st = Some (rs, handler s, disk s)"
      "distinct (entered s)" "\<And>u. outside vals (point s u) u rs"
    using put_run_inv [OF assms(1)] assms(2) unfolding put_inv_def by auto
  have t: "map fst rs = entered s"
    using serve_threads [OF rs(1)] .
  have "(t \<in> set (entered s)) = (\<exists>reply. point s t = Finished reply)" for t
    using rs(3) [of t] unfolding t [symmetric]
    by (cases "point s t") (force simp: outside_def)+
  moreover have "(t, reply) \<in> set rs" if "point s t = Finished reply" for t reply
    using rs(3) [of t] that by (simp add: outside_def)
  ultimately show ?thesis
    using rs by blast
qed

lemma put_run_exclusive:
  assumes "put_run env (start_pool vals w st) s" and "holds_lock (point s t)" and "holds_lock (point s u)"
  shows "t = u"
  using put_inv_mutex [OF put_run_inv [OF assms(1)]] assms(2,3) by (metis option.inject)

text \<open>
  With values that can be stored, the requests that have finished got keys of their own, and
  the map holds the values under them.
\<close>

lemma serve_run_puts:
  "map_option (\<lambda>(rs, st', w'). (w', st')) (serve (\<lambda>_. no_faults) vals ts w st) =
     run_puts put_one (w, st) (map vals ts)"
proof (induction ts arbitrary: w st)
  case (Cons t ts)
  show ?case
    by (cases "make_key st")
      (auto simp: put_one_pair server_put_def simp flip: Cons.IH split: bind_split)
qed simp

lemma serve_stored:
  assumes "server_inv db w st v rs" and "on_disk db w v rs"
    and "wid st + int (length ts) \<le> 10 ^ 15" and "\<forall>t \<in> set ts. length (vals t) < 2 ^ 32"
    and "length v + length (concat (map vals ts)) < 2 ^ 63"
    and "serve (\<lambda>_. no_faults) vals ts w st = Some (replies, st', w')"
  shows "store_rep db (w', st') (wid st + int (length ts)) (length v + length (concat (map vals ts)))
    (stored (wid st) (map vals ts) (db_map v rs))"
proof -
  have "store_rep db (w, st) (wid st) (length v) (db_map v rs)"
    using assms(1,2) by (auto simp: store_rep_def)
  from handler_store.run_puts_stored [OF this, of "map vals ts"] assms(3-5) show ?thesis
    using serve_run_puts [of vals ts w st] assms(6) by auto
qed

end
