(* ===== verification/TravCore.thy ===== *)
theory TravCore
  imports ReadCore
begin

text \<open>
  The traversal side of the store (src/src/ozcore/oztrav.c): loading the records of the key
  file in file order, and a cursor that steps through them and owns two growing buffers.
  The debugging output of the code is left out.
\<close>

record OZTrav =
  trecs :: "OZRecord ptr list ptr"
  tnrecs :: int
  tfpval :: "string ptr"

record OZTrav_Cursor =
  ckey :: "buffer ptr"
  key_len :: int
  key_len_alloc :: int
  cvalue :: "buffer ptr"
  value_len :: int
  value_len_alloc :: int
  cur :: int

section \<open>Opening\<close>

text \<open>The first pass counts the lines that convert all three items.\<close>

function count_recs :: "OZRecord \<Rightarrow> string \<Rightarrow> nat \<Rightarrow> nat ub" where
  "count_recs old s n = (case scan_rec old s of
     None \<Rightarrow> None
   | Some (ret, r, s') \<Rightarrow>
       let n' = (if ret = Items 3 then n + 1 else n) in
       if ret = Eof then Some n' else count_recs r s' n')"
  by pat_completeness auto
termination
  by (relation "measure (\<lambda>(old, s, n). length s)") (auto dest: scan_rec_consumes)

declare count_recs.simps [simp del]

text \<open>
  The second pass stores them, up to the number that was counted.  (The scan targets still
  hold values of the first pass; nothing that is stored depends on them.)
\<close>

function load_recs :: "OZRecord \<Rightarrow> string \<Rightarrow> nat \<Rightarrow> OZRecord ptr list \<Rightarrow> OZRecord ptr list ub" where
  "load_recs old s cnt tab =
     (if length tab \<le> cnt then Some tab
      else case scan_rec old s of
        None \<Rightarrow> None
      | Some (ret, r, s') \<Rightarrow>
          if ret = Items 3 then load_recs r s' (cnt + 1) (tab[cnt := Ptr r])
          else if ret = Eof then Some tab
          else load_recs r s' cnt tab)"
  by pat_completeness auto
termination
  by (relation "measure (\<lambda>(old, s, cnt, tab). length s)") (auto dest: scan_rec_consumes)

declare load_recs.simps [simp del]

definition null_trav :: OZTrav where
  "null_trav = \<lparr>trecs = Null, tnrecs = 0, tfpval = Null\<rparr>"

definition oztrav_open_kf :: "OZRecord \<Rightarrow> world \<Rightarrow> string \<Rightarrow> (nat \<times> OZTrav) ub" where
  "oztrav_open_kf uninit w dbpath = (case fopen_r w (key_path dbpath) of
     None \<Rightarrow> Some (1, null_trav)
   | Some s \<Rightarrow>
       (case count_recs uninit s 0 of
          None \<Rightarrow> None
        | Some n \<Rightarrow>
            if n = 0 then Some (2, null_trav)
            else (case load_recs uninit s 0 (replicate n Uninit) of
                    None \<Rightarrow> None
                  | Some tab \<Rightarrow> Some (0, null_trav\<lparr>trecs := Ptr tab, tnrecs := int n\<rparr>))))"

definition oztrav_open_vf :: "world \<Rightarrow> OZTrav \<Rightarrow> string \<Rightarrow> nat \<times> OZTrav" where
  "oztrav_open_vf w h dbpath = (case fopen_r w (value_path dbpath) of
     None \<Rightarrow> (1, h\<lparr>tfpval := Null\<rparr>)
   | Some c \<Rightarrow> (0, h\<lparr>tfpval := Ptr (value_path dbpath)\<rparr>))"

definition oztrav_open :: "OZRecord \<Rightarrow> world \<Rightarrow> string \<Rightarrow> (nat \<times> OZTrav) ub" where
  "oztrav_open uninit w dbpath = do {
     (ret_kf, h) \<leftarrow> oztrav_open_kf uninit w dbpath;
     if ret_kf \<noteq> 0 then Some (ret_kf, h) else Some (oztrav_open_vf w h dbpath)
   }"

definition oztrav_close :: "OZTrav option \<Rightarrow> OZTrav option ub" where
  "oztrav_close handle = (case handle of
     None \<Rightarrow> Some None
   | Some h \<Rightarrow> do {
       b \<leftarrow> nonnull (trecs h);
       recs' \<leftarrow> (if b then do {
           tab \<leftarrow> deref (trecs h);
           (if nat (tnrecs h) \<le> length tab
               \<and> list_all (\<lambda>r. free_ok r = Some ()) (take (nat (tnrecs h)) tab)
            then Some Freed else None)
         } else Some Null);
       f \<leftarrow> nonnull (tfpval h);
       Some (Some (h\<lparr>trecs := recs', tnrecs := 0, tfpval := (if f then Freed else Null)\<rparr>))
     })"

section \<open>The cursor\<close>

definition oztrav_cursor_init :: OZTrav_Cursor where
  "oztrav_cursor_init = \<lparr>ckey = Null, key_len = 0, key_len_alloc = 0,
     cvalue = Null, value_len = 0, value_len_alloc = 0, cur = 0\<rparr>"

definition oztrav_cursor_free :: "OZTrav_Cursor \<Rightarrow> OZTrav_Cursor ub" where
  "oztrav_cursor_free c = do {
     free_ok (ckey c);
     free_ok (cvalue c);
     Some \<lparr>ckey = Null, key_len = 0, key_len_alloc = 0,
       cvalue = Null, value_len = 0, value_len_alloc = 0, cur = 0\<rparr>
   }"

text \<open>
  \<open>realloc(p, n)\<close>: the result keeps the bytes; when it fails, or when \<open>n\<close> is 0 for an
  existing block, it is a null pointer.
\<close>

fun realloc :: "bool \<Rightarrow> buffer ptr \<Rightarrow> nat \<Rightarrow> buffer ptr ub" where
  "realloc ok Null n = Some (if ok then Ptr (n, []) else Null)"
| "realloc ok (Ptr (m, bs)) n = Some (if ok \<and> n \<noteq> 0 then Ptr (n, take n bs) else Null)"
| "realloc ok _ n = None"

definition trav_rec_at :: "OZTrav \<Rightarrow> int \<Rightarrow> OZRecord ub" where
  "trav_rec_at h i = do {
     tab \<leftarrow> deref (trecs h);
     if 0 \<le> i \<and> i < int (length tab) then deref (tab ! nat i) else None
   }"

text \<open>
  Making room: the buffer is enlarged to \<open>size\<close> bytes when the recorded size is not above
  \<open>len\<close>; the result tells whether there was memory.
\<close>

definition grow_value :: "alloc \<Rightarrow> OZTrav_Cursor \<Rightarrow> u32 \<Rightarrow> (bool \<times> OZTrav_Cursor) ub" where
  "grow_value alloc c len =
     (if value_len_alloc c \<le> int (unat len)
      then do {
        p \<leftarrow> realloc (alloc 0 (value_bufsize len)) (cvalue c) (value_bufsize len);
        Some (if p = Null then (False, c\<lparr>cvalue := p\<rparr>)
              else (True, c\<lparr>cvalue := p, value_len_alloc := int (value_bufsize len)\<rparr>))
      }
      else Some (True, c))"

definition grow_key :: "alloc \<Rightarrow> OZTrav_Cursor \<Rightarrow> nat \<Rightarrow> (bool \<times> OZTrav_Cursor) ub" where
  "grow_key alloc c len =
     (if key_len_alloc c \<le> int len
      then do {
        p \<leftarrow> realloc (alloc 1 (len + 1)) (ckey c) (len + 1);
        Some (if p = Null then (False, c\<lparr>ckey := p\<rparr>)
              else (True, c\<lparr>ckey := p, key_len_alloc := int (len + 1)\<rparr>))
      }
      else Some (True, c))"

text \<open>The value step: room, \<open>fread\<close>, final NUL; then the key step: room, \<open>strcpy\<close>.\<close>

definition next_value :: "alloc \<Rightarrow> string \<Rightarrow> OZRecord \<Rightarrow> OZTrav_Cursor \<Rightarrow> (nat \<times> OZTrav_Cursor) ub" where
  "next_value alloc text r c = do {
     (ok, c1) \<leftarrow> grow_value alloc c (rlength r);
     if \<not> ok then Some (3, c1)
     else do {
       let pos = unat (roffset r);
       let n = unat (rlength r);
       buf \<leftarrow> deref (cvalue c1);
       buf1 \<leftarrow> buffer_read buf (fread_bytes text pos n);
       if fread_ret text pos n \<noteq> 1 then Some (2, c1\<lparr>cvalue := Ptr buf1\<rparr>)
       else do {
         buf2 \<leftarrow> buffer_nul buf1 n;
         Some (0, c1\<lparr>cvalue := Ptr buf2, value_len := int n\<rparr>)
       }
     }
   }"

definition next_key :: "alloc \<Rightarrow> OZRecord \<Rightarrow> OZTrav_Cursor \<Rightarrow> (nat \<times> OZTrav_Cursor) ub" where
  "next_key alloc r c = do {
     let len = length (rkey r);
     (ok, c1) \<leftarrow> grow_key alloc c len;
     if \<not> ok then Some (3, c1)
     else do {
       buf \<leftarrow> deref (ckey c1);
       buf1 \<leftarrow> buffer_read buf (rkey r @ [CHR 0x00]);
       Some (0, c1\<lparr>key_len := int len, ckey := Ptr buf1, cur := cur c1 + 1\<rparr>)
     }
   }"

definition oztrav_next :: "alloc \<Rightarrow> world \<Rightarrow> OZTrav \<Rightarrow> OZTrav_Cursor \<Rightarrow> (nat \<times> OZTrav_Cursor) ub" where
  "oztrav_next alloc w h c =
     (if tnrecs h \<le> cur c then Some (1, c)
      else do {
        r \<leftarrow> trav_rec_at h (cur c);
        path \<leftarrow> deref (tfpval h);
        if \<not> fseeko_ok (roffset r) then Some (2, c)
        else do {
          (ret, c1) \<leftarrow> next_value alloc (content w path) r c;
          if ret \<noteq> 0 then Some (ret, c1) else next_key alloc r c1
        }
      })"

text \<open>What a caller reads from the cursor: the first \<open>len\<close> bytes of a buffer.\<close>

definition cursor_bytes :: "buffer ptr \<Rightarrow> int \<Rightarrow> string ub" where
  "cursor_bytes p len = (if len = 0 then Some [] else do {
     b \<leftarrow> deref p;
     if nat len \<le> length (snd b) then Some (take (nat len) (snd b)) else None
   })"

text \<open>
  The loop of the traversal test in test.c: step until the cursor does not return 0, and
  print key and value as C strings.
\<close>

definition print_pair :: "OZTrav_Cursor \<Rightarrow> (string \<times> string) ub" where
  "print_pair c = do {
     kb \<leftarrow> deref (ckey c);
     k \<leftarrow> buffer_cstr kb;
     vb \<leftarrow> deref (cvalue c);
     v \<leftarrow> buffer_cstr vb;
     Some (k, v)
   }"

lemma next_value_cur:
  "next_value alloc text r c = Some (ret, c') \<Longrightarrow> cur c' = cur c"
  by (auto simp: next_value_def grow_value_def Let_def split: if_splits bind_splits)

lemma next_key_cur:
  "next_key alloc r c = Some (0, c') \<Longrightarrow> cur c' = cur c + 1"
  by (auto simp: next_key_def grow_key_def Let_def split: if_splits bind_splits)

lemma oztrav_next_cur:
  assumes "oztrav_next alloc w h c = Some (0, c')"
  shows "cur c' = cur c + 1 \<and> cur c < tnrecs h"
  using assms
  by (fastforce simp: oztrav_next_def dest: next_value_cur next_key_cur split: if_splits bind_splits)

function traverse :: "alloc \<Rightarrow> world \<Rightarrow> OZTrav \<Rightarrow> OZTrav_Cursor
    \<Rightarrow> ((string \<times> string) list \<times> nat \<times> OZTrav_Cursor) ub" where
  "traverse alloc w h c = (case oztrav_next alloc w h c of
     None \<Rightarrow> None
   | Some (ret, c') \<Rightarrow>
       if ret \<noteq> 0 then Some ([], ret, c')
       else (case print_pair c' of
               None \<Rightarrow> None
             | Some kv \<Rightarrow> (case traverse alloc w h c' of
                   None \<Rightarrow> None
                 | Some (kvs, ret', c'') \<Rightarrow> Some (kv # kvs, ret', c''))))"
  by pat_completeness auto
termination
  by (relation "measure (\<lambda>(alloc, w, h, c). nat (tnrecs h - cur c))")
    (auto dest!: oztrav_next_cur)

declare traverse.simps [simp del]

end
