(* ===== verification/TravCorrect.thy ===== *)
theory TravCorrect
  imports TravCore ReadCorrect
begin

text \<open>
  Correctness of the traversal: the loader keeps exactly the lines that convert three items,
  in file order; a cursor's buffers always have the recorded size, so stepping never leaves
  them; and the steps visit every record once, in order, with its bytes.
\<close>

section \<open>Loading\<close>

text \<open>The records of a key file: the lines that convert all three items.\<close>

function parse_recs :: "OZRecord \<Rightarrow> string \<Rightarrow> OZRecord list ub" where
  "parse_recs old s = (case scan_rec old s of
     None \<Rightarrow> None
   | Some (ret, r, s') \<Rightarrow>
       if ret = Eof then Some []
       else map_option (\<lambda>rs. if ret = Items 3 then r # rs else rs) (parse_recs r s'))"
  by pat_completeness auto
termination
  by (relation "measure (\<lambda>(old, s). length s)") (auto dest: scan_rec_consumes)

declare parse_recs.simps [simp del]

lemma parse_print_recs: "recs_ok rs \<Longrightarrow> parse_recs old (print_recs rs) = Some rs"
proof (induction rs arbitrary: old)
  case Nil
  then show ?case by (simp add: parse_recs.simps [of old] scan_simps)
next
  case (Cons r rs)
  then show ?case
    using scan_print_recs_Cons [of r rs old]
    by (simp add: parse_recs.simps [of old] del: print_recs_simps(2))
qed

lemma count_recs_parse: "count_recs old s n = map_option (\<lambda>rs. n + length rs) (parse_recs old s)"
proof (induction old s n rule: count_recs.induct)
  case (1 old s n)
  show ?case
  proof (cases "scan_rec old s")
    case None
    then show ?thesis by (simp add: count_recs.simps [of old] parse_recs.simps [of old])
  next
    case (Some x)
    then obtain ret r s' where x: "scan_rec old s = Some (ret, r, s')" by (cases x) auto
    then show ?thesis
      using "1.IH" [OF x refl refl refl] scan_rec_Eof [of old s]
      by (cases "parse_recs r s'")
        (auto simp: count_recs.simps [of old s] parse_recs.simps [of old s] Let_def)
  qed
qed

lemma load_recs_parse:
  "parse_recs old s = Some rs \<Longrightarrow> length tab = length pre + length rs \<Longrightarrow>
     take (length pre) tab = map Ptr pre \<Longrightarrow>
     load_recs old s (length pre) tab = Some (map Ptr (pre @ rs))"
proof (induction old s arbitrary: rs pre tab rule: parse_recs.induct)
  case (1 old s)
  show ?case
  proof (cases "scan_rec old s")
    case None
    with 1 show ?thesis by (simp add: parse_recs.simps [of old])
  next
    case (Some x)
    then obtain ret r s' where x: "scan_rec old s = Some (ret, r, s')" by (cases x) auto
    show ?thesis
    proof (cases "ret = Eof")
      case True
      with 1 x show ?thesis
        by (simp add: parse_recs.simps [of old] load_recs.simps [of old])
    next
      case False
      then obtain qs where qs: "parse_recs r s' = Some qs" "rs = (if ret = Items 3 then r # qs else qs)"
        using 1(2) x by (auto simp: parse_recs.simps [of old])
      show ?thesis
      proof (cases "ret = Items 3")
        case True
        let ?tab = "tab[length pre := Ptr r]"
        have "take (length (pre @ [r])) ?tab = map Ptr (pre @ [r])"
          using 1(3,4) True qs(2) by (simp add: take_Suc_conv_app_nth)
        then have "load_recs r s' (length (pre @ [r])) ?tab = Some (map Ptr ((pre @ [r]) @ qs))"
          using 1(3) True qs by (intro "1.IH" [OF x refl refl False qs(1)]) auto
        with True x 1(3) qs(2) show ?thesis
          by (simp add: load_recs.simps [of old])
      next
        case no: False
        then have "load_recs r s' (length pre) tab = Some (map Ptr (pre @ qs))"
          using 1(3,4) qs by (intro "1.IH" [OF x refl refl False qs(1)]) auto
        with no False x 1(3,4) qs(2) show ?thesis
          by (cases qs) (simp_all add: load_recs.simps [of old])
      qed
    qed
  qed
qed

definition holds_trav :: "OZTrav \<Rightarrow> OZRecord list \<Rightarrow> string \<Rightarrow> bool" where
  "holds_trav h rs path \<longleftrightarrow> trecs h = Ptr (map Ptr rs) \<and> tnrecs h = int (length rs) \<and> tfpval h = Ptr path"

text \<open>Every outcome of opening, for any key file that does not overrun the key buffer.\<close>

lemma open_trav_parse:
  assumes "fopen_r w (key_path db) = Some s" and "parse_recs uninit s = Some rs"
    and "rs \<noteq> []" and "fopen_r w (value_path db) = Some v"
  shows "\<exists>h. oztrav_open uninit w db = Some (0, h) \<and> holds_trav h rs (value_path db)"
  using assms load_recs_parse [of uninit s rs "replicate (length rs) Uninit" "[]"]
  by (simp add: oztrav_open_def oztrav_open_kf_def oztrav_open_vf_def count_recs_parse
      null_trav_def holds_trav_def)

lemma open_trav_empty:
  assumes "fopen_r w (key_path db) = Some s" and "parse_recs uninit s = Some []"
  shows "oztrav_open uninit w db = Some (2, null_trav)"
  using assms by (simp add: oztrav_open_def oztrav_open_kf_def count_recs_parse)

section \<open>The buffers of the cursor\<close>

fun buf_inv :: "buffer ptr \<Rightarrow> int \<Rightarrow> bool" where
  "buf_inv Null a = (a = 0)"
| "buf_inv (Ptr b) a = (a = int (fst b) \<and> length (snd b) \<le> fst b)"
| "buf_inv _ a = False"

definition cursor_inv :: "OZTrav_Cursor \<Rightarrow> bool" where
  "cursor_inv c \<longleftrightarrow> buf_inv (ckey c) (key_len_alloc c) \<and> buf_inv (cvalue c) (value_len_alloc c)"

lemma cursor_inv_init: "cursor_inv oztrav_cursor_init"
  by (simp add: cursor_inv_def oztrav_cursor_init_def)

lemma cursor_inv_free: "cursor_inv c \<Longrightarrow> oztrav_cursor_free c = Some oztrav_cursor_init"
  by (cases "ckey c"; cases "cvalue c")
    (auto simp: cursor_inv_def oztrav_cursor_init_def oztrav_cursor_free_def)

lemma cursor_inv_cur [simp]: "cursor_inv (c\<lparr>cur := i\<rparr>) = cursor_inv c"
  by (simp add: cursor_inv_def)

lemma grow_value_cases:
  assumes "cursor_inv c" and "len \<noteq> - 1"
  shows "(\<exists>n bs c'. grow_value alloc c len = Some (True, c') \<and> cvalue c' = Ptr (n, bs)
      \<and> unat len < n \<and> value_len_alloc c' = int n \<and> length bs \<le> n \<and> ckey c' = ckey c
      \<and> key_len_alloc c' = key_len_alloc c \<and> cur c' = cur c)
    \<or> (\<exists>c'. grow_value alloc c len = Some (False, c')) \<and> \<not> alloc 0 (value_bufsize len)"
proof (cases "value_len_alloc c \<le> int (unat len)")
  case True
  have n: "value_bufsize len = unat len + 1"
    using assms(2) by (rule value_bufsize)
  consider "cvalue c = Null" | m bs where "cvalue c = Ptr (m, bs)"
    using assms(1) by (cases "cvalue c") (auto simp: cursor_inv_def)
  then show ?thesis
    by cases (use True n in \<open>simp_all add: grow_value_def\<close>)
next
  case False
  obtain m bs where m: "cvalue c = Ptr (m, bs)" "value_len_alloc c = int m" "length bs \<le> m"
    using assms(1) False by (cases "cvalue c") (auto simp: cursor_inv_def)
  have "unat len < m"
    using False unfolding m(2) by (simp only: of_nat_le_iff not_le)
  moreover have "grow_value alloc c len = Some (True, c)"
    using False by (simp only: grow_value_def if_False)
  ultimately show ?thesis
    using m by blast
qed

lemma grow_key_cases:
  assumes "buf_inv (ckey c) (key_len_alloc c)"
  shows "(\<exists>n bs c'. grow_key alloc c len = Some (True, c') \<and> ckey c' = Ptr (n, bs)
      \<and> len < n \<and> key_len_alloc c' = int n \<and> length bs \<le> n \<and> cvalue c' = cvalue c
      \<and> value_len_alloc c' = value_len_alloc c \<and> value_len c' = value_len c \<and> cur c' = cur c)
    \<or> (\<exists>c'. grow_key alloc c len = Some (False, c')) \<and> \<not> alloc 1 (len + 1)"
proof (cases "key_len_alloc c \<le> int len")
  case True
  consider "ckey c = Null" | m bs where "ckey c = Ptr (m, bs)"
    using assms by (cases "ckey c") auto
  then show ?thesis
    by cases (use True in \<open>simp_all add: grow_key_def\<close>)
next
  case False
  obtain m bs where "ckey c = Ptr (m, bs)" "key_len_alloc c = int m" "length bs \<le> m"
    using assms False by (cases "ckey c") auto
  then show ?thesis
    using False by (auto simp: grow_key_def)
qed

lemma buffer_read_fits:
  "length bs \<le> fst b \<Longrightarrow> length (snd b) \<le> fst b \<Longrightarrow>
     \<exists>b'. buffer_read b bs = Some b' \<and> fst b' = fst b \<and> length (snd b') \<le> fst b \<and> take (length bs) (snd b') = bs"
  by (auto simp: buffer_read_def)

text \<open>The value step, with any allocator: it never leaves the buffer.\<close>

lemma next_value_safe:
  assumes "cursor_inv c" and "rlength r \<noteq> - 1"
  shows "\<exists>ret c'. next_value alloc text r c = Some (ret, c') \<and> (ret \<noteq> 3 \<longrightarrow> cursor_inv c')"
  using grow_value_cases [OF assms, of alloc]
proof (elim disjE exE conjE, goal_cases)
  case ok: (1 n bs c1)
  let ?bytes = "fread_bytes text (unat (roffset r)) (unat (rlength r))"
  have "length ?bytes \<le> unat (rlength r)"
    by (rule length_fread_bytes)
  then obtain b1 where b1: "buffer_read (n, bs) ?bytes = Some b1" "fst b1 = n" "length (snd b1) \<le> n"
      "take (length ?bytes) (snd b1) = ?bytes"
    using buffer_read_fits [of ?bytes "(n, bs)"] ok(3,5) by auto
  show ?thesis
  proof (cases "fread_ret text (unat (roffset r)) (unat (rlength r)) = 1")
    case True
    then have "length ?bytes = unat (rlength r)" by (rule fread_ret_full)
    then have "unat (rlength r) \<le> length (snd b1)"
      using b1(4) by (metis length_take min.cobounded1)
    then show ?thesis
      using True ok b1 assms(1)
      by (auto simp: next_value_def buffer_nul_def cursor_inv_def Let_def)
  next
    case False
    then show ?thesis
      using ok b1 assms(1) by (auto simp: next_value_def cursor_inv_def Let_def)
  qed
qed (simp add: next_value_def)

lemma next_key_safe:
  assumes "cursor_inv c"
  shows "\<exists>ret c'. next_key alloc r c = Some (ret, c') \<and> (ret \<noteq> 3 \<longrightarrow> cursor_inv c')"
  using grow_key_cases [OF assms [unfolded cursor_inv_def, THEN conjunct1], of alloc "length (rkey r)"]
proof (elim disjE exE conjE, goal_cases)
  case ok: (1 n bs c1)
  then obtain b1 where b1: "buffer_read (n, bs) (rkey r @ [CHR 0x00]) = Some b1" "fst b1 = n"
      "length (snd b1) \<le> n"
    using buffer_read_fits [of "rkey r @ [CHR 0x00]" "(n, bs)"] by auto
  then show ?thesis
    using ok assms by (auto simp: next_key_def cursor_inv_def Let_def)
next
  case (2 c1)
  then show ?thesis by (simp add: next_key_def Let_def)
qed

text \<open>
  Stepping with a non-negative cursor is free of undefined behaviour, and keeps the buffers
  consistent unless there was no memory.
\<close>

lemma next_safe:
  assumes "cursor_inv c" and "0 \<le> cur c" and "holds_trav h rs path"
    and "list_all (\<lambda>r. rlength r \<noteq> - 1) rs"
  shows "\<exists>ret c'. oztrav_next alloc w h c = Some (ret, c') \<and> (ret \<noteq> 3 \<longrightarrow> cursor_inv c')"
proof (cases "int (length rs) \<le> cur c")
  case True
  with assms show ?thesis by (simp add: oztrav_next_def holds_trav_def)
next
  case False
  let ?r = "rs ! nat (cur c)"
  have r: "trav_rec_at h (cur c) = Some ?r" "rlength ?r \<noteq> - 1"
    using False assms by (simp_all add: trav_rec_at_def holds_trav_def list_all_length nat_less_iff)
  obtain ret c1 where v: "next_value alloc (content w path) ?r c = Some (ret, c1)"
      "ret \<noteq> 3 \<longrightarrow> cursor_inv c1"
    using next_value_safe [OF assms(1) r(2)] by blast
  show ?thesis
  proof (cases "fseeko_ok (roffset ?r) \<and> ret = 0")
    case True
    with v(2) have "cursor_inv c1" by simp
    from next_key_safe [OF this] obtain ret2 c2 where "next_key alloc ?r c1 = Some (ret2, c2)" "ret2 \<noteq> 3 \<longrightarrow> cursor_inv c2"
      by blast
    then show ?thesis
      using True False r v assms(3) by (simp add: oztrav_next_def holds_trav_def)
  next
    case no: False
    then show ?thesis
      using False r v assms(1,3) by (auto simp: oztrav_next_def holds_trav_def)
  qed
qed

text \<open>A buffer holds a text: its bytes, then a NUL; the recorded length is the text's.\<close>

definition holds_text :: "buffer ptr \<Rightarrow> int \<Rightarrow> string \<Rightarrow> bool" where
  "holds_text p len s \<longleftrightarrow> len = int (length s) \<and> (\<exists>b. p = Ptr b \<and> take (length s + 1) (snd b) = s @ [CHR 0x00])"

definition cursor_shows :: "OZTrav_Cursor \<Rightarrow> string \<Rightarrow> string \<Rightarrow> bool" where
  "cursor_shows c k v \<longleftrightarrow> holds_text (ckey c) (key_len c) k \<and> holds_text (cvalue c) (value_len c) v"

text \<open>A step over a readable record delivers its key and its bytes.\<close>

lemma next_ok:
  assumes "cursor_inv c" and "0 \<le> cur c" and "cur c < int (length rs)" and "holds_trav h rs path"
    and "readable (content w path) (rs ! nat (cur c))" and "\<And>i n. alloc i n"
  shows "\<exists>c'. oztrav_next alloc w h c = Some (0, c') \<and> cursor_inv c' \<and> cur c' = cur c + 1
    \<and> cursor_shows c' (rkey (rs ! nat (cur c))) (rec_bytes (content w path) (rs ! nat (cur c)))"
proof -
  let ?r = "rs ! nat (cur c)" and ?t = "content w path"
  let ?n = "unat (rlength ?r)" and ?bytes = "rec_bytes ?t ?r"
  have r: "trav_rec_at h (cur c) = Some ?r"
    using assms(2-4) by (simp add: trav_rec_at_def holds_trav_def nat_less_iff)
  have rd: "rlength ?r \<noteq> - 1" "fseeko_ok (roffset ?r)"
      "fread_ret ?t (unat (roffset ?r)) ?n = 1" "length ?bytes = ?n"
    using assms(5) fread_ret_readable length_rec_bytes by (simp_all add: readable_def)
  obtain n bs c1 where g: "grow_value alloc c (rlength ?r) = Some (True, c1)" "cvalue c1 = Ptr (n, bs)"
      "?n < n" "value_len_alloc c1 = int n" "length bs \<le> n" "ckey c1 = ckey c"
      "key_len_alloc c1 = key_len_alloc c" "cur c1 = cur c"
    using grow_value_cases [OF assms(1) rd(1), of alloc] assms(6) by blast
  define vb where "vb = (n, ?bytes @ CHR 0x00 # drop (Suc ?n) (?bytes @ drop ?n bs))"
  define c2 where "c2 = c1\<lparr>cvalue := Ptr vb, value_len := int ?n\<rparr>"
  have v: "next_value alloc ?t ?r c = Some (0, c2)"
    using g rd by (simp add: next_value_def buffer_read_def buffer_nul_def Let_def vb_def c2_def
        flip: rec_bytes_def)
  have "buf_inv (ckey c2) (key_len_alloc c2)"
    using assms(1) g by (simp add: c2_def cursor_inv_def)
  then obtain m ks c3 where k: "grow_key alloc c2 (length (rkey ?r)) = Some (True, c3)" "ckey c3 = Ptr (m, ks)"
      "length (rkey ?r) < m" "key_len_alloc c3 = int m" "length ks \<le> m" "cvalue c3 = cvalue c2"
      "value_len_alloc c3 = value_len_alloc c2" "value_len c3 = value_len c2" "cur c3 = cur c2"
    using grow_key_cases [of c2 alloc "length (rkey ?r)"] assms(6) by blast
  define kb where "kb = (m, (rkey ?r @ [CHR 0x00]) @ drop (Suc (length (rkey ?r))) ks)"
  define c4 where "c4 = c3\<lparr>key_len := int (length (rkey ?r)), ckey := Ptr kb, cur := cur c3 + 1\<rparr>"
  have "next_key alloc ?r c2 = Some (0, c4)"
    using k by (simp add: next_key_def buffer_read_def Let_def kb_def c4_def)
  then have run: "oztrav_next alloc w h c = Some (0, c4)"
    using assms(3,4) r v rd(2) by (simp add: oztrav_next_def holds_trav_def)
  have "holds_text (ckey c4) (key_len c4) (rkey ?r)"
    by (simp add: holds_text_def c4_def kb_def)
  moreover have "holds_text (cvalue c4) (value_len c4) ?bytes"
    using k(6,8) rd(4) by (simp add: holds_text_def c4_def c2_def vb_def)
  moreover have "buf_inv (ckey c4) (key_len_alloc c4)"
    using k(3-5) by (simp add: c4_def kb_def)
  moreover have "buf_inv (cvalue c4) (value_len_alloc c4)"
    using k(6,7) g(3-5) rd(4) by (simp add: c4_def c2_def vb_def)
  moreover have "cur c4 = cur c + 1"
    using k(9) g(8) by (simp add: c4_def c2_def)
  ultimately show ?thesis
    using run by (intro exI [of _ c4]) (simp add: cursor_inv_def cursor_shows_def)
qed

text \<open>What a caller reads from a cursor: the bytes up to the length, or a C string.\<close>

lemma holds_text_bytes:
  assumes "holds_text p len s"
  shows "cursor_bytes p len = Some s"
proof -
  obtain b where b: "p = Ptr b" "take (length s + 1) (snd b) = s @ [CHR 0x00]" "len = int (length s)"
    using assms by (auto simp: holds_text_def)
  from b(2) have "length s + 1 \<le> length (snd b)"
    by (metis length_append_singleton length_take min.cobounded1 Suc_eq_plus1)
  moreover have "take (length s) (snd b) = s"
    using b(2) by (metis append_eq_conv_conj take_take min.absorb1 le_add1)
  ultimately show ?thesis
    using b by (simp add: cursor_bytes_def)
qed

lemma holds_text_cstr:
  assumes "holds_text (Ptr b) len s"
  shows "buffer_cstr b = Some (cstr s)"
proof -
  have t: "take (length s + 1) (snd b) = s @ [CHR 0x00]"
    using assms by (simp add: holds_text_def)
  then obtain u where u: "snd b = (s @ [CHR 0x00]) @ u"
    by (metis append_take_drop_id)
  then show ?thesis
    by (simp add: buffer_cstr_def cstr_append_NUL)
qed

lemma print_pair_shows:
  assumes "cursor_shows c k v"
  shows "print_pair c = Some (cstr k, cstr v)"
proof -
  obtain kb vb where "ckey c = Ptr kb" "cvalue c = Ptr vb"
    using assms by (auto simp: cursor_shows_def holds_text_def)
  then show ?thesis
    using assms holds_text_cstr [of kb "key_len c" k] holds_text_cstr [of vb "value_len c" v]
    by (simp add: cursor_shows_def print_pair_def)
qed

section \<open>A complete traversal\<close>

text \<open>
  Stepping until the cursor ends visits every record of the handle once, in file order,
  and ends with return value 1.
\<close>

lemma traverse_from:
  assumes "holds_trav h rs path" and "list_all (readable (content w path)) rs"
    and "\<And>i n. alloc i n" and "cursor_inv c" and "cur c = int i" and "i \<le> length rs"
  shows "\<exists>c'. traverse alloc w h c = Some (map (\<lambda>r. (cstr (rkey r), cstr (rec_bytes (content w path) r))) (drop i rs), 1, c')
    \<and> cursor_inv c' \<and> cur c' = int (length rs)"
  using assms(4-6)
proof (induction "length rs - i" arbitrary: i c)
  case 0
  then have "oztrav_next alloc w h c = Some (1, c)"
    using assms(1) by (simp add: oztrav_next_def holds_trav_def)
  with 0 show ?case by (simp add: traverse.simps [of alloc])
next
  case (Suc n)
  then have i: "i < length rs" "n = length rs - Suc i" by simp_all
  then have rd: "readable (content w path) (rs ! nat (cur c))"
    using assms(2) Suc.prems(2) by (simp add: list_all_length)
  obtain c1 where c1: "oztrav_next alloc w h c = Some (0, c1)" "cursor_inv c1" "cur c1 = int (Suc i)"
      "cursor_shows c1 (rkey (rs ! i)) (rec_bytes (content w path) (rs ! i))"
    using next_ok [of c rs h path w alloc] Suc.prems assms(1,3) rd i(1) by auto
  from Suc.hyps(1) [OF i(2) c1(2,3)] i(1) obtain c2 where
    "traverse alloc w h c1 = Some (map (\<lambda>r. (cstr (rkey r), cstr (rec_bytes (content w path) r))) (drop (Suc i) rs), 1, c2)"
    "cursor_inv c2" "cur c2 = int (length rs)"
    by auto
  then show ?case
    using c1(1) print_pair_shows [OF c1(4)] i(1)
    by (simp add: traverse.simps [of alloc _ _ c] Cons_nth_drop_Suc [symmetric])
qed

text \<open>
  A step that runs out of memory keeps the old size next to a null pointer, so a later step
  to a record that fits the old size writes through it.
\<close>

lemma null_value_undefined:
  assumes "cvalue c = Null" and "int (unat (rlength r)) < value_len_alloc c"
  shows "next_value alloc text r c = None"
  using assms by (simp add: next_value_def grow_value_def)

lemma negative_cur_undefined:
  assumes "cur c < 0" and "0 \<le> tnrecs h"
  shows "oztrav_next alloc w h c = None"
  using assms by (cases "trecs h") (simp_all add: oztrav_next_def trav_rec_at_def)

end
