(* ===== verification/TravServer.thy ===== *)
theory TravServer
  imports TravCorrect ReadServer
begin

text \<open>
  The traversal server (src/src/server/OZTravService_server.skeleton.cc): one handle and one
  cursor for all clients, and the request \<open>next_kv\<close>, which sets the cursor to the position
  that the client sends and steps once.  A client walks through the store by sending back
  the position of the last answer.
\<close>

record TravPair =
  pkey :: string
  pvalue :: string
  pcur :: int

record trav_handler =
  ot :: OZTrav
  tcur :: OZTrav_Cursor

definition empty_pair :: TravPair where
  "empty_pair = \<lparr>pkey = [], pvalue = [], pcur = 0\<rparr>"

definition trav_handler_new :: "OZRecord \<Rightarrow> world \<Rightarrow> bool \<Rightarrow> string \<Rightarrow> trav_handler reply ub" where
  "trav_handler_new uninit w mutex_ok path = do {
     (ret, h) \<leftarrow> oztrav_open uninit w (cstr path);
     Some (if ret \<noteq> 0 then TError ''Open db fail.''
           else if \<not> mutex_ok then TError ''Init mutex fail.''
           else Return \<lparr>ot = h, tcur = oztrav_cursor_init\<rparr>)
   }"

definition trav_handler_delete :: "trav_handler \<Rightarrow> trav_handler ub" where
  "trav_handler_delete st = do {
     c \<leftarrow> oztrav_cursor_free (tcur st);
     h \<leftarrow> oztrav_close (Some (ot st));
     o' \<leftarrow> h;
     Some \<lparr>ot = o', tcur = c\<rparr>
   }"

text \<open>
  \<open>_return\<close> is the pair that the caller passes in, with empty strings and 0.  The return
  values 2 and 3 of the step are not looked at: the caller gets the pair unchanged.
\<close>

definition next_kv :: "bool \<Rightarrow> alloc \<Rightarrow> world \<Rightarrow> trav_handler \<Rightarrow> TravPair \<Rightarrow> int
    \<Rightarrow> (TravPair reply \<times> trav_handler) ub" where
  "next_kv lock_ok alloc w st result acur =
     (if \<not> lock_ok then Some (Return result, st)
      else do {
        (ret, c) \<leftarrow> oztrav_next alloc w (ot st) ((tcur st)\<lparr>cur := acur\<rparr>);
        let st' = st\<lparr>tcur := c\<rparr>;
        if ret = 0
        then do {
          k \<leftarrow> assign_bytes (ckey c) (nat (key_len c));
          v \<leftarrow> assign_bytes (cvalue c) (nat (value_len c));
          Some (Return \<lparr>pkey = k, pvalue = v, pcur = cur c\<rparr>, st')
        }
        else Some (if ret = 1 then TError ''Have reach the end of record.'' else Return result, st')
      })"

section \<open>One request\<close>

lemma assign_holds_text:
  assumes "holds_text p len s"
  shows "assign_bytes p (nat len) = Some s"
proof -
  obtain b where b: "p = Ptr b" "take (length s + 1) (snd b) = s @ [CHR 0x00]" "len = int (length s)"
    using assms by (auto simp: holds_text_def)
  then obtain u where "snd b = (s @ [CHR 0x00]) @ u"
    by (metis append_take_drop_id)
  then show ?thesis
    using b by (simp add: assign_bytes_def)
qed

definition trav_inv :: "trav_handler \<Rightarrow> OZRecord list \<Rightarrow> string \<Rightarrow> bool" where
  "trav_inv st rs path \<longleftrightarrow> holds_trav (ot st) rs path \<and> cursor_inv (tcur st)"

lemma trav_handler_new_ok:
  assumes "fopen_r w (key_path db) = Some s" and "parse_recs uninit s = Some rs"
    and "rs \<noteq> []" and "fopen_r w (value_path db) = Some v" and "nul_free db"
  shows "\<exists>st. trav_handler_new uninit w True db = Some (Return st) \<and> trav_inv st rs (value_path db)"
  using open_trav_parse [OF assms(1-4)] assms(5) cursor_inv_init
  by (auto simp: trav_handler_new_def trav_inv_def)

lemma next_kv_ok:
  assumes "trav_inv st rs path" and "i < length rs" and "readable (content w path) (rs ! i)"
    and "\<And>i n. alloc i n"
  shows "\<exists>st'. next_kv True alloc w st result (int i) =
      Some (Return \<lparr>pkey = rkey (rs ! i), pvalue = rec_bytes (content w path) (rs ! i), pcur = int i + 1\<rparr>, st')
    \<and> trav_inv st' rs path"
proof -
  let ?c = "(tcur st)\<lparr>cur := int i\<rparr>"
  obtain c where c: "oztrav_next alloc w (ot st) ?c = Some (0, c)" "cursor_inv c" "cur c = int i + 1"
      "cursor_shows c (rkey (rs ! i)) (rec_bytes (content w path) (rs ! i))"
    using next_ok [of ?c rs "ot st" path w alloc] assms by (auto simp: trav_inv_def)
  have "assign_bytes (ckey c) (nat (key_len c)) = Some (rkey (rs ! i))"
      "assign_bytes (cvalue c) (nat (value_len c)) = Some (rec_bytes (content w path) (rs ! i))"
    using c(4) by (simp_all add: cursor_shows_def assign_holds_text)
  then show ?thesis
    using c(1-3) assms(1) by (simp add: next_kv_def trav_inv_def)
qed

lemma next_kv_end:
  assumes "trav_inv st rs path" and "length rs \<le> i"
  shows "\<exists>st'. next_kv True alloc w st result (int i) =
      Some (TError ''Have reach the end of record.'', st') \<and> trav_inv st' rs path"
  using assms by (simp add: next_kv_def trav_inv_def oztrav_next_def holds_trav_def)

text \<open>A record that cannot be read is answered with the unchanged pair, as a success.\<close>

lemma next_kv_unreadable:
  assumes "trav_inv st rs path" and "i < length rs" and "\<not> fseeko_ok (roffset (rs ! i))"
  shows "\<exists>st'. next_kv True alloc w st result (int i) = Some (Return result, st') \<and> trav_inv st' rs path"
  using assms by (simp add: next_kv_def trav_inv_def oztrav_next_def holds_trav_def trav_rec_at_def)

section \<open>A client\<close>

text \<open>
  The loop of a client: ask with the position of the last answer until the server throws.
  The number bounds the requests; \<open>None\<close> in the result means that the loop has not ended.
\<close>

fun client :: "nat \<Rightarrow> alloc \<Rightarrow> world \<Rightarrow> trav_handler \<Rightarrow> int \<Rightarrow> (string \<times> string) list option ub" where
  "client 0 alloc w st i = Some None"
| "client (Suc n) alloc w st i = do {
     (reply, st') \<leftarrow> next_kv True alloc w st empty_pair i;
     (case reply of
        Return p \<Rightarrow> map_option (map_option ((#) (pkey p, pvalue p))) (client n alloc w st' (pcur p))
      | _ \<Rightarrow> Some (Some []))
   }"

lemma client_all:
  assumes "trav_inv st rs path" and "list_all (readable (content w path)) rs"
    and "\<And>i n. alloc i n" and "i \<le> length rs" and "length rs - i < n"
  shows "client n alloc w st (int i) =
    Some (Some (map (\<lambda>r. (rkey r, rec_bytes (content w path) r)) (drop i rs)))"
  using assms(1,4,5)
proof (induction n arbitrary: st i)
  case (Suc n)
  show ?case
  proof (cases "i < length rs")
    case True
    then have "readable (content w path) (rs ! i)"
      using assms(2) by (simp add: list_all_length)
    from next_kv_ok [OF Suc.prems(1) True this, where alloc = alloc and result = empty_pair] assms(3) obtain st' where st':
        "next_kv True alloc w st empty_pair (int i) = Some (Return \<lparr>pkey = rkey (rs ! i),
           pvalue = rec_bytes (content w path) (rs ! i), pcur = int i + 1\<rparr>, st')"
        "trav_inv st' rs path"
      by blast
    have "client n alloc w st' (int (Suc i)) =
        Some (Some (map (\<lambda>r. (rkey r, rec_bytes (content w path) r)) (drop (Suc i) rs)))"
      using Suc.prems True st'(2) by (intro Suc.IH) auto
    then show ?thesis
      using st'(1) True by (simp add: add.commute Cons_nth_drop_Suc [symmetric])
  next
    case False
    then show ?thesis
      using next_kv_end [OF Suc.prems(1), of i alloc w empty_pair] Suc.prems(2) by auto
  qed
qed simp

text \<open>
  A record in the way that cannot be read sends the client back to the first record: the
  loop never ends.
\<close>

lemma client_stuck:
  assumes "trav_inv st rs path" and "length rs = 1" and "\<not> fseeko_ok (roffset (rs ! 0))"
  shows "client n alloc w st 0 = Some None"
  using assms(1)
proof (induction n arbitrary: st)
  case (Suc n)
  from next_kv_unreadable [OF Suc.prems, of 0 alloc w empty_pair] assms(2,3) obtain st' where
    "next_kv True alloc w st empty_pair 0 = Some (Return empty_pair, st')" "trav_inv st' rs path"
    by auto
  then show ?case
    using Suc.IH [of st'] by (simp add: empty_pair_def)
qed simp

end
