(* ===== verification/Example.thy ===== *)
theory Example
  imports EndToEnd WriteThreads TravServer
begin

text \<open>
  A small database on which the properties are exercised: three records, two of them for the
  same key, in \<open>db/key.dat\<close> and \<open>db/value.dat\<close>; handles of a reader, a writer and a traversal
  on it; and an empty database of a write server.
\<close>

definition ex_recs :: "OZRecord list" where
  "ex_recs = [\<lparr>rkey = ''k'', roffset = 0, rlength = 1\<rparr>, \<lparr>rkey = ''a'', roffset = 1, rlength = 2\<rparr>,
     \<lparr>rkey = ''k'', roffset = 3, rlength = 1\<rparr>]"

definition ex_value :: string where
  "ex_value = ''xyyz''"

definition ex_world :: world where
  "ex_world = \<lparr>files = [key_path ''db'' \<mapsto> print_recs ex_recs, value_path ''db'' \<mapsto> ex_value],
     openable = (\<lambda>_. True), creatable = (\<lambda>_. False)\<rparr>"

definition ex_stream :: "string \<Rightarrow> nat \<Rightarrow> ostream" where
  "ex_stream p n = \<lparr>os_path = p, os_buf = [], os_pos = n\<rparr>"

definition ex_writer :: OZWrite where
  "ex_writer = \<lparr>wkey = Ptr (ex_stream (key_path ''db'') (length (print_recs ex_recs))),
     wval = Ptr (ex_stream (value_path ''db'') 4)\<rparr>"

definition ex_reader :: OZRead where
  "ex_reader = \<lparr>recs = Ptr [Ptr (ex_recs ! 1), Ptr (ex_recs ! 2)], nrecs = 2, fpval = Ptr (value_path ''db'')\<rparr>"

definition ex_trav :: OZTrav where
  "ex_trav = \<lparr>trecs = Ptr (map Ptr ex_recs), tnrecs = 3, tfpval = Ptr (value_path ''db'')\<rparr>"

definition empty_world :: world where
  "empty_world = \<lparr>files = [key_path ''db'' \<mapsto> [], value_path ''db'' \<mapsto> []],
     openable = (\<lambda>_. True), creatable = (\<lambda>_. False)\<rparr>"

definition ex_handler :: write_handler where
  "ex_handler = \<lparr>ow = \<lparr>wkey = Ptr (ex_stream (key_path ''db'') 0), wval = Ptr (ex_stream (value_path ''db'') 0)\<rparr>,
     wkeybuf = [], wid = 1\<rparr>"

lemma ex_paths: "key_path ''db'' = ''db/key.dat''" "value_path ''db'' = ''db/value.dat''"
  by (simp_all add: key_path_def value_path_def snprintf_path_def OZ_BUF_SIZE_def
      OZ_KEY_FILENAME_def OZ_VALUE_FILENAME_def)

lemma ex_recs_ok: "recs_ok ex_recs"
  by (simp add: ex_recs_def key_ok_def OZ_KEY_BUF_SIZE_def isspace_def)

lemma ex_content:
  "content ex_world (key_path ''db'') = print_recs ex_recs" "content ex_world (value_path ''db'') = ex_value"
  "fopen_r ex_world (key_path ''db'') = Some (print_recs ex_recs)"
  "fopen_r ex_world (value_path ''db'') = Some ex_value"
  by (simp_all add: content_def fopen_r_def ex_world_def ex_paths)

lemma ex_db_inv: "db_inv (print_recs ex_recs) ex_value ex_recs"
  using ex_recs_ok by (simp add: db_inv_def) (simp add: ex_recs_def in_file_def ex_value_def)

lemma ex_open: "tmp_openable ex_world" "openable ex_world p" "mkdir ex_world d = ex_world"
  by (simp_all add: ex_world_def tmp_openable_def mkdir_def)

lemma ex_place: "plain_word (key_path ''db'')" "length ''db'' \<le> 900" "nul_free ''db''"
  "\<not> is_tmp (value_path ''db'')" "key_path ''db'' \<noteq> value_path ''db''"
  by (simp_all add: plain_word_def ex_paths isdigit_def)

lemma ex_fits: "fits_splits ex_recs"
  by (simp add: fits_splits_def ex_recs_def OZSORT_PER_LINE_def OZSORT_MAX_SPLITS_def)

lemma ex_readable: "list_all rec_readable ex_recs" "ex_recs \<noteq> []"
  by (simp_all add: ex_recs_def rec_readable_def visible_def less_char_def)

lemma ex_writer_inv: "writer_inv ''db'' ex_world ex_writer ex_value ex_recs"
  using ex_db_inv ex_content ex_place(5)
  by (simp add: writer_inv_def ex_writer_def ex_stream_def stream_text_def) (simp add: ex_value_def)

lemma ex_holds_trav: "holds_trav ex_trav ex_recs (value_path ''db'')"
  by (simp add: holds_trav_def ex_trav_def ex_recs_def)

lemma ex_all_readable: "list_all (readable ex_value) ex_recs"
  by (simp add: ex_recs_def readable_def fseeko_ok_def ex_value_def)

lemma ex_holds_table: "holds_table ex_reader [ex_recs ! 1, ex_recs ! 2]"
  by (simp add: holds_table_def ex_reader_def ex_recs_def less_char_def)

lemma ex_server_inv: "server_inv ''db'' empty_world ex_handler [] []"
  using db_inv_empty ex_place(5)
  by (simp add: server_inv_def writer_inv_def ex_handler_def ex_stream_def stream_text_def
      content_def empty_world_def fresh_from_def)

lemma ex_on_disk: "on_disk ''db'' empty_world [] []"
  by (simp add: on_disk_def empty_world_def ex_paths)

lemma ex_db_rep: "db_rep ''db'' (empty_world, ex_handler) 1 0 Map.empty"
  unfolding db_rep_def
  using ex_server_inv ex_on_disk ex_place
  by (intro exI [of _ "[]"])
    (simp add: db_map_empty db_place_def tmp_openable_def empty_world_def ex_handler_def
      max_records_def OZSORT_PER_LINE_def OZSORT_MAX_SPLITS_def fun_eq_iff)

end
