(* ===== verification/ToolProps.thy ===== *)
theory ToolProps
  imports Example
begin

text \<open>
  The properties of the record format, the C library routines and the sort tool, each with a
  run on concrete input.
\<close>

text \<open>C7. The sort tool, on any key file of well-formed lines that fits its split files and has no
  byte \<open>0xFF\<close> in its keys, exits with 0 and prints the number of lines and the lines of a table:
  strictly sorted by key, with exactly the keys below \<open>"~"\<close>, each with its newest record (largest
  offset, later line among equals).  When there is no such key the table has the one line
  \<open>(null)\<close>.  All its temporary files are gone, and no other file has changed.\<close>

theorem sort_tool_output:
  assumes "fopen_r w path = Some (print_recs rs)" and "recs_ok rs" and "tmp_openable w"
    and "fits_splits rs" and "length path < OZ_BUF_SIZE" and "no_FF rs"
  shows "\<exists>w' t. ozsort_main now1 now2 [a0, path] w = Some (0, dec (length t) @ NL @ print_recs t, w')
    \<and> sorted_wrt (<) (map rkey t)
    \<and> (if filter visible rs = [] then t = [null_rec]
       else rkey ` set t = {rkey r | r. r \<in> set rs \<and> rkey r < ''~''} \<and> (\<forall>r \<in> set t. latest rs (rkey r) = Some r))
    \<and> clean_up w (tool_tmps now1 now2 rs) w'"
proof -
  let ?t = "reader_table rs"
  obtain w' where w': "ozsort_main now1 now2 [a0, path] w = Some (0, dec (length ?t) @ NL @ print_recs ?t, w')"
      "clean_up w (tool_tmps now1 now2 rs) w'"
    using ozsort_main_print [OF assms(1-5), of now1 now2 a0]
      copy_stdout_id [OF FF_print_recs [OF no_FF_reader_table [OF assms(6), unfolded no_FF_def]]]
    by (auto simp: tool_lines_reader)
  have "if filter visible rs = [] then ?t = [null_rec]
      else rkey ` set ?t = {rkey r | r. r \<in> set rs \<and> rkey r < ''~''} \<and> (\<forall>r \<in> set ?t. latest rs (rkey r) = Some r)"
    using keys_sort_table [of rs] sort_table_latest [of _ rs]
    by (auto simp: reader_table_def sort_table_def visible_def)
  with w' reader_table_sorted [of rs] show ?thesis by blast
qed

lemma sort_tool_output_witness:
  "\<exists>w' t. ozsort_main 0 1 [''s'', key_path ''db''] ex_world = Some (0, dec (length t) @ NL @ print_recs t, w')
    \<and> sorted_wrt (<) (map rkey t)"
  using sort_tool_output [OF ex_content(3) ex_recs_ok ex_open(1) ex_fits, of 0 1 "''s''"]
  by (auto simp: ex_paths OZ_BUF_SIZE_def no_FF_def ex_recs_def)

text \<open>C8. The merge, from any state of its channels: when every channel holds the printed lines of
  a sorted run, the selection loop returns what one pass over the stable sort of all runs, cut
  at the sentinel \<open>"~"\<close>, returns, whatever the number of runs.\<close>

theorem merge_is_stable_sort:
  assumes "list_all2 chan_rep cs rss" and "list_all recs_ok rss"
    and "\<forall>rs \<in> set rss. sorted (map rkey rs)" and "\<forall>p. prev = Some p \<longrightarrow> nul_free (rkey p)"
  shows "merge_loop cs prev out ml =
    (let (t, n) = final_lines prev (filter visible (sort_key rkey (concat rss))) in Some (out @ t, ml + n))"
  by (rule merge_loop_spec [OF assms])

lemma merge_is_stable_sort_witness:
  "merge_loop [\<lparr>cdata = ex_recs ! 0, cflag = True, cin = []\<rparr>, \<lparr>cdata = ex_recs ! 1, cflag = True, cin = []\<rparr>] None [] 0 =
    (let (t, n) = final_lines None (filter visible (sort_key rkey (concat [[ex_recs ! 0], [ex_recs ! 1]])))
     in Some ([] @ t, 0 + n))"
proof (rule merge_is_stable_sort)
  show "list_all2 chan_rep [\<lparr>cdata = ex_recs ! 0, cflag = True, cin = []\<rparr>, \<lparr>cdata = ex_recs ! 1, cflag = True, cin = []\<rparr>]
      [[ex_recs ! 0], [ex_recs ! 1]]"
    by simp
  show "list_all recs_ok [[ex_recs ! 0], [ex_recs ! 1]]"
    using ex_recs_ok by (simp add: ex_recs_def)
qed simp_all

text \<open>With as many records as the split files hold, or more, the tool prints \<open>0\<close> and exits with 2.\<close>

theorem sort_tool_too_many:
  assumes "fopen_r w path = Some (print_recs rs)" and "recs_ok rs" and "tmp_openable w"
    and "OZSORT_PER_LINE * OZSORT_MAX_SPLITS \<le> length rs" and "length path < OZ_BUF_SIZE"
  shows "\<exists>w'. ozsort_main now1 now2 [a0, path] w = Some (2, ''0'' @ NL, w')"
  using ozsort_main_too_many [OF assms(1-3) _ assms(5)] assms(4) by (simp add: fits_splits_def)

definition big_world :: world where
  "big_world = write_file ex_world ''big'' (print_recs (replicate 20480000 (ex_recs ! 0)))"

lemma sort_tool_too_many_witness: "\<exists>w'. ozsort_main 0 1 [''s'', ''big''] big_world = Some (2, ''0'' @ NL, w')"
proof (rule sort_tool_too_many [where rs = "replicate 20480000 (ex_recs ! 0)"])
  show "fopen_r big_world ''big'' = Some (print_recs (replicate 20480000 (ex_recs ! 0)))"
    using ex_open(2) by (simp add: big_world_def file_simps)
  show "recs_ok (replicate 20480000 (ex_recs ! 0))"
    using ex_recs_ok by (simp add: list_all_iff ex_recs_def)
  show "tmp_openable big_world"
    using ex_open(1) by (simp add: big_world_def)
  show "OZSORT_PER_LINE * OZSORT_MAX_SPLITS \<le> length (replicate 20480000 (ex_recs ! 0))"
    by (simp add: OZSORT_PER_LINE_def OZSORT_MAX_SPLITS_def)
qed (simp add: OZ_BUF_SIZE_def)

text \<open>Round trip: scanning a line that was printed gives the record back, all 64 and 32 bits of
  its numbers, for every key without white space and NUL that fits the buffer, whatever the
  scan targets held before.\<close>

theorem record_roundtrip:
  assumes "key_ok (rkey r)"
  shows "scan_rec old (print_rec r @ s) = Some (Items 3, r, skip_ws s)"
  by (rule scan_print_rec [OF assms])

lemma record_roundtrip_witness:
  "scan_rec zero_rec (print_rec (ex_recs ! 0) @ [CHR 0x0A]) = Some (Items 3, ex_recs ! 0, [])"
  using record_roundtrip [of "ex_recs ! 0" zero_rec "[CHR 0x0A]"] ex_recs_ok
  by (simp add: ex_recs_def scan_simps)

text \<open>Every call of the scanner that does not report the end of the input consumes input, so the
  loops of all tools that read key lines end.\<close>

theorem scanner_progress:
  assumes "scan_rec old s = Some (ret, r, t)" and "ret \<noteq> Eof"
  shows "length t < length s"
  by (rule scan_rec_consumes [OF assms])

lemma scanner_progress_witness: "length ([] :: string) < length (print_rec (ex_recs ! 0))"
proof (rule scanner_progress)
  show "scan_rec zero_rec (print_rec (ex_recs ! 0)) = Some (Items 3, ex_recs ! 0, [])"
    using scan_print_rec [of "ex_recs ! 0" zero_rec "[]"] ex_recs_ok
    by (simp add: ex_recs_def scan_simps)
qed simp

text \<open>The sort of one chunk is stable and ordered by key.\<close>

theorem chunk_sort_stable:
  assumes "list_all (\<lambda>r. nul_free (rkey r)) rs"
  shows "sorted (map rkey (qsort cmp_oz_record rs))
    \<and> filter (\<lambda>r. rkey r = k) (qsort cmp_oz_record rs) = filter (\<lambda>r. rkey r = k) rs"
  using record_sort.sorter_eq [OF assms] by (simp_all add: filter_sort_key_same)

lemma chunk_sort_stable_witness: "sorted (map rkey (qsort cmp_oz_record ex_recs))"
  using chunk_sort_stable [of ex_recs] recs_ok_nul_free [OF ex_recs_ok] by simp

end
