(* ===== verification/StoreProps.thy ===== *)
theory StoreProps
  imports Example
begin

text \<open>
  The properties of the core library: writing, opening, reading one value and reading a batch,
  each with a run on concrete input.
\<close>

section \<open>Writing\<close>

text \<open>C5. A put of a well-formed key and a value that is not empty succeeds on an open writer, appends
  the value and one key line, has both on disk when it returns, touches no other file, and is a
  map update: the key maps to the value, every other key keeps its value.\<close>

theorem put_updates_map:
  assumes "writer_inv db w h v rs" and "key_ok key"
    and "val \<noteq> []" and "length val < 2 ^ 32" and "length (v @ val) < 2 ^ 63"
    and "tell_ok env" and "value_fault env = None" and "key_fault env = None"
  shows "\<exists>h' w' rs'. ozwrite_put env w (Some h) key val (int (length val)) = Some (0, Some h', w')
    \<and> writer_inv db w' h' (v @ val) rs' \<and> on_disk db w' (v @ val) rs'
    \<and> db_map (v @ val) rs' = (db_map v rs)(key \<mapsto> val)
    \<and> (\<forall>p. p \<noteq> key_path db \<longrightarrow> p \<noteq> value_path db \<longrightarrow> files w' p = files w p)"
proof -
  have "\<exists>k. db_inv k v rs"
    using assms(1) by (auto simp: writer_inv_def)
  then have "db_map (v @ val) (rs @ [new_rec v key val]) = (db_map v rs)(key \<mapsto> val)"
    using db_map_append assms(3-5) by blast
  with put_success [OF assms(1-8)] show ?thesis
    unfolding on_disk_def by blast
qed

lemma put_updates_map_witness:
  "\<exists>h' w' rs'. ozwrite_put no_faults ex_world (Some ex_writer) ''b'' ''uv'' 2 = Some (0, Some h', w')
    \<and> db_map (ex_value @ ''uv'') rs' = (db_map ex_value ex_recs)(''b'' \<mapsto> ''uv'')"
  using put_updates_map [OF ex_writer_inv, of "''b''" "''uv''" no_faults]
  by (auto simp: key_ok_def OZ_KEY_BUF_SIZE_def isspace_def ex_value_def simp del: fun_upd_apply)



text \<open>A key line that was written in part stays in the stream, in front of the next one.\<close>

lemma torn_put:
  assumes "wkey h = Ptr fk" and "wval h = Ptr fv" and "key_ok key" and "k \<le> length key"
    and "val \<noteq> []" and "length val < 2 ^ 32"
    and "tell_ok env" and "value_fault env = None" and "key_fault env = Some k"
  shows "ozwrite_put env w (Some h) key val (int (length val)) =
    Some (2, Some \<lparr>wkey = Ptr (stream_put fk (take k key)), wval = Ptr (stream_put fv val)\<rparr>, w)"
proof -
  have "unat (of_int (int (length val)) :: u32) = length val" "cstr key = key" "\<not> length key < 1"
    using assms(3,6) by (simp_all add: key_ok_def less_Suc_eq_le)
  then show ?thesis
    using assms by (simp add: ozwrite_put_def Let_def key_line_def)
qed

lemma put_after_torn:
  assumes "nul_free (p @ key)" and "key \<noteq> []" and "wkey h = Ptr fk" and "wval h = Ptr fv"
    and "val \<noteq> []" and "length val < 2 ^ 32"
    and "tell_ok env" and "value_fault env = None" and "key_fault env = None"
  shows "ozwrite_put env w (Some (h\<lparr>wkey := Ptr (stream_put fk p)\<rparr>)) key val (int (length val)) =
    ozwrite_put env w (Some h) (p @ key) val (int (length val))"
proof -
  have "unat (of_int (int (length val)) :: u32) = length val" "cstr key = key" "cstr (p @ key) = p @ key"
    "\<not> length key < 1" "\<not> length (p @ key) < 1"
    using assms(1,2,6) by (simp_all add: less_Suc_eq_le)
  then show ?thesis
    using assms by (simp add: ozwrite_put_def Let_def key_line_def stream_put_def)
qed

text \<open>When a put fails with 2 after a part of its key was written, the next put reports success
  but its value is stored under that part followed by its own key: its own key keeps the value it had.\<close>

theorem torn_key_takes_next:
  assumes "writer_inv db w h v rs" and "key_ok key1" and "k \<le> length key1" and "0 < k"
    and "key_ok (take k key1 @ key2)" and "key2 \<noteq> []"
    and "val1 \<noteq> []" and "val2 \<noteq> []" and "length val1 < 2 ^ 32" and "length val2 < 2 ^ 32"
    and "length (v @ val1 @ val2) < 2 ^ 63"
    and "tell_ok env1" and "value_fault env1 = None" and "key_fault env1 = Some k"
    and "tell_ok env2" and "value_fault env2 = None" and "key_fault env2 = None"
  shows "\<exists>h1 h2 w2 rs2. ozwrite_put env1 w (Some h) key1 val1 (int (length val1)) = Some (2, Some h1, w)
    \<and> ozwrite_put env2 w (Some h1) key2 val2 (int (length val2)) = Some (0, Some h2, w2)
    \<and> writer_inv db w2 h2 (v @ val1 @ val2) rs2 \<and> on_disk db w2 (v @ val1 @ val2) rs2
    \<and> db_map (v @ val1 @ val2) rs2 = (db_map v rs)(take k key1 @ key2 \<mapsto> val2)
    \<and> db_map (v @ val1 @ val2) rs2 key2 = db_map v rs key2"
proof -
  obtain fk fv where h: "wkey h = Ptr fk" "wval h = Ptr fv" "\<exists>t. db_inv t v rs"
    using assms(1) by (auto simp: writer_inv_def)
  define g where "g = h\<lparr>wval := Ptr (stream_put fv val1)\<rparr>"
  define h1 where "h1 = g\<lparr>wkey := Ptr (stream_put fk (take k key1))\<rparr>"
  have first: "ozwrite_put env1 w (Some h) key1 val1 (int (length val1)) = Some (2, Some h1, w)"
    using torn_put [OF h(1,2) assms(2,3,7,9,12,13,14)] by (simp add: h1_def g_def)
  have inv: "writer_inv db w g (v @ val1) rs"
    unfolding g_def by (rule writer_inv_orphan [OF assms(1) h(2)]) (use assms(11) in simp)
  have gs: "wkey g = Ptr fk" "wval g = Ptr (stream_put fv val1)"
    using h(1) by (simp_all add: g_def)
  have len: "length ((v @ val1) @ val2) < 2 ^ 63"
    using assms(11) by simp
  obtain h2 w2 rs2 where second:
    "ozwrite_put env2 w (Some g) (take k key1 @ key2) val2 (int (length val2)) = Some (0, Some h2, w2)"
    "writer_inv db w2 h2 ((v @ val1) @ val2) rs2" "on_disk db w2 ((v @ val1) @ val2) rs2"
    "rs2 = rs @ [new_rec (v @ val1) (take k key1 @ key2) val2]"
    using put_success [OF inv assms(5,8,10) len assms(15-17)] unfolding on_disk_def by blast
  have "db_map ((v @ val1) @ val2) rs2 = (db_map (v @ val1) rs)(take k key1 @ key2 \<mapsto> val2)"
    using db_map_append [OF _ assms(8,10) len] inv second(4) by (auto simp: writer_inv_def)
  moreover have "db_map (v @ val1) rs = db_map v rs"
    using h(3) by (auto intro: db_map_orphan)
  moreover have "take k key1 @ key2 \<noteq> key2"
    using assms(2-4) by (auto simp: key_ok_def)
  ultimately show ?thesis
    using first second put_after_torn [OF key_ok_nul_free [OF assms(5)] assms(6) gs assms(8,10,15-17)]
    by (auto simp: h1_def)
qed

lemma torn_key_takes_next_witness:
  "\<exists>h1 h2 w2 rs2.
     ozwrite_put (no_faults\<lparr>key_fault := Some 1\<rparr>) ex_world (Some ex_writer) ''bc'' ''uv'' 2 = Some (2, Some h1, ex_world)
   \<and> ozwrite_put no_faults ex_world (Some h1) ''k'' ''w'' 1 = Some (0, Some h2, w2)
   \<and> db_map (ex_value @ ''uvw'') rs2 = (db_map ex_value ex_recs)(''bk'' \<mapsto> ''w'')"
  using torn_key_takes_next [OF ex_writer_inv, of "''bc''" 1 "''k''" "''uv''" "''w''"
      "no_faults\<lparr>key_fault := Some 1\<rparr>" no_faults]
  by (auto simp: key_ok_def OZ_KEY_BUF_SIZE_def isspace_def ex_value_def no_faults_def)

text \<open>Opening a database for writing keeps both files and gives a consistent writer; closing it
  writes everything out, and closing a second time is undefined, because the pointers dangle.\<close>

theorem open_close_writer:
  assumes "openable (mkdir w db) (key_path db)" and "openable (mkdir w db) (value_path db)"
    and "key_path db \<noteq> value_path db"
    and "db_inv (content w (key_path db)) (content w (value_path db)) rs"
  shows "\<exists>h1 w1 h2 w2. ozwrite_open w (Some h) db = (0, Some h1, w1)
    \<and> writer_inv db w1 h1 (content w (value_path db)) rs
    \<and> ozwrite_close w1 (Some h1) = Some (h2, w2)
    \<and> content w2 (key_path db) = content w (key_path db) \<and> content w2 (value_path db) = content w (value_path db)
    \<and> ozwrite_close w2 (Some h2) = None"
proof -
  obtain h1 w1 where o: "ozwrite_open w (Some h) db = (0, Some h1, w1)"
      "writer_inv db w1 h1 (content w (value_path db)) rs"
    using open_writer_inv [OF assms, of h] by blast
  moreover have "content w (key_path db) = print_recs rs"
    using assms(4) by (simp add: db_inv_def)
  ultimately show ?thesis
    using close_writer [OF o(2)] by auto
qed

lemma open_close_writer_witness:
  "\<exists>h1 w1 h2 w2. ozwrite_open ex_world (Some \<lparr>wkey = Uninit, wval = Uninit\<rparr>) ''db'' = (0, Some h1, w1)
    \<and> ozwrite_close w1 (Some h1) = Some (h2, w2) \<and> ozwrite_close w2 (Some h2) = None"
  using open_close_writer [of ex_world "''db''" ex_recs "\<lparr>wkey = Uninit, wval = Uninit\<rparr>"]
    ex_open ex_place(5) ex_db_inv ex_content(1,2)
  by auto

section \<open>Opening and reading\<close>

text \<open>C6. Opening a database for reading and asking for a key gives what the map of the database has
  at that key: the value in a buffer of one byte more, NUL terminated, with its length; or 3.
  The files of the database and all files but the temporary ones (\<open>/tmp/ozsort_...\<close>) stay as they are.\<close>

theorem open_then_get:
  assumes "runs_sort popen now1 now2" and "plain_word (key_path db)" and "length db \<le> 900"
    and "fopen_r w (key_path db) = Some k" and "fopen_r w (value_path db) = Some v"
    and "\<not> is_tmp (value_path db)" and "db_inv k v rs"
    and "list_all rec_readable rs" and "rs \<noteq> []" and "fits_splits rs" and "tmp_openable w"
    and "nul_free key" and "gkey p = Ptr key"
  shows "\<exists>h w'. ozread_open popen uninit w db = Some (0, h, w')
    \<and> ozread_get (\<lambda>_ _. True) w' (Some h) (Some p) = Some (case db_map v rs key of
        None \<Rightarrow> (3, Some p)
      | Some val \<Rightarrow> (0, Some (p\<lparr>gvalue := Ptr (length val + 1, val @ [CHR 0x00]), glen := of_nat (length val)\<rparr>)))
    \<and> (\<forall>q. \<not> is_tmp q \<longrightarrow> files w' q = files w q)"
proof -
  have k: "fopen_r w (key_path db) = Some (print_recs rs)" "recs_ok rs"
    using assms(4,7) by (simp_all add: db_inv_def)
  obtain h w' where o: "ozread_open popen uninit w db = Some (0, h, w')" "reader_for db h rs"
      "clean_up w (tool_tmps now1 now2 rs) w'"
    using open_reader [OF assms(1-3) k(1) assms(5,6) k(2) assms(8,10,11), of uninit] by blast
  have same: "\<forall>q. \<not> is_tmp q \<longrightarrow> files w' q = files w q"
    using o(3) by (simp add: clean_up_def)
  then have "content w' (value_path db) = v"
    using assms(5,6) fopen_r_content [OF assms(5)] by (simp add: content_def)
  with o(1) same get_db_map [OF o(2) assms(8,9,7) _ assms(12,13), of w' "\<lambda>_ _. True"] show ?thesis
    by blast
qed

lemma ex_map: "db_map ex_value ex_recs ''k'' = Some ''z''" "db_map ex_value ex_recs ''a'' = Some ''yy''"
  by (simp_all add: db_map_def latest_def ex_recs_def pick_def newer_def rec_bytes_def fread_bytes_def ex_value_def)

lemma open_then_get_witness:
  "\<exists>h w'. ozread_open (sh_popen 0 1) zero_rec ex_world ''db'' = Some (0, h, w')
    \<and> ozread_get (\<lambda>_ _. True) w' (Some h) (Some \<lparr>gkey = Ptr ''k'', gvalue = Null, glen = 0\<rparr>) =
      Some (0, Some \<lparr>gkey = Ptr ''k'', gvalue = Ptr (2, ''z'' @ [CHR 0x00]), glen = 1\<rparr>)"
  using open_then_get [OF runs_sort_sh_popen ex_place(1,2) ex_content(3,4) ex_place(4) ex_db_inv
      ex_readable ex_fits ex_open(1), of "''k''" "\<lparr>gkey = Ptr ''k'', gvalue = Null, glen = 0\<rparr>" 0 1 zero_rec]
  by (auto simp: ex_map)

text \<open>C27. The binary search finds a key of the table exactly when it is there, on any table sorted by
  \<open>strcmp\<close>, and never leaves the table.\<close>

theorem binary_search_exact:
  assumes "holds_table h rs" and "nul_free k"
  shows "ozread_get_key h (Ptr k) = Some (case lookup_rec rs k of None \<Rightarrow> (1, None) | Some r \<Rightarrow> (0, Some r))"
  by (rule get_key_correct [OF assms])

lemma binary_search_exact_witness: "ozread_get_key ex_reader (Ptr ''a'') = Some (0, Some (ex_recs ! 1))"
  using binary_search_exact [OF ex_holds_table, of "''a''"] by (simp add: lookup_rec_def ex_recs_def)

text \<open>Every outcome of a single read on a loaded table: not found (3), no memory (5), bytes that
  are not in the file (4), and success.\<close>

theorem get_outcomes:
  assumes "holds_table h rs" and "nul_free k" and "gkey p = Ptr k" and "fpval h = Ptr path"
    and "list_all (\<lambda>r. rlength r \<noteq> - 1) rs"
  shows "\<exists>q. ozread_get alloc w (Some h) (Some p) = Some (case lookup_rec rs k of
      None \<Rightarrow> (3, Some p)
    | Some r \<Rightarrow>
        if \<not> alloc 0 (value_bufsize (rlength r)) then (5, Some (p\<lparr>gvalue := Null, glen := rlength r\<rparr>))
        else if readable (content w path) r
        then (0, Some (p\<lparr>gvalue := Ptr (value_buffer (content w path) r), glen := rlength r\<rparr>))
        else (4, Some q))"
proof (cases "lookup_rec rs k")
  case None
  then show ?thesis using get_missing [OF assms(1-3) None] by simp
next
  case (Some r)
  then have "rlength r \<noteq> - 1"
    using lookup_rec_mem [OF Some] assms(5) by (simp add: list_all_iff)
  then show ?thesis
    using Some get_no_memory [OF assms(1-3) Some, of alloc w] get_found [OF assms(1-3) Some _ assms(4), of alloc w]
      get_unreadable [OF assms(1-3) Some _ assms(4), of alloc w]
    by auto
qed

lemma get_outcomes_witness:
  "ozread_get (\<lambda>_ _. False) ex_world (Some ex_reader) (Some \<lparr>gkey = Ptr ''a'', gvalue = Null, glen = 0\<rparr>) =
    Some (5, Some \<lparr>gkey = Ptr ''a'', gvalue = Null, glen = 2\<rparr>)"
proof -
  have "list_all (\<lambda>r. rlength r \<noteq> - 1) [ex_recs ! 1, ex_recs ! 2]" and "fpval ex_reader = Ptr (value_path ''db'')"
    by (simp_all add: ex_recs_def ex_reader_def)
  from get_outcomes [OF ex_holds_table _ _ this(2,1), of "''a''" "\<lparr>gkey = Ptr ''a'', gvalue = Null, glen = 0\<rparr>"
      "\<lambda>_ _. False" ex_world]
  show ?thesis by (simp add: lookup_rec_def ex_recs_def)
qed

text \<open>C12. The batch read visits the value file in offset order and still answers every request as a
  single read does: slot \<open>i\<close> holds the buffer of the record of key \<open>i\<close>, or a null pointer for a
  null or missing key.\<close>

theorem batch_equals_single:
  assumes "holds_table h rs" and "fpval h = Ptr path" and "list_all (readable (content w path)) rs"
    and "\<And>i n. alloc i n"
    and "skeys p = Ptr ks" and "nkeys p = length ks" and "keys_valid ks"
    and "svalues p = Ptr (replicate (length ks) Null)" and "cookie_cap p = Ptr (length ks)"
  shows "\<exists>cs vs. ozread_gets alloc w (Some h) (Some p) = Some (0, Some (p\<lparr>svalues := Ptr vs, cookies := cs\<rparr>))
    \<and> length vs = length ks
    \<and> (\<forall>i < length ks. \<forall>q. gkey q = ks ! i \<longrightarrow> (case ks ! i of
         Null \<Rightarrow> vs ! i = Null
       | _ \<Rightarrow> (case ozread_get alloc w (Some h) (Some q) of
                 Some (0, Some q') \<Rightarrow> vs ! i = gvalue q'
               | res \<Rightarrow> res = Some (3, Some q) \<and> vs ! i = Null)))"
proof -
  let ?vs = "batch_values rs (content w path) ks"
  obtain cs where run: "ozread_gets alloc w (Some h) (Some p) =
      Some (0, Some (p\<lparr>svalues := Ptr ?vs, cookies := cs\<rparr>))"
    using gets_correct [OF assms(1-3) _ assms(5-9), of alloc] assms(4) by blast
  have one: "case ks ! i of Null \<Rightarrow> ?vs ! i = Null
      | _ \<Rightarrow> (case ozread_get alloc w (Some h) (Some q) of
                Some (0, Some q') \<Rightarrow> ?vs ! i = gvalue q' | res \<Rightarrow> res = Some (3, Some q) \<and> ?vs ! i = Null)"
    if i: "i < length ks" and q: "gkey q = ks ! i" for i q
  proof -
    consider "ks ! i = Null" | k where "ks ! i = Ptr k" "nul_free k"
      using assms(7) i by (cases "ks ! i") (auto simp: keys_valid_def list_all_length)
    then show ?thesis
    proof cases
      case 1
      then show ?thesis using i by (simp add: batch_values_def request_rec_def)
    next
      case 2
      then have key: "gkey q = Ptr k" using q by simp
      show ?thesis
      proof (cases "lookup_rec rs k")
        case None
        then show ?thesis
          using get_missing [OF assms(1) 2(2) key None, of alloc w] i 2
          by (simp add: batch_values_def request_rec_def)
      next
        case (Some r)
        then have "readable (content w path) r"
          using lookup_rec_mem [OF Some] assms(3) by (simp add: list_all_iff)
        then show ?thesis
          using get_found [OF assms(1) 2(2) key Some assms(4,2)] i 2 Some
          by (simp add: batch_values_def request_rec_def)
      qed
    qed
  qed
  have "length ?vs = length ks"
    by (simp add: batch_values_def)
  with run one show ?thesis by blast
qed

lemma batch_equals_single_witness:
  "\<exists>cs vs. ozread_gets (\<lambda>_ _. True) ex_world (Some ex_reader) (Some \<lparr>skeys = Ptr [Ptr ''k'', Null], nkeys = 2,
      svalues = Ptr [Null, Null], cookie_cap = Ptr 2, cookies = []\<rparr>) =
    Some (0, Some \<lparr>skeys = Ptr [Ptr ''k'', Null], nkeys = 2, svalues = Ptr vs, cookie_cap = Ptr 2, cookies = cs\<rparr>)
    \<and> vs ! 1 = Null"
proof -
  have r: "list_all (readable (content ex_world (value_path ''db''))) [ex_recs ! 1, ex_recs ! 2]"
      "fpval ex_reader = Ptr (value_path ''db'')" "keys_valid [Ptr ''k'', Null]"
    using ex_all_readable
    by (simp_all add: ex_content(2)) (simp_all add: ex_recs_def ex_reader_def keys_valid_def)
  let ?p = "\<lparr>skeys = Ptr [Ptr ''k'', Null], nkeys = 2, svalues = Ptr [Null, Null], cookie_cap = Ptr 2, cookies = []\<rparr>"
  from batch_equals_single [OF ex_holds_table r(2,1), of "\<lambda>_ _. True" ?p "[Ptr ''k'', Null]"] r(3)
  obtain cs vs where "ozread_gets (\<lambda>_ _. True) ex_world (Some ex_reader) (Some ?p) =
      Some (0, Some (?p\<lparr>svalues := Ptr vs, cookies := cs\<rparr>))"
      "\<forall>i < 2. \<forall>q. gkey q = [Ptr ''k'', Null] ! i \<longrightarrow> (case [Ptr ''k'', Null] ! i of
         Null \<Rightarrow> vs ! i = Null | _ \<Rightarrow> (case ozread_get (\<lambda>_ _. True) ex_world (Some ex_reader) (Some q) of
                 Some (0, Some q') \<Rightarrow> vs ! i = gvalue q'
               | res \<Rightarrow> res = Some (3, Some q) \<and> vs ! i = Null))"
    by (auto simp: numeral_2_eq_2)
  then show ?thesis
    by (auto dest!: spec [of _ 1] spec [of _ "\<lparr>gkey = Null, gvalue = Null, glen = 0\<rparr>"])
qed

end
