(* ===== verification/WriteFaults.thy ===== *)
theory WriteFaults
  imports WriteServer
begin

text \<open>
  The write server when calls fail: whatever faults its puts have, as long as no key line is
  written in part, a put that reports success has stored its value and a put that reports an
  error has changed no entry, and the files on disk are a consistent database at every moment.
\<close>

definition untorn :: "put_env \<Rightarrow> bool" where
  "untorn env \<longleftrightarrow> key_fault env = None \<or> key_fault env = Some 0"

lemma untorn_no_faults [simp]: "untorn no_faults"
  by (simp add: untorn_def)

text \<open>
  Values of failed puts may wait in the stream of the value file, so the text of that file is
  ahead of the disk; \<open>n\<close> bounds its length.
\<close>

definition live_rep :: "string \<Rightarrow> world \<times> write_handler \<Rightarrow> int \<Rightarrow> nat \<Rightarrow> (string \<Rightarrow> string option) \<Rightarrow> bool" where
  "live_rep db s i n m \<longleftrightarrow> (\<exists>v rs. server_inv db (fst s) (snd s) v rs
     \<and> db_inv (content (fst s) (key_path db)) (content (fst s) (value_path db)) rs
     \<and> wid (snd s) = i \<and> length v \<le> n \<and> db_map v rs = m
     \<and> db_map (content (fst s) (value_path db)) rs = m)"

lemma store_rep_live:
  assumes "store_rep db s i n m"
  shows "live_rep db s i n m"
proof -
  obtain v rs where r: "server_inv db (fst s) (snd s) v rs" "on_disk db (fst s) v rs"
      "wid (snd s) = i" "length v = n" "db_map v rs = m"
    using assms by (auto simp: store_rep_def)
  obtain k where "db_inv k v rs"
    using server_inv_db [OF r(1)] by blast
  then have "db_inv (print_recs rs) v rs"
    by (simp add: db_inv_def)
  then show ?thesis
    using r unfolding live_rep_def on_disk_def content_def by (intro exI [of _ v] exI [of _ rs]) simp
qed

lemma live_rep_free: "live_rep db s i n m \<Longrightarrow> i \<le> j \<Longrightarrow> m (dec (nat j)) = None"
  using fresh_key fresh_from_mono by (fastforce simp: live_rep_def server_inv_def)

text \<open>One put, whatever fails.\<close>

definition goes_well :: "put_env \<Rightarrow> bool" where
  "goes_well env \<longleftrightarrow> tell_ok env \<and> value_fault env = None \<and> key_fault env = None"

lemma live_after_success:
  assumes "live_rep db (w, st) i n m" and "i < 10 ^ 15" and "val \<noteq> []" and "length val < 2 ^ 32"
    and "n + length val < 2 ^ 63" and "goes_well env"
  shows "\<exists>h' w'. ozwrite_put env w (Some (ow st)) (dec (nat i)) val (int (length val)) = Some (0, Some h', w')
    \<and> live_rep db (w', st\<lparr>wkeybuf := dec (nat i), wid := i + 1, ow := h'\<rparr>) (i + 1) (n + length val)
        (m(dec (nat i) \<mapsto> val))"
proof -
  obtain v rs where r: "server_inv db w st v rs" "wid st = i" "length v \<le> n" "db_map v rs = m"
    using assms(1) by (auto simp: live_rep_def)
  have i: "0 \<le> i" "writer_inv db w (ow st) v rs" "fresh_from rs i"
    using r(1,2) by (simp_all add: server_inv_def)
  have len: "length (v @ val) < 2 ^ 63"
    using r(3) assms(5) by simp
  let ?k = "dec (nat i)" and ?rs = "rs @ [new_rec v (dec (nat i)) val]"
  obtain h' w' where put: "ozwrite_put env w (Some (ow st)) ?k val (int (length val)) = Some (0, Some h', w')"
      "writer_inv db w' h' (v @ val) ?rs" "files w' (value_path db) = Some (v @ val)"
      "files w' (key_path db) = Some (print_recs ?rs)"
    using put_success [OF i(2) key_ok_id [OF i(1) assms(2)] assms(3,4) len, of env] assms(6)
    by (auto simp: goes_well_def)
  have "db_inv (print_recs ?rs) (v @ val) ?rs"
    using put(2) by (auto simp: writer_inv_def db_inv_def)
  moreover have "db_map (v @ val) ?rs = m(?k \<mapsto> val)"
    using db_map_append [OF _ assms(3,4) len] i(2) r(4) by (auto simp: writer_inv_def)
  moreover have "fresh_from ?rs (i + 1)"
    using i by (intro fresh_from_snoc) simp_all
  ultimately show ?thesis
    using put i(1) r(3) unfolding live_rep_def
    by (intro exI [of _ h'] exI [of _ w'] conjI exI [of _ "v @ val"] exI [of _ ?rs])
      (simp_all add: server_inv_def content_def)
qed

lemma live_after_failure:
  assumes "live_rep db (w, st) i n m" and "length val < 2 ^ 32" and "n + length val < 2 ^ 63" and "untorn env"
    and "ozwrite_put env w (Some (ow st)) key val (int (length val)) = Some (ret, Some h', w')" and "ret \<noteq> 0"
  shows "live_rep db (w', st\<lparr>wkeybuf := key, wid := i + 1, ow := h'\<rparr>) (i + 1) (n + length val) m"
proof -
  obtain v rs where r: "server_inv db w st v rs" "db_inv (content w (key_path db)) (content w (value_path db)) rs"
      "wid st = i" "length v \<le> n" "db_map v rs = m" "db_map (content w (value_path db)) rs = m"
    using assms(1) by (auto simp: live_rep_def)
  have i: "0 \<le> i" "writer_inv db w (ow st) v rs" "fresh_from rs (i + 1)"
    using r(1,3) fresh_from_mono [of rs i "i + 1"] by (simp_all add: server_inv_def)
  have "length (v @ val) < 2 ^ 63"
    using r(4) assms(3) by simp
  then obtain u where "w' = w" "length u \<le> length val" "writer_inv db w h' (v @ u) rs" "db_map (v @ u) rs = db_map v rs"
    using put_failure [OF i(2) assms(5,6) _ assms(2)] assms(4) by (auto simp: untorn_def)
  with r i show ?thesis
    unfolding live_rep_def by (intro exI [of _ "v @ u"] exI [of _ rs]) (simp add: server_inv_def)
qed

lemma write_value_any:
  assumes "live_rep db (w, st) i n m" and "i < 10 ^ 15" and "length val < 2 ^ 32" and "n + length val < 2 ^ 63"
    and "untorn env"
  shows "\<exists>st1 ret st2 w'. make_key st = Some st1 \<and> write_value env w st1 val = Some (ret, st2, w')
    \<and> (ret = 0 \<longleftrightarrow> val \<noteq> [] \<and> goes_well env)
    \<and> live_rep db (w', st2) (i + 1) (n + length val) (if ret = 0 then m(dec (nat i) \<mapsto> val) else m)"
proof -
  let ?k = "dec (nat i)" and ?st1 = "st\<lparr>wkeybuf := dec (nat i), wid := i + 1\<rparr>"
  obtain v rs where inv: "writer_inv db w (ow st) v rs" "0 \<le> i" "wid st = i"
    using assms(1) by (auto simp: live_rep_def server_inv_def)
  have key: "make_key st = Some ?st1"
    using make_key_ok [of st] inv(2,3) assms(2) by simp
  obtain ret h' w' where put: "ozwrite_put env w (Some (ow st)) ?k val (int (length val)) = Some (ret, Some h', w')"
      "ret = 0 \<longrightarrow> val \<noteq> [] \<and> goes_well env"
    using put_total [OF inv(1) assms(3)] unfolding goes_well_def by blast
  have run: "write_value env w ?st1 val = Some (ret, ?st1\<lparr>ow := h'\<rparr>, w')"
    using put(1) by (simp add: write_value_def)
  show ?thesis
  proof (cases "val \<noteq> [] \<and> goes_well env")
    case True
    then show ?thesis
      using live_after_success [OF assms(1,2) _ assms(3,4), of env] key run put(1) by auto
  next
    case False
    then show ?thesis
      using live_after_failure [OF assms(1,3,4,5) put(1)] key run put(2) by auto
  qed
qed

text \<open>A batch: the map afterwards extends the one before.\<close>

lemma put_all_any:
  assumes "live_rep db (w, st) i n m" and "i + int (length vals) \<le> 10 ^ 15"
    and "\<forall>val \<in> set vals. length val < 2 ^ 32" and "n + length (concat vals) < 2 ^ 63" and "\<forall>j. untorn (env j)"
  shows "\<exists>st' w' m'. put_all env j w st vals = Some (st', w')
    \<and> live_rep db (w', st') (i + int (length vals)) (n + length (concat vals)) m' \<and> m \<subseteq>\<^sub>m m'"
  using assms(1-4)
proof (induction vals arbitrary: j w st i n m)
  case (Cons val vals)
  then obtain st1 ret st2 w2 where put: "make_key st = Some st1" "write_value (env j) w st1 val = Some (ret, st2, w2)"
      "live_rep db (w2, st2) (i + 1) (n + length val) (if ret = 0 then m(dec (nat i) \<mapsto> val) else m)"
    using write_value_any [OF Cons.prems(1), of val "env j"] assms(5) by force
  obtain st' w' m' where rest: "put_all env (j + 1) w2 st2 vals = Some (st', w')"
      "live_rep db (w', st') (i + 1 + int (length vals)) (n + length val + length (concat vals)) m'"
      "(if ret = 0 then m(dec (nat i) \<mapsto> val) else m) \<subseteq>\<^sub>m m'"
    using Cons.IH [OF put(3), of "j + 1"] Cons.prems(2-4) by force
  have "m \<subseteq>\<^sub>m (if ret = 0 then m(dec (nat i) \<mapsto> val) else m)"
    using live_rep_free [OF Cons.prems(1), of i] by (auto simp: map_le_def)
  from map_le_trans [OF this rest(3)] show ?case
    using put(1,2) rest(1,2) by (auto simp: add.assoc)
qed (auto simp: map_le_refl)

text \<open>What is on disk when the server has closed its files, or was terminated.\<close>

lemma live_rep_closed:
  assumes "live_rep db s i n m"
  shows "\<exists>h w. write_handler_delete (fst s) (snd s) = Some (h, w) \<and>
    (\<exists>rs. db_inv (content w (key_path db)) (content w (value_path db)) rs \<and> db_map (content w (value_path db)) rs = m)"
    and "\<exists>rs. db_inv (content (fst s) (key_path db)) (content (fst s) (value_path db)) rs \<and>
      db_map (content (fst s) (value_path db)) rs = m"
proof -
  obtain v rs where r: "server_inv db (fst s) (snd s) v rs" "db_map v rs = m"
      "db_inv (content (fst s) (key_path db)) (content (fst s) (value_path db)) rs"
      "db_map (content (fst s) (value_path db)) rs = m"
    using assms by (auto simp: live_rep_def)
  obtain k where k: "db_inv k v rs" "k = print_recs rs"
    using server_inv_db [OF r(1)] by (auto simp: db_inv_def)
  have "writer_inv db (fst s) (ow (snd s)) v rs"
    using r(1) by (simp add: server_inv_def)
  from close_writer [OF this] show "\<exists>h w. write_handler_delete (fst s) (snd s) = Some (h, w) \<and>
    (\<exists>rs. db_inv (content w (key_path db)) (content w (value_path db)) rs \<and> db_map (content w (value_path db)) rs = m)"
    using k r(2) by (auto simp: write_handler_delete_def)
  show "\<exists>rs. db_inv (content (fst s) (key_path db)) (content (fst s) (value_path db)) rs \<and>
      db_map (content (fst s) (value_path db)) rs = m"
    using r(3,4) by blast
qed

end
