(* ===== verification/ServerProps.thy ===== *)
theory ServerProps
  imports Example WriteFaults
begin

text \<open>
  The properties of the read and the write server, each with a run on concrete input.
\<close>

section \<open>The read server\<close>

text \<open>On an opened database \<open>get\<close> returns the bytes that the map has at the key (cut at its first
  NUL), or throws \<open>key not found\<close>.\<close>

theorem get_request:
  assumes "reader_for db h rs" and "list_all rec_readable rs" and "rs \<noteq> []"
    and "db_inv k v rs" and "content w (value_path db) = v"
  shows "server_get (\<lambda>_ _. True) w h key = Some (case db_map v rs (cstr key) of
      None \<Rightarrow> OZError ''key not found'' | Some val \<Rightarrow> Return val)"
  by (rule server_get_db_map [OF assms]) simp

lemma ex_reader_for: "reader_for ''db'' ex_reader ex_recs"
proof -
  have v: "filter visible ex_recs = ex_recs"
    using ex_readable by (simp add: filter_id_conv list_all_iff rec_readable_def)
  have "sort_table ex_recs = [ex_recs ! 1, ex_recs ! 2]"
    unfolding sort_table_def v by (simp add: ex_recs_def newer_def less_char_def)
  then show ?thesis
    using ex_holds_table by (simp add: reader_for_def reader_table_def) (simp add: ex_reader_def)
qed

lemma get_request_witness: "server_get (\<lambda>_ _. True) ex_world ex_reader ''k'' = Some (Return ''z'')"
  using get_request [OF ex_reader_for ex_readable ex_db_inv ex_content(2), of "''k''"]
  by (simp add: db_map_def latest_def ex_recs_def pick_def newer_def rec_bytes_def fread_bytes_def ex_value_def)

text \<open>\<open>gets\<close> never throws on such a database and answers in the order of the keys; a missing key
  gives the empty string, and a value is cut at its first NUL, other than with \<open>get\<close>.\<close>

theorem gets_request:
  assumes "reader_for db h rs" and "list_all rec_readable rs" and "rs \<noteq> []"
    and "db_inv k v rs" and "content w (value_path db) = v"
  shows "server_gets (\<lambda>_ _. True) (\<lambda>_ _. True) w h result keys = Some (Return (result @
    map (\<lambda>k. case db_map v rs (cstr k) of None \<Rightarrow> [] | Some val \<Rightarrow> cstr val) keys))"
  by (rule server_gets_db_map [OF assms]) simp_all

lemma gets_request_witness:
  "server_gets (\<lambda>_ _. True) (\<lambda>_ _. True) ex_world ex_reader [] [''a'', ''b''] = Some (Return [''yy'', []])"
  using gets_request [OF ex_reader_for ex_readable ex_db_inv ex_content(2), of "[]" "[''a'', ''b'']"]
  by (simp add: db_map_def latest_def ex_recs_def pick_def newer_def rec_bytes_def fread_bytes_def
      ex_value_def cstr_def)

text \<open>Threads that share the value stream: when no thread steps between the seek and the read of
  another one, every answer of every interleaving is the answer of the request on its own.\<close>

theorem atomic_reads_are_right:
  assumes "locked_run w h path st0 st" and "\<forall>t. \<exists>k. phase st0 t = Asked k"
    and "fpval h = Ptr path" and "holds_table h rs" and "list_all (\<lambda>r. rlength r \<noteq> - 1) rs"
    and "phase st t = Answered k reply"
  shows "server_get (\<lambda>_ _. True) w h k = Some reply"
  using locked_run_inv [OF assms(1-5)] assms(6) by (auto simp: pool_inv_def)

lemma atomic_reads_are_right_witness:
  "\<exists>st. locked_run race_world race_handle ''v'' race_start st \<and> phase st 0 = Answered ''a'' (Return ''x'')
    \<and> server_get (\<lambda>_ _. True) race_world race_handle ''a'' = Some (Return ''x'')"
proof -
  let ?s1 = "race_start\<lparr>spos := 0, phase := (phase race_start)(0 := Sought ''a'' (race_table ! 0))\<rparr>"
  let ?s2 = "?s1\<lparr>spos := 1, phase := (phase ?s1)(0 := Answered ''a'' (Return ''x''))\<rparr>"
  have s1: "read_step race_world race_handle ''v'' 0 race_start ?s1"
    using read_step.seek [of race_start 0 "''a''" race_handle "race_table ! 0"] race_keys(1)
    by (simp add: race_start_def race_table_def fseeko_ok_def)
  have s2: "read_step race_world race_handle ''v'' 0 ?s1 ?s2"
    using read_step.read [of ?s1 0 "''a''" "race_table ! 0" 1 "''x''" race_world "''v''" "Return ''x''" race_handle]
    by (simp add: race_start_def race_table_def race_content fread_ret_def fread_bytes_def)
  have "alone race_start 0" "alone ?s1 0"
    by (simp_all add: alone_def race_start_def)
  then have run: "locked_run race_world race_handle ''v'' race_start ?s2"
    using s1 s2 by (meson locked_run.start locked_run.step)
  have "\<forall>t. \<exists>k. phase race_start t = Asked k" "fpval race_handle = Ptr ''v''"
      "list_all (\<lambda>r. rlength r \<noteq> - 1) race_table"
    by (simp_all add: race_start_def race_handle_def race_table_def)
  from atomic_reads_are_right [OF run this(1,2) holds_race_table this(3), where t = 0 and k = "''a''"]
  have "server_get (\<lambda>_ _. True) race_world race_handle ''a'' = Some (Return ''x'')"
    by simp
  with run show ?thesis by (intro exI [of _ ?s2]) simp
qed


section \<open>The write server\<close>

text \<open>C30. Starting the write server on a consistent database, new or old: it succeeds, the files keep
  their contents, and the next identifier is above every number that is a key of the file, as
  long as these fit an \<open>int\<close>; so the keys that will be made are not in use.\<close>

theorem start_writer_fresh:
  assumes "nul_free db" and "openable (mkdir w db) (key_path db)" and "openable (mkdir w db) (value_path db)"
    and "key_path db \<noteq> value_path db"
    and "db_inv (content w (key_path db)) (content w (value_path db)) rs"
    and "\<forall>r \<in> set rs. \<forall>n. rkey r = dec n \<longrightarrow> n < 2 ^ 31"
  shows "\<exists>st w'. write_handler_new w uninit True db = Some (Return st, w')
    \<and> server_inv db w' st (content w (value_path db)) rs
    \<and> on_disk db w' (content w (value_path db)) rs
    \<and> (\<forall>i \<ge> wid st. db_map (content w (value_path db)) rs (dec (nat i)) = None)"
proof -
  obtain st w' where s: "write_handler_new w uninit True db = Some (Return st, w')"
      "server_inv db w' st (content w (value_path db)) rs"
      "on_disk db w' (content w (value_path db)) rs"
    using write_handler_new_ok [OF assms, of uninit] by blast
  have "db_map (content w (value_path db)) rs (dec (nat i)) = None" if "wid st \<le> i" for i
    using s(2) that by (intro fresh_key) (auto simp: server_inv_def intro: fresh_from_mono)
  with s show ?thesis by blast
qed

lemma ex_not_numbers: "r \<in> set ex_recs \<Longrightarrow> rkey r \<noteq> dec n"
proof
  assume "r \<in> set ex_recs" and "rkey r = dec n"
  then have "dec n = ''k'' \<or> dec n = ''a''"
    by (auto simp: ex_recs_def)
  then have "isdigit (CHR ''k'') \<or> isdigit (CHR ''a'')"
    using dec_digits [of _ n] by (metis list.set_intros(1))
  then show False by (simp add: isdigit_def)
qed

lemma start_writer_fresh_witness:
  "\<exists>st w'. write_handler_new ex_world \<lparr>wkey = Uninit, wval = Uninit\<rparr> True ''db'' = Some (Return st, w')
    \<and> server_inv ''db'' w' st ex_value ex_recs"
  using start_writer_fresh [of "''db''" ex_world ex_recs "\<lparr>wkey = Uninit, wval = Uninit\<rparr>"]
    ex_open ex_place(3,5) ex_db_inv ex_content(1,2) ex_not_numbers
  by auto



text \<open>A \<open>put\<close> request with a value stores it under the next identifier, which had no value, on
  disk, keeps every other key, and moves to the next identifier.\<close>

theorem put_request:
  assumes "server_inv db w st v rs" and "wid st < 10 ^ 15"
    and "val \<noteq> []" and "length val < 2 ^ 32" and "length (v @ val) < 2 ^ 63"
  shows "\<exists>st' w' rs'. server_put True no_faults w st val = Some (Return (), st', w')
    \<and> server_inv db w' st' (v @ val) rs' \<and> on_disk db w' (v @ val) rs' \<and> wid st' = wid st + 1
    \<and> db_map v rs (dec (nat (wid st))) = None
    \<and> db_map (v @ val) rs' = (db_map v rs)(dec (nat (wid st)) \<mapsto> val)"
proof -
  have "db_map (v @ val) (rs @ [new_rec v (dec (nat (wid st))) val]) = (db_map v rs)(dec (nat (wid st)) \<mapsto> val)"
    using server_inv_db [OF assms(1)] db_map_append assms(3-5) by blast
  moreover have "db_map v rs (dec (nat (wid st))) = None"
    using assms(1) by (intro fresh_key) (simp_all add: server_inv_def)
  ultimately show ?thesis
    using server_put_ok [OF assms] by blast
qed

lemma put_request_witness:
  "\<exists>st' w'. server_put True no_faults empty_world ex_handler ''v1'' = Some (Return (), st', w') \<and> wid st' = 2"
  using put_request [OF ex_server_inv, of "''v1''"] by (auto simp: ex_handler_def)

text \<open>A \<open>puts\<close> request stores the values that are not empty under consecutive identifiers.\<close>

theorem puts_request:
  assumes "server_inv db w st v rs" and "on_disk db w v rs"
    and "wid st + int (length vals) \<le> 10 ^ 15" and "\<forall>val \<in> set vals. length val < 2 ^ 32"
    and "length v + length (concat vals) < 2 ^ 63"
  shows "\<exists>st' w' v' rs'. server_puts True (\<lambda>_. no_faults) w st vals = Some (Return (), st', w')
    \<and> server_inv db w' st' v' rs' \<and> on_disk db w' v' rs' \<and> wid st' = wid st + int (length vals)
    \<and> db_map v' rs' = stored (wid st) vals (db_map v rs)"
proof -
  obtain st' w' where p: "put_all (\<lambda>_. no_faults) 0 w st vals = Some (st', w')"
      "store_rep db (w', st') (wid st + int (length vals)) (length v + length (concat vals))
        (stored (wid st) vals (db_map v rs))"
    using put_all_ok [OF assms, of 0] by blast
  from p(2) obtain v' rs' where "server_inv db w' st' v' rs'" "on_disk db w' v' rs'"
      "wid st' = wid st + int (length vals)" "db_map v' rs' = stored (wid st) vals (db_map v rs)"
    unfolding store_rep_def by auto
  moreover have "server_puts True (\<lambda>_. no_faults) w st vals = Some (Return (), st', w')"
    using p(1) by (simp add: server_puts_def)
  ultimately show ?thesis by blast
qed

lemma puts_request_witness:
  "\<exists>st' w' v' rs'. server_puts True (\<lambda>_. no_faults) empty_world ex_handler [''v1'', [], ''v3''] =
      Some (Return (), st', w')
    \<and> wid st' = 4 \<and> db_map v' rs' = stored 1 [''v1'', [], ''v3''] (db_map [] [])"
proof -
  have "wid ex_handler = 1" by (simp add: ex_handler_def)
  with puts_request [OF ex_server_inv ex_on_disk, of "[''v1'', [], ''v3'']"] show ?thesis
    by (simp del: stored.simps) blast
qed

text \<open>Whatever the interleaving of the threads, with faults of the library calls or without, when
  the mutex is free the handler, the files and every reply given so far are those of serving
  the finished requests one after the other, each once, in the order of the lock.\<close>

theorem puts_linearisable:
  assumes "put_run env (start_pool vals w st) s" and "mutex s = None"
  shows "\<exists>rs. serve env vals (entered s) w st = Some (rs, handler s, disk s)
    \<and> distinct (entered s) \<and> (\<forall>t reply. point s t = Finished reply \<longrightarrow> (t, reply) \<in> set rs)
    \<and> (\<forall>t. t \<in> set (entered s) \<longleftrightarrow> (\<exists>reply. point s t = Finished reply))"
  by (rule put_run_serial [OF assms])

lemma ex_pool_run:
  "\<exists>s. put_run (\<lambda>_. no_faults) (start_pool (\<lambda>_. ''v'') empty_world ex_handler) s \<and> mutex s = None
    \<and> entered s = [7] \<and> point s 7 = Finished (Return ())"
proof -
  let ?s0 = "start_pool (\<lambda>_. ''v'') empty_world ex_handler"
  have id: "wid ex_handler < 10 ^ 15" by (simp add: ex_handler_def)
  obtain st1 st2 w' where p: "make_key ex_handler = Some st1"
      "write_value no_faults empty_world st1 ''v'' = Some (0, st2, w')"
    using write_value_ok [OF ex_server_inv id, of "''v''"] by auto
  let ?s1 = "?s0\<lparr>mutex := Some 7, point := (point ?s0)(7 := Locked ''v''), entered := entered ?s0 @ [7]\<rparr>"
  let ?s2 = "?s1\<lparr>handler := st1, point := (point ?s1)(7 := Keyed ''v'')\<rparr>"
  let ?s3 = "?s2\<lparr>handler := st2, disk := w', point := (point ?s2)(7 := Written (Return ()))\<rparr>"
  let ?s4 = "?s3\<lparr>mutex := None, point := (point ?s3)(7 := Finished (Return ()))\<rparr>"
  have "put_step (\<lambda>_. no_faults) 7 ?s0 ?s1"
    by (rule put_step.lock) (simp_all add: start_pool_def)
  moreover have "put_step (\<lambda>_. no_faults) 7 ?s1 ?s2"
    using p(1) by (intro put_step.key) (simp_all add: start_pool_def)
  moreover have "put_step (\<lambda>_. no_faults) 7 ?s2 ?s3"
    using p(2) put_step.store [of ?s2 7 "''v''" "\<lambda>_. no_faults" 0 st2 w'] by (simp add: start_pool_def)
  moreover have "put_step (\<lambda>_. no_faults) 7 ?s3 ?s4"
    by (rule put_step.unlock) simp
  ultimately have "put_run (\<lambda>_. no_faults) ?s0 ?s4"
    by (meson put_run.start put_run.step)
  then show ?thesis
    by (intro exI [of _ ?s4]) (simp add: start_pool_def)
qed

lemma puts_linearisable_witness:
  "\<exists>(s :: put_pool) rs. serve (\<lambda>_. no_faults) (\<lambda>_. ''v'') [7] empty_world ex_handler = Some (rs, handler s, disk s)
    \<and> (7, Return ()) \<in> set rs"
proof -
  obtain s where s: "put_run (\<lambda>_. no_faults) (start_pool (\<lambda>_. ''v'') empty_world ex_handler) s"
      "mutex s = None" "entered s = [7]" "point s 7 = Finished (Return ())"
    using ex_pool_run by blast
  from puts_linearisable [OF s(1,2)] obtain rs where
      "serve (\<lambda>_. no_faults) (\<lambda>_. ''v'') (entered s) empty_world ex_handler = Some (rs, handler s, disk s)"
      "\<forall>t reply. point s t = Finished reply \<longrightarrow> (t, reply) \<in> set rs"
    by blast
  with s(3,4) show ?thesis
    by (intro exI [of _ s] exI [of _ rs]) simp
qed

text \<open>Mutual exclusion: at most one thread is between lock and unlock, so no two threads use the
  shared key buffer and the streams at a time.\<close>

theorem puts_exclusive:
  assumes "put_run env (start_pool vals w st) s" and "holds_lock (point s t)" and "holds_lock (point s u)"
  shows "t = u"
  by (rule put_run_exclusive [OF assms])

lemma puts_exclusive_witness:
  "\<exists>s. put_run (\<lambda>_. no_faults) (start_pool (\<lambda>_. ''v'') empty_world ex_handler) s
    \<and> {u. holds_lock (point s u)} = {7}"
proof -
  let ?s0 = "start_pool (\<lambda>_. ''v'') empty_world ex_handler"
  let ?s1 = "?s0\<lparr>mutex := Some 7, point := (point ?s0)(7 := Locked ''v''), entered := entered ?s0 @ [7]\<rparr>"
  have "put_step (\<lambda>_. no_faults) 7 ?s0 ?s1"
    by (rule put_step.lock) (simp_all add: start_pool_def)
  then have run: "put_run (\<lambda>_. no_faults) ?s0 ?s1"
    by (meson put_run.start put_run.step)
  have lock: "holds_lock (point ?s1 7)" by simp
  have "u = 7" if "holds_lock (point ?s1 u)" for u
    by (rule puts_exclusive [OF run that lock])
  with run lock show ?thesis by (intro exI [of _ ?s1]) blast
qed




text \<open>When the position of the value file cannot be told, the client is told that its value was
  empty, because the case has no \<open>break\<close>; and a request that cannot take the lock stores
  nothing and reports success.\<close>

theorem put_wrong_reports:
  assumes "server_inv db w st v rs" and "wid st < 10 ^ 15" and "\<not> tell_ok env"
    and "val \<noteq> []" and "length val < 2 ^ 32"
  shows "(\<exists>st'. server_put True env w st val = Some (OZError ''value length can't be zero'', st', w))
    \<and> server_put False env w st val = Some (Return (), st, w)"
  using server_put_tell [OF assms] by (simp add: server_put_def)

lemma put_wrong_reports_witness:
  "\<exists>st'. server_put True (no_faults\<lparr>tell_ok := False\<rparr>) empty_world ex_handler ''v'' =
    Some (OZError ''value length can't be zero'', st', empty_world)"
  using put_wrong_reports [OF ex_server_inv, of "no_faults\<lparr>tell_ok := False\<rparr>" "''v''"]
  by (simp add: ex_handler_def)

end
