(* ===== verification/TravProps.thy ===== *)
theory TravProps
  imports Example
begin

text \<open>
  The properties of the traversal library and its server, each with a run on concrete input.
\<close>

text \<open>Opening for traversal loads exactly the lines of the key file that convert all three items,
  in file order, and fails with 2 when there is none; other lines are skipped.\<close>

theorem trav_open_loads:
  assumes "fopen_r w (key_path db) = Some s" and "parse_recs uninit s = Some rs"
    and "fopen_r w (value_path db) = Some v"
  shows "if rs = [] then oztrav_open uninit w db = Some (2, null_trav)
    else \<exists>h. oztrav_open uninit w db = Some (0, h) \<and> holds_trav h rs (value_path db)"
  using open_trav_parse [OF assms(1,2) _ assms(3)] open_trav_empty [OF assms(1)] assms(2) by auto

lemma trav_open_loads_witness:
  "\<exists>h. oztrav_open zero_rec ex_world ''db'' = Some (0, h) \<and> holds_trav h ex_recs (value_path ''db'')"
  using trav_open_loads [OF ex_content(3) parse_print_recs [OF ex_recs_ok] ex_content(4)] ex_readable(2)
  by simp

text \<open>C13. Memory safety of a step: with any allocator and any value file, a cursor that is not negative
  steps without leaving its buffers, and the buffers keep their recorded sizes unless there was
  no memory.\<close>

theorem trav_step_safe:
  assumes "cursor_inv c" and "0 \<le> cur c" and "holds_trav h rs path"
    and "list_all (\<lambda>r. rlength r \<noteq> - 1) rs"
  shows "\<exists>ret c'. oztrav_next alloc w h c = Some (ret, c') \<and> (ret \<noteq> 3 \<longrightarrow> cursor_inv c')"
  by (rule next_safe [OF assms])

lemma trav_step_safe_witness:
  "\<exists>ret c'. oztrav_next (\<lambda>_ _. False) ex_world ex_trav oztrav_cursor_init = Some (ret, c')"
proof -
  have "0 \<le> cur oztrav_cursor_init" "list_all (\<lambda>r. rlength r \<noteq> - 1) ex_recs"
    by (simp_all add: oztrav_cursor_init_def ex_recs_def)
  from trav_step_safe [OF cursor_inv_init this(1) ex_holds_trav this(2)] show ?thesis by blast
qed

text \<open>The loop over a cursor visits every record of the handle once, in order, with its key and the
  bytes of its value as C strings, and ends with return value 1.\<close>

theorem traversal_complete:
  assumes "holds_trav h rs path" and "list_all (readable (content w path)) rs"
  shows "\<exists>c. traverse (\<lambda>_ _. True) w h oztrav_cursor_init =
      Some (map (\<lambda>r. (cstr (rkey r), cstr (rec_bytes (content w path) r))) rs, 1, c)
    \<and> oztrav_cursor_free c = Some oztrav_cursor_init"
proof -
  have "cur oztrav_cursor_init = int 0"
    by (simp add: oztrav_cursor_init_def)
  from traverse_from [OF assms _ cursor_inv_init this] cursor_inv_free show ?thesis
    by fastforce
qed

lemma trav_step_all: "list_all (readable (content ex_world (value_path ''db''))) ex_recs"
  using ex_all_readable by (simp add: ex_content(2))

lemma traversal_complete_witness:
  "\<exists>c. traverse (\<lambda>_ _. True) ex_world ex_trav oztrav_cursor_init =
    Some ([(''k'', ''x''), (''a'', ''yy''), (''k'', ''z'')], 1, c)"
  using traversal_complete [OF ex_holds_trav trav_step_all]
  by (auto simp: ex_content(2) ex_recs_def rec_bytes_def fread_bytes_def ex_value_def cstr_def)

text \<open>After a failed \<open>realloc\<close> the cursor has a null pointer next to the old size, so a later step
  to a record that fits the old size writes through the null pointer; and a negative position
  reads before the table.\<close>

theorem trav_step_undefined:
  "next_value alloc bytes r (c\<lparr>cvalue := Null, value_len_alloc := int (unat (rlength r)) + 1\<rparr>) = None
    \<and> oztrav_next alloc w \<lparr>trecs = Ptr (map Ptr rs), tnrecs = int (length rs), tfpval = Ptr path\<rparr>
        (c\<lparr>cur := - 1\<rparr>) = None"
  using null_value_undefined [of "c\<lparr>cvalue := Null, value_len_alloc := int (unat (rlength r)) + 1\<rparr>" r alloc bytes]
  by (simp add: negative_cur_undefined)





end
