(* ===== verification/Wire.thy ===== *)
theory Wire
  imports OZPrelude
begin

text \<open>
  The binary protocol that carries the requests (src/include_deps/thrift/protocol):
  integers in network byte order, strings and lists with a length in front, structs as a
  sequence of fields that ends with \<open>T_STOP\<close>, and messages with a version, a name and a
  sequence number.  A reader takes the bytes that the transport still has and gives an error
  or a value with the bytes left.  The functions that write or read nothing (the ends of
  structs, fields, lists and messages) are left out.
\<close>

section \<open>Readers\<close>

text \<open>
  \<open>EndOfFile\<close> is thrown by the transport, the other errors by the protocol.  \<open>Exhausted\<close>
  belongs to the model: the loop over the fields of a struct was given too little fuel, which
  never happens with the fuel that is used.
\<close>

datatype proto_error = EndOfFile | BadVersion | NegativeSize | SizeLimit | Exhausted

type_synonym 'a reader = "string \<Rightarrow> proto_error + 'a \<times> string"

type_synonym i8 = "8 word"

type_synonym i16 = "16 word"

type_synonym i32 = "32 word"

type_synonym i64 = "64 word"

definition ret :: "'a \<Rightarrow> 'a reader" where
  "ret x s = Inr (x, s)"

definition fail :: "proto_error \<Rightarrow> 'a reader" where
  "fail e s = Inl e"

definition rbind :: "'a reader \<Rightarrow> ('a \<Rightarrow> 'b reader) \<Rightarrow> 'b reader" where
  "rbind r f s = (case r s of Inl e \<Rightarrow> Inl e | Inr (x, t) \<Rightarrow> f x t)"

definition readAll :: "nat \<Rightarrow> string reader" where
  "readAll n s = (if length s < n then Inl EndOfFile else Inr (take n s, drop n s))"

text \<open>A reader that never has more input left than it was given.\<close>

definition shrinks :: "'a reader \<Rightarrow> bool" where
  "shrinks r \<longleftrightarrow> (\<forall>s x t. r s = Inr (x, t) \<longrightarrow> length t \<le> length s)"

named_theorems shrink_rules "readers that do not create input"

named_theorems wire_simps "readers on written values"

lemma ret_simp [simp]: "ret x s = Inr (x, s)"
  by (simp add: ret_def)

lemma fail_simp [simp]: "fail e s = Inl e"
  by (simp add: fail_def)

lemma rbind_Inr [simp]: "r s = Inr (x, t) \<Longrightarrow> rbind r f s = f x t"
  by (simp add: rbind_def)

lemma rbind_Inl [simp]: "r s = Inl e \<Longrightarrow> rbind r f s = Inl e"
  by (simp add: rbind_def)

lemma shrinks_ret [shrink_rules]: "shrinks (ret x)"
  by (simp add: shrinks_def)

lemma shrinks_fail [shrink_rules]: "shrinks (fail e)"
  by (simp add: shrinks_def)

lemma shrinks_rbind [shrink_rules]:
  assumes "shrinks r" and "\<And>x. shrinks (f x)"
  shows "shrinks (rbind r f)"
  unfolding shrinks_def
proof (intro allI impI)
  fix s x t assume run: "rbind r f s = Inr (x, t)"
  then obtain y u where y: "r s = Inr (y, u)" "f y u = Inr (x, t)"
    by (auto simp: rbind_def split: sum.splits prod.splits)
  then have "length u \<le> length s" "length t \<le> length u"
    using assms by (auto simp: shrinks_def)
  then show "length t \<le> length s" by simp
qed

lemma shrinks_readAll [shrink_rules]: "shrinks (readAll n)"
  by (auto simp: shrinks_def readAll_def split: if_splits)

lemma shrinks_if [shrink_rules]: "shrinks r \<Longrightarrow> shrinks q \<Longrightarrow> shrinks (if b then r else q)"
  by simp

lemma shrinks_prod [shrink_rules]: "(\<And>a b. shrinks (f a b)) \<Longrightarrow> shrinks (case p of (a, b) \<Rightarrow> f a b)"
  by (cases p) simp

lemma readAll_append [wire_simps]: "n = length s \<Longrightarrow> readAll n (s @ t) = Inr (s, t)"
  by (simp add: readAll_def)

section \<open>Integers\<close>

fun be_write :: "nat \<Rightarrow> nat \<Rightarrow> string" where
  "be_write 0 n = []"
| "be_write (Suc k) n = char_of (n div 256 ^ k mod 256) # be_write k n"

definition be_read :: "string \<Rightarrow> nat" where
  "be_read s = foldl (\<lambda>a c. 256 * a + byte c) 0 s"

lemma length_be_write [simp]: "length (be_write k n) = k"
  by (induction k) auto

lemma be_read_acc: "foldl (\<lambda>a c. 256 * a + byte c) m (be_write k n) = m * 256 ^ k + n mod 256 ^ k"
proof (induction k arbitrary: m)
  case (Suc k)
  have "n mod 256 ^ Suc k = n div 256 ^ k mod 256 * 256 ^ k + n mod 256 ^ k"
    by (simp only: power_Suc2 mod_mult2_eq [of n "256 ^ k" 256] mult.commute [of "256 ^ k" "n div 256 ^ k mod 256"])
  moreover have "foldl (\<lambda>a c. 256 * a + byte c) (256 * m + n div 256 ^ k mod 256) (be_write k n) =
      (256 * m + n div 256 ^ k mod 256) * 256 ^ k + n mod 256 ^ k"
    by (rule Suc)
  ultimately show ?case
    by (simp add: distrib_right)
qed simp

lemma be_read_write: "n < 256 ^ k \<Longrightarrow> be_read (be_write k n) = n"
  by (simp add: be_read_def be_read_acc)

definition writeByte :: "i8 \<Rightarrow> string" where
  "writeByte b = be_write 1 (unat b)"

definition writeI16 :: "i16 \<Rightarrow> string" where
  "writeI16 i = be_write 2 (unat i)"

definition writeI32 :: "i32 \<Rightarrow> string" where
  "writeI32 i = be_write 4 (unat i)"

definition writeI64 :: "i64 \<Rightarrow> string" where
  "writeI64 i = be_write 8 (unat i)"

definition writeBool :: "bool \<Rightarrow> string" where
  "writeBool b = be_write 1 (if b then 1 else 0)"

definition readByte :: "i8 reader" where
  "readByte = rbind (readAll 1) (\<lambda>b. ret (of_nat (be_read b)))"

definition readI16 :: "i16 reader" where
  "readI16 = rbind (readAll 2) (\<lambda>b. ret (of_nat (be_read b)))"

definition readI32 :: "i32 reader" where
  "readI32 = rbind (readAll 4) (\<lambda>b. ret (of_nat (be_read b)))"

definition readI64 :: "i64 reader" where
  "readI64 = rbind (readAll 8) (\<lambda>b. ret (of_nat (be_read b)))"

definition readBool :: "bool reader" where
  "readBool = rbind (readAll 1) (\<lambda>b. ret (be_read b \<noteq> 0))"

text \<open>A double is its 64 bits.\<close>

definition writeDouble :: "i64 \<Rightarrow> string" where
  "writeDouble dub = be_write 8 (unat dub)"

definition readDouble :: "i64 reader" where
  "readDouble = rbind (readAll 8) (\<lambda>b. ret (of_nat (be_read b)))"

lemma readByte_write [wire_simps]: "readByte (writeByte i @ s) = Inr (i, s)"
  using unat_less_2p [of i] be_read_write [of "unat i" 1]
  by (simp add: readByte_def writeByte_def readAll_append del: be_write.simps One_nat_def)

lemma readI16_write [wire_simps]: "readI16 (writeI16 i @ s) = Inr (i, s)"
  using unat_less_2p [of i] be_read_write [of "unat i" 2]
  by (simp add: readI16_def writeI16_def readAll_append)

lemma readI32_write [wire_simps]: "readI32 (writeI32 i @ s) = Inr (i, s)"
  using unat_less_2p [of i] be_read_write [of "unat i" 4]
  by (simp add: readI32_def writeI32_def readAll_append)

lemma readI64_write [wire_simps]: "readI64 (writeI64 i @ s) = Inr (i, s)"
  using unat_less_2p [of i] be_read_write [of "unat i" 8]
  by (simp add: readI64_def writeI64_def readAll_append)

lemma readDouble_write [wire_simps]: "readDouble (writeDouble i @ s) = Inr (i, s)"
  using readI64_write by (simp add: readDouble_def writeDouble_def readI64_def writeI64_def)

lemma readBool_write [wire_simps]: "readBool (writeBool b @ s) = Inr (b, s)"
  using be_read_write [of "if b then 1 else 0" 1]
  by (simp add: readBool_def writeBool_def readAll_append del: be_write.simps One_nat_def split: if_splits)

lemma shrinks_int [shrink_rules]:
  "shrinks readByte" "shrinks readI16" "shrinks readI32" "shrinks readI64" "shrinks readBool"
  "shrinks readDouble"
  by (simp_all add: readDouble_def readByte_def readI16_def readI32_def readI64_def readBool_def shrink_rules)

section \<open>Strings, containers, fields and messages\<close>

text \<open>
  The limits of the protocol object; 0 stands for no limit.  The servers use the default
  factory, and so do the clients.
\<close>

record proto =
  string_limit :: i32
  container_limit :: i32
  strict_read :: bool
  strict_write :: bool

definition default_proto :: proto where
  "default_proto = \<lparr>string_limit = 0, container_limit = 0, strict_read = False, strict_write = True\<rparr>"

text \<open>The length is cut to 32 bits, and that many bytes are written.\<close>

definition writeString :: "string \<Rightarrow> string" where
  "writeString str = (let size = (of_nat (length str) :: u32) in writeI32 size @ take (unat size) str)"

definition readStringBody :: "proto \<Rightarrow> i32 \<Rightarrow> string reader" where
  "readStringBody p sz =
     (if sint sz < 0 then fail NegativeSize
      else if 0 < sint (string_limit p) \<and> sint (string_limit p) < sint sz then fail SizeLimit
      else if sz = 0 then ret []
      else readAll (unat sz))"

definition readString :: "proto \<Rightarrow> string reader" where
  "readString p = rbind readI32 (readStringBody p)"

type_synonym ttype = i8

definition T_STOP :: ttype where "T_STOP = 0"
definition T_VOID :: ttype where "T_VOID = 1"
definition T_BOOL :: ttype where "T_BOOL = 2"
definition T_BYTE :: ttype where "T_BYTE = 3"
definition T_DOUBLE :: ttype where "T_DOUBLE = 4"
definition T_I16 :: ttype where "T_I16 = 6"
definition T_I32 :: ttype where "T_I32 = 8"
definition T_I64 :: ttype where "T_I64 = 10"
definition T_STRING :: ttype where "T_STRING = 11"
definition T_STRUCT :: ttype where "T_STRUCT = 12"
definition T_MAP :: ttype where "T_MAP = 13"
definition T_SET :: ttype where "T_SET = 14"
definition T_LIST :: ttype where "T_LIST = 15"

lemmas ttype_defs = T_STOP_def T_VOID_def T_BOOL_def T_BYTE_def T_DOUBLE_def T_I16_def T_I32_def
  T_I64_def T_STRING_def T_STRUCT_def T_MAP_def T_SET_def T_LIST_def

definition writeFieldBegin :: "ttype \<Rightarrow> i16 \<Rightarrow> string" where
  "writeFieldBegin fieldType fieldId = writeByte fieldType @ writeI16 fieldId"

definition writeFieldStop :: string where
  "writeFieldStop = writeByte T_STOP"

definition readFieldBegin :: "(ttype \<times> i16) reader" where
  "readFieldBegin = rbind readByte (\<lambda>t. if t = T_STOP then ret (T_STOP, 0)
     else rbind readI16 (\<lambda>fid. ret (t, fid)))"

definition writeListBegin :: "ttype \<Rightarrow> u32 \<Rightarrow> string" where
  "writeListBegin elemType sz = writeByte elemType @ writeI32 sz"

definition writeSetBegin :: "ttype \<Rightarrow> u32 \<Rightarrow> string" where
  "writeSetBegin elemType sz = writeByte elemType @ writeI32 sz"

definition writeMapBegin :: "ttype \<Rightarrow> ttype \<Rightarrow> u32 \<Rightarrow> string" where
  "writeMapBegin keyType valType sz = writeByte keyType @ writeByte valType @ writeI32 sz"

definition container_size :: "proto \<Rightarrow> i32 reader" where
  "container_size p = rbind readI32 (\<lambda>size.
     if sint size < 0 then fail NegativeSize
     else if container_limit p \<noteq> 0 \<and> sint (container_limit p) < sint size then fail SizeLimit
     else ret size)"

definition readListBegin :: "proto \<Rightarrow> (ttype \<times> u32) reader" where
  "readListBegin p = rbind readByte (\<lambda>e. rbind (container_size p) (\<lambda>size. ret (e, size)))"

definition readSetBegin :: "proto \<Rightarrow> (ttype \<times> u32) reader" where
  "readSetBegin p = rbind readByte (\<lambda>e. rbind (container_size p) (\<lambda>size. ret (e, size)))"

definition readMapBegin :: "proto \<Rightarrow> (ttype \<times> ttype \<times> u32) reader" where
  "readMapBegin p = rbind readByte (\<lambda>k. rbind readByte (\<lambda>v. rbind (container_size p) (\<lambda>size. ret (k, v, size))))"

text \<open>Messages: the versioned form, and the older form without a version.\<close>

type_synonym mtype = i8

definition T_CALL :: mtype where "T_CALL = 1"
definition T_REPLY :: mtype where "T_REPLY = 2"
definition T_EXCEPTION :: mtype where "T_EXCEPTION = 3"
definition T_ONEWAY :: mtype where "T_ONEWAY = 4"

lemmas mtype_defs = T_CALL_def T_REPLY_def T_EXCEPTION_def T_ONEWAY_def

definition VERSION_MASK :: i32 where
  "VERSION_MASK = 0xffff0000"

definition VERSION_1 :: i32 where
  "VERSION_1 = 0x80010000"

definition writeMessageBegin :: "proto \<Rightarrow> string \<Rightarrow> mtype \<Rightarrow> i32 \<Rightarrow> string" where
  "writeMessageBegin p name messageType seqid =
     (if strict_write p
      then writeI32 (or VERSION_1 (ucast messageType)) @ writeString name @ writeI32 seqid
      else writeString name @ writeByte messageType @ writeI32 seqid)"

definition readMessageBegin :: "proto \<Rightarrow> (string \<times> mtype \<times> i32) reader" where
  "readMessageBegin p = rbind readI32 (\<lambda>sz.
     if sint sz < 0
     then if and sz VERSION_MASK \<noteq> VERSION_1 then fail BadVersion
          else rbind (readString p) (\<lambda>name. rbind readI32 (\<lambda>seqid. ret (name, ucast (and sz 0xff), seqid)))
     else if strict_read p then fail BadVersion
     else rbind (readStringBody p sz) (\<lambda>name. rbind readByte (\<lambda>t. rbind readI32 (\<lambda>seqid. ret (name, t, seqid)))))"

lemma shrinks_proto [shrink_rules]:
  "shrinks (readStringBody p n)" "shrinks (readString p)" "shrinks readFieldBegin"
  "shrinks (container_size p)" "shrinks (readListBegin p)" "shrinks (readSetBegin p)"
  "shrinks (readMapBegin p)"
  by (intro shrink_rules
      | simp only: readStringBody_def readString_def readFieldBegin_def container_size_def
          readListBegin_def readSetBegin_def readMapBegin_def)+

lemma shrinks_readMessageBegin [shrink_rules]: "shrinks (readMessageBegin p)"
  unfolding readMessageBegin_def by (intro shrink_rules)

lemma sint_small: "n < 2 ^ 31 \<Longrightarrow> sint (of_nat n :: i32) = int n"
  by (simp add: signed_of_nat signed_take_bit_int_eq_self_iff)

lemma readString_write [wire_simps]:
  assumes "length str < 2 ^ 31"
  shows "readString default_proto (writeString str @ s) = Inr (str, s)"
proof -
  have u: "unat (of_nat (length str) :: i32) = length str"
    using assms by simp
  then have "(of_nat (length str) :: i32) = 0 \<longleftrightarrow> str = []"
    by (metis length_0_conv unat_eq_0)
  with u show ?thesis
    using assms sint_small [OF assms]
    by (simp add: readString_def writeString_def readI32_write readStringBody_def default_proto_def
        readAll_append Let_def)
qed

lemma sint_large:
  assumes "2 ^ 31 \<le> n" and "n < 2 ^ 32"
  shows "sint (of_nat n :: i32) = int n - 2 ^ 32"
proof -
  have "(int n + 2 ^ 31) mod 2 ^ 32 = (int n - 2 ^ 31 + 2 ^ 32) mod 2 ^ 32"
    by (simp add: add.commute)
  also have "\<dots> = (int n - 2 ^ 31) mod 2 ^ 32"
    by (rule mod_add_self2)
  also have "\<dots> = int n - 2 ^ 31"
    using assms by (intro mod_pos_pos_trivial) simp_all
  finally show ?thesis
    by (simp add: signed_of_nat signed_take_bit_eq_take_bit_shift take_bit_eq_mod)
qed

lemma uint_sint_nonneg:
  assumes "0 \<le> sint (w :: i32)"
  shows "uint w = sint w"
proof -
  have w: "w = of_nat (unat w)" "unat w < 2 ^ 32" "uint w < 2 ^ 32"
    using unat_less_2p [of w] uint_bounded [of w] by simp_all
  then show ?thesis
    using sint_small [of "unat w"] sint_large [of "unat w"] assms
    by (cases "unat w < 2 ^ 31") simp_all
qed

text \<open>A string of \<open>2 ^ 31\<close> bytes or more that can be written cannot be read.\<close>

lemma readString_too_long:
  assumes "2 ^ 31 \<le> length str" and "length str < 2 ^ 32"
  shows "readString p (writeString str @ s) = Inl NegativeSize"
  using sint_large [OF assms] assms(2)
  by (simp add: readString_def writeString_def readI32_write readStringBody_def Let_def)

lemma readFieldBegin_write [wire_simps]:
  "t \<noteq> T_STOP \<Longrightarrow> readFieldBegin (writeFieldBegin t fid @ s) = Inr ((t, fid), s)"
  by (simp add: readFieldBegin_def writeFieldBegin_def readByte_write readI16_write)

lemma readFieldBegin_stop [wire_simps]: "readFieldBegin (writeFieldStop @ s) = Inr ((T_STOP, 0), s)"
  by (simp add: readFieldBegin_def writeFieldStop_def readByte_write)

lemma readListBegin_write [wire_simps]:
  "n < 2 ^ 31 \<Longrightarrow> readListBegin default_proto (writeListBegin e (of_nat n) @ s) = Inr ((e, of_nat n), s)"
  using sint_small [of n]
  by (simp add: readListBegin_def writeListBegin_def readByte_write container_size_def readI32_write default_proto_def)

lemma readMessageBegin_write [wire_simps]:
  assumes "t \<in> {T_CALL, T_REPLY, T_EXCEPTION, T_ONEWAY}" and "length name < 2 ^ 31"
  shows "readMessageBegin default_proto (writeMessageBegin default_proto name t seqid @ s) =
    Inr ((name, t, seqid), s)"
proof -
  let ?v = "or VERSION_1 (ucast t)"
  have "sint ?v < 0" "and ?v VERSION_MASK = VERSION_1" "ucast (and ?v 0xff) = t"
    using assms(1) by (auto simp: VERSION_1_def VERSION_MASK_def mtype_defs)
  then show ?thesis
    using readString_write [OF assms(2)]
    by (simp add: readMessageBegin_def writeMessageBegin_def default_proto_def readI32_write)
qed

text \<open>A message of another version is refused.\<close>

lemma readMessageBegin_version:
  "sint v < 0 \<Longrightarrow> and v VERSION_MASK \<noteq> VERSION_1 \<Longrightarrow> readMessageBegin p (writeI32 v @ s) = Inl BadVersion"
  by (simp add: readMessageBegin_def readI32_write)

end
