(* ===== verification/WireStruct.thy ===== *)
theory WireStruct
  imports Wire
begin

text \<open>
  Skipping a value of any type, and the loop over the fields of a struct that all generated
  \<open>read\<close> functions have.  The recursion of \<open>skip\<close> is modelled with its stack written out: a
  task is a call that is still to be done, or the rest of a loop.
\<close>

section \<open>Skipping\<close>

datatype task =
  Skip ttype
| SkipFields
| SkipElems nat ttype
| SkipPairs nat ttype ttype

definition skip_scalar :: "proto \<Rightarrow> ttype \<Rightarrow> unit reader option" where
  "skip_scalar p t =
     (if t = T_BOOL then Some (rbind readBool (\<lambda>_. ret ()))
      else if t = T_BYTE then Some (rbind readByte (\<lambda>_. ret ()))
      else if t = T_I16 then Some (rbind readI16 (\<lambda>_. ret ()))
      else if t = T_I32 then Some (rbind readI32 (\<lambda>_. ret ()))
      else if t = T_I64 then Some (rbind readI64 (\<lambda>_. ret ()))
      else if t = T_DOUBLE then Some (rbind readDouble (\<lambda>_. ret ()))
      else if t = T_STRING then Some (rbind (readString p) (\<lambda>_. ret ()))
      else None)"

lemma rbind_cong [fundef_cong]:
  "r = q \<Longrightarrow> s = t \<Longrightarrow> (\<And>x u. q t = Inr (x, u) \<Longrightarrow> f x u = g x u) \<Longrightarrow> rbind r f s = rbind q g t"
  by (auto simp: rbind_def split: sum.split)

lemma skip_scalar_shrinks: "skip_scalar p t = Some r \<Longrightarrow> shrinks r"
  by (auto simp: skip_scalar_def intro!: shrink_rules split: if_splits)

lemma skip_scalar_le:
  "skip_scalar p t = Some r \<Longrightarrow> r s = Inr (x, s') \<Longrightarrow> length s' < length s \<or> length s' = length s"
  using skip_scalar_shrinks [of p t r] by (fastforce simp: shrinks_def le_less)

fun task_weight :: "task \<Rightarrow> nat" where
  "task_weight (Skip t) = 2"
| "task_weight SkipFields = 1"
| "task_weight (SkipElems n t) = 3 * n + 1"
| "task_weight (SkipPairs n k v) = 5 * n + 1"

lemma readByte_eats: "readByte s = Inr (x, t) \<Longrightarrow> length t < length s"
  by (auto simp: readByte_def rbind_def readAll_def split: if_splits)

lemma begin_eats:
  assumes "shrinks r"
  shows "rbind readByte f s = Inr (x, t) \<Longrightarrow> (\<And>y. shrinks (f y)) \<Longrightarrow> length t < length s"
  using readByte_eats [of s]
  by (fastforce simp: rbind_def shrinks_def split: sum.splits prod.splits dest: le_less_trans)

lemma containers_eat:
  "readFieldBegin s = Inr (x, t) \<Longrightarrow> length t < length s"
  "readListBegin p s = Inr (y, t) \<Longrightarrow> length t < length s"
  "readSetBegin p s = Inr (y, t) \<Longrightarrow> length t < length s"
  "readMapBegin p s = Inr (z, t) \<Longrightarrow> length t < length s"
  unfolding readFieldBegin_def readListBegin_def readSetBegin_def readMapBegin_def
  by (rule begin_eats [OF shrinks_ret], assumption, intro shrink_rules)+

function skip_run :: "proto \<Rightarrow> task list \<Rightarrow> unit reader" where
  "skip_run p [] s = Inr ((), s)"
| "skip_run p (Skip t # ts) s = (case skip_scalar p t of
     Some r \<Rightarrow> rbind r (\<lambda>_ s'. skip_run p ts s') s
   | None \<Rightarrow>
       if t = T_STRUCT then skip_run p (SkipFields # ts) s
       else if t = T_MAP
       then rbind (readMapBegin p) (\<lambda>x s'. case x of (k, v, n) \<Rightarrow> skip_run p (SkipPairs (unat n) k v # ts) s') s
       else if t = T_SET
       then rbind (readSetBegin p) (\<lambda>x s'. case x of (e, n) \<Rightarrow> skip_run p (SkipElems (unat n) e # ts) s') s
       else if t = T_LIST
       then rbind (readListBegin p) (\<lambda>x s'. case x of (e, n) \<Rightarrow> skip_run p (SkipElems (unat n) e # ts) s') s
       else skip_run p ts s)"
| "skip_run p (SkipFields # ts) s = rbind readFieldBegin (\<lambda>x s'. case x of (t, _) \<Rightarrow>
     if t = T_STOP then skip_run p ts s' else skip_run p (Skip t # SkipFields # ts) s') s"
| "skip_run p (SkipElems n t # ts) s =
     (if n = 0 then skip_run p ts s else skip_run p (Skip t # SkipElems (n - 1) t # ts) s)"
| "skip_run p (SkipPairs n k v # ts) s =
     (if n = 0 then skip_run p ts s else skip_run p (Skip k # Skip v # SkipPairs (n - 1) k v # ts) s)"
  by pat_completeness auto
termination
  by (relation "inv_image (less_than <*lex*> less_than) (\<lambda>(p, ts, s). (length s, \<Sum>t\<leftarrow>ts. task_weight t))")
    (auto dest: containers_eat skip_scalar_le)

definition skip :: "proto \<Rightarrow> ttype \<Rightarrow> unit reader" where
  "skip p t = skip_run p [Skip t]"

declare skip_run.simps [simp del]

lemma skip_run_Nil [simp]: "skip_run p [] s = Inr ((), s)"
  by (simp add: skip_run.simps(1))

lemma skip_run_shrinks: "skip_run p ts s = Inr ((), u) \<Longrightarrow> length u \<le> length s"
proof (induction p ts s rule: skip_run.induct)
  case (2 p t ts s)
  note eq = skip_run.simps(2) [of p t ts s]
  show ?case
  proof (cases "skip_scalar p t")
    case None
    with 2 show ?thesis
      by (auto simp: eq rbind_def split: if_splits sum.splits prod.splits dest!: containers_eat)
        (meson less_imp_le order.trans)+
  next
    case (Some r)
    with 2(7) obtain v where v: "r s = Inr ((), v)" "skip_run p ts v = Inr ((), u)"
      by (auto simp: eq rbind_def split: sum.splits)
    have "length u \<le> length v"
      using 2 Some v by simp
    with skip_scalar_le [OF Some v(1)] show ?thesis by auto
  qed
next
  case (3 p ts s)
  then show ?case
    by (auto simp: skip_run.simps(3) [of p ts s] rbind_def split: if_splits sum.splits prod.splits
        dest!: containers_eat) (meson less_imp_le order.trans)+
next
  case (4 p n t ts s)
  then show ?case
    by (auto simp: skip_run.simps(4) [of p n t ts s] split: if_splits)
next
  case (5 p n k v ts s)
  then show ?case
    by (auto simp: skip_run.simps(5) [of p n k v ts s] split: if_splits)
qed simp

lemma shrinks_skip [shrink_rules]: "shrinks (skip p t)"
  using skip_run_shrinks [of p "[Skip t]"] by (auto simp: shrinks_def skip_def)

section \<open>Values of any type\<close>

text \<open>What a peer may send, and its bytes.  A double is its 64 bits.\<close>

datatype tval =
  VBool bool | VByte i8 | VI16 i16 | VI32 i32 | VI64 i64 | VDouble i64 | VString string
| VStruct "(i16 \<times> tval) list" | VMap ttype ttype "(tval \<times> tval) list"
| VSet ttype "tval list" | VList ttype "tval list"

fun type_of :: "tval \<Rightarrow> ttype" where
  "type_of (VBool _) = T_BOOL"
| "type_of (VByte _) = T_BYTE"
| "type_of (VI16 _) = T_I16"
| "type_of (VI32 _) = T_I32"
| "type_of (VI64 _) = T_I64"
| "type_of (VDouble _) = T_DOUBLE"
| "type_of (VString _) = T_STRING"
| "type_of (VStruct _) = T_STRUCT"
| "type_of (VMap _ _ _) = T_MAP"
| "type_of (VSet _ _) = T_SET"
| "type_of (VList _ _) = T_LIST"

definition field_sizes :: "(i16 \<times> tval) list \<Rightarrow> nat" where
  "field_sizes = size_list (size_prod (\<lambda>x. 0) size)"

definition elem_sizes :: "tval list \<Rightarrow> nat" where
  "elem_sizes = size_list size"

definition pair_sizes :: "(tval \<times> tval) list \<Rightarrow> nat" where
  "pair_sizes = size_list (size_prod size size)"

lemmas val_sizes_def = field_sizes_def elem_sizes_def pair_sizes_def

function (sequential) encode :: "tval \<Rightarrow> string" and encode_fields :: "(i16 \<times> tval) list \<Rightarrow> string"
  and encode_elems :: "tval list \<Rightarrow> string" and encode_pairs :: "(tval \<times> tval) list \<Rightarrow> string" where
  "encode (VBool b) = writeBool b"
| "encode (VByte i) = writeByte i"
| "encode (VI16 i) = writeI16 i"
| "encode (VI32 i) = writeI32 i"
| "encode (VI64 i) = writeI64 i"
| "encode (VDouble i) = writeDouble i"
| "encode (VString s) = writeString s"
| "encode (VStruct fs) = encode_fields fs"
| "encode (VMap k v xs) = writeMapBegin k v (of_nat (length xs)) @ encode_pairs xs"
| "encode (VSet e xs) = writeSetBegin e (of_nat (length xs)) @ encode_elems xs"
| "encode (VList e xs) = writeListBegin e (of_nat (length xs)) @ encode_elems xs"
| "encode_fields [] = writeFieldStop"
| "encode_fields ((fid, x) # fs) = writeFieldBegin (type_of x) fid @ encode x @ encode_fields fs"
| "encode_elems [] = []"
| "encode_elems (x # xs) = encode x @ encode_elems xs"
| "encode_pairs [] = []"
| "encode_pairs ((x, y) # xs) = encode x @ encode y @ encode_pairs xs"
  by pat_completeness auto
termination
  by (relation "measure (case_sum (case_sum size field_sizes) (case_sum elem_sizes pair_sizes))")
    (auto simp: val_sizes_def)

text \<open>Elements have the announced type, and no length needs the sign bit.\<close>

function (sequential) wf_val :: "tval \<Rightarrow> bool" and wf_fields :: "(i16 \<times> tval) list \<Rightarrow> bool"
  and wf_elems :: "ttype \<Rightarrow> tval list \<Rightarrow> bool" and wf_pairs :: "ttype \<Rightarrow> ttype \<Rightarrow> (tval \<times> tval) list \<Rightarrow> bool" where
  "wf_val (VString s) \<longleftrightarrow> length s < 2 ^ 31"
| "wf_val (VStruct fs) \<longleftrightarrow> wf_fields fs"
| "wf_val (VMap k v xs) \<longleftrightarrow> length xs < 2 ^ 31 \<and> wf_pairs k v xs"
| "wf_val (VSet e xs) \<longleftrightarrow> length xs < 2 ^ 31 \<and> wf_elems e xs"
| "wf_val (VList e xs) \<longleftrightarrow> length xs < 2 ^ 31 \<and> wf_elems e xs"
| "wf_val _ \<longleftrightarrow> True"
| "wf_fields [] \<longleftrightarrow> True"
| "wf_fields ((_, x) # fs) \<longleftrightarrow> wf_val x \<and> wf_fields fs"
| "wf_elems e [] \<longleftrightarrow> True"
| "wf_elems e (x # xs) \<longleftrightarrow> type_of x = e \<and> wf_val x \<and> wf_elems e xs"
| "wf_pairs k v [] \<longleftrightarrow> True"
| "wf_pairs k v ((x, y) # xs) \<longleftrightarrow> type_of x = k \<and> type_of y = v \<and> wf_val x \<and> wf_val y \<and> wf_pairs k v xs"
  by pat_completeness auto
termination
  by (relation "measure (case_sum (case_sum size field_sizes)
      (case_sum (\<lambda>(_, xs). elem_sizes xs) (\<lambda>(_, _, xs). pair_sizes xs)))")
    (auto simp: val_sizes_def)

lemma type_of_not_stop: "type_of x \<noteq> T_STOP"
  by (cases x) (simp_all add: ttype_defs)

lemma readSetBegin_write [wire_simps]:
  "n < 2 ^ 31 \<Longrightarrow> readSetBegin default_proto (writeSetBegin e (of_nat n) @ s) = Inr ((e, of_nat n), s)"
  using readListBegin_write by (simp add: readSetBegin_def readListBegin_def writeSetBegin_def writeListBegin_def)

lemma readMapBegin_write [wire_simps]:
  "n < 2 ^ 31 \<Longrightarrow> readMapBegin default_proto (writeMapBegin k v (of_nat n) @ s) =
    Inr ((k, v, of_nat n), s)"
  using sint_small [of n]
  by (simp add: readMapBegin_def writeMapBegin_def readByte_write container_size_def readI32_write default_proto_def)

lemma skip_scalars:
  "skip_run p (Skip T_BOOL # ts) (writeBool b @ s) = skip_run p ts s"
  "skip_run p (Skip T_BYTE # ts) (writeByte i1 @ s) = skip_run p ts s"
  "skip_run p (Skip T_I16 # ts) (writeI16 i2 @ s) = skip_run p ts s"
  "skip_run p (Skip T_I32 # ts) (writeI32 i4 @ s) = skip_run p ts s"
  "skip_run p (Skip T_I64 # ts) (writeI64 i8 @ s) = skip_run p ts s"
  "skip_run p (Skip T_DOUBLE # ts) (writeDouble i8 @ s) = skip_run p ts s"
  "length str < 2 ^ 31 \<Longrightarrow>
    skip_run default_proto (Skip T_STRING # ts) (writeString str @ s) = skip_run default_proto ts s"
  by (subst skip_run.simps(2), simp add: skip_scalar_def ttype_defs wire_simps)+

lemma skip_containers:
  "skip_run p (Skip T_STRUCT # ts) s = skip_run p (SkipFields # ts) s"
  "n < 2 ^ 31 \<Longrightarrow> skip_run default_proto (Skip T_MAP # ts) (writeMapBegin k v (of_nat n) @ s) =
    skip_run default_proto (SkipPairs n k v # ts) s"
  "n < 2 ^ 31 \<Longrightarrow> skip_run default_proto (Skip T_SET # ts) (writeSetBegin e (of_nat n) @ s) =
    skip_run default_proto (SkipElems n e # ts) s"
  "n < 2 ^ 31 \<Longrightarrow> skip_run default_proto (Skip T_LIST # ts) (writeListBegin e (of_nat n) @ s) =
    skip_run default_proto (SkipElems n e # ts) s"
  by (subst skip_run.simps(2), simp add: skip_scalar_def ttype_defs wire_simps)+

lemma skip_loops:
  "skip_run p (SkipFields # ts) (writeFieldStop @ s) = skip_run p ts s"
  "t \<noteq> T_STOP \<Longrightarrow> skip_run p (SkipFields # ts) (writeFieldBegin t fid @ s) = skip_run p (Skip t # SkipFields # ts) s"
  "skip_run p (SkipElems 0 e # ts) s = skip_run p ts s"
  "skip_run p (SkipElems (Suc n) e # ts) s = skip_run p (Skip e # SkipElems n e # ts) s"
  "skip_run p (SkipPairs 0 k v # ts) s = skip_run p ts s"
  "skip_run p (SkipPairs (Suc n) k v # ts) s = skip_run p (Skip k # Skip v # SkipPairs n k v # ts) s"
  by (subst skip_run.simps(3-5), simp add: wire_simps)+

lemma skip_encoded:
  "wf_val x \<Longrightarrow> skip_run default_proto (Skip (type_of x) # ts) (encode x @ s) = skip_run default_proto ts s"
  "wf_fields fs \<Longrightarrow> skip_run default_proto (SkipFields # ts) (encode_fields fs @ s) = skip_run default_proto ts s"
  "wf_elems e xs \<Longrightarrow> skip_run default_proto (SkipElems (length xs) e # ts) (encode_elems xs @ s) =
    skip_run default_proto ts s"
  "wf_pairs k v ps \<Longrightarrow> skip_run default_proto (SkipPairs (length ps) k v # ts) (encode_pairs ps @ s) =
    skip_run default_proto ts s"
  by (induction x and fs and xs and ps arbitrary: ts s and ts s and e ts s and k v ts s
      rule: encode_encode_fields_encode_elems_encode_pairs.induct)
    (auto simp: skip_scalars skip_containers skip_loops type_of_not_stop)

lemma skip_value:
  "wf_val x \<Longrightarrow> skip default_proto (type_of x) (encode x @ s) = Inr ((), s)"
  by (simp add: skip_def skip_encoded)

end
