(* ===== verification/WireCodec.thy ===== *)
theory WireCodec
  imports WireStruct
begin

text \<open>
  What the generated \<open>read\<close> functions are built from: the loop over the fields of a struct and
  the loop over the elements of a list.  The locale \<open>codec\<close> is the contract between a writer
  and its reader; its lemmas give lists of values and the uniqueness of the encoding.
\<close>

section \<open>The loop over the fields of a struct\<close>

text \<open>
  \<open>h\<close> is the body of the loop, the switch over the field id.  Each field takes at least one
  byte, so \<open>read_struct\<close> gives one unit of fuel more than there are bytes.
\<close>

fun read_fields :: "nat \<Rightarrow> (ttype \<Rightarrow> i16 \<Rightarrow> 'a \<Rightarrow> 'a reader) \<Rightarrow> 'a \<Rightarrow> 'a reader" where
  "read_fields 0 h x = fail Exhausted"
| "read_fields (Suc k) h x = rbind readFieldBegin (\<lambda>(ftype, fid).
     if ftype = T_STOP then ret x else rbind (h ftype fid x) (read_fields k h))"

definition read_struct :: "(ttype \<Rightarrow> i16 \<Rightarrow> 'a \<Rightarrow> 'a reader) \<Rightarrow> 'a \<Rightarrow> 'a reader" where
  "read_struct h x s = read_fields (Suc (length s)) h x s"

text \<open>A field that is not known, or not of the declared type, is skipped.\<close>

definition skip_field :: "ttype \<Rightarrow> 'a \<Rightarrow> 'a reader" where
  "skip_field ftype x = rbind (skip default_proto ftype) (\<lambda>_. ret x)"

text \<open>Readers for which the fuel of the structs inside is enough.\<close>

definition fueled :: "'a reader \<Rightarrow> bool" where
  "fueled r \<longleftrightarrow> (\<forall>s. r s \<noteq> Inl Exhausted)"

named_theorems fuel_rules "readers that do not run out of fuel"

lemma fueled_basic [fuel_rules]:
  "fueled (ret x)" "e \<noteq> Exhausted \<Longrightarrow> fueled (fail e)" "fueled (readAll n)"
  "fueled r \<Longrightarrow> (\<And>y. fueled (f y)) \<Longrightarrow> fueled (rbind r f)"
  "fueled q \<Longrightarrow> fueled q' \<Longrightarrow> fueled (if b then q else q')"
  "(\<And>a c. fueled (g a c)) \<Longrightarrow> fueled (case p of (a, c) \<Rightarrow> g a c)"
  by (auto simp: fueled_def readAll_def rbind_def split: sum.split prod.split)

lemma fueled_proto [fuel_rules]:
  "fueled readByte" "fueled readI16" "fueled readI32" "fueled readI64" "fueled readBool" "fueled readDouble"
  "fueled (readStringBody p n)" "fueled (readString p)" "fueled readFieldBegin"
  "fueled (container_size p)" "fueled (readListBegin p)" "fueled (readSetBegin p)"
  "fueled (readMapBegin p)"
  by (intro fuel_rules proto_error.simps
      | simp only: readByte_def readI16_def readI32_def readI64_def readBool_def readDouble_def readStringBody_def
          readString_def readFieldBegin_def container_size_def readListBegin_def readSetBegin_def
          readMapBegin_def)+

lemma fueled_message [fuel_rules]: "fueled (readMessageBegin p)"
  unfolding readMessageBegin_def by (intro fuel_rules proto_error.simps)

lemma skip_scalar_fueled: "skip_scalar p t = Some r \<Longrightarrow> fueled r"
  by (auto simp: skip_scalar_def intro!: fuel_rules split: if_splits)

lemma rbind_fueled:
  "fueled r \<Longrightarrow> (\<And>x u. r s = Inr (x, u) \<Longrightarrow> f x u \<noteq> Inl Exhausted) \<Longrightarrow> rbind r f s \<noteq> Inl Exhausted"
  by (auto simp: fueled_def rbind_def split: sum.split)

lemma branch_not: "(b \<Longrightarrow> x \<noteq> e) \<Longrightarrow> (\<not> b \<Longrightarrow> y \<noteq> e) \<Longrightarrow> (if b then x else y) \<noteq> e"
  by simp

lemma skip_run_fueled: "skip_run p ts s \<noteq> Inl Exhausted"
proof (induction p ts s rule: skip_run.induct)
  case (2 p t ts s)
  note eq = skip_run.simps(2) [of p t ts s]
  show ?case
  proof (cases "skip_scalar p t")
    case None
    with 2 show ?thesis
      unfolding eq None option.case
      by (intro branch_not rbind_fueled fueled_proto) (auto split: prod.split)
  next
    case (Some r)
    with 2 show ?thesis
      unfolding eq Some option.case
      by (intro rbind_fueled skip_scalar_fueled [OF Some]) auto
  qed
next
  case (3 p ts s)
  then show ?case
    unfolding skip_run.simps(3) [of p ts s]
    by (intro rbind_fueled fueled_proto) (auto split: prod.split)
next
  case (4 p n t ts s)
  then show ?case
    unfolding skip_run.simps(4) [of p n t ts s] by simp
next
  case (5 p n k v ts s)
  then show ?case
    unfolding skip_run.simps(5) [of p n k v ts s] by simp
qed simp

lemma fueled_skip [fuel_rules]: "fueled (skip p t)"
  by (simp add: fueled_def skip_def skip_run_fueled)

text \<open>The fuel of \<open>read_struct\<close> is enough whenever the bodies do not create input.\<close>

lemma read_fields_more:
  assumes "\<And>t f y. shrinks (h t f y)"
  shows "length s < k \<Longrightarrow> length s < k' \<Longrightarrow> read_fields k h x s = read_fields k' h x s"
proof (induction k arbitrary: k' x s)
  case (Suc k)
  then obtain k1 where k1: "k' = Suc k1"
    by (cases k') auto
  show ?case
  proof (cases "readFieldBegin s")
    case (Inr r)
    obtain t f u where r: "r = ((t, f), u)"
      by (cases r) auto
    then have u: "length u < length s"
      using containers_eat(1) Inr by blast
    show ?thesis
    proof (cases "h t f x u")
      case (Inr q)
      obtain y v where q: "q = (y, v)"
        by (cases q) auto
      then have "length v \<le> length u"
        using assms [of t f x] Inr by (auto simp: shrinks_def)
      with u Suc.prems k1 have "read_fields k h y v = read_fields k1 h y v"
        by (intro Suc.IH) auto
      with Inr q r \<open>readFieldBegin s = Inr r\<close> k1 show ?thesis by simp
    qed (use Inr r k1 in simp)
  qed (simp add: k1)
qed simp

lemma rbind_cong_at:
  "(\<And>x u. r s = Inr (x, u) \<Longrightarrow> f x u = g x u) \<Longrightarrow> rbind r f s = rbind r g s"
  by (rule rbind_cong) auto

lemma read_struct_eq:
  assumes "\<And>t f y. shrinks (h t f y)"
  shows "read_struct h x s = rbind readFieldBegin (\<lambda>(t, f). if t = T_STOP then ret x
    else rbind (h t f x) (read_struct h)) s"
  unfolding read_struct_def [of h x s] read_fields.simps(2)
proof (rule rbind_cong_at)
  fix r u assume u: "readFieldBegin s = Inr (r, u)"
  obtain t f where r: "r = (t, f)" by fastforce
  have "rbind (h t f x) (read_fields (length s) h) u = rbind (h t f x) (read_struct h) u"
  proof (rule rbind_cong_at)
    fix y v assume "h t f x u = Inr (y, v)"
    then have "length v < length s"
      using assms [of t f x] containers_eat(1) [OF u] by (fastforce simp: shrinks_def)
    then show "read_fields (length s) h y v = read_struct h y v"
      using read_fields_more [OF assms, of v "length s" "Suc (length v)"] by (simp add: read_struct_def)
  qed
  then show "(case r of (t, f) \<Rightarrow> if t = T_STOP then ret x else rbind (h t f x) (read_fields (length s) h)) u =
      (case r of (t, f) \<Rightarrow> if t = T_STOP then ret x
        else rbind (h t f x) (read_struct h)) u"
    by (simp add: r)
qed

lemma read_struct_field:
  assumes "\<And>t f y. shrinks (h t f y)" and "t \<noteq> T_STOP" and "h t f x s = Inr (y, u)"
  shows "read_struct h x (writeFieldBegin t f @ s) = read_struct h y u"
  using assms(2,3) by (simp add: read_struct_eq [of h, OF assms(1)] readFieldBegin_write)

lemma read_struct_bad:
  assumes "\<And>t f y. shrinks (h t f y)" and "t \<noteq> T_STOP" and "h t f x s = Inl e"
  shows "read_struct h x (writeFieldBegin t f @ s) = Inl e"
  using assms(2,3) by (simp add: read_struct_eq [of h, OF assms(1)] readFieldBegin_write)

lemma read_struct_stop [wire_simps]: "read_struct h x (writeFieldStop @ s) = Inr (x, s)"
  by (simp add: read_struct_def readFieldBegin_stop)

lemma read_fields_shrinks: "(\<And>t f y. shrinks (h t f y)) \<Longrightarrow> shrinks (read_fields k h x)"
  by (induction k arbitrary: x) (auto intro!: shrink_rules)

lemma shrinks_read_struct [shrink_rules]:
  assumes "\<And>t f y. shrinks (h t f y)"
  shows "shrinks (read_struct h x)"
  using read_fields_shrinks [of h, OF assms] unfolding shrinks_def read_struct_def by blast

lemma read_fields_fueled:
  assumes "\<And>t f y. shrinks (h t f y)" and "\<And>t f y. fueled (h t f y)"
  shows "length s < k \<Longrightarrow> read_fields k h x s \<noteq> Inl Exhausted"
proof (induction k arbitrary: x s)
  case (Suc k)
  show ?case
    unfolding read_fields.simps
  proof (intro rbind_fueled fueled_proto)
    fix r u assume u: "readFieldBegin s = Inr (r, u)"
    obtain t f where r: "r = (t, f)" by fastforce
    have "rbind (h t f x) (read_fields k h) u \<noteq> Inl Exhausted"
    proof (intro rbind_fueled assms(2))
      fix y v assume "h t f x u = Inr (y, v)"
      then have "length v < k"
        using assms(1) [of t f x] containers_eat(1) [OF u] Suc.prems by (fastforce simp: shrinks_def)
      then show "read_fields k h y v \<noteq> Inl Exhausted"
        by (rule Suc.IH)
    qed
    then show "(case r of (ftype, fid) \<Rightarrow> if ftype = T_STOP then ret x
        else rbind (h ftype fid x) (read_fields k h)) u \<noteq> Inl Exhausted"
      by (simp add: r)
  qed
qed simp

lemma fueled_read_struct [fuel_rules]:
  "(\<And>t f y. shrinks (h t f y)) \<Longrightarrow> (\<And>t f y. fueled (h t f y)) \<Longrightarrow> fueled (read_struct h x)"
  unfolding fueled_def read_struct_def by (intro allI read_fields_fueled) (auto simp: fueled_def)

lemma skip_field_rules [shrink_rules, fuel_rules]: "shrinks (skip_field t x)" "fueled (skip_field t x)"
  by (auto simp: skip_field_def intro: shrink_rules fuel_rules)

lemma skip_field_value: "wf_val v \<Longrightarrow> skip_field (type_of v) x (encode v @ s) = Inr (x, s)"
  by (simp add: skip_field_def skip_value)

text \<open>A field that the body skips does not change what is read.\<close>

lemma read_struct_skipped:
  assumes "\<And>t f y. shrinks (h t f y)" and "h (type_of v) f x = skip_field (type_of v) x" and "wf_val v"
  shows "read_struct h x (writeFieldBegin (type_of v) f @ encode v @ s) = read_struct h x s"
  using read_struct_field [of h, OF assms(1) type_of_not_stop] assms(2) skip_field_value [OF assms(3)] by metis

text \<open>
  What every field keeps is kept by the struct, whatever bytes arrive; \<open>P\<close> may speak of the
  bytes that are left, of which the header of a field takes some.
\<close>

lemma read_fields_rel:
  assumes "\<And>t f x s y u. P x s \<Longrightarrow> h t f x s = Inr (y, u) \<Longrightarrow> P y u"
    and "\<And>x s u. P x s \<Longrightarrow> length u < length s \<Longrightarrow> P x u"
  shows "P x s \<Longrightarrow> read_fields k h x s = Inr (y, u) \<Longrightarrow> P y u"
proof (induction k arbitrary: x s)
  case (Suc k)
  then obtain t f v where v: "readFieldBegin s = Inr ((t, f), v)"
      "(if t = T_STOP then ret x else rbind (h t f x) (read_fields k h)) v = Inr (y, u)"
    by (auto simp: rbind_def split: sum.splits)
  have P: "P x v"
    using assms(2) [OF Suc.prems(1)] containers_eat(1) [OF v(1)] by simp
  show ?case
  proof (cases "t = T_STOP")
    case False
    with v(2) obtain z w where w: "h t f x v = Inr (z, w)" "read_fields k h z w = Inr (y, u)"
      by (auto simp: rbind_def split: sum.splits)
    show ?thesis
      using Suc.IH [OF assms(1) [OF P w(1)] w(2)] .
  qed (use v(2) P in simp)
qed simp

lemma read_struct_rel:
  assumes "\<And>t f x s y u. P x s \<Longrightarrow> h t f x s = Inr (y, u) \<Longrightarrow> P y u"
    and "\<And>x s u. P x s \<Longrightarrow> length u < length s \<Longrightarrow> P x u"
  shows "P x s \<Longrightarrow> read_struct h x s = Inr (y, u) \<Longrightarrow> P y u"
  unfolding read_struct_def using assms by (rule read_fields_rel)

lemma read_struct_inv:
  assumes "\<And>t f x s y u. P x \<Longrightarrow> h t f x s = Inr (y, u) \<Longrightarrow> P y"
  shows "P x \<Longrightarrow> read_struct h x s = Inr (y, u) \<Longrightarrow> P y"
  using read_struct_rel [of "\<lambda>x s. P x" h] assms by blast

lemma skip_field_left: "skip_field t x s = Inr (y, u) \<Longrightarrow> y = x \<and> length u \<le> length s"
  using shrinks_skip [of default_proto t] by (fastforce simp: skip_field_def rbind_def shrinks_def split: sum.splits)

lemma skip_field_same: "skip_field t x s = Inr (y, u) \<Longrightarrow> y = x"
  by (auto simp: skip_field_def rbind_def split: sum.splits)

section \<open>The contract of a writer and its reader\<close>

fun read_times :: "nat \<Rightarrow> 'a reader \<Rightarrow> 'a list reader" where
  "read_times 0 r = ret []"
| "read_times (Suc n) r = rbind r (\<lambda>x. rbind (read_times n r) (\<lambda>xs. ret (x # xs)))"

lemma read_times_rules [shrink_rules, fuel_rules]:
  "shrinks r \<Longrightarrow> shrinks (read_times n r)" "fueled r \<Longrightarrow> fueled (read_times n r)"
  by (induction n) (auto intro!: shrink_rules fuel_rules)

text \<open>
  \<open>seen\<close> is what the reader makes of a value: for a struct, the object with the flags of its
  fields set.
\<close>

locale codec =
  fixes wr :: "'a \<Rightarrow> string" and rd :: "'b reader" and ok :: "'a \<Rightarrow> bool" and seen :: "'a \<Rightarrow> 'b"
  assumes round_trip: "ok x \<Longrightarrow> rd (wr x @ s) = Inr (seen x, s)"
begin

text \<open>No encoding is a prefix of the encoding of a different value.\<close>

lemma unique: "ok x \<Longrightarrow> ok y \<Longrightarrow> wr x @ s = wr y @ t \<Longrightarrow> seen x = seen y \<and> s = t"
  by (metis Inr_inject Pair_inject round_trip)

lemma times: "list_all ok xs \<Longrightarrow> read_times (length xs) rd (concat (map wr xs) @ s) = Inr (map seen xs, s)"
  by (induction xs) (simp_all add: round_trip)

end

definition short :: "string \<Rightarrow> bool" where
  "short s \<longleftrightarrow> length s < 2 ^ 31"

lemma uint_sint_mod: "uint (n :: i32) = sint n mod 2 ^ 32"
  unfolding uint_sint [of n] take_bit_eq_mod by simp

lemma unat_sint_small: "\<not> sint (n :: i32) < 0 \<Longrightarrow> unat n < 2 ^ 31"
  using sint_lt [of n] uint_sint_mod [of n] by (simp add: unat_eq_nat_uint)

lemma readString_short: "readString p s = Inr (v, u) \<Longrightarrow> short v"
  using unat_sint_small
  by (auto simp: readString_def readStringBody_def rbind_def readAll_def short_def split: sum.splits if_splits)

text \<open>A string or a list of strings has no more bytes than it took from the input.\<close>

lemma readString_size:
  assumes "readString p s = Inr (v, u)"
  shows "1 + length v + length u \<le> length s"
  using assms unat_sint_small
  by (auto simp: readString_def readStringBody_def readI32_def rbind_def readAll_def split: sum.splits if_splits)

lemma read_times_size:
  "read_times n (readString p) s = Inr (xs, u) \<Longrightarrow>
    length xs = n \<and> list_all short xs \<and> length xs + length (concat xs) + length u \<le> length s"
proof (induction n arbitrary: s xs)
  case (Suc n)
  then obtain v ys t where v: "readString p s = Inr (v, t)" "read_times n (readString p) t = Inr (ys, u)" "xs = v # ys"
    by (auto simp: rbind_def split: sum.splits)
  show ?case
    using Suc.IH [OF v(2)] readString_size [OF v(1)] readString_short [OF v(1)] v(3) by simp
qed simp

interpretation string_codec: codec writeString "readString default_proto" short "\<lambda>x. x"
  by unfold_locales (simp add: short_def readString_write)

interpretation i32_codec: codec writeI32 readI32 "\<lambda>_. True" "\<lambda>x. x"
  by unfold_locales (rule readI32_write)

section \<open>Lists of strings\<close>

text \<open>
  The code that the compiler generates for a \<open>list<string>\<close>.  The vector can take any size
  that the announcement gives.
\<close>

definition write_strings :: "string list \<Rightarrow> string" where
  "write_strings xs = writeListBegin T_STRING (of_nat (length xs)) @ concat (map writeString xs)"

definition read_strings :: "string list reader" where
  "read_strings = rbind (readListBegin default_proto) (\<lambda>(_, size).
     read_times (unat size) (readString default_proto))"

lemma read_strings_rules [shrink_rules, fuel_rules]: "shrinks read_strings" "fueled read_strings"
  unfolding read_strings_def by (intro shrink_rules fuel_rules)+

lemma short_Nil [simp]: "short []"
  by (simp add: short_def)

definition short_list :: "string list \<Rightarrow> bool" where
  "short_list xs \<longleftrightarrow> length xs < 2 ^ 31 \<and> list_all short xs"

lemma read_strings_size:
  assumes "read_strings s = Inr (xs, u)"
  shows "short_list xs \<and> length xs + length (concat xs) + length u \<le> length s"
proof -
  obtain e n t where n: "readListBegin default_proto s = Inr ((e, n), t)"
      "read_times (unat n) (readString default_proto) t = Inr (xs, u)"
    using assms by (auto simp: read_strings_def rbind_def split: sum.splits)
  have "\<not> sint n < 0"
    using n(1) by (auto simp: readListBegin_def container_size_def rbind_def split: sum.splits if_splits)
  then have "length xs < 2 ^ 31"
    using read_times_size [OF n(2)] unat_sint_small by simp
  then show ?thesis
    using read_times_size [OF n(2)] containers_eat(2) [OF n(1)] by (simp add: short_list_def)
qed

interpretation strings_codec: codec write_strings read_strings short_list "\<lambda>x. x"
proof
  fix xs s assume xs: "short_list xs"
  then have n: "unat (of_nat (length xs) :: u32) = length xs"
    by (simp add: short_list_def)
  from xs show "read_strings (write_strings xs @ s) = Inr (xs, s)"
    by (simp add: read_strings_def write_strings_def short_list_def readListBegin_write n string_codec.times)
qed

section \<open>A field of a declared type\<close>

lemma ttype_not_stop [simp]: "T_STRING \<noteq> T_STOP" "T_I32 \<noteq> T_STOP" "T_STRUCT \<noteq> T_STOP" "T_LIST \<noteq> T_STOP"
  by (simp_all add: ttype_defs)

text \<open>One case of the switch: the field is read and its flag is set, or it is skipped.\<close>

definition typed_field :: "ttype \<Rightarrow> ttype \<Rightarrow> 'v reader \<Rightarrow> ('v \<Rightarrow> 'a \<Rightarrow> 'a) \<Rightarrow> 'a \<Rightarrow> 'a reader" where
  "typed_field ftype declared r upd x =
     (if ftype = declared then rbind r (\<lambda>v. ret (upd v x)) else skip_field ftype x)"

lemma typed_field_rules [shrink_rules, fuel_rules]:
  "shrinks r \<Longrightarrow> shrinks (typed_field t d r upd x)"
  "fueled r \<Longrightarrow> fueled (typed_field t d r upd x)"
  unfolding typed_field_def by (intro shrink_rules fuel_rules; assumption)+

lemma typed_field_ok: "r s = Inr (v, u) \<Longrightarrow> typed_field d d r upd x s = Inr (upd v x, u)"
  by (simp add: typed_field_def)

end
