(* ===== verification/WireTypes.thy ===== *)
theory WireTypes
  imports WireCodec TravServer
begin

text \<open>
  The structs of the interface (src/src/server/ozstore_types.h, ozstore_types.cpp): the
  declared exception and the pair of a traversal, with the flags that tell which fields were
  read, and the code that writes and reads them.
\<close>

section \<open>OZException\<close>

record OZException =
  why :: string
  isset_why :: bool

definition OZException_new :: OZException where
  "OZException_new = \<lparr>why = [], isset_why = False\<rparr>"

definition OZException_set_why :: "string \<Rightarrow> OZException \<Rightarrow> OZException" where
  "OZException_set_why val x = x\<lparr>why := val\<rparr>"

definition OZException_eq :: "OZException \<Rightarrow> OZException \<Rightarrow> bool" where
  "OZException_eq x y \<longleftrightarrow> why x = why y"

definition OZException_field :: "ttype \<Rightarrow> i16 \<Rightarrow> OZException \<Rightarrow> OZException reader" where
  "OZException_field ftype fid =
     (if fid = 1 then typed_field ftype T_STRING (readString default_proto)
        (\<lambda>v x. x\<lparr>why := v, isset_why := True\<rparr>)
      else skip_field ftype)"

definition OZException_read :: "OZException \<Rightarrow> OZException reader" where
  "OZException_read = read_struct OZException_field"

definition OZException_write :: "OZException \<Rightarrow> string" where
  "OZException_write x = writeFieldBegin T_STRING 1 @ writeString (why x) @ writeFieldStop"

lemma OZException_field_rules [shrink_rules, fuel_rules]:
  "shrinks (OZException_field t f x)" "fueled (OZException_field t f x)"
  by (simp_all add: OZException_field_def shrink_rules fuel_rules)

lemma OZException_read_rules [shrink_rules, fuel_rules]:
  "shrinks (OZException_read x)" "fueled (OZException_read x)"
  unfolding OZException_read_def by (intro shrink_rules fuel_rules)+

lemmas OZException_step =
  read_struct_field [of OZException_field, OF OZException_field_rules(1), folded OZException_read_def]
  read_struct_stop [of OZException_field, folded OZException_read_def]

interpretation exception_codec: codec OZException_write "OZException_read y" "\<lambda>x. short (why x)"
    "\<lambda>x. x\<lparr>isset_why := True\<rparr>" for y :: OZException
proof
  fix x :: OZException and s assume x: "short (why x)"
  have "OZException_field T_STRING 1 y (writeString (why x) @ u) = Inr (y\<lparr>why := why x, isset_why := True\<rparr>, u)" for u
    by (simp add: OZException_field_def typed_field_ok string_codec.round_trip [OF x])
  from OZException_step(1) [OF _ this] show "OZException_read y (OZException_write x @ s) =
      Inr (x\<lparr>isset_why := True\<rparr>, s)"
    by (simp add: OZException_write_def OZException_step(2) ttype_defs)
qed

text \<open>What arrives is equal to what was sent, for the code's own equality.\<close>

lemma OZException_arrives:
  "short (why x) \<Longrightarrow> \<exists>z. OZException_read y (OZException_write x @ s) = Inr (z, s) \<and> OZException_eq z x"
  by (simp add: exception_codec.round_trip OZException_eq_def)

section \<open>TravPair\<close>

record TravPair_isset = TravPair +
  isset_key :: bool
  isset_value :: bool
  isset_cur :: bool

definition TravPair_new :: TravPair_isset where
  "TravPair_new = TravPair.extend empty_pair \<lparr>isset_key = False, isset_value = False, isset_cur = False\<rparr>"

definition TravPair_set_key :: "string \<Rightarrow> TravPair_isset \<Rightarrow> TravPair_isset" where
  "TravPair_set_key val x = x\<lparr>pkey := val\<rparr>"

definition TravPair_set_value :: "string \<Rightarrow> TravPair_isset \<Rightarrow> TravPair_isset" where
  "TravPair_set_value val x = x\<lparr>pvalue := val\<rparr>"

definition TravPair_set_cur :: "int \<Rightarrow> TravPair_isset \<Rightarrow> TravPair_isset" where
  "TravPair_set_cur val x = x\<lparr>pcur := val\<rparr>"

definition TravPair_eq :: "TravPair_isset \<Rightarrow> TravPair_isset \<Rightarrow> bool" where
  "TravPair_eq x y \<longleftrightarrow> pkey x = pkey y \<and> pvalue x = pvalue y \<and> pcur x = pcur y"

definition TravPair_field :: "ttype \<Rightarrow> i16 \<Rightarrow> TravPair_isset \<Rightarrow> TravPair_isset reader" where
  "TravPair_field ftype fid =
     (if fid = 1 then typed_field ftype T_STRING (readString default_proto)
        (\<lambda>v x. x\<lparr>pkey := v, isset_key := True\<rparr>)
      else if fid = 2 then typed_field ftype T_STRING (readString default_proto)
        (\<lambda>v x. x\<lparr>pvalue := v, isset_value := True\<rparr>)
      else if fid = 3 then typed_field ftype T_I32 readI32
        (\<lambda>v x. x\<lparr>pcur := sint v, isset_cur := True\<rparr>)
      else skip_field ftype)"

definition TravPair_read :: "TravPair_isset \<Rightarrow> TravPair_isset reader" where
  "TravPair_read = read_struct TravPair_field"

definition TravPair_write :: "TravPair_isset \<Rightarrow> string" where
  "TravPair_write x =
     writeFieldBegin T_STRING 1 @ writeString (pkey x) @
     writeFieldBegin T_STRING 2 @ writeString (pvalue x) @
     writeFieldBegin T_I32 3 @ writeI32 (of_int (pcur x)) @ writeFieldStop"

lemma TravPair_field_rules [shrink_rules, fuel_rules]:
  "shrinks (TravPair_field t f x)" "fueled (TravPair_field t f x)"
  by (simp_all add: TravPair_field_def shrink_rules fuel_rules)

lemma TravPair_read_rules [shrink_rules, fuel_rules]:
  "shrinks (TravPair_read x)" "fueled (TravPair_read x)"
  unfolding TravPair_read_def by (intro shrink_rules fuel_rules)+

lemmas TravPair_step =
  read_struct_field [of TravPair_field, OF TravPair_field_rules(1), folded TravPair_read_def]
  read_struct_stop [of TravPair_field, folded TravPair_read_def]

definition pair_ok :: "TravPair_isset \<Rightarrow> bool" where
  "pair_ok x \<longleftrightarrow> short (pkey x) \<and> short (pvalue x) \<and> - (2 ^ 31) \<le> pcur x \<and> pcur x < 2 ^ 31"

definition all_set :: "TravPair_isset \<Rightarrow> TravPair_isset" where
  "all_set x = x\<lparr>isset_key := True, isset_value := True, isset_cur := True\<rparr>"

lemma sint_of_int: "- (2 ^ 31) \<le> i \<Longrightarrow> i < 2 ^ 31 \<Longrightarrow> sint (of_int i :: i32) = i"
  by (simp add: signed_of_int signed_take_bit_int_eq_self_iff)

lemma TravPair_fields:
  assumes "pair_ok x"
  shows "TravPair_field T_STRING 1 y (writeString (pkey x) @ u) = Inr (y\<lparr>pkey := pkey x, isset_key := True\<rparr>, u)"
    and "TravPair_field T_STRING 2 y (writeString (pvalue x) @ u) = Inr (y\<lparr>pvalue := pvalue x, isset_value := True\<rparr>, u)"
    and "TravPair_field T_I32 3 y (writeI32 (of_int (pcur x)) @ u) = Inr (y\<lparr>pcur := pcur x, isset_cur := True\<rparr>, u)"
  using assms
  by (simp_all add: TravPair_field_def pair_ok_def typed_field_def string_codec.round_trip
      i32_codec.round_trip sint_of_int)

interpretation pair_codec: codec TravPair_write "TravPair_read y" pair_ok all_set for y
proof
  fix x s assume x: "pair_ok x"
  note f = TravPair_fields [OF x]
  have "T_STRING \<noteq> T_STOP" "T_I32 \<noteq> T_STOP"
    by (simp_all add: ttype_defs)
  then show "TravPair_read y (TravPair_write x @ s) = Inr (all_set x, s)"
    by (simp add: TravPair_write_def TravPair_step(1) [OF _ f(1)] TravPair_step(1) [OF _ f(2)]
        TravPair_step(1) [OF _ f(3)] TravPair_step(2) all_set_def)
qed

lemma TravPair_arrives:
  "pair_ok x \<Longrightarrow> \<exists>z. TravPair_read y (TravPair_write x @ s) = Inr (z, s) \<and> TravPair_eq z x"
  by (simp add: pair_codec.round_trip TravPair_eq_def all_set_def)

text \<open>Whatever bytes arrive, the object that is read is one that could have been sent.\<close>

lemma TravPair_field_ok:
  assumes "pair_ok x" and "TravPair_field t f x s = Inr (y, u)"
  shows "pair_ok y"
proof -
  have "- (2 ^ 31) \<le> sint (v :: i32) \<and> sint v < 2 ^ 31" for v
    using sint_ge [of v] sint_lt [of v] by simp
  then show ?thesis
    using assms
    by (auto simp: TravPair_field_def typed_field_def pair_ok_def rbind_def
        split: if_splits sum.splits dest: readString_short skip_field_same)
qed

lemma TravPair_read_ok: "pair_ok x \<Longrightarrow> TravPair_read x s = Inr (y, u) \<Longrightarrow> pair_ok y"
  unfolding TravPair_read_def by (rule read_struct_inv [of pair_ok, OF TravPair_field_ok])

end
