(* ===== verification/RpcCore.thy ===== *)
theory RpcCore
  imports WireTypes
begin

text \<open>
  What the generated stubs of the three services share: the exceptions of the library, the
  shape of a client call, of a processor and of the handling of one request.  A request is
  answered from the bytes that arrive on the connection; the answer is the bytes that are
  written.  The event handler of a processor is null in the three servers, so its calls do
  nothing.  The locale \<open>remote_method\<close> shows for any method that a remote call gives the
  client what the handler returned or threw.
\<close>

section \<open>Exceptions of the library\<close>

datatype TApplicationExceptionType = UNKNOWN | UNKNOWN_METHOD | INVALID_MESSAGE_TYPE
| WRONG_METHOD_NAME | BAD_SEQUENCE_ID | MISSING_RESULT | INTERNAL_ERROR | PROTOCOL_ERROR

record TApplicationException =
  message :: string
  xtype :: TApplicationExceptionType

text \<open>
  The code that writes and reads a \<open>TApplicationException\<close> is in the compiled library.  What the
  stubs rely on is that an exception with a message that fits arrives as it was sent.
\<close>

record app_io =
  app_write :: "TApplicationException \<Rightarrow> string"
  app_read :: "TApplicationException reader"

definition app_round_trip :: "app_io \<Rightarrow> bool" where
  "app_round_trip app \<longleftrightarrow> (\<forall>x s. short (message x) \<longrightarrow> app_read app (app_write app x @ s) = Inr (x, s))"

definition TException_what :: "string \<Rightarrow> string" where
  "TException_what msg = (if msg = [] then ''Default TException.'' else cstr msg)"

definition app_error :: "string \<Rightarrow> TApplicationException" where
  "app_error msg = \<lparr>message = msg, xtype = UNKNOWN\<rparr>"

section \<open>The server\<close>

text \<open>
  The result of handling the bytes \<open>s\<close>: undefined, an exception of the protocol or the
  transport that leaves the processor, or the value of \<open>process\<close>, the bytes written, the new
  state and the bytes not read.
\<close>

type_synonym 'st served = "(proto_error + (bool \<times> string \<times> 'st) \<times> string) ub"

definition app_reply :: "app_io \<Rightarrow> string \<Rightarrow> i32 \<Rightarrow> TApplicationException \<Rightarrow> string" where
  "app_reply app fname seqid x = writeMessageBegin default_proto fname T_EXCEPTION seqid @ app_write app x"

text \<open>
  One method.  \<open>catch\<close> stands for the catch clauses: an undeclared exception, or the object with
  the result.
\<close>

definition process_call :: "app_io \<Rightarrow> string \<Rightarrow> 'q reader \<Rightarrow> ('st \<Rightarrow> 'q \<Rightarrow> ('r reply \<times> 'st) ub)
    \<Rightarrow> ('r reply \<Rightarrow> TApplicationException + 'res) \<Rightarrow> ('res \<Rightarrow> string)
    \<Rightarrow> i32 \<Rightarrow> 'st \<Rightarrow> string \<Rightarrow> 'st served" where
  "process_call app fname args call catch wr seqid st s = (case args s of
     Inl e \<Rightarrow> Some (Inl e)
   | Inr (q, t) \<Rightarrow> do {
       (r, st') \<leftarrow> call st q;
       let out = (case catch r of
           Inl x \<Rightarrow> app_reply app fname seqid x
         | Inr res \<Rightarrow> writeMessageBegin default_proto fname T_REPLY seqid @ wr res);
       Some (Inr ((True, out, st'), t))
     })"

text \<open>A message that cannot be served: its argument is skipped and an exception is sent.\<close>

definition refuse :: "app_io \<Rightarrow> TApplicationException \<Rightarrow> string \<Rightarrow> i32 \<Rightarrow> 'st \<Rightarrow> string \<Rightarrow> 'st served" where
  "refuse app x fname seqid st s = (case skip default_proto T_STRUCT s of
     Inl e \<Rightarrow> Some (Inl e)
   | Inr (_, t) \<Rightarrow> Some (Inr ((False, app_reply app fname seqid x, st), t)))"

definition unknown_method :: "app_io \<Rightarrow> string \<Rightarrow> i32 \<Rightarrow> 'st \<Rightarrow> string \<Rightarrow> 'st served" where
  "unknown_method app fname = refuse app
     \<lparr>message = ''Invalid method name: '' @ [CHR 0x27] @ fname @ [CHR 0x27], xtype = UNKNOWN_METHOD\<rparr> fname"

definition process_message :: "app_io \<Rightarrow> (string \<Rightarrow> i32 \<Rightarrow> 'st \<Rightarrow> string \<Rightarrow> 'st served)
    \<Rightarrow> 'st \<Rightarrow> string \<Rightarrow> 'st served" where
  "process_message app process_fn st s = (case readMessageBegin default_proto s of
     Inl e \<Rightarrow> Some (Inl e)
   | Inr ((fname, mtype, seqid), t) \<Rightarrow>
       if mtype \<noteq> T_CALL \<and> mtype \<noteq> T_ONEWAY
       then refuse app \<lparr>message = [], xtype = INVALID_MESSAGE_TYPE\<rparr> fname seqid st t
       else process_fn fname seqid st t)"

section \<open>The client\<close>

text \<open>How a call ends for the client, when no exception of the protocol ends it.\<close>

datatype 'a answer = Answer 'a | Ouch OZException | Application TApplicationException

definition send_call :: "string \<Rightarrow> string \<Rightarrow> string" where
  "send_call fname args = writeMessageBegin default_proto fname T_CALL 0 @ args"

text \<open>
  The check of the message type and the check of the name skip a value and go on: the result
  is read after them.  The sequence number is not compared.
\<close>

definition recv_call :: "app_io \<Rightarrow> string \<Rightarrow> 'res reader \<Rightarrow> ('res \<Rightarrow> 'a answer) \<Rightarrow> 'a answer reader" where
  "recv_call app expected result finish = rbind (readMessageBegin default_proto) (\<lambda>(fname, mtype, rseqid).
     if mtype = T_EXCEPTION then rbind (app_read app) (\<lambda>x. ret (Application x))
     else rbind (if mtype \<noteq> T_REPLY then skip default_proto T_STRUCT else ret ()) (\<lambda>_.
       rbind (if fname \<noteq> expected then skip default_proto T_STRUCT else ret ()) (\<lambda>_.
         rbind result (\<lambda>res. ret (finish res)))))"

text \<open>
  One call: the request is written, the server handles it, and the client reads the answer.
  What the client gets, and the state of the server.
\<close>

definition remote_call :: "string \<Rightarrow> ('st \<Rightarrow> string \<Rightarrow> 'st served) \<Rightarrow> 'a answer reader
    \<Rightarrow> 'st \<Rightarrow> ((proto_error + 'a answer) \<times> 'st) ub" where
  "remote_call request process recv st = do {
     x \<leftarrow> process st request;
     Some (case x of
       Inl e \<Rightarrow> (Inl EndOfFile, st)
     | Inr ((_, out, st'), _) \<Rightarrow> (case recv out of Inl e \<Rightarrow> Inl e | Inr (a, _) \<Rightarrow> Inr a, st'))
   }"

lemma mtype_distinct [simp]: "T_CALL \<noteq> T_REPLY" "T_REPLY \<noteq> T_EXCEPTION" "T_EXCEPTION \<noteq> T_REPLY"
  by (simp_all add: mtype_defs)

lemma read_message:
  "t \<in> {T_CALL, T_REPLY, T_EXCEPTION, T_ONEWAY} \<Longrightarrow> short fname \<Longrightarrow>
    readMessageBegin default_proto (writeMessageBegin default_proto fname t seqid @ s) = Inr ((fname, t, seqid), s)"
  by (simp add: readMessageBegin_write short_def)

text \<open>The header of a call selects the method.\<close>

lemma process_call_message:
  "short fname \<Longrightarrow> process_message app process_fn st (send_call fname args @ s) = process_fn fname 0 st (args @ s)"
  by (simp add: process_message_def send_call_def read_message)

lemma process_wrong_type:
  assumes "mtype \<in> {T_REPLY, T_EXCEPTION}" and "short fname" and "wf_val (VStruct fs)"
  shows "process_message app process_fn st
      (writeMessageBegin default_proto fname mtype seqid @ encode (VStruct fs) @ s) =
    Some (Inr ((False, app_reply app fname seqid \<lparr>message = [], xtype = INVALID_MESSAGE_TYPE\<rparr>, st), s))"
  using assms skip_value [OF assms(3), of s] read_message [of mtype fname]
  by (auto simp: process_message_def refuse_def) (auto simp: mtype_defs)

lemma unknown_method_skips:
  assumes "wf_val (VStruct fs)"
  shows "unknown_method app fname seqid st (encode (VStruct fs) @ s) =
    Some (Inr ((False, app_reply app fname seqid
      \<lparr>message = ''Invalid method name: '' @ [CHR 0x27] @ fname @ [CHR 0x27], xtype = UNKNOWN_METHOD\<rparr>, st), s))"
  using skip_value [OF assms, of s] by (simp add: unknown_method_def refuse_def)

text \<open>What a client sees of a handler's outcome.\<close>

fun seen_reply :: "'a reply \<Rightarrow> 'a answer" where
  "seen_reply (Return v) = Answer v"
| "seen_reply (OZError e) = Ouch \<lparr>why = e, isset_why = True\<rparr>"
| "seen_reply (TError m) = Application (app_error (TException_what m))"

text \<open>Replies whose parts fit into a message.\<close>

fun reply_fits :: "('a \<Rightarrow> bool) \<Rightarrow> 'a reply \<Rightarrow> bool" where
  "reply_fits P (Return v) \<longleftrightarrow> P v"
| "reply_fits P (OZError e) \<longleftrightarrow> short e"
| "reply_fits P (TError m) \<longleftrightarrow> short m"

lemma short_what: "short m \<Longrightarrow> short (TException_what m)"
  using le_less_trans [OF length_takeWhile_le] by (auto simp: short_def TException_what_def cstr_def)

definition thrown :: "string \<Rightarrow> OZException" where
  "thrown e = OZException_set_why e OZException_new"

lemma thrown_simps [simp]: "why (thrown e) = e" "(thrown e)\<lparr>isset_why := True\<rparr> = \<lparr>why = e, isset_why = True\<rparr>"
  by (simp_all add: thrown_def OZException_set_why_def OZException_new_def)

text \<open>The calls of a multiface: one object after the other, with the same \<open>_return\<close>.\<close>

fun multi :: "('st \<Rightarrow> 'r \<Rightarrow> ('r reply \<times> 'st) ub) list \<Rightarrow> 'st \<Rightarrow> 'r \<Rightarrow> ('r reply \<times> 'st) ub" where
  "multi [] st result = Some (Return result, st)"
| "multi (f # fs) st result = do {
     (r, st') \<leftarrow> f st result;
     (case r of Return v \<Rightarrow> multi fs st' v | _ \<Rightarrow> Some (r, st'))
   }"

section \<open>A remote method\<close>

text \<open>
  The writer and reader of the arguments and of the result of a method are codecs; then the
  call and the answer cross the wire unchanged.
\<close>

locale remote_method = args: codec wa ra oka seena + res: codec wr rr okr seenr
  for wa :: "'p \<Rightarrow> string" and ra :: "'q reader" and oka :: "'p \<Rightarrow> bool" and seena :: "'p \<Rightarrow> 'q"
    and wr :: "'res \<Rightarrow> string" and rr :: "'res2 reader" and okr :: "'res \<Rightarrow> bool" and seenr :: "'res \<Rightarrow> 'res2" +
  fixes fname :: string
    and catch :: "'r reply \<Rightarrow> TApplicationException + 'res" and finish :: "'res2 \<Rightarrow> 'a answer"
    and okreply :: "'r reply \<Rightarrow> bool" and shown :: "'r reply \<Rightarrow> 'a answer"
  assumes short_name: "short fname"
    and thrown_law: "okreply r \<Longrightarrow> catch r = Inl x \<Longrightarrow> short (message x) \<and> shown r = Application x"
    and result_law: "okreply r \<Longrightarrow> catch r = Inr o' \<Longrightarrow> okr o' \<and> shown r = finish (seenr o')"
begin

lemma served:
  assumes "oka p" and "call st (seena p) = Some (r, st')" and "okreply r" and "app_round_trip app"
  shows "\<exists>out. process_call app fname ra call catch wr seqid st (wa p @ s) = Some (Inr ((True, out, st'), s))
    \<and> (\<forall>t. recv_call app fname rr finish (out @ t) = Inr (shown r, t))"
proof (cases "catch r")
  case (Inl x)
  then have x: "short (message x)" "shown r = Application x"
    using thrown_law [OF assms(3)] by auto
  then have "recv_call app fname rr finish (app_reply app fname seqid x @ t) = Inr (shown r, t)" for t
    using assms(4) by (simp add: recv_call_def app_reply_def read_message [OF _ short_name] app_round_trip_def)
  then show ?thesis
    using assms(1,2) Inl by (simp add: process_call_def args.round_trip)
next
  case (Inr o')
  then have x: "okr o'" "shown r = finish (seenr o')"
    using result_law [OF assms(3)] by auto
  then have "recv_call app fname rr finish
      (writeMessageBegin default_proto fname T_REPLY seqid @ wr o' @ t) = Inr (shown r, t)" for t
    by (simp add: recv_call_def read_message [OF _ short_name] res.round_trip)
  then show ?thesis
    using assms(1,2) Inr by (simp add: process_call_def args.round_trip)
qed

lemma transparent:
  assumes "oka p" and "call st (seena p) = Some (r, st')" and "okreply r" and "app_round_trip app"
    and "process_fn fname = process_call app fname ra call catch wr"
  shows "remote_call (send_call fname (wa p)) (process_message app process_fn) (recv_call app fname rr finish) st =
    Some (Inr (shown r), st')"
proof -
  obtain out where out: "process_call app fname ra call catch wr 0 st (wa p @ []) = Some (Inr ((True, out, st'), []))"
      "recv_call app fname rr finish (out @ []) = Inr (shown r, [])"
    using served [of p call st, OF assms(1-4)] by blast
  have "process_message app process_fn st (send_call fname (wa p)) = Some (Inr ((True, out, st'), []))"
    using process_call_message [OF short_name, of app process_fn st "wa p" "[]"] out(1) assms(5) by simp
  with out(2) show ?thesis
    by (simp add: remote_call_def)
qed

end

end
