(* ===== verification/ReadStub.thy ===== *)
theory ReadStub
  imports RpcCore
begin

text \<open>
  The generated code of the read service (src/src/server/OZReadService.h, OZReadService.cpp):
  arguments and results of \<open>get\<close> and \<open>gets\<close>, the client and the processor.
\<close>

section \<open>Arguments and results\<close>

record OZReadService_get_args =
  get_key :: "string"
  get_isset_key :: bool

definition OZReadService_get_args_new :: OZReadService_get_args where
  "OZReadService_get_args_new = \<lparr>get_key = [], get_isset_key = False\<rparr>"

definition OZReadService_get_args_set_key :: "string \<Rightarrow> OZReadService_get_args \<Rightarrow> OZReadService_get_args" where
  "OZReadService_get_args_set_key val x = x\<lparr>get_key := val\<rparr>"

definition OZReadService_get_args_eq :: "OZReadService_get_args \<Rightarrow> OZReadService_get_args \<Rightarrow> bool" where
  "OZReadService_get_args_eq x y \<longleftrightarrow> get_key x = get_key y"

definition OZReadService_get_args_field :: "ttype \<Rightarrow> i16 \<Rightarrow> OZReadService_get_args \<Rightarrow> OZReadService_get_args reader" where
  "OZReadService_get_args_field ftype fid =
     (if fid = 1 then typed_field ftype T_STRING (readString default_proto)
        (\<lambda>v x. x\<lparr>get_key := v, get_isset_key := True\<rparr>)
      else skip_field ftype)"

definition OZReadService_get_args_read :: "OZReadService_get_args \<Rightarrow> OZReadService_get_args reader" where
  "OZReadService_get_args_read = read_struct OZReadService_get_args_field"

definition OZReadService_get_args_write :: "OZReadService_get_args \<Rightarrow> string" where
  "OZReadService_get_args_write x = writeFieldBegin T_STRING 1 @ writeString (get_key x) @ writeFieldStop"

definition OZReadService_get_pargs_write :: "string \<Rightarrow> string" where
  "OZReadService_get_pargs_write key = writeFieldBegin T_STRING 1 @ writeString key @ writeFieldStop"

lemma OZReadService_get_args_field_rules [shrink_rules, fuel_rules]:
  "shrinks (OZReadService_get_args_field t f x)" "fueled (OZReadService_get_args_field t f x)"
  by (simp_all add: OZReadService_get_args_field_def shrink_rules fuel_rules)

lemmas OZReadService_get_args_step =
  read_struct_field [of OZReadService_get_args_field, OF OZReadService_get_args_field_rules(1)]

interpretation get_args: codec OZReadService_get_pargs_write "OZReadService_get_args_read y" short
    "\<lambda>k. \<lparr>get_key = k, get_isset_key = True\<rparr>" for y
proof
  fix k s assume k: "short k"
  have "OZReadService_get_args_field T_STRING 1 y (writeString k @ u) = Inr (\<lparr>get_key = k, get_isset_key = True\<rparr>, u)" for u
    using string_codec.round_trip [OF k] by (simp add: OZReadService_get_args_field_def typed_field_def)
  then show "OZReadService_get_args_read y (OZReadService_get_pargs_write k @ s) = Inr (\<lparr>get_key = k, get_isset_key = True\<rparr>, s)"
    by (simp add: OZReadService_get_args_read_def OZReadService_get_pargs_write_def OZReadService_get_args_step read_struct_stop ttype_not_stop)
qed

record OZReadService_get_result =
  get_success :: "string"
  get_ouch :: "OZException"
  get_isset_success :: "bool"
  get_isset_ouch :: "bool"

definition OZReadService_get_result_new :: OZReadService_get_result where
  "OZReadService_get_result_new = \<lparr>get_success = [], get_ouch = OZException_new, get_isset_success = False, get_isset_ouch = False\<rparr>"

definition OZReadService_get_result_set_success :: "string \<Rightarrow> OZReadService_get_result \<Rightarrow> OZReadService_get_result" where
  "OZReadService_get_result_set_success val x = x\<lparr>get_success := val\<rparr>"

definition OZReadService_get_result_set_ouch :: "OZException \<Rightarrow> OZReadService_get_result \<Rightarrow> OZReadService_get_result" where
  "OZReadService_get_result_set_ouch val x = x\<lparr>get_ouch := val\<rparr>"

definition OZReadService_get_result_eq :: "OZReadService_get_result \<Rightarrow> OZReadService_get_result \<Rightarrow> bool" where
  "OZReadService_get_result_eq x y \<longleftrightarrow> get_success x = get_success y \<and> OZException_eq (get_ouch x) (get_ouch y)"

definition OZReadService_get_result_field :: "ttype \<Rightarrow> i16 \<Rightarrow> OZReadService_get_result \<Rightarrow> OZReadService_get_result reader" where
  "OZReadService_get_result_field ftype fid x =
     (if fid = 0 then typed_field ftype T_STRING (readString default_proto)
        (\<lambda>v x. x\<lparr>get_success := v, get_isset_success := True\<rparr>) x
      else if fid = 1 then (if ftype = T_STRUCT
        then rbind (OZException_read (get_ouch x)) (\<lambda>v. ret (x\<lparr>get_ouch := v, get_isset_ouch := True\<rparr>))
        else skip_field ftype x)
      else skip_field ftype x)"

definition OZReadService_get_result_read :: "OZReadService_get_result \<Rightarrow> OZReadService_get_result reader" where
  "OZReadService_get_result_read = read_struct OZReadService_get_result_field"

definition OZReadService_get_result_write :: "OZReadService_get_result \<Rightarrow> string" where
  "OZReadService_get_result_write x =
     (if get_isset_success x then writeFieldBegin T_STRING 0 @ writeString (get_success x)
      else if get_isset_ouch x then writeFieldBegin T_STRUCT 1 @ OZException_write (get_ouch x)
      else []) @ writeFieldStop"

text \<open>The client's object has pointers where the server's has values; here both are values.\<close>

type_synonym OZReadService_get_presult = OZReadService_get_result

definition OZReadService_get_presult_field :: "ttype \<Rightarrow> i16 \<Rightarrow> OZReadService_get_result \<Rightarrow> OZReadService_get_result reader" where
  "OZReadService_get_presult_field ftype fid x =
     (if fid = 0 then typed_field ftype T_STRING (readString default_proto)
        (\<lambda>v x. x\<lparr>get_success := v, get_isset_success := True\<rparr>) x
      else if fid = 1 then (if ftype = T_STRUCT
        then rbind (OZException_read (get_ouch x)) (\<lambda>v. ret (x\<lparr>get_ouch := v, get_isset_ouch := True\<rparr>))
        else skip_field ftype x)
      else skip_field ftype x)"

definition OZReadService_get_presult_read :: "OZReadService_get_presult \<Rightarrow> OZReadService_get_presult reader" where
  "OZReadService_get_presult_read = read_struct OZReadService_get_presult_field"

lemma OZReadService_get_result_field_rules [shrink_rules, fuel_rules]:
  "shrinks (OZReadService_get_result_field t f x)" "fueled (OZReadService_get_result_field t f x)"
  by (simp_all add: OZReadService_get_result_field_def shrink_rules fuel_rules)

lemmas OZReadService_get_result_step =
  read_struct_field [of OZReadService_get_result_field, OF OZReadService_get_result_field_rules(1)]

lemma OZReadService_get_presult_field_rules [shrink_rules, fuel_rules]:
  "shrinks (OZReadService_get_presult_field t f x)" "fueled (OZReadService_get_presult_field t f x)"
  by (simp_all add: OZReadService_get_presult_field_def shrink_rules fuel_rules)

lemmas OZReadService_get_presult_step =
  read_struct_field [of OZReadService_get_presult_field, OF OZReadService_get_presult_field_rules(1)]

record OZReadService_gets_args =
  gets_keys :: "string list"
  gets_isset_keys :: bool

definition OZReadService_gets_args_new :: OZReadService_gets_args where
  "OZReadService_gets_args_new = \<lparr>gets_keys = [], gets_isset_keys = False\<rparr>"

definition OZReadService_gets_args_set_keys :: "string list \<Rightarrow> OZReadService_gets_args \<Rightarrow> OZReadService_gets_args" where
  "OZReadService_gets_args_set_keys val x = x\<lparr>gets_keys := val\<rparr>"

definition OZReadService_gets_args_eq :: "OZReadService_gets_args \<Rightarrow> OZReadService_gets_args \<Rightarrow> bool" where
  "OZReadService_gets_args_eq x y \<longleftrightarrow> gets_keys x = gets_keys y"

definition OZReadService_gets_args_field :: "ttype \<Rightarrow> i16 \<Rightarrow> OZReadService_gets_args \<Rightarrow> OZReadService_gets_args reader" where
  "OZReadService_gets_args_field ftype fid =
     (if fid = 1 then typed_field ftype T_LIST read_strings
        (\<lambda>v x. x\<lparr>gets_keys := v, gets_isset_keys := True\<rparr>)
      else skip_field ftype)"

definition OZReadService_gets_args_read :: "OZReadService_gets_args \<Rightarrow> OZReadService_gets_args reader" where
  "OZReadService_gets_args_read = read_struct OZReadService_gets_args_field"

definition OZReadService_gets_args_write :: "OZReadService_gets_args \<Rightarrow> string" where
  "OZReadService_gets_args_write x = writeFieldBegin T_LIST 1 @ write_strings (gets_keys x) @ writeFieldStop"

definition OZReadService_gets_pargs_write :: "string list \<Rightarrow> string" where
  "OZReadService_gets_pargs_write keys = writeFieldBegin T_LIST 1 @ write_strings keys @ writeFieldStop"

lemma OZReadService_gets_args_field_rules [shrink_rules, fuel_rules]:
  "shrinks (OZReadService_gets_args_field t f x)" "fueled (OZReadService_gets_args_field t f x)"
  by (simp_all add: OZReadService_gets_args_field_def shrink_rules fuel_rules)

lemmas OZReadService_gets_args_step =
  read_struct_field [of OZReadService_gets_args_field, OF OZReadService_gets_args_field_rules(1)]

interpretation gets_args: codec OZReadService_gets_pargs_write "OZReadService_gets_args_read y" short_list
    "\<lambda>k. \<lparr>gets_keys = k, gets_isset_keys = True\<rparr>" for y
proof
  fix k s assume k: "short_list k"
  have "OZReadService_gets_args_field T_LIST 1 y (write_strings k @ u) = Inr (\<lparr>gets_keys = k, gets_isset_keys = True\<rparr>, u)" for u
    using strings_codec.round_trip [OF k] by (simp add: OZReadService_gets_args_field_def typed_field_def)
  then show "OZReadService_gets_args_read y (OZReadService_gets_pargs_write k @ s) = Inr (\<lparr>gets_keys = k, gets_isset_keys = True\<rparr>, s)"
    by (simp add: OZReadService_gets_args_read_def OZReadService_gets_pargs_write_def OZReadService_gets_args_step read_struct_stop ttype_not_stop)
qed

record OZReadService_gets_result =
  gets_success :: "string list"
  gets_ouch :: "OZException"
  gets_isset_success :: "bool"
  gets_isset_ouch :: "bool"

definition OZReadService_gets_result_new :: OZReadService_gets_result where
  "OZReadService_gets_result_new = \<lparr>gets_success = [], gets_ouch = OZException_new, gets_isset_success = False, gets_isset_ouch = False\<rparr>"

definition OZReadService_gets_result_set_success :: "string list \<Rightarrow> OZReadService_gets_result \<Rightarrow> OZReadService_gets_result" where
  "OZReadService_gets_result_set_success val x = x\<lparr>gets_success := val\<rparr>"

definition OZReadService_gets_result_set_ouch :: "OZException \<Rightarrow> OZReadService_gets_result \<Rightarrow> OZReadService_gets_result" where
  "OZReadService_gets_result_set_ouch val x = x\<lparr>gets_ouch := val\<rparr>"

definition OZReadService_gets_result_eq :: "OZReadService_gets_result \<Rightarrow> OZReadService_gets_result \<Rightarrow> bool" where
  "OZReadService_gets_result_eq x y \<longleftrightarrow> gets_success x = gets_success y \<and> OZException_eq (gets_ouch x) (gets_ouch y)"

definition OZReadService_gets_result_field :: "ttype \<Rightarrow> i16 \<Rightarrow> OZReadService_gets_result \<Rightarrow> OZReadService_gets_result reader" where
  "OZReadService_gets_result_field ftype fid x =
     (if fid = 0 then typed_field ftype T_LIST read_strings
        (\<lambda>v x. x\<lparr>gets_success := v, gets_isset_success := True\<rparr>) x
      else if fid = 1 then (if ftype = T_STRUCT
        then rbind (OZException_read (gets_ouch x)) (\<lambda>v. ret (x\<lparr>gets_ouch := v, gets_isset_ouch := True\<rparr>))
        else skip_field ftype x)
      else skip_field ftype x)"

definition OZReadService_gets_result_read :: "OZReadService_gets_result \<Rightarrow> OZReadService_gets_result reader" where
  "OZReadService_gets_result_read = read_struct OZReadService_gets_result_field"

definition OZReadService_gets_result_write :: "OZReadService_gets_result \<Rightarrow> string" where
  "OZReadService_gets_result_write x =
     (if gets_isset_success x then writeFieldBegin T_LIST 0 @ write_strings (gets_success x)
      else if gets_isset_ouch x then writeFieldBegin T_STRUCT 1 @ OZException_write (gets_ouch x)
      else []) @ writeFieldStop"

text \<open>The client's object has pointers where the server's has values; here both are values.\<close>

type_synonym OZReadService_gets_presult = OZReadService_gets_result

definition OZReadService_gets_presult_field :: "ttype \<Rightarrow> i16 \<Rightarrow> OZReadService_gets_result \<Rightarrow> OZReadService_gets_result reader" where
  "OZReadService_gets_presult_field ftype fid x =
     (if fid = 0 then typed_field ftype T_LIST read_strings
        (\<lambda>v x. x\<lparr>gets_success := v, gets_isset_success := True\<rparr>) x
      else if fid = 1 then (if ftype = T_STRUCT
        then rbind (OZException_read (gets_ouch x)) (\<lambda>v. ret (x\<lparr>gets_ouch := v, gets_isset_ouch := True\<rparr>))
        else skip_field ftype x)
      else skip_field ftype x)"

definition OZReadService_gets_presult_read :: "OZReadService_gets_presult \<Rightarrow> OZReadService_gets_presult reader" where
  "OZReadService_gets_presult_read = read_struct OZReadService_gets_presult_field"

lemma OZReadService_gets_result_field_rules [shrink_rules, fuel_rules]:
  "shrinks (OZReadService_gets_result_field t f x)" "fueled (OZReadService_gets_result_field t f x)"
  by (simp_all add: OZReadService_gets_result_field_def shrink_rules fuel_rules)

lemmas OZReadService_gets_result_step =
  read_struct_field [of OZReadService_gets_result_field, OF OZReadService_gets_result_field_rules(1)]

lemma OZReadService_gets_presult_field_rules [shrink_rules, fuel_rules]:
  "shrinks (OZReadService_gets_presult_field t f x)" "fueled (OZReadService_gets_presult_field t f x)"
  by (simp_all add: OZReadService_gets_presult_field_def shrink_rules fuel_rules)

lemmas OZReadService_gets_presult_step =
  read_struct_field [of OZReadService_gets_presult_field, OF OZReadService_gets_presult_field_rules(1)]

definition get_result_ok :: "OZReadService_get_result \<Rightarrow> bool" where
  "get_result_ok x \<longleftrightarrow> (if get_isset_success x then short (get_success x) else get_isset_ouch x \<longrightarrow> short (why (get_ouch x)))"

definition get_result_seen :: "OZReadService_get_result \<Rightarrow> OZReadService_get_result \<Rightarrow> OZReadService_get_result" where
  "get_result_seen y x =
     (if get_isset_success x then y\<lparr>get_success := get_success x, get_isset_success := True\<rparr>
      else if get_isset_ouch x then y\<lparr>get_ouch := (get_ouch x)\<lparr>isset_why := True\<rparr>, get_isset_ouch := True\<rparr>
      else y)"

interpretation get_result: codec OZReadService_get_result_write "OZReadService_get_result_read y" get_result_ok "get_result_seen y" for y
proof
  fix x s assume x: "get_result_ok x"
  have s: "OZReadService_get_result_field T_STRING 0 y (writeString (get_success x) @ u) =
      Inr (y\<lparr>get_success := get_success x, get_isset_success := True\<rparr>, u)" if "get_isset_success x" for u
    using x that by (simp add: OZReadService_get_result_field_def typed_field_def get_result_ok_def string_codec.round_trip)
  have o: "OZReadService_get_result_field T_STRUCT 1 y (OZException_write (get_ouch x) @ u) =
      Inr (y\<lparr>get_ouch := (get_ouch x)\<lparr>isset_why := True\<rparr>, get_isset_ouch := True\<rparr>, u)"
    if "\<not> get_isset_success x" "get_isset_ouch x" for u
    using x that by (simp add: OZReadService_get_result_field_def get_result_ok_def exception_codec.round_trip)
  show "OZReadService_get_result_read y (OZReadService_get_result_write x @ s) = Inr (get_result_seen y x, s)"
    by (simp add: OZReadService_get_result_read_def OZReadService_get_result_write_def get_result_seen_def
        OZReadService_get_result_step [OF _ s] OZReadService_get_result_step [OF _ o] read_struct_stop)
qed

interpretation get_presult: codec OZReadService_get_result_write "OZReadService_get_presult_read y" get_result_ok "get_result_seen y" for y
proof
  fix x s assume x: "get_result_ok x"
  have s: "OZReadService_get_presult_field T_STRING 0 y (writeString (get_success x) @ u) =
      Inr (y\<lparr>get_success := get_success x, get_isset_success := True\<rparr>, u)" if "get_isset_success x" for u
    using x that by (simp add: OZReadService_get_presult_field_def typed_field_def get_result_ok_def string_codec.round_trip)
  have o: "OZReadService_get_presult_field T_STRUCT 1 y (OZException_write (get_ouch x) @ u) =
      Inr (y\<lparr>get_ouch := (get_ouch x)\<lparr>isset_why := True\<rparr>, get_isset_ouch := True\<rparr>, u)"
    if "\<not> get_isset_success x" "get_isset_ouch x" for u
    using x that by (simp add: OZReadService_get_presult_field_def get_result_ok_def exception_codec.round_trip)
  show "OZReadService_get_presult_read y (OZReadService_get_result_write x @ s) = Inr (get_result_seen y x, s)"
    by (simp add: OZReadService_get_presult_read_def OZReadService_get_result_write_def get_result_seen_def
        OZReadService_get_presult_step [OF _ s] OZReadService_get_presult_step [OF _ o] read_struct_stop)
qed

definition gets_result_ok :: "OZReadService_gets_result \<Rightarrow> bool" where
  "gets_result_ok x \<longleftrightarrow> (if gets_isset_success x then short_list (gets_success x) else gets_isset_ouch x \<longrightarrow> short (why (gets_ouch x)))"

definition gets_result_seen :: "OZReadService_gets_result \<Rightarrow> OZReadService_gets_result \<Rightarrow> OZReadService_gets_result" where
  "gets_result_seen y x =
     (if gets_isset_success x then y\<lparr>gets_success := gets_success x, gets_isset_success := True\<rparr>
      else if gets_isset_ouch x then y\<lparr>gets_ouch := (gets_ouch x)\<lparr>isset_why := True\<rparr>, gets_isset_ouch := True\<rparr>
      else y)"

interpretation gets_result: codec OZReadService_gets_result_write "OZReadService_gets_result_read y" gets_result_ok "gets_result_seen y" for y
proof
  fix x s assume x: "gets_result_ok x"
  have s: "OZReadService_gets_result_field T_LIST 0 y (write_strings (gets_success x) @ u) =
      Inr (y\<lparr>gets_success := gets_success x, gets_isset_success := True\<rparr>, u)" if "gets_isset_success x" for u
    using x that by (simp add: OZReadService_gets_result_field_def typed_field_def gets_result_ok_def strings_codec.round_trip)
  have o: "OZReadService_gets_result_field T_STRUCT 1 y (OZException_write (gets_ouch x) @ u) =
      Inr (y\<lparr>gets_ouch := (gets_ouch x)\<lparr>isset_why := True\<rparr>, gets_isset_ouch := True\<rparr>, u)"
    if "\<not> gets_isset_success x" "gets_isset_ouch x" for u
    using x that by (simp add: OZReadService_gets_result_field_def gets_result_ok_def exception_codec.round_trip)
  show "OZReadService_gets_result_read y (OZReadService_gets_result_write x @ s) = Inr (gets_result_seen y x, s)"
    by (simp add: OZReadService_gets_result_read_def OZReadService_gets_result_write_def gets_result_seen_def
        OZReadService_gets_result_step [OF _ s] OZReadService_gets_result_step [OF _ o] read_struct_stop)
qed

interpretation gets_presult: codec OZReadService_gets_result_write "OZReadService_gets_presult_read y" gets_result_ok "gets_result_seen y" for y
proof
  fix x s assume x: "gets_result_ok x"
  have s: "OZReadService_gets_presult_field T_LIST 0 y (write_strings (gets_success x) @ u) =
      Inr (y\<lparr>gets_success := gets_success x, gets_isset_success := True\<rparr>, u)" if "gets_isset_success x" for u
    using x that by (simp add: OZReadService_gets_presult_field_def typed_field_def gets_result_ok_def strings_codec.round_trip)
  have o: "OZReadService_gets_presult_field T_STRUCT 1 y (OZException_write (gets_ouch x) @ u) =
      Inr (y\<lparr>gets_ouch := (gets_ouch x)\<lparr>isset_why := True\<rparr>, gets_isset_ouch := True\<rparr>, u)"
    if "\<not> gets_isset_success x" "gets_isset_ouch x" for u
    using x that by (simp add: OZReadService_gets_presult_field_def gets_result_ok_def exception_codec.round_trip)
  show "OZReadService_gets_presult_read y (OZReadService_gets_result_write x @ s) = Inr (gets_result_seen y x, s)"
    by (simp add: OZReadService_gets_presult_read_def OZReadService_gets_result_write_def gets_result_seen_def
        OZReadService_gets_presult_step [OF _ s] OZReadService_gets_presult_step [OF _ o] read_struct_stop)
qed

section \<open>The interface\<close>

text \<open>An object of the interface as its methods; the state is the one of the object.\<close>

record 'st OZReadServiceIf =
  if_get :: "'st \<Rightarrow> string \<Rightarrow> string \<Rightarrow> (string reply \<times> 'st) ub"
  if_gets :: "'st \<Rightarrow> string list \<Rightarrow> string list \<Rightarrow> (string list reply \<times> 'st) ub"

definition OZReadServiceNull :: "'st OZReadServiceIf" where
  "OZReadServiceNull = \<lparr>if_get = (\<lambda>st result _. Some (Return result, st)), if_gets = (\<lambda>st result _. Some (Return result, st))\<rparr>"

definition OZReadServiceMultiface :: "'st OZReadServiceIf list \<Rightarrow> 'st OZReadServiceIf" where
  "OZReadServiceMultiface ifaces =
     \<lparr>if_get = (\<lambda>st result key. multi (map (\<lambda>i st result. if_get i st result key) ifaces) st result),
      if_gets = (\<lambda>st result keys. multi (map (\<lambda>i st result. if_gets i st result keys) ifaces) st result)\<rparr>"

section \<open>The processor\<close>

fun get_catch :: "string reply \<Rightarrow> TApplicationException + OZReadService_get_result" where
  "get_catch (Return v) = Inr (OZReadService_get_result_new\<lparr>get_success := v, get_isset_success := True\<rparr>)"
| "get_catch (OZError e) = Inr (OZReadService_get_result_new\<lparr>get_ouch := thrown e, get_isset_ouch := True\<rparr>)"
| "get_catch (TError m) = Inl (app_error (TException_what m))"

definition get_finish :: "OZReadService_get_presult \<Rightarrow> string answer" where
  "get_finish r =
     (if get_isset_success r then Answer (get_success r)
      else if get_isset_ouch r then Ouch (get_ouch r)
      else Application \<lparr>message = ''get failed: unknown result'', xtype = MISSING_RESULT\<rparr>)"

definition get_call :: "'st OZReadServiceIf \<Rightarrow> 'st \<Rightarrow> OZReadService_get_args \<Rightarrow> (string reply \<times> 'st) ub" where
  "get_call iface st args = if_get iface st (get_success OZReadService_get_result_new) (get_key args)"

definition process_get :: "app_io \<Rightarrow> 'st OZReadServiceIf \<Rightarrow> i32 \<Rightarrow> 'st \<Rightarrow> string \<Rightarrow> 'st served" where
  "process_get app iface = process_call app ''get'' (OZReadService_get_args_read OZReadService_get_args_new)
     (get_call iface) get_catch OZReadService_get_result_write"

fun gets_catch :: "string list reply \<Rightarrow> TApplicationException + OZReadService_gets_result" where
  "gets_catch (Return v) = Inr (OZReadService_gets_result_new\<lparr>gets_success := v, gets_isset_success := True\<rparr>)"
| "gets_catch (OZError e) = Inr (OZReadService_gets_result_new\<lparr>gets_ouch := thrown e, gets_isset_ouch := True\<rparr>)"
| "gets_catch (TError m) = Inl (app_error (TException_what m))"

definition gets_finish :: "OZReadService_gets_presult \<Rightarrow> string list answer" where
  "gets_finish r =
     (if gets_isset_success r then Answer (gets_success r)
      else if gets_isset_ouch r then Ouch (gets_ouch r)
      else Application \<lparr>message = ''gets failed: unknown result'', xtype = MISSING_RESULT\<rparr>)"

definition gets_call :: "'st OZReadServiceIf \<Rightarrow> 'st \<Rightarrow> OZReadService_gets_args \<Rightarrow> (string list reply \<times> 'st) ub" where
  "gets_call iface st args = if_gets iface st (gets_success OZReadService_gets_result_new) (gets_keys args)"

definition process_gets :: "app_io \<Rightarrow> 'st OZReadServiceIf \<Rightarrow> i32 \<Rightarrow> 'st \<Rightarrow> string \<Rightarrow> 'st served" where
  "process_gets app iface = process_call app ''gets'' (OZReadService_gets_args_read OZReadService_gets_args_new)
     (gets_call iface) gets_catch OZReadService_gets_result_write"

definition OZReadServiceProcessor_process_fn :: "app_io \<Rightarrow> 'st OZReadServiceIf \<Rightarrow> string \<Rightarrow> i32 \<Rightarrow> 'st \<Rightarrow> string \<Rightarrow> 'st served" where
  "OZReadServiceProcessor_process_fn app iface fname =
     (if fname = ''get'' then process_get app iface
      else if fname = ''gets'' then process_gets app iface
      else unknown_method app fname)"

definition OZReadServiceProcessor_process :: "app_io \<Rightarrow> 'st OZReadServiceIf \<Rightarrow> 'st \<Rightarrow> string \<Rightarrow> 'st served" where
  "OZReadServiceProcessor_process app iface = process_message app (OZReadServiceProcessor_process_fn app iface)"

section \<open>The client\<close>

definition send_get :: "string \<Rightarrow> string" where
  "send_get key = send_call ''get'' (OZReadService_get_pargs_write key)"

definition recv_get :: "app_io \<Rightarrow> string \<Rightarrow> string answer reader" where
  "recv_get app result = recv_call app ''get'' (OZReadService_get_presult_read (OZReadService_get_result_new\<lparr>get_success := result\<rparr>)) get_finish"

definition OZReadServiceClient_get :: "app_io \<Rightarrow> ('st \<Rightarrow> string \<Rightarrow> 'st served) \<Rightarrow> string \<Rightarrow> string \<Rightarrow> 'st
    \<Rightarrow> ((proto_error + string answer) \<times> 'st) ub" where
  "OZReadServiceClient_get app process result key = remote_call (send_get key) process (recv_get app result)"

definition send_gets :: "string list \<Rightarrow> string" where
  "send_gets keys = send_call ''gets'' (OZReadService_gets_pargs_write keys)"

definition recv_gets :: "app_io \<Rightarrow> string list \<Rightarrow> string list answer reader" where
  "recv_gets app result = recv_call app ''gets'' (OZReadService_gets_presult_read (OZReadService_gets_result_new\<lparr>gets_success := result\<rparr>)) gets_finish"

definition OZReadServiceClient_gets :: "app_io \<Rightarrow> ('st \<Rightarrow> string \<Rightarrow> 'st served) \<Rightarrow> string list \<Rightarrow> string list \<Rightarrow> 'st
    \<Rightarrow> ((proto_error + string list answer) \<times> 'st) ub" where
  "OZReadServiceClient_gets app process result keys = remote_call (send_gets keys) process (recv_gets app result)"

section \<open>A remote call is a local call\<close>

interpretation get_remote: remote_method OZReadService_get_pargs_write "OZReadService_get_args_read OZReadService_get_args_new" short
    "\<lambda>k. \<lparr>get_key = k, get_isset_key = True\<rparr>" OZReadService_get_result_write "OZReadService_get_presult_read (OZReadService_get_result_new\<lparr>get_success := result\<rparr>)"
    get_result_ok "get_result_seen (OZReadService_get_result_new\<lparr>get_success := result\<rparr>)" "''get''" get_catch get_finish "reply_fits short" seen_reply for result :: "string"
proof
  show "short ''get''"
    by (simp add: short_def)
next
  fix r x assume "reply_fits short r" "get_catch r = Inl x"
  then show "short (message x) \<and> seen_reply r = Application x"
    by (cases r) (auto simp: app_error_def short_what)
next
  fix r o' assume "reply_fits short r" "get_catch r = Inr o'"
  then show "get_result_ok o' \<and> seen_reply r = get_finish (get_result_seen (OZReadService_get_result_new\<lparr>get_success := result\<rparr>) o')"
    by (cases r) (auto simp: get_result_ok_def get_result_seen_def get_finish_def OZReadService_get_result_new_def)
qed

lemma remote_get:
  assumes "app_round_trip app" and "short key" and "reply_fits short r"
    and "if_get iface st (get_success OZReadService_get_result_new) key = Some (r, st')"
  shows "OZReadServiceClient_get app (OZReadServiceProcessor_process app iface) result key st =
    Some (Inr (seen_reply r), st')"
  unfolding OZReadServiceClient_get_def OZReadServiceProcessor_process_def send_get_def recv_get_def
  by (rule get_remote.transparent [OF assms(2) _ assms(3,1), of "get_call iface"])
    (simp_all add: get_call_def assms(4) OZReadServiceProcessor_process_fn_def process_get_def)

interpretation gets_remote: remote_method OZReadService_gets_pargs_write "OZReadService_gets_args_read OZReadService_gets_args_new" short_list
    "\<lambda>k. \<lparr>gets_keys = k, gets_isset_keys = True\<rparr>" OZReadService_gets_result_write "OZReadService_gets_presult_read (OZReadService_gets_result_new\<lparr>gets_success := result\<rparr>)"
    gets_result_ok "gets_result_seen (OZReadService_gets_result_new\<lparr>gets_success := result\<rparr>)" "''gets''" gets_catch gets_finish "reply_fits short_list" seen_reply for result :: "string list"
proof
  show "short ''gets''"
    by (simp add: short_def)
next
  fix r x assume "reply_fits short_list r" "gets_catch r = Inl x"
  then show "short (message x) \<and> seen_reply r = Application x"
    by (cases r) (auto simp: app_error_def short_what)
next
  fix r o' assume "reply_fits short_list r" "gets_catch r = Inr o'"
  then show "gets_result_ok o' \<and> seen_reply r = gets_finish (gets_result_seen (OZReadService_gets_result_new\<lparr>gets_success := result\<rparr>) o')"
    by (cases r) (auto simp: gets_result_ok_def gets_result_seen_def gets_finish_def OZReadService_gets_result_new_def)
qed

lemma remote_gets:
  assumes "app_round_trip app" and "short_list keys" and "reply_fits short_list r"
    and "if_gets iface st (gets_success OZReadService_gets_result_new) keys = Some (r, st')"
  shows "OZReadServiceClient_gets app (OZReadServiceProcessor_process app iface) result keys st =
    Some (Inr (seen_reply r), st')"
  unfolding OZReadServiceClient_gets_def OZReadServiceProcessor_process_def send_gets_def recv_gets_def
  by (rule gets_remote.transparent [OF assms(2) _ assms(3,1), of "gets_call iface"])
    (simp_all add: gets_call_def assms(4) OZReadServiceProcessor_process_fn_def process_gets_def)

end
