(* ===== verification/WriteStub.thy ===== *)
theory WriteStub
  imports RpcCore
begin

text \<open>
  The generated code of the write service (src/src/server/OZWriteService.h,
  OZWriteService.cpp): arguments and results of \<open>put\<close> and \<open>puts\<close>, the client and the processor.
\<close>

section \<open>Arguments and results\<close>

record OZWriteService_put_args =
  put_value :: "string"
  put_isset_value :: bool

definition OZWriteService_put_args_new :: OZWriteService_put_args where
  "OZWriteService_put_args_new = \<lparr>put_value = [], put_isset_value = False\<rparr>"

definition OZWriteService_put_args_set_value :: "string \<Rightarrow> OZWriteService_put_args \<Rightarrow> OZWriteService_put_args" where
  "OZWriteService_put_args_set_value val x = x\<lparr>put_value := val\<rparr>"

definition OZWriteService_put_args_eq :: "OZWriteService_put_args \<Rightarrow> OZWriteService_put_args \<Rightarrow> bool" where
  "OZWriteService_put_args_eq x y \<longleftrightarrow> put_value x = put_value y"

definition OZWriteService_put_args_field :: "ttype \<Rightarrow> i16 \<Rightarrow> OZWriteService_put_args \<Rightarrow> OZWriteService_put_args reader" where
  "OZWriteService_put_args_field ftype fid =
     (if fid = 1 then typed_field ftype T_STRING (readString default_proto)
        (\<lambda>v x. x\<lparr>put_value := v, put_isset_value := True\<rparr>)
      else skip_field ftype)"

definition OZWriteService_put_args_read :: "OZWriteService_put_args \<Rightarrow> OZWriteService_put_args reader" where
  "OZWriteService_put_args_read = read_struct OZWriteService_put_args_field"

definition OZWriteService_put_args_write :: "OZWriteService_put_args \<Rightarrow> string" where
  "OZWriteService_put_args_write x = writeFieldBegin T_STRING 1 @ writeString (put_value x) @ writeFieldStop"

definition OZWriteService_put_pargs_write :: "string \<Rightarrow> string" where
  "OZWriteService_put_pargs_write value = writeFieldBegin T_STRING 1 @ writeString value @ writeFieldStop"

lemma OZWriteService_put_args_field_rules [shrink_rules, fuel_rules]:
  "shrinks (OZWriteService_put_args_field t f x)" "fueled (OZWriteService_put_args_field t f x)"
  by (simp_all add: OZWriteService_put_args_field_def shrink_rules fuel_rules)

lemmas OZWriteService_put_args_step =
  read_struct_field [of OZWriteService_put_args_field, OF OZWriteService_put_args_field_rules(1)]

interpretation put_args: codec OZWriteService_put_pargs_write "OZWriteService_put_args_read y" short
    "\<lambda>k. \<lparr>put_value = k, put_isset_value = True\<rparr>" for y
proof
  fix k s assume k: "short k"
  have "OZWriteService_put_args_field T_STRING 1 y (writeString k @ u) = Inr (\<lparr>put_value = k, put_isset_value = True\<rparr>, u)" for u
    using string_codec.round_trip [OF k] by (simp add: OZWriteService_put_args_field_def typed_field_def)
  then show "OZWriteService_put_args_read y (OZWriteService_put_pargs_write k @ s) = Inr (\<lparr>put_value = k, put_isset_value = True\<rparr>, s)"
    by (simp add: OZWriteService_put_args_read_def OZWriteService_put_pargs_write_def OZWriteService_put_args_step read_struct_stop ttype_not_stop)
qed

record OZWriteService_put_result =
  put_ouch :: "OZException"
  put_isset_ouch :: "bool"

definition OZWriteService_put_result_new :: OZWriteService_put_result where
  "OZWriteService_put_result_new = \<lparr>put_ouch = OZException_new, put_isset_ouch = False\<rparr>"

definition OZWriteService_put_result_set_ouch :: "OZException \<Rightarrow> OZWriteService_put_result \<Rightarrow> OZWriteService_put_result" where
  "OZWriteService_put_result_set_ouch val x = x\<lparr>put_ouch := val\<rparr>"

definition OZWriteService_put_result_eq :: "OZWriteService_put_result \<Rightarrow> OZWriteService_put_result \<Rightarrow> bool" where
  "OZWriteService_put_result_eq x y \<longleftrightarrow> OZException_eq (put_ouch x) (put_ouch y)"

definition OZWriteService_put_result_field :: "ttype \<Rightarrow> i16 \<Rightarrow> OZWriteService_put_result \<Rightarrow> OZWriteService_put_result reader" where
  "OZWriteService_put_result_field ftype fid x =
     (if fid = 1 then (if ftype = T_STRUCT
        then rbind (OZException_read (put_ouch x)) (\<lambda>v. ret (x\<lparr>put_ouch := v, put_isset_ouch := True\<rparr>))
        else skip_field ftype x)
      else skip_field ftype x)"

definition OZWriteService_put_result_read :: "OZWriteService_put_result \<Rightarrow> OZWriteService_put_result reader" where
  "OZWriteService_put_result_read = read_struct OZWriteService_put_result_field"

definition OZWriteService_put_result_write :: "OZWriteService_put_result \<Rightarrow> string" where
  "OZWriteService_put_result_write x =
     (if put_isset_ouch x then writeFieldBegin T_STRUCT 1 @ OZException_write (put_ouch x)
      else []) @ writeFieldStop"

text \<open>The client's object has pointers where the server's has values; here both are values.\<close>

type_synonym OZWriteService_put_presult = OZWriteService_put_result

definition OZWriteService_put_presult_field :: "ttype \<Rightarrow> i16 \<Rightarrow> OZWriteService_put_result \<Rightarrow> OZWriteService_put_result reader" where
  "OZWriteService_put_presult_field ftype fid x =
     (if fid = 1 then (if ftype = T_STRUCT
        then rbind (OZException_read (put_ouch x)) (\<lambda>v. ret (x\<lparr>put_ouch := v, put_isset_ouch := True\<rparr>))
        else skip_field ftype x)
      else skip_field ftype x)"

definition OZWriteService_put_presult_read :: "OZWriteService_put_presult \<Rightarrow> OZWriteService_put_presult reader" where
  "OZWriteService_put_presult_read = read_struct OZWriteService_put_presult_field"

lemma OZWriteService_put_result_field_rules [shrink_rules, fuel_rules]:
  "shrinks (OZWriteService_put_result_field t f x)" "fueled (OZWriteService_put_result_field t f x)"
  by (simp_all add: OZWriteService_put_result_field_def shrink_rules fuel_rules)

lemmas OZWriteService_put_result_step =
  read_struct_field [of OZWriteService_put_result_field, OF OZWriteService_put_result_field_rules(1)]

lemma OZWriteService_put_presult_field_rules [shrink_rules, fuel_rules]:
  "shrinks (OZWriteService_put_presult_field t f x)" "fueled (OZWriteService_put_presult_field t f x)"
  by (simp_all add: OZWriteService_put_presult_field_def shrink_rules fuel_rules)

lemmas OZWriteService_put_presult_step =
  read_struct_field [of OZWriteService_put_presult_field, OF OZWriteService_put_presult_field_rules(1)]

record OZWriteService_puts_args =
  puts_values :: "string list"
  puts_isset_values :: bool

definition OZWriteService_puts_args_new :: OZWriteService_puts_args where
  "OZWriteService_puts_args_new = \<lparr>puts_values = [], puts_isset_values = False\<rparr>"

definition OZWriteService_puts_args_set_values :: "string list \<Rightarrow> OZWriteService_puts_args \<Rightarrow> OZWriteService_puts_args" where
  "OZWriteService_puts_args_set_values val x = x\<lparr>puts_values := val\<rparr>"

definition OZWriteService_puts_args_eq :: "OZWriteService_puts_args \<Rightarrow> OZWriteService_puts_args \<Rightarrow> bool" where
  "OZWriteService_puts_args_eq x y \<longleftrightarrow> puts_values x = puts_values y"

definition OZWriteService_puts_args_field :: "ttype \<Rightarrow> i16 \<Rightarrow> OZWriteService_puts_args \<Rightarrow> OZWriteService_puts_args reader" where
  "OZWriteService_puts_args_field ftype fid =
     (if fid = 1 then typed_field ftype T_LIST read_strings
        (\<lambda>v x. x\<lparr>puts_values := v, puts_isset_values := True\<rparr>)
      else skip_field ftype)"

definition OZWriteService_puts_args_read :: "OZWriteService_puts_args \<Rightarrow> OZWriteService_puts_args reader" where
  "OZWriteService_puts_args_read = read_struct OZWriteService_puts_args_field"

definition OZWriteService_puts_args_write :: "OZWriteService_puts_args \<Rightarrow> string" where
  "OZWriteService_puts_args_write x = writeFieldBegin T_LIST 1 @ write_strings (puts_values x) @ writeFieldStop"

definition OZWriteService_puts_pargs_write :: "string list \<Rightarrow> string" where
  "OZWriteService_puts_pargs_write values = writeFieldBegin T_LIST 1 @ write_strings values @ writeFieldStop"

lemma OZWriteService_puts_args_field_rules [shrink_rules, fuel_rules]:
  "shrinks (OZWriteService_puts_args_field t f x)" "fueled (OZWriteService_puts_args_field t f x)"
  by (simp_all add: OZWriteService_puts_args_field_def shrink_rules fuel_rules)

lemmas OZWriteService_puts_args_step =
  read_struct_field [of OZWriteService_puts_args_field, OF OZWriteService_puts_args_field_rules(1)]

interpretation puts_args: codec OZWriteService_puts_pargs_write "OZWriteService_puts_args_read y" short_list
    "\<lambda>k. \<lparr>puts_values = k, puts_isset_values = True\<rparr>" for y
proof
  fix k s assume k: "short_list k"
  have "OZWriteService_puts_args_field T_LIST 1 y (write_strings k @ u) = Inr (\<lparr>puts_values = k, puts_isset_values = True\<rparr>, u)" for u
    using strings_codec.round_trip [OF k] by (simp add: OZWriteService_puts_args_field_def typed_field_def)
  then show "OZWriteService_puts_args_read y (OZWriteService_puts_pargs_write k @ s) = Inr (\<lparr>puts_values = k, puts_isset_values = True\<rparr>, s)"
    by (simp add: OZWriteService_puts_args_read_def OZWriteService_puts_pargs_write_def OZWriteService_puts_args_step read_struct_stop ttype_not_stop)
qed

record OZWriteService_puts_result =
  puts_ouch :: "OZException"
  puts_isset_ouch :: "bool"

definition OZWriteService_puts_result_new :: OZWriteService_puts_result where
  "OZWriteService_puts_result_new = \<lparr>puts_ouch = OZException_new, puts_isset_ouch = False\<rparr>"

definition OZWriteService_puts_result_set_ouch :: "OZException \<Rightarrow> OZWriteService_puts_result \<Rightarrow> OZWriteService_puts_result" where
  "OZWriteService_puts_result_set_ouch val x = x\<lparr>puts_ouch := val\<rparr>"

definition OZWriteService_puts_result_eq :: "OZWriteService_puts_result \<Rightarrow> OZWriteService_puts_result \<Rightarrow> bool" where
  "OZWriteService_puts_result_eq x y \<longleftrightarrow> OZException_eq (puts_ouch x) (puts_ouch y)"

definition OZWriteService_puts_result_field :: "ttype \<Rightarrow> i16 \<Rightarrow> OZWriteService_puts_result \<Rightarrow> OZWriteService_puts_result reader" where
  "OZWriteService_puts_result_field ftype fid x =
     (if fid = 1 then (if ftype = T_STRUCT
        then rbind (OZException_read (puts_ouch x)) (\<lambda>v. ret (x\<lparr>puts_ouch := v, puts_isset_ouch := True\<rparr>))
        else skip_field ftype x)
      else skip_field ftype x)"

definition OZWriteService_puts_result_read :: "OZWriteService_puts_result \<Rightarrow> OZWriteService_puts_result reader" where
  "OZWriteService_puts_result_read = read_struct OZWriteService_puts_result_field"

definition OZWriteService_puts_result_write :: "OZWriteService_puts_result \<Rightarrow> string" where
  "OZWriteService_puts_result_write x =
     (if puts_isset_ouch x then writeFieldBegin T_STRUCT 1 @ OZException_write (puts_ouch x)
      else []) @ writeFieldStop"

text \<open>The client's object has pointers where the server's has values; here both are values.\<close>

type_synonym OZWriteService_puts_presult = OZWriteService_puts_result

definition OZWriteService_puts_presult_field :: "ttype \<Rightarrow> i16 \<Rightarrow> OZWriteService_puts_result \<Rightarrow> OZWriteService_puts_result reader" where
  "OZWriteService_puts_presult_field ftype fid x =
     (if fid = 1 then (if ftype = T_STRUCT
        then rbind (OZException_read (puts_ouch x)) (\<lambda>v. ret (x\<lparr>puts_ouch := v, puts_isset_ouch := True\<rparr>))
        else skip_field ftype x)
      else skip_field ftype x)"

definition OZWriteService_puts_presult_read :: "OZWriteService_puts_presult \<Rightarrow> OZWriteService_puts_presult reader" where
  "OZWriteService_puts_presult_read = read_struct OZWriteService_puts_presult_field"

lemma OZWriteService_puts_result_field_rules [shrink_rules, fuel_rules]:
  "shrinks (OZWriteService_puts_result_field t f x)" "fueled (OZWriteService_puts_result_field t f x)"
  by (simp_all add: OZWriteService_puts_result_field_def shrink_rules fuel_rules)

lemmas OZWriteService_puts_result_step =
  read_struct_field [of OZWriteService_puts_result_field, OF OZWriteService_puts_result_field_rules(1)]

lemma OZWriteService_puts_presult_field_rules [shrink_rules, fuel_rules]:
  "shrinks (OZWriteService_puts_presult_field t f x)" "fueled (OZWriteService_puts_presult_field t f x)"
  by (simp_all add: OZWriteService_puts_presult_field_def shrink_rules fuel_rules)

lemmas OZWriteService_puts_presult_step =
  read_struct_field [of OZWriteService_puts_presult_field, OF OZWriteService_puts_presult_field_rules(1)]

definition put_result_ok :: "OZWriteService_put_result \<Rightarrow> bool" where
  "put_result_ok x \<longleftrightarrow> put_isset_ouch x \<longrightarrow> short (why (put_ouch x))"

definition put_result_seen :: "OZWriteService_put_result \<Rightarrow> OZWriteService_put_result \<Rightarrow> OZWriteService_put_result" where
  "put_result_seen y x =
     (if put_isset_ouch x then y\<lparr>put_ouch := (put_ouch x)\<lparr>isset_why := True\<rparr>, put_isset_ouch := True\<rparr>
      else y)"

interpretation put_result: codec OZWriteService_put_result_write "OZWriteService_put_result_read y" put_result_ok "put_result_seen y" for y
proof
  fix x s assume x: "put_result_ok x"
  have o: "OZWriteService_put_result_field T_STRUCT 1 y (OZException_write (put_ouch x) @ u) =
      Inr (y\<lparr>put_ouch := (put_ouch x)\<lparr>isset_why := True\<rparr>, put_isset_ouch := True\<rparr>, u)"
    if "put_isset_ouch x" for u
    using x that by (simp add: OZWriteService_put_result_field_def put_result_ok_def exception_codec.round_trip)
  show "OZWriteService_put_result_read y (OZWriteService_put_result_write x @ s) = Inr (put_result_seen y x, s)"
    by (simp add: OZWriteService_put_result_read_def OZWriteService_put_result_write_def put_result_seen_def
        OZWriteService_put_result_step [OF _ o] read_struct_stop)
qed

interpretation put_presult: codec OZWriteService_put_result_write "OZWriteService_put_presult_read y" put_result_ok "put_result_seen y" for y
proof
  fix x s assume x: "put_result_ok x"
  have o: "OZWriteService_put_presult_field T_STRUCT 1 y (OZException_write (put_ouch x) @ u) =
      Inr (y\<lparr>put_ouch := (put_ouch x)\<lparr>isset_why := True\<rparr>, put_isset_ouch := True\<rparr>, u)"
    if "put_isset_ouch x" for u
    using x that by (simp add: OZWriteService_put_presult_field_def put_result_ok_def exception_codec.round_trip)
  show "OZWriteService_put_presult_read y (OZWriteService_put_result_write x @ s) = Inr (put_result_seen y x, s)"
    by (simp add: OZWriteService_put_presult_read_def OZWriteService_put_result_write_def put_result_seen_def
        OZWriteService_put_presult_step [OF _ o] read_struct_stop)
qed

definition puts_result_ok :: "OZWriteService_puts_result \<Rightarrow> bool" where
  "puts_result_ok x \<longleftrightarrow> puts_isset_ouch x \<longrightarrow> short (why (puts_ouch x))"

definition puts_result_seen :: "OZWriteService_puts_result \<Rightarrow> OZWriteService_puts_result \<Rightarrow> OZWriteService_puts_result" where
  "puts_result_seen y x =
     (if puts_isset_ouch x then y\<lparr>puts_ouch := (puts_ouch x)\<lparr>isset_why := True\<rparr>, puts_isset_ouch := True\<rparr>
      else y)"

interpretation puts_result: codec OZWriteService_puts_result_write "OZWriteService_puts_result_read y" puts_result_ok "puts_result_seen y" for y
proof
  fix x s assume x: "puts_result_ok x"
  have o: "OZWriteService_puts_result_field T_STRUCT 1 y (OZException_write (puts_ouch x) @ u) =
      Inr (y\<lparr>puts_ouch := (puts_ouch x)\<lparr>isset_why := True\<rparr>, puts_isset_ouch := True\<rparr>, u)"
    if "puts_isset_ouch x" for u
    using x that by (simp add: OZWriteService_puts_result_field_def puts_result_ok_def exception_codec.round_trip)
  show "OZWriteService_puts_result_read y (OZWriteService_puts_result_write x @ s) = Inr (puts_result_seen y x, s)"
    by (simp add: OZWriteService_puts_result_read_def OZWriteService_puts_result_write_def puts_result_seen_def
        OZWriteService_puts_result_step [OF _ o] read_struct_stop)
qed

interpretation puts_presult: codec OZWriteService_puts_result_write "OZWriteService_puts_presult_read y" puts_result_ok "puts_result_seen y" for y
proof
  fix x s assume x: "puts_result_ok x"
  have o: "OZWriteService_puts_presult_field T_STRUCT 1 y (OZException_write (puts_ouch x) @ u) =
      Inr (y\<lparr>puts_ouch := (puts_ouch x)\<lparr>isset_why := True\<rparr>, puts_isset_ouch := True\<rparr>, u)"
    if "puts_isset_ouch x" for u
    using x that by (simp add: OZWriteService_puts_presult_field_def puts_result_ok_def exception_codec.round_trip)
  show "OZWriteService_puts_presult_read y (OZWriteService_puts_result_write x @ s) = Inr (puts_result_seen y x, s)"
    by (simp add: OZWriteService_puts_presult_read_def OZWriteService_puts_result_write_def puts_result_seen_def
        OZWriteService_puts_presult_step [OF _ o] read_struct_stop)
qed

section \<open>The interface\<close>

text \<open>An object of the interface as its methods; the state is the one of the object.\<close>

record 'st OZWriteServiceIf =
  if_put :: "'st \<Rightarrow> string \<Rightarrow> (unit reply \<times> 'st) ub"
  if_puts :: "'st \<Rightarrow> string list \<Rightarrow> (unit reply \<times> 'st) ub"

definition OZWriteServiceNull :: "'st OZWriteServiceIf" where
  "OZWriteServiceNull = \<lparr>if_put = (\<lambda>st _. Some (Return (), st)), if_puts = (\<lambda>st _. Some (Return (), st))\<rparr>"

definition OZWriteServiceMultiface :: "'st OZWriteServiceIf list \<Rightarrow> 'st OZWriteServiceIf" where
  "OZWriteServiceMultiface ifaces =
     \<lparr>if_put = (\<lambda>st val. multi (map (\<lambda>i st _. if_put i st val) ifaces) st ()),
      if_puts = (\<lambda>st vals. multi (map (\<lambda>i st _. if_puts i st vals) ifaces) st ())\<rparr>"

section \<open>The processor\<close>

fun put_catch :: "unit reply \<Rightarrow> TApplicationException + OZWriteService_put_result" where
  "put_catch (Return v) = Inr (OZWriteService_put_result_new)"
| "put_catch (OZError e) = Inr (OZWriteService_put_result_new\<lparr>put_ouch := thrown e, put_isset_ouch := True\<rparr>)"
| "put_catch (TError m) = Inl (app_error (TException_what m))"

definition put_finish :: "OZWriteService_put_presult \<Rightarrow> unit answer" where
  "put_finish r =
     (if put_isset_ouch r then Ouch (put_ouch r)
      else Answer ())"

definition put_call :: "'st OZWriteServiceIf \<Rightarrow> 'st \<Rightarrow> OZWriteService_put_args \<Rightarrow> (unit reply \<times> 'st) ub" where
  "put_call iface st args = if_put iface st (put_value args)"

definition process_put :: "app_io \<Rightarrow> 'st OZWriteServiceIf \<Rightarrow> i32 \<Rightarrow> 'st \<Rightarrow> string \<Rightarrow> 'st served" where
  "process_put app iface = process_call app ''put'' (OZWriteService_put_args_read OZWriteService_put_args_new)
     (put_call iface) put_catch OZWriteService_put_result_write"

fun puts_catch :: "unit reply \<Rightarrow> TApplicationException + OZWriteService_puts_result" where
  "puts_catch (Return v) = Inr (OZWriteService_puts_result_new)"
| "puts_catch (OZError e) = Inr (OZWriteService_puts_result_new\<lparr>puts_ouch := thrown e, puts_isset_ouch := True\<rparr>)"
| "puts_catch (TError m) = Inl (app_error (TException_what m))"

definition puts_finish :: "OZWriteService_puts_presult \<Rightarrow> unit answer" where
  "puts_finish r =
     (if puts_isset_ouch r then Ouch (puts_ouch r)
      else Answer ())"

definition puts_call :: "'st OZWriteServiceIf \<Rightarrow> 'st \<Rightarrow> OZWriteService_puts_args \<Rightarrow> (unit reply \<times> 'st) ub" where
  "puts_call iface st args = if_puts iface st (puts_values args)"

definition process_puts :: "app_io \<Rightarrow> 'st OZWriteServiceIf \<Rightarrow> i32 \<Rightarrow> 'st \<Rightarrow> string \<Rightarrow> 'st served" where
  "process_puts app iface = process_call app ''puts'' (OZWriteService_puts_args_read OZWriteService_puts_args_new)
     (puts_call iface) puts_catch OZWriteService_puts_result_write"

definition OZWriteServiceProcessor_process_fn :: "app_io \<Rightarrow> 'st OZWriteServiceIf \<Rightarrow> string \<Rightarrow> i32 \<Rightarrow> 'st \<Rightarrow> string \<Rightarrow> 'st served" where
  "OZWriteServiceProcessor_process_fn app iface fname =
     (if fname = ''put'' then process_put app iface
      else if fname = ''puts'' then process_puts app iface
      else unknown_method app fname)"

definition OZWriteServiceProcessor_process :: "app_io \<Rightarrow> 'st OZWriteServiceIf \<Rightarrow> 'st \<Rightarrow> string \<Rightarrow> 'st served" where
  "OZWriteServiceProcessor_process app iface = process_message app (OZWriteServiceProcessor_process_fn app iface)"

section \<open>The client\<close>

definition send_put :: "string \<Rightarrow> string" where
  "send_put val = send_call ''put'' (OZWriteService_put_pargs_write val)"

definition recv_put :: "app_io \<Rightarrow> unit answer reader" where
  "recv_put app = recv_call app ''put'' (OZWriteService_put_presult_read OZWriteService_put_result_new) put_finish"

definition OZWriteServiceClient_put :: "app_io \<Rightarrow> ('st \<Rightarrow> string \<Rightarrow> 'st served) \<Rightarrow> string \<Rightarrow> 'st
    \<Rightarrow> ((proto_error + unit answer) \<times> 'st) ub" where
  "OZWriteServiceClient_put app process val = remote_call (send_put val) process (recv_put app)"

definition send_puts :: "string list \<Rightarrow> string" where
  "send_puts vals = send_call ''puts'' (OZWriteService_puts_pargs_write vals)"

definition recv_puts :: "app_io \<Rightarrow> unit answer reader" where
  "recv_puts app = recv_call app ''puts'' (OZWriteService_puts_presult_read OZWriteService_puts_result_new) puts_finish"

definition OZWriteServiceClient_puts :: "app_io \<Rightarrow> ('st \<Rightarrow> string \<Rightarrow> 'st served) \<Rightarrow> string list \<Rightarrow> 'st
    \<Rightarrow> ((proto_error + unit answer) \<times> 'st) ub" where
  "OZWriteServiceClient_puts app process vals = remote_call (send_puts vals) process (recv_puts app)"

section \<open>A remote call is a local call\<close>

interpretation put_remote: remote_method OZWriteService_put_pargs_write "OZWriteService_put_args_read OZWriteService_put_args_new" short
    "\<lambda>k. \<lparr>put_value = k, put_isset_value = True\<rparr>" OZWriteService_put_result_write "OZWriteService_put_presult_read OZWriteService_put_result_new"
    put_result_ok "put_result_seen OZWriteService_put_result_new" "''put''" put_catch put_finish "reply_fits (\<lambda>_. True)" seen_reply
proof
  show "short ''put''"
    by (simp add: short_def)
next
  fix r x assume "reply_fits (\<lambda>_. True) r" "put_catch r = Inl x"
  then show "short (message x) \<and> seen_reply r = Application x"
    by (cases r) (auto simp: app_error_def short_what)
next
  fix r o' assume "reply_fits (\<lambda>_. True) r" "put_catch r = Inr o'"
  then show "put_result_ok o' \<and> seen_reply r = put_finish (put_result_seen OZWriteService_put_result_new o')"
    by (cases r) (auto simp: put_result_ok_def put_result_seen_def put_finish_def OZWriteService_put_result_new_def)
qed

lemma remote_put:
  assumes "app_round_trip app" and "short val" and "reply_fits (\<lambda>_. True) r"
    and "if_put iface st val = Some (r, st')"
  shows "OZWriteServiceClient_put app (OZWriteServiceProcessor_process app iface) val st =
    Some (Inr (seen_reply r), st')"
  unfolding OZWriteServiceClient_put_def OZWriteServiceProcessor_process_def send_put_def recv_put_def
  by (rule put_remote.transparent [OF assms(2) _ assms(3,1), of "put_call iface"])
    (simp_all add: put_call_def assms(4) OZWriteServiceProcessor_process_fn_def process_put_def)

interpretation puts_remote: remote_method OZWriteService_puts_pargs_write "OZWriteService_puts_args_read OZWriteService_puts_args_new" short_list
    "\<lambda>k. \<lparr>puts_values = k, puts_isset_values = True\<rparr>" OZWriteService_puts_result_write "OZWriteService_puts_presult_read OZWriteService_puts_result_new"
    puts_result_ok "puts_result_seen OZWriteService_puts_result_new" "''puts''" puts_catch puts_finish "reply_fits (\<lambda>_. True)" seen_reply
proof
  show "short ''puts''"
    by (simp add: short_def)
next
  fix r x assume "reply_fits (\<lambda>_. True) r" "puts_catch r = Inl x"
  then show "short (message x) \<and> seen_reply r = Application x"
    by (cases r) (auto simp: app_error_def short_what)
next
  fix r o' assume "reply_fits (\<lambda>_. True) r" "puts_catch r = Inr o'"
  then show "puts_result_ok o' \<and> seen_reply r = puts_finish (puts_result_seen OZWriteService_puts_result_new o')"
    by (cases r) (auto simp: puts_result_ok_def puts_result_seen_def puts_finish_def OZWriteService_puts_result_new_def)
qed

lemma remote_puts:
  assumes "app_round_trip app" and "short_list vals" and "reply_fits (\<lambda>_. True) r"
    and "if_puts iface st vals = Some (r, st')"
  shows "OZWriteServiceClient_puts app (OZWriteServiceProcessor_process app iface) vals st =
    Some (Inr (seen_reply r), st')"
  unfolding OZWriteServiceClient_puts_def OZWriteServiceProcessor_process_def send_puts_def recv_puts_def
  by (rule puts_remote.transparent [OF assms(2) _ assms(3,1), of "puts_call iface"])
    (simp_all add: puts_call_def assms(4) OZWriteServiceProcessor_process_fn_def process_puts_def)

end
