(* ===== verification/TravStub.thy ===== *)
theory TravStub
  imports RpcCore
begin

text \<open>
  The generated code of the traversal service (src/src/server/OZTravService.h,
  OZTravService.cpp): arguments and results of \<open>next_kv\<close>, the client and the processor.
\<close>

section \<open>Arguments and results\<close>

definition int32 :: "int \<Rightarrow> bool" where
  "int32 i \<longleftrightarrow> - (2 ^ 31) \<le> i \<and> i < 2 ^ 31"

record OZTravService_next_kv_args =
  kv_cur :: "int"
  kv_isset_cur :: bool

definition OZTravService_next_kv_args_new :: OZTravService_next_kv_args where
  "OZTravService_next_kv_args_new = \<lparr>kv_cur = 0, kv_isset_cur = False\<rparr>"

definition OZTravService_next_kv_args_set_cur :: "int \<Rightarrow> OZTravService_next_kv_args \<Rightarrow> OZTravService_next_kv_args" where
  "OZTravService_next_kv_args_set_cur val x = x\<lparr>kv_cur := val\<rparr>"

definition OZTravService_next_kv_args_eq :: "OZTravService_next_kv_args \<Rightarrow> OZTravService_next_kv_args \<Rightarrow> bool" where
  "OZTravService_next_kv_args_eq x y \<longleftrightarrow> kv_cur x = kv_cur y"

definition OZTravService_next_kv_args_field :: "ttype \<Rightarrow> i16 \<Rightarrow> OZTravService_next_kv_args \<Rightarrow> OZTravService_next_kv_args reader" where
  "OZTravService_next_kv_args_field ftype fid =
     (if fid = 1 then typed_field ftype T_I32 readI32
        (\<lambda>v x. x\<lparr>kv_cur := sint v, kv_isset_cur := True\<rparr>)
      else skip_field ftype)"

definition OZTravService_next_kv_args_read :: "OZTravService_next_kv_args \<Rightarrow> OZTravService_next_kv_args reader" where
  "OZTravService_next_kv_args_read = read_struct OZTravService_next_kv_args_field"

definition OZTravService_next_kv_args_write :: "OZTravService_next_kv_args \<Rightarrow> string" where
  "OZTravService_next_kv_args_write x = writeFieldBegin T_I32 1 @ writeI32 (of_int (kv_cur x)) @ writeFieldStop"

definition OZTravService_next_kv_pargs_write :: "int \<Rightarrow> string" where
  "OZTravService_next_kv_pargs_write acur = writeFieldBegin T_I32 1 @ writeI32 (of_int acur) @ writeFieldStop"

lemma OZTravService_next_kv_args_field_rules [shrink_rules, fuel_rules]:
  "shrinks (OZTravService_next_kv_args_field t f x)" "fueled (OZTravService_next_kv_args_field t f x)"
  by (simp_all add: OZTravService_next_kv_args_field_def shrink_rules fuel_rules)

lemmas OZTravService_next_kv_args_step =
  read_struct_field [of OZTravService_next_kv_args_field, OF OZTravService_next_kv_args_field_rules(1)]

interpretation next_kv_args: codec OZTravService_next_kv_pargs_write "OZTravService_next_kv_args_read y" int32
    "\<lambda>k. \<lparr>kv_cur = k, kv_isset_cur = True\<rparr>" for y
proof
  fix k s assume k: "int32 k"
  have "OZTravService_next_kv_args_field T_I32 1 y (writeI32 (of_int k) @ u) = Inr (\<lparr>kv_cur = k, kv_isset_cur = True\<rparr>, u)" for u
    using k by (simp add: OZTravService_next_kv_args_field_def typed_field_def i32_codec.round_trip sint_of_int int32_def)
  then show "OZTravService_next_kv_args_read y (OZTravService_next_kv_pargs_write k @ s) = Inr (\<lparr>kv_cur = k, kv_isset_cur = True\<rparr>, s)"
    by (simp add: OZTravService_next_kv_args_read_def OZTravService_next_kv_pargs_write_def OZTravService_next_kv_args_step read_struct_stop ttype_not_stop)
qed

record OZTravService_next_kv_result =
  kv_success :: "TravPair_isset"
  kv_isset_success :: "bool"

definition OZTravService_next_kv_result_new :: OZTravService_next_kv_result where
  "OZTravService_next_kv_result_new = \<lparr>kv_success = TravPair_new, kv_isset_success = False\<rparr>"

definition OZTravService_next_kv_result_set_success :: "TravPair_isset \<Rightarrow> OZTravService_next_kv_result \<Rightarrow> OZTravService_next_kv_result" where
  "OZTravService_next_kv_result_set_success val x = x\<lparr>kv_success := val\<rparr>"

definition OZTravService_next_kv_result_eq :: "OZTravService_next_kv_result \<Rightarrow> OZTravService_next_kv_result \<Rightarrow> bool" where
  "OZTravService_next_kv_result_eq x y \<longleftrightarrow> TravPair_eq (kv_success x) (kv_success y)"

definition OZTravService_next_kv_result_field :: "ttype \<Rightarrow> i16 \<Rightarrow> OZTravService_next_kv_result \<Rightarrow> OZTravService_next_kv_result reader" where
  "OZTravService_next_kv_result_field ftype fid x =
     (if fid = 0 then (if ftype = T_STRUCT
        then rbind (TravPair_read (kv_success x)) (\<lambda>v. ret (x\<lparr>kv_success := v, kv_isset_success := True\<rparr>))
        else skip_field ftype x)
      else skip_field ftype x)"

definition OZTravService_next_kv_result_read :: "OZTravService_next_kv_result \<Rightarrow> OZTravService_next_kv_result reader" where
  "OZTravService_next_kv_result_read = read_struct OZTravService_next_kv_result_field"

definition OZTravService_next_kv_result_write :: "OZTravService_next_kv_result \<Rightarrow> string" where
  "OZTravService_next_kv_result_write x =
     (if kv_isset_success x then writeFieldBegin T_STRUCT 0 @ TravPair_write (kv_success x)
      else []) @ writeFieldStop"

text \<open>The client's object has pointers where the server's has values; here both are values.\<close>

type_synonym OZTravService_next_kv_presult = OZTravService_next_kv_result

definition OZTravService_next_kv_presult_field :: "ttype \<Rightarrow> i16 \<Rightarrow> OZTravService_next_kv_result \<Rightarrow> OZTravService_next_kv_result reader" where
  "OZTravService_next_kv_presult_field ftype fid x =
     (if fid = 0 then (if ftype = T_STRUCT
        then rbind (TravPair_read (kv_success x)) (\<lambda>v. ret (x\<lparr>kv_success := v, kv_isset_success := True\<rparr>))
        else skip_field ftype x)
      else skip_field ftype x)"

definition OZTravService_next_kv_presult_read :: "OZTravService_next_kv_presult \<Rightarrow> OZTravService_next_kv_presult reader" where
  "OZTravService_next_kv_presult_read = read_struct OZTravService_next_kv_presult_field"

lemma OZTravService_next_kv_result_field_rules [shrink_rules, fuel_rules]:
  "shrinks (OZTravService_next_kv_result_field t f x)" "fueled (OZTravService_next_kv_result_field t f x)"
  by (simp_all add: OZTravService_next_kv_result_field_def shrink_rules fuel_rules)

lemmas OZTravService_next_kv_result_step =
  read_struct_field [of OZTravService_next_kv_result_field, OF OZTravService_next_kv_result_field_rules(1)]

lemma OZTravService_next_kv_presult_field_rules [shrink_rules, fuel_rules]:
  "shrinks (OZTravService_next_kv_presult_field t f x)" "fueled (OZTravService_next_kv_presult_field t f x)"
  by (simp_all add: OZTravService_next_kv_presult_field_def shrink_rules fuel_rules)

lemmas OZTravService_next_kv_presult_step =
  read_struct_field [of OZTravService_next_kv_presult_field, OF OZTravService_next_kv_presult_field_rules(1)]

definition next_kv_result_ok :: "OZTravService_next_kv_result \<Rightarrow> bool" where
  "next_kv_result_ok x \<longleftrightarrow> (if kv_isset_success x then pair_ok (kv_success x) else True)"

definition next_kv_result_seen :: "OZTravService_next_kv_result \<Rightarrow> OZTravService_next_kv_result \<Rightarrow> OZTravService_next_kv_result" where
  "next_kv_result_seen y x =
     (if kv_isset_success x then y\<lparr>kv_success := all_set (kv_success x), kv_isset_success := True\<rparr>
      else y)"

interpretation next_kv_result: codec OZTravService_next_kv_result_write "OZTravService_next_kv_result_read y" next_kv_result_ok "next_kv_result_seen y" for y
proof
  fix x s assume x: "next_kv_result_ok x"
  have s: "OZTravService_next_kv_result_field T_STRUCT 0 y (TravPair_write (kv_success x) @ u) =
      Inr (y\<lparr>kv_success := all_set (kv_success x), kv_isset_success := True\<rparr>, u)" if "kv_isset_success x" for u
    using x that by (simp add: OZTravService_next_kv_result_field_def next_kv_result_ok_def pair_codec.round_trip)
  show "OZTravService_next_kv_result_read y (OZTravService_next_kv_result_write x @ s) = Inr (next_kv_result_seen y x, s)"
    by (simp add: OZTravService_next_kv_result_read_def OZTravService_next_kv_result_write_def next_kv_result_seen_def
        OZTravService_next_kv_result_step [OF _ s] read_struct_stop)
qed

interpretation next_kv_presult: codec OZTravService_next_kv_result_write "OZTravService_next_kv_presult_read y" next_kv_result_ok "next_kv_result_seen y" for y
proof
  fix x s assume x: "next_kv_result_ok x"
  have s: "OZTravService_next_kv_presult_field T_STRUCT 0 y (TravPair_write (kv_success x) @ u) =
      Inr (y\<lparr>kv_success := all_set (kv_success x), kv_isset_success := True\<rparr>, u)" if "kv_isset_success x" for u
    using x that by (simp add: OZTravService_next_kv_presult_field_def next_kv_result_ok_def pair_codec.round_trip)
  show "OZTravService_next_kv_presult_read y (OZTravService_next_kv_result_write x @ s) = Inr (next_kv_result_seen y x, s)"
    by (simp add: OZTravService_next_kv_presult_read_def OZTravService_next_kv_result_write_def next_kv_result_seen_def
        OZTravService_next_kv_presult_step [OF _ s] read_struct_stop)
qed

fun pair_reply :: "TravPair_isset reply \<Rightarrow> TravPair_isset answer" where
  "pair_reply (Return p) = Answer (all_set p)"
| "pair_reply (OZError e) = Application (app_error (TException_what []))"
| "pair_reply (TError m) = Application (app_error (TException_what m))"

section \<open>The interface\<close>

text \<open>An object of the interface as its methods; the state is the one of the object.\<close>

record 'st OZTravServiceIf =
  if_next_kv :: "'st \<Rightarrow> TravPair_isset \<Rightarrow> int \<Rightarrow> (TravPair_isset reply \<times> 'st) ub"

definition OZTravServiceNull :: "'st OZTravServiceIf" where
  "OZTravServiceNull = \<lparr>if_next_kv = (\<lambda>st result _. Some (Return result, st))\<rparr>"

definition OZTravServiceMultiface :: "'st OZTravServiceIf list \<Rightarrow> 'st OZTravServiceIf" where
  "OZTravServiceMultiface ifaces =
     \<lparr>if_next_kv = (\<lambda>st result acur. multi (map (\<lambda>i st result. if_next_kv i st result acur) ifaces) st result)\<rparr>"

section \<open>The processor\<close>

fun next_kv_catch :: "TravPair_isset reply \<Rightarrow> TApplicationException + OZTravService_next_kv_result" where
  "next_kv_catch (Return v) = Inr (OZTravService_next_kv_result_new\<lparr>kv_success := v, kv_isset_success := True\<rparr>)"
| "next_kv_catch (OZError e) = Inl (app_error (TException_what []))"
| "next_kv_catch (TError m) = Inl (app_error (TException_what m))"

definition next_kv_finish :: "OZTravService_next_kv_presult \<Rightarrow> TravPair_isset answer" where
  "next_kv_finish r =
     (if kv_isset_success r then Answer (kv_success r)
      else Application \<lparr>message = ''next_kv failed: unknown result'', xtype = MISSING_RESULT\<rparr>)"

definition next_kv_call :: "'st OZTravServiceIf \<Rightarrow> 'st \<Rightarrow> OZTravService_next_kv_args \<Rightarrow> (TravPair_isset reply \<times> 'st) ub" where
  "next_kv_call iface st args = if_next_kv iface st (kv_success OZTravService_next_kv_result_new) (kv_cur args)"

definition process_next_kv :: "app_io \<Rightarrow> 'st OZTravServiceIf \<Rightarrow> i32 \<Rightarrow> 'st \<Rightarrow> string \<Rightarrow> 'st served" where
  "process_next_kv app iface = process_call app ''next_kv'' (OZTravService_next_kv_args_read OZTravService_next_kv_args_new)
     (next_kv_call iface) next_kv_catch OZTravService_next_kv_result_write"

definition OZTravServiceProcessor_process_fn :: "app_io \<Rightarrow> 'st OZTravServiceIf \<Rightarrow> string \<Rightarrow> i32 \<Rightarrow> 'st \<Rightarrow> string \<Rightarrow> 'st served" where
  "OZTravServiceProcessor_process_fn app iface fname =
     (if fname = ''next_kv'' then process_next_kv app iface
      else unknown_method app fname)"

definition OZTravServiceProcessor_process :: "app_io \<Rightarrow> 'st OZTravServiceIf \<Rightarrow> 'st \<Rightarrow> string \<Rightarrow> 'st served" where
  "OZTravServiceProcessor_process app iface = process_message app (OZTravServiceProcessor_process_fn app iface)"

section \<open>The client\<close>

definition send_next_kv :: "int \<Rightarrow> string" where
  "send_next_kv acur = send_call ''next_kv'' (OZTravService_next_kv_pargs_write acur)"

definition recv_next_kv :: "app_io \<Rightarrow> TravPair_isset \<Rightarrow> TravPair_isset answer reader" where
  "recv_next_kv app result = recv_call app ''next_kv'' (OZTravService_next_kv_presult_read (OZTravService_next_kv_result_new\<lparr>kv_success := result\<rparr>)) next_kv_finish"

definition OZTravServiceClient_next_kv :: "app_io \<Rightarrow> ('st \<Rightarrow> string \<Rightarrow> 'st served) \<Rightarrow> TravPair_isset \<Rightarrow> int \<Rightarrow> 'st
    \<Rightarrow> ((proto_error + TravPair_isset answer) \<times> 'st) ub" where
  "OZTravServiceClient_next_kv app process result acur = remote_call (send_next_kv acur) process (recv_next_kv app result)"

section \<open>A remote call is a local call\<close>

interpretation next_kv_remote: remote_method OZTravService_next_kv_pargs_write "OZTravService_next_kv_args_read OZTravService_next_kv_args_new" int32
    "\<lambda>k. \<lparr>kv_cur = k, kv_isset_cur = True\<rparr>" OZTravService_next_kv_result_write "OZTravService_next_kv_presult_read (OZTravService_next_kv_result_new\<lparr>kv_success := result\<rparr>)"
    next_kv_result_ok "next_kv_result_seen (OZTravService_next_kv_result_new\<lparr>kv_success := result\<rparr>)" "''next_kv''" next_kv_catch next_kv_finish "reply_fits pair_ok" pair_reply for result :: "TravPair_isset"
proof
  show "short ''next_kv''"
    by (simp add: short_def)
next
  fix r x assume "reply_fits pair_ok r" "next_kv_catch r = Inl x"
  then show "short (message x) \<and> pair_reply r = Application x"
    by (cases r) (auto simp: app_error_def short_what)
next
  fix r o' assume "reply_fits pair_ok r" "next_kv_catch r = Inr o'"
  then show "next_kv_result_ok o' \<and> pair_reply r = next_kv_finish (next_kv_result_seen (OZTravService_next_kv_result_new\<lparr>kv_success := result\<rparr>) o')"
    by (cases r) (auto simp: next_kv_result_ok_def next_kv_result_seen_def next_kv_finish_def OZTravService_next_kv_result_new_def)
qed

lemma remote_next_kv:
  assumes "app_round_trip app" and "int32 acur" and "reply_fits pair_ok r"
    and "if_next_kv iface st (kv_success OZTravService_next_kv_result_new) acur = Some (r, st')"
  shows "OZTravServiceClient_next_kv app (OZTravServiceProcessor_process app iface) result acur st =
    Some (Inr (pair_reply r), st')"
  unfolding OZTravServiceClient_next_kv_def OZTravServiceProcessor_process_def send_next_kv_def recv_next_kv_def
  by (rule next_kv_remote.transparent [OF assms(2) _ assms(3,1), of "next_kv_call iface"])
    (simp_all add: next_kv_call_def assms(4) OZTravServiceProcessor_process_fn_def process_next_kv_def)

end
