(* ===== verification/Remote.thy ===== *)
theory Remote
  imports ReadStub WriteStub TravStub EndToEnd
begin

text \<open>
  The three servers as they are reached over the wire: the handlers behind the processors of
  their services, called by the generated clients.
\<close>

section \<open>The handlers as objects of the interfaces\<close>

definition read_iface :: "alloc \<Rightarrow> alloc \<Rightarrow> (world \<times> OZRead) OZReadServiceIf" where
  "read_iface alloc0 alloc = \<lparr>
     if_get = (\<lambda>(w, h) result key. map_option (\<lambda>r. (r, (w, h))) (server_get alloc w h key)),
     if_gets = (\<lambda>(w, h) result keys. map_option (\<lambda>r. (r, (w, h))) (server_gets alloc0 alloc w h result keys))\<rparr>"

text \<open>\<open>env i\<close> has the faults of the request that gets the number \<open>i\<close>, one entry for each put of it.\<close>

definition write_iface :: "bool \<Rightarrow> (int \<Rightarrow> nat \<Rightarrow> put_env) \<Rightarrow> (world \<times> write_handler) OZWriteServiceIf" where
  "write_iface lock_ok env = \<lparr>
     if_put = (\<lambda>(w, st) val. map_option (\<lambda>(r, st', w'). (r, (w', st'))) (server_put lock_ok (env (wid st) 0) w st val)),
     if_puts = (\<lambda>(w, st) vals. map_option (\<lambda>(r, st', w'). (r, (w', st'))) (server_puts lock_ok (env (wid st)) w st vals))\<rparr>"

text \<open>The handler assigns the three members and leaves the flags.\<close>

fun assign_pair :: "TravPair_isset \<Rightarrow> TravPair reply \<Rightarrow> TravPair_isset reply" where
  "assign_pair result (Return p) = Return (result\<lparr>pkey := pkey p, pvalue := pvalue p, pcur := pcur p\<rparr>)"
| "assign_pair result (OZError e) = OZError e"
| "assign_pair result (TError m) = TError m"

definition trav_iface :: "bool \<Rightarrow> alloc \<Rightarrow> (world \<times> trav_handler) OZTravServiceIf" where
  "trav_iface lock_ok alloc = \<lparr>
     if_next_kv = (\<lambda>(w, st) result acur. map_option (\<lambda>(r, st'). (assign_pair result r, (w, st')))
       (next_kv lock_ok alloc w st (TravPair.truncate result) acur))\<rparr>"

lemmas iface_defs = read_iface_def write_iface_def trav_iface_def

section \<open>Requests over the wire\<close>

lemma remote_get_db:
  assumes "app_round_trip app" and "short key"
    and "server_get alloc w h key = Some (case m of
      None \<Rightarrow> OZError ''key not found'' | Some val \<Rightarrow> Return val)"
    and "\<And>val. m = Some val \<Longrightarrow> short val"
  shows "OZReadServiceClient_get app (OZReadServiceProcessor_process app (read_iface alloc0 alloc)) result key (w, h) =
    Some (Inr (case m of None \<Rightarrow> Ouch \<lparr>why = ''key not found'', isset_why = True\<rparr> | Some val \<Rightarrow> Answer val), (w, h))"
proof -
  let ?r = "case m of None \<Rightarrow> OZError ''key not found'' | Some val \<Rightarrow> Return val"
  have "reply_fits short ?r"
    using assms(4) by (simp add: short_def split: option.split)
  moreover have "if_get (read_iface alloc0 alloc) (w, h) x key = Some (?r, (w, h))" for x
    using assms(3) by (simp add: read_iface_def)
  ultimately have "OZReadServiceClient_get app (OZReadServiceProcessor_process app (read_iface alloc0 alloc))
      result key (w, h) = Some (Inr (seen_reply ?r), (w, h))"
    by (rule remote_get [OF assms(1,2)])
  then show ?thesis
    by (cases m) simp_all
qed

lemma remote_puts_run:
  assumes "app_round_trip app" and "short_list vals"
    and "server_puts lock_ok (env (wid st)) w st vals = Some (Return (), st', w')"
  shows "OZWriteServiceClient_puts app (OZWriteServiceProcessor_process app (write_iface lock_ok env)) vals (w, st) =
    Some (Inr (Answer ()), (w', st'))"
proof -
  have "if_puts (write_iface lock_ok env) (w, st) vals = Some (Return (), (w', st'))"
    using assms(3) by (simp add: write_iface_def)
  with remote_puts [OF assms(1,2), of "Return ()" "write_iface lock_ok env"] show ?thesis
    by simp
qed

text \<open>
  A value of \<open>2 ^ 31\<close> bytes or more is stored and found, but the client cannot receive it.
\<close>

lemma recv_get_long:
  assumes "2 ^ 31 \<le> length val" and "length val < 2 ^ 32"
  shows "recv_get app result (writeMessageBegin default_proto ''get'' T_REPLY seqid @
    OZReadService_get_result_write (OZReadService_get_result_new\<lparr>get_success := val, get_isset_success := True\<rparr>) @ s) =
    Inl NegativeSize"
proof -
  have "OZReadService_get_presult_field T_STRING 0 y (writeString val @ u) = Inl NegativeSize" for y u
    using readString_too_long [OF assms]
    by (simp add: OZReadService_get_presult_field_def typed_field_def)
  from read_struct_bad [of OZReadService_get_presult_field T_STRING 0, OF OZReadService_get_presult_field_rules(1) _ this]
  have "OZReadService_get_presult_read y (writeFieldBegin T_STRING 0 @ writeString val @ u) = Inl NegativeSize" for y u
    by (simp add: OZReadService_get_presult_read_def)
  then show ?thesis
    by (simp add: recv_get_def recv_call_def read_message short_def OZReadService_get_result_write_def)
qed

lemma remote_get_long:
  assumes "short key" and "server_get alloc w h key = Some (Return val)"
    and "2 ^ 31 \<le> length val" and "length val < 2 ^ 32"
  shows "OZReadServiceClient_get app (OZReadServiceProcessor_process app (read_iface alloc0 alloc)) result key (w, h) =
    Some (Inl NegativeSize, (w, h))"
proof -
  have "OZReadServiceProcessor_process app (read_iface alloc0 alloc) (w, h) (send_get key) =
      Some (Inr ((True, writeMessageBegin default_proto ''get'' T_REPLY 0 @
        OZReadService_get_result_write (OZReadService_get_result_new\<lparr>get_success := val, get_isset_success := True\<rparr>), (w, h)), []))"
    using process_call_message [of "''get''" app _ "(w, h)" _ "[]"] get_args.round_trip [OF assms(1), of _ "[]"] assms(2)
    by (simp add: OZReadServiceProcessor_process_def send_get_def OZReadServiceProcessor_process_fn_def
        process_get_def process_call_def get_call_def read_iface_def short_def)
  then show ?thesis
    using recv_get_long [OF assms(3,4), of app result 0 "[]"]
    by (simp add: OZReadServiceClient_get_def remote_call_def)
qed

section \<open>Messages that do not fit\<close>

lemma read_processor_unknown:
  assumes "fname \<notin> {''get'', ''gets''}" and "short fname" and "wf_val (VStruct fs)"
    and "mtype \<in> {T_CALL, T_ONEWAY}"
  shows "OZReadServiceProcessor_process app iface st
      (writeMessageBegin default_proto fname mtype seqid @ encode (VStruct fs) @ s) =
    Some (Inr ((False, app_reply app fname seqid \<lparr>message = ''Invalid method name: '' @ [CHR 0x27] @ fname @ [CHR 0x27],
      xtype = UNKNOWN_METHOD\<rparr>, st), s))"
  using assms unknown_method_skips [OF assms(3), of app fname seqid st s] read_message [OF _ assms(2), of mtype seqid]
  by (auto simp: OZReadServiceProcessor_process_def process_message_def OZReadServiceProcessor_process_fn_def
      simp del: encode.simps wf_val.simps)

lemma recv_exception:
  assumes "app_round_trip app" and "short fname" and "short (message x)"
  shows "recv_call app expected result finish (app_reply app fname seqid x @ t) = Inr (Application x, t)"
  using assms by (simp add: recv_call_def app_reply_def read_message app_round_trip_def)

text \<open>
  A reply to another method: its value is skipped, and the result is read from the bytes that
  follow the message.
\<close>

lemma recv_get_other:
  assumes "fname \<noteq> ''get''" and "short fname" and "wf_val (VStruct fs)"
  shows "recv_get app result (writeMessageBegin default_proto fname T_REPLY seqid @ encode (VStruct fs) @ s) =
    rbind (OZReadService_get_presult_read (OZReadService_get_result_new\<lparr>get_success := result\<rparr>))
      (\<lambda>r. ret (get_finish r)) s"
  using assms skip_value [OF assms(3), of s] read_message [OF _ assms(2), of T_REPLY seqid]
  by (simp add: recv_get_def recv_call_def del: encode.simps wf_val.simps)

end
