(* ===== verification/RpcProps.thy ===== *)
theory RpcProps
  imports Remote ServerProps
begin

text \<open>
  Properties of the services as they are reached over the wire: requests and replies cross it
  unchanged, objects read from any bytes are well formed, unknown fields and unknown methods
  are refused without losing the place in the stream, and what a client does with a reply to
  another method.
\<close>

text \<open>A concrete stand-in for the code that writes and reads the exception of the library.\<close>

definition ex_codes :: "TApplicationExceptionType list" where
  "ex_codes = [UNKNOWN, UNKNOWN_METHOD, INVALID_MESSAGE_TYPE, WRONG_METHOD_NAME, BAD_SEQUENCE_ID,
     MISSING_RESULT, INTERNAL_ERROR, PROTOCOL_ERROR]"

fun ex_code :: "TApplicationExceptionType \<Rightarrow> nat" where
  "ex_code UNKNOWN = 0" | "ex_code UNKNOWN_METHOD = 1" | "ex_code INVALID_MESSAGE_TYPE = 2"
| "ex_code WRONG_METHOD_NAME = 3" | "ex_code BAD_SEQUENCE_ID = 4" | "ex_code MISSING_RESULT = 5"
| "ex_code INTERNAL_ERROR = 6" | "ex_code PROTOCOL_ERROR = 7"

definition ex_app :: app_io where
  "ex_app = \<lparr>app_write = (\<lambda>x. writeString (message x) @ writeByte (of_nat (ex_code (xtype x)))),
     app_read = rbind (readString default_proto) (\<lambda>m. rbind readByte (\<lambda>c.
       ret \<lparr>message = m, xtype = ex_codes ! unat c\<rparr>))\<rparr>"

lemma ex_app_round_trip: "app_round_trip ex_app"
proof -
  have "ex_codes ! unat (of_nat (ex_code t) :: i8) = t" for t
    by (cases t) (simp_all add: ex_codes_def)
  then show ?thesis
    by (simp add: app_round_trip_def ex_app_def string_codec.round_trip readByte_write)
qed

text \<open>A \<open>get\<close> over the wire, client and server being the generated code: for a key and values that
  fit, the client receives exactly the bytes that the database holds, or the declared exception
  with its text, and the server is unchanged.\<close>

theorem remote_get_request:
  assumes "app_round_trip app" and "reader_for db h rs" and "list_all rec_readable rs" and "rs \<noteq> []"
    and "db_inv k v rs" and "content w (value_path db) = v" and "\<And>i n. alloc i n"
    and "short key" and "\<And>val. db_map v rs (cstr key) = Some val \<Longrightarrow> length val < 2 ^ 31"
  shows "OZReadServiceClient_get app (OZReadServiceProcessor_process app (read_iface alloc0 alloc)) result key (w, h) =
    Some (Inr (case db_map v rs (cstr key) of
        None \<Rightarrow> Ouch \<lparr>why = ''key not found'', isset_why = True\<rparr> | Some val \<Rightarrow> Answer val), (w, h))"
  using remote_get_db [OF assms(1,8) server_get_db_map [OF assms(2-7)]] assms(9) by (simp add: short_def)

lemma remote_get_request_witness:
  "OZReadServiceClient_get ex_app (OZReadServiceProcessor_process ex_app
      (read_iface (\<lambda>_ _. True) (\<lambda>_ _. True))) [] ''k'' (ex_world, ex_reader) =
    Some (Inr (Answer ''z''), (ex_world, ex_reader))"
proof -
  have m: "db_map ex_value ex_recs (cstr ''k'') = Some ''z''"
    by (simp add: db_map_def latest_def ex_recs_def pick_def newer_def rec_bytes_def fread_bytes_def
        ex_value_def cstr_def)
  show ?thesis
    using remote_get_request [OF ex_app_round_trip ex_reader_for ex_readable ex_db_inv ex_content(2),
        of "\<lambda>_ _. True" "''k''" "\<lambda>_ _. True" "[]"] m
    by (simp add: short_def)
qed

text \<open>C36. Objects that are read are well formed, whatever bytes arrive: if \<open>read\<close> of a pair returns,
  the position is a 32 bit integer and the strings have less than \<open>2 ^ 31\<close> bytes, so that the
  object can be sent on and arrives equal to itself.\<close>

theorem pair_read_well_formed:
  assumes "TravPair_read TravPair_new s = Inr (x, t)"
  shows "pair_ok x \<and> (\<exists>z. TravPair_read y (TravPair_write x @ u) = Inr (z, u) \<and> TravPair_eq z x)"
proof
  have "pair_ok TravPair_new"
    by (simp add: pair_ok_def TravPair_new_def empty_pair_def TravPair.extend_def)
  then show ok: "pair_ok x"
    using assms by (rule TravPair_read_ok)
  show "\<exists>z. TravPair_read y (TravPair_write x @ u) = Inr (z, u) \<and> TravPair_eq z x"
    by (rule TravPair_arrives [OF ok])
qed

lemma pair_read_well_formed_witness: "\<exists>x. TravPair_read TravPair_new (writeFieldStop @ ''rest'') = Inr (x, ''rest'') \<and> pair_ok x"
  using pair_read_well_formed [of "writeFieldStop @ ''rest''"] TravPair_step(2) by blast

text \<open>C32. Old clients can read what a newer server sends: a field with an unknown number, or with a
  known number and another type, is skipped, whatever value it has (structs, maps, sets and
  lists to any depth), and the rest of the struct is read as if it were not there.\<close>

theorem unknown_fields_skipped:
  assumes "wf_val v" and "(f, type_of v) \<notin> {(1, T_STRING), (2, T_STRING), (3, T_I32)}" and "pair_ok x"
  shows "TravPair_read y (writeFieldBegin (type_of v) f @ encode v @ TravPair_write x @ s) = Inr (all_set x, s)"
proof -
  have "TravPair_field (type_of v) f y = skip_field (type_of v) y"
    using assms(2) by (auto simp: TravPair_field_def typed_field_def fun_eq_iff)
  then have "TravPair_read y (writeFieldBegin (type_of v) f @ encode v @ TravPair_write x @ s) =
      TravPair_read y (TravPair_write x @ s)"
    unfolding TravPair_read_def by (rule read_struct_skipped [OF TravPair_field_rules(1) _ assms(1)])
  then show ?thesis
    by (simp add: pair_codec.round_trip [OF assms(3)])
qed

lemma unknown_fields_skipped_witness:
  "TravPair_read TravPair_new (writeFieldBegin T_STRUCT 9 @
      encode (VStruct [(1, VList T_MAP [VMap T_BOOL T_I64 [(VBool True, VI64 7)]])]) @
      TravPair_write (TravPair_new\<lparr>pkey := ''k''\<rparr>) @ ''!'') = Inr (all_set (TravPair_new\<lparr>pkey := ''k''\<rparr>), ''!'')"
proof -
  let ?v = "VStruct [(1, VList T_MAP [VMap T_BOOL T_I64 [(VBool True, VI64 7)]])]"
  have "pair_ok (TravPair_new\<lparr>pkey := ''k''\<rparr>)"
    by (simp add: pair_ok_def TravPair_new_def empty_pair_def TravPair.extend_def short_def)
  with unknown_fields_skipped [of ?v 9 "TravPair_new\<lparr>pkey := ''k''\<rparr>" TravPair_new "''!''"] show ?thesis
    by (simp del: encode.simps)
qed

text \<open>C35. A call of a method that the read service does not have is refused without losing the place in
  the stream: the handlers are not called, exactly the message is consumed, and the caller gets
  the exception with the name of the method.\<close>

theorem unknown_method_refused:
  assumes "app_round_trip app" and "fname \<notin> {''get'', ''gets''}" and "length fname + 23 < 2 ^ 31"
    and "mtype \<in> {T_CALL, T_ONEWAY}" and "wf_val (VStruct fs)"
  shows "\<exists>out. OZReadServiceProcessor_process app iface st
      (writeMessageBegin default_proto fname mtype seqid @ encode (VStruct fs) @ s) =
        Some (Inr ((False, out, st), s))
    \<and> recv_get app result (out @ t) = Inr (Application
        \<lparr>message = ''Invalid method name: '' @ [CHR 0x27] @ fname @ [CHR 0x27], xtype = UNKNOWN_METHOD\<rparr>, t)"
proof -
  let ?x = "\<lparr>message = ''Invalid method name: '' @ [CHR 0x27] @ fname @ [CHR 0x27], xtype = UNKNOWN_METHOD\<rparr>"
  have name: "short fname" and msg: "short (message ?x)"
    using assms(3) by (simp_all add: short_def)
  have recv: "recv_get app result (app_reply app fname seqid ?x @ t) = Inr (Application ?x, t)"
    unfolding recv_get_def by (rule recv_exception [OF assms(1) name msg])
  show ?thesis
    by (intro exI conjI) (rule read_processor_unknown [OF assms(2) name assms(5,4)], rule recv)
qed

lemma unknown_method_refused_witness:
  "\<exists>out. OZReadServiceProcessor_process ex_app OZReadServiceNull ()
      (writeMessageBegin default_proto ''put'' T_CALL 5 @ encode (VStruct [(1, VString ''v'')]) @ ''next'') =
        Some (Inr ((False, out, ()), ''next''))"
  using unknown_method_refused [OF ex_app_round_trip, of "''put''" T_CALL "[(1, VString ''v'')]"
      OZReadServiceNull "()" 5 "''next''"]
  by auto

text \<open>A client that receives the reply to another method skips its value and then does not stop: it
  takes the bytes after the message for its result.  With nothing after it the call ends with
  the end of the file, with a struct after it (here of a result) the client returns its value.\<close>

theorem client_reads_on:
  assumes "fname \<noteq> ''get''" and "short fname" and "wf_val (VStruct fs)" and "short val"
  shows "recv_get app result (writeMessageBegin default_proto fname T_REPLY seqid @ encode (VStruct fs)) = Inl EndOfFile
    \<and> recv_get app result (writeMessageBegin default_proto fname T_REPLY seqid @ encode (VStruct fs) @
      OZReadService_get_result_write (OZReadService_get_result_new\<lparr>get_success := val, get_isset_success := True\<rparr>) @ t) =
      Inr (Answer val, t)"
proof
  show "recv_get app result (writeMessageBegin default_proto fname T_REPLY seqid @ encode (VStruct fs)) = Inl EndOfFile"
    using recv_get_other [OF assms(1-3), of app result seqid "[]"]
    by (simp add: OZReadService_get_presult_read_def read_struct_def rbind_def readFieldBegin_def readByte_def
        readAll_def del: encode.simps)
next
  let ?r = "OZReadService_get_result_new\<lparr>get_success := val, get_isset_success := True\<rparr>"
  have "get_result_ok ?r"
    using assms(4) by (simp add: get_result_ok_def)
  then show "recv_get app result (writeMessageBegin default_proto fname T_REPLY seqid @ encode (VStruct fs) @
      OZReadService_get_result_write ?r @ t) = Inr (Answer val, t)"
    using get_presult.round_trip recv_get_other [OF assms(1-3), of app result seqid "OZReadService_get_result_write ?r @ t"]
    by (simp add: get_finish_def get_result_seen_def del: encode.simps)
qed

lemma client_reads_on_witness:
  "recv_get ex_app [] (writeMessageBegin default_proto ''gets'' T_REPLY 0 @ encode (VStruct [])) = Inl EndOfFile"
  using client_reads_on [of "''gets''" "[]" "''v''" ex_app "[]" 0] by (simp add: short_def)

end
