(* ===== verification/Hostile.thy ===== *)
theory Hostile
  imports Remote WriteFaults
begin

text \<open>
  The servers on arbitrary input: whatever bytes a peer sends, a processor gives an answer or
  an exception, the read server stays as it is, and the write server keeps its database.  The
  traversal server does not have this property.
\<close>

section \<open>Every request ends\<close>

text \<open>The fuel of the readers is enough on any input.\<close>

definition ends :: "'st served \<Rightarrow> bool" where
  "ends r \<longleftrightarrow> r \<noteq> Some (Inl Exhausted)"

lemma process_call_ends: "fueled args \<Longrightarrow> ends (process_call app fname args call catch wr seqid st s)"
  by (auto simp: ends_def process_call_def fueled_def split: sum.splits bind_splits)

lemma refuse_ends: "ends (refuse app x fname seqid st s)"
  using fueled_skip [of default_proto T_STRUCT]
  by (auto simp: ends_def refuse_def fueled_def split: sum.splits)

lemma process_message_ends:
  "(\<And>fname seqid t. ends (process_fn fname seqid st t)) \<Longrightarrow> ends (process_message app process_fn st s)"
  using fueled_message [of default_proto]
  by (auto simp: ends_def process_message_def fueled_def refuse_ends [unfolded ends_def] split: sum.splits)

lemma unknown_method_ends: "ends (unknown_method app fname seqid st s)"
  by (simp add: unknown_method_def refuse_ends)

lemma args_fueled:
  "fueled (OZReadService_get_args_read x)" "fueled (OZReadService_gets_args_read y)"
  "fueled (OZWriteService_put_args_read v)" "fueled (OZWriteService_puts_args_read w)"
  "fueled (OZTravService_next_kv_args_read z)"
  unfolding OZReadService_get_args_read_def OZReadService_gets_args_read_def OZWriteService_put_args_read_def
    OZWriteService_puts_args_read_def OZTravService_next_kv_args_read_def
  by (intro fuel_rules shrink_rules OZReadService_get_args_field_rules OZReadService_gets_args_field_rules
      OZWriteService_put_args_field_rules OZWriteService_puts_args_field_rules
      OZTravService_next_kv_args_field_rules)+

section \<open>What a processor can do\<close>

text \<open>
  Handling some bytes is defined, and ends with an exception of the protocol, for which the
  state stays, or with a state and a rest of the input for which \<open>Q\<close> holds.
\<close>

definition outcome :: "('st \<Rightarrow> string \<Rightarrow> bool) \<Rightarrow> 'st served \<Rightarrow> bool" where
  "outcome Q r \<longleftrightarrow> (case r of None \<Rightarrow> False | Some (Inl e) \<Rightarrow> True | Some (Inr ((ok, out, st'), t)) \<Rightarrow> Q st' t)"

named_theorems outcome_rules "rules for the outcome of a processor"

lemma refuse_outcome [outcome_rules]:
  "(\<And>t. length t \<le> length s \<Longrightarrow> Q st t) \<Longrightarrow> outcome Q (refuse app x fname seqid st s)"
  using shrinks_skip [of default_proto T_STRUCT]
  by (auto simp: outcome_def refuse_def shrinks_def split: sum.splits)

lemma unknown_method_outcome [outcome_rules]:
  "(\<And>t. length t \<le> length s \<Longrightarrow> Q st t) \<Longrightarrow> outcome Q (unknown_method app fname seqid st s)"
  unfolding unknown_method_def by (rule refuse_outcome)

lemma process_call_outcome [outcome_rules]:
  "(\<And>q t. args s = Inr (q, t) \<Longrightarrow> \<exists>r st'. call st q = Some (r, st') \<and> Q st' t) \<Longrightarrow>
    outcome Q (process_call app fname args call catch wr seqid st s)"
  by (fastforce simp: outcome_def process_call_def split: sum.split)

lemma readMessageBegin_eats:
  assumes "readMessageBegin p s = Inr (r, t)"
  shows "length t < length s"
proof -
  obtain n u where n: "readI32 s = Inr (n, u)"
    using assms by (auto simp: readMessageBegin_def rbind_def split: sum.splits)
  define f where "f = (\<lambda>sz :: i32.
     if sint sz < 0
     then if and sz VERSION_MASK \<noteq> VERSION_1 then fail BadVersion
          else rbind (readString p) (\<lambda>name. rbind readI32 (\<lambda>seqid. ret (name, ucast (and sz 0xff) :: mtype, seqid)))
     else if strict_read p then fail BadVersion
     else rbind (readStringBody p sz) (\<lambda>name. rbind readByte (\<lambda>t. rbind readI32 (\<lambda>seqid. ret (name, t, seqid)))))"
  have "f n u = Inr (r, t)"
    using assms n unfolding readMessageBegin_def f_def by simp
  moreover have "shrinks (f n)"
    unfolding f_def by (intro shrink_rules)
  moreover have "length u < length s"
    using n by (auto simp: readI32_def rbind_def readAll_def split: if_splits)
  ultimately show ?thesis
    unfolding shrinks_def by (meson le_less_trans)
qed

lemma process_message_outcome:
  assumes "\<And>t. length t \<le> length s \<Longrightarrow> Q st t"
    and "\<And>fname seqid t. length t < length s \<Longrightarrow> outcome Q (process_fn fname seqid st t)"
  shows "outcome Q (process_message app process_fn st s)"
proof (cases "readMessageBegin default_proto s")
  case (Inr r)
  obtain fname mtype seqid t where r: "r = ((fname, mtype, seqid), t)"
    by (cases r) auto
  have t: "length t < length s"
    using readMessageBegin_eats [OF Inr [unfolded r]] .
  then have "outcome Q (refuse app x fname seqid st t)" for x
    using assms(1) by (intro refuse_outcome) simp
  then show ?thesis
    using assms(2) [OF t] by (simp add: process_message_def Inr r)
qed (simp add: process_message_def outcome_def)

section \<open>The read server\<close>

text \<open>A handler whose calls are defined and leave its state.\<close>

definition read_only :: "'st OZReadServiceIf \<Rightarrow> 'st \<Rightarrow> bool" where
  "read_only iface st \<longleftrightarrow> (\<forall>x key. \<exists>r. if_get iface st x key = Some (r, st)) \<and>
     (\<forall>x keys. \<exists>r. if_gets iface st x keys = Some (r, st))"

lemma read_processor_safe:
  assumes "read_only iface st"
  shows "outcome (\<lambda>st' _. st' = st) (OZReadServiceProcessor_process app iface st s)"
  unfolding OZReadServiceProcessor_process_def
proof (rule process_message_outcome)
  fix fname seqid t
  show "outcome (\<lambda>st' _. st' = st) (OZReadServiceProcessor_process_fn app iface fname seqid st t)"
    using assms unfolding OZReadServiceProcessor_process_fn_def process_get_def process_gets_def
    by (auto intro!: outcome_rules simp: read_only_def get_call_def gets_call_def)
qed simp

lemma read_iface_read_only:
  assumes "reader_for db h rs" and "list_all rec_readable rs" and "rs \<noteq> []"
    and "db_inv k v rs" and "content w (value_path db) = v"
  shows "read_only (read_iface (\<lambda>_ _. True) (\<lambda>_ _. True)) (w, h)"
proof -
  have "server_get (\<lambda>_ _. True) w h key \<noteq> None" for key
    using server_get_db_map [OF assms, of "\<lambda>_ _. True"] by simp
  moreover have "server_gets (\<lambda>_ _. True) (\<lambda>_ _. True) w h x keys \<noteq> None" for x keys
    using server_gets_db_map [OF assms, of "\<lambda>_ _. True" "\<lambda>_ _. True"] by simp
  ultimately show ?thesis
    by (auto simp: read_only_def read_iface_def)
qed

section \<open>The write server\<close>

lemma one_field:
  assumes "(if fid = n then typed_field t d r upd else skip_field t) x s = Inr (y, u)"
  shows "(\<exists>v. r s = Inr (v, u) \<and> y = upd v x) \<or> (y = x \<and> length u \<le> length s)"
proof (cases "fid = n \<and> t = d")
  case True
  then have "typed_field d d r upd x s = Inr (y, u)"
    using assms by simp
  then show ?thesis
    by (auto simp: typed_field_def rbind_def split: sum.splits)
next
  case False
  then have "skip_field t x s = Inr (y, u)"
    using assms by (simp add: typed_field_def split: if_splits)
  from skip_field_left [OF this] show ?thesis by simp
qed

lemma put_args_size:
  assumes "OZWriteService_put_args_read OZWriteService_put_args_new s = Inr (q, t)"
  shows "short (put_value q) \<and> length (put_value q) + length t \<le> length s"
proof -
  let ?P = "\<lambda>q u. short (put_value q) \<and> length (put_value q) + length u \<le> length s"
  have "?P y v" if "?P x u" and "OZWriteService_put_args_field ty f x u = Inr (y, v)" for ty f x u y v
  proof -
    from one_field [OF that(2) [unfolded OZWriteService_put_args_field_def]] show ?thesis
    proof (elim disjE exE conjE)
      fix w assume w: "readString default_proto u = Inr (w, v)" "y = x\<lparr>put_value := w, put_isset_value := True\<rparr>"
      show ?thesis
        using readString_short [OF w(1)] readString_size [OF w(1)] that(1) w(2) by simp
    qed (use that(1) in simp)
  qed
  then show "?P q t"
  proof (rule read_struct_rel [of ?P])
    show "read_struct OZWriteService_put_args_field OZWriteService_put_args_new s = Inr (q, t)"
      using assms by (simp add: OZWriteService_put_args_read_def)
  qed (simp_all add: OZWriteService_put_args_new_def)
qed

lemma puts_args_size:
  assumes "OZWriteService_puts_args_read OZWriteService_puts_args_new s = Inr (q, t)"
  shows "short_list (puts_values q) \<and>
    length (puts_values q) + length (concat (puts_values q)) + length t \<le> length s"
proof -
  let ?P = "\<lambda>q u. short_list (puts_values q) \<and>
    length (puts_values q) + length (concat (puts_values q)) + length u \<le> length s"
  have "?P y v" if "?P x u" and "OZWriteService_puts_args_field ty f x u = Inr (y, v)" for ty f x u y v
  proof -
    from one_field [OF that(2) [unfolded OZWriteService_puts_args_field_def]] show ?thesis
    proof (elim disjE exE conjE)
      fix w assume w: "read_strings u = Inr (w, v)" "y = x\<lparr>puts_values := w, puts_isset_values := True\<rparr>"
      show ?thesis
        using read_strings_size [OF w(1)] that(1) w(2) by simp
    qed (use that(1) in simp)
  qed
  then show "?P q t"
  proof (rule read_struct_rel [of ?P])
    show "read_struct OZWriteService_puts_args_field OZWriteService_puts_args_new s = Inr (q, t)"
      using assms by (simp add: OZWriteService_puts_args_read_def)
  qed (simp_all add: OZWriteService_puts_args_new_def short_list_def)
qed

text \<open>The requests of the interface, whatever faults their puts have.\<close>

lemma write_iface_put:
  assumes "live_rep db s i n m" and "i < 10 ^ 15" and "length val < 2 ^ 32" and "n + length val < 2 ^ 63"
    and "untorn (env i 0)"
  shows "\<exists>r s' m'. if_put (write_iface True env) s val = Some (r, s') \<and>
    live_rep db s' (i + 1) (n + length val) m' \<and> m \<subseteq>\<^sub>m m'"
proof -
  obtain w st where s: "s = (w, st)" by (cases s)
  have i: "wid st = i"
    using assms(1) by (auto simp: live_rep_def s)
  obtain st1 ret st2 w' where put: "make_key st = Some st1" "write_value (env i 0) w st1 val = Some (ret, st2, w')"
      "live_rep db (w', st2) (i + 1) (n + length val) (if ret = 0 then m(dec (nat i) \<mapsto> val) else m)"
    using write_value_any [OF assms(1) [unfolded s] assms(2-5)] by blast
  have "if_put (write_iface True env) s val = Some (if ret = 0 then Return () else OZError (put_why ret), (w', st2))"
    using put(1,2) by (simp add: s i write_iface_def server_put_def)
  moreover have "m \<subseteq>\<^sub>m (if ret = 0 then m(dec (nat i) \<mapsto> val) else m)"
    using live_rep_free [OF assms(1), of i] by (auto simp: map_le_def)
  ultimately show ?thesis
    using put(3) by blast
qed

lemma write_iface_puts:
  assumes "live_rep db s i n m" and "i + int (length vals) \<le> 10 ^ 15" and "short_list vals"
    and "n + length (concat vals) < 2 ^ 63" and "\<forall>j. untorn (env i j)"
  shows "\<exists>r s' m'. if_puts (write_iface True env) s vals = Some (r, s') \<and>
    live_rep db s' (i + int (length vals)) (n + length (concat vals)) m' \<and> m \<subseteq>\<^sub>m m'"
proof -
  obtain w st where s: "s = (w, st)" by (cases s)
  have i: "wid st = i"
    using assms(1) by (auto simp: live_rep_def s)
  have "\<forall>val \<in> set vals. length val < 2 ^ 32"
    using assms(3) by (auto simp: short_list_def short_def list_all_iff)
  from put_all_any [OF assms(1) [unfolded s] assms(2) this assms(4), of "env i" 0] assms(5)
  show ?thesis
    by (fastforce simp: s i write_iface_def server_puts_def)
qed

text \<open>
  What the write server has after some input, seen from the numbers, bytes and map it had
  before: the database is well formed and on disk, no value is lost, and each number and each byte
  of a value was paid for by a byte of input.
\<close>

definition grown :: "string \<Rightarrow> int \<Rightarrow> nat \<Rightarrow> (string \<Rightarrow> string option) \<Rightarrow> nat \<Rightarrow> world \<times> write_handler \<Rightarrow> bool" where
  "grown db i n m k s \<longleftrightarrow> (\<exists>i' n' m'. live_rep db s i' n' m' \<and> m \<subseteq>\<^sub>m m' \<and> i' \<le> i + int k \<and> n' \<le> n + k)"

lemma write_processor_safe:
  assumes "live_rep db st i n m" and "i + int (length s) \<le> 10 ^ 15" and "n + length s < 2 ^ 63"
    and env: "\<forall>i j. untorn (env i j)"
  shows "outcome (\<lambda>st' t. grown db i n m (length s) st')
    (OZWriteServiceProcessor_process app (write_iface True env) st s)"
  unfolding OZWriteServiceProcessor_process_def
proof (rule process_message_outcome)
  let ?Q = "\<lambda>st' (t :: string). grown db i n m (length s) st'"
  have idle: "?Q st t" for t
    using assms(1) unfolding grown_def by (intro exI conjI) (auto simp: map_le_refl)
  then show "?Q st t" for t .
  fix fname seqid t assume t: "length (t :: string) < length s"
  have put: "\<exists>r st'. put_call (write_iface True env) st q = Some (r, st') \<and> ?Q st' u"
    if "OZWriteService_put_args_read OZWriteService_put_args_new t = Inr (q, u)" for q u
  proof -
    have q: "length (put_value q) < 2 ^ 32" "length (put_value q) \<le> length t"
      using put_args_size [OF that] by (auto simp: short_def)
    then have "i < 10 ^ 15" "n + length (put_value q) < 2 ^ 63"
      using assms(2,3) t by auto
    from write_iface_put [OF assms(1) this(1) q(1) this(2)] env show ?thesis
      using t q(2) unfolding grown_def put_call_def by fastforce
  qed
  have puts: "\<exists>r st'. puts_call (write_iface True env) st q = Some (r, st') \<and> ?Q st' u"
    if "OZWriteService_puts_args_read OZWriteService_puts_args_new t = Inr (q, u)" for q u
  proof -
    have q: "short_list (puts_values q)" "length (puts_values q) + length (concat (puts_values q)) \<le> length t"
      using puts_args_size [OF that] by auto
    then have "i + int (length (puts_values q)) \<le> 10 ^ 15" "n + length (concat (puts_values q)) < 2 ^ 63"
      using assms(2,3) t by auto
    from write_iface_puts [OF assms(1) this(1) q(1) this(2)] env show ?thesis
      using t q(2) unfolding grown_def puts_call_def by fastforce
  qed
  show "outcome ?Q (OZWriteServiceProcessor_process_fn app (write_iface True env) fname seqid st t)"
    unfolding OZWriteServiceProcessor_process_fn_def process_put_def process_puts_def
    by (auto intro!: outcome_rules put puts idle)
qed

end
