(* ===== verification/ServerMain.thy ===== *)
theory ServerMain
  imports Hostile
begin

text \<open>
  The programs: \<open>main\<close> and \<open>server_threadpool\<close> of the three servers, from the arguments to the
  exit.  The server loop is code of the RPC library and a parameter: it is given the processor
  and its state, and serves requests until it is told to stop.
\<close>

section \<open>The server loop of the library\<close>

text \<open>
  \<open>serve process port threads st\<close> gives a flag, which is false when an exception leaves the
  loop, and the last state.
\<close>

type_synonym 'st serve_fun = "('st \<Rightarrow> string \<Rightarrow> 'st served) \<Rightarrow> int \<Rightarrow> nat \<Rightarrow> 'st \<Rightarrow> (bool \<times> 'st) ub"

text \<open>The states that handling requests of \<open>k\<close> bytes together can lead to.\<close>

inductive session :: "('st \<Rightarrow> string \<Rightarrow> 'st served) \<Rightarrow> 'st \<Rightarrow> nat \<Rightarrow> 'st \<Rightarrow> bool" for process st where
  start: "session process st 0 st"
| request: "session process st k st1 \<Longrightarrow> process st1 s = Some (Inr ((ok, out, st2), t)) \<Longrightarrow>
    session process st (k + length s) st2"
| broken: "session process st k st1 \<Longrightarrow> process st1 s = Some (Inl e) \<Longrightarrow> session process st (k + length s) st1"

text \<open>
  What the programs rely on: if no request within the limit of \<open>N\<close> bytes can go wrong, the
  loop returns or throws, in a state that such requests lead to.
\<close>

definition runs_requests :: "nat \<Rightarrow> 'st serve_fun \<Rightarrow> bool" where
  "runs_requests N serve \<longleftrightarrow> (\<forall>process port threads st.
     (\<forall>k st' s. session process st k st' \<and> k + length s \<le> N \<longrightarrow> process st' s \<noteq> None) \<longrightarrow>
     (\<exists>ok st' k. serve process port threads st = Some (ok, st') \<and> session process st k st' \<and> k \<le> N))"

text \<open>An invariant that every request keeps, with the bytes received so far.\<close>

lemma session_inv:
  assumes "session process st k st'" and "k \<le> N" and "I 0 st"
    and "\<And>j st1 s. I j st1 \<Longrightarrow> j + length s \<le> N \<Longrightarrow>
      outcome (\<lambda>st2 t. I (j + length s) st2) (process st1 s) \<and> I (j + length s) st1"
  shows "I k st'"
  using assms(1,2)
proof (induction rule: session.induct)
  case (request k st1 s ok out st2 t)
  then show ?case
    using assms(4) [of k st1 s] by (simp add: outcome_def)
next
  case (broken k st1 s e)
  then show ?case
    using assms(4) [of k st1 s] by simp
qed (rule assms(3))

lemma serve_inv:
  assumes "runs_requests N serve" and "I 0 st"
    and "\<And>j st1 s. I j st1 \<Longrightarrow> j + length s \<le> N \<Longrightarrow>
      outcome (\<lambda>st2 t. I (j + length s) st2) (process st1 s) \<and> I (j + length s) st1"
  shows "\<exists>ok st' k. serve process port threads st = Some (ok, st') \<and> k \<le> N \<and> I k st'"
proof -
  have "process st' s \<noteq> None" if "session process st k st'" "k + length s \<le> N" for k st' s
  proof -
    have "I k st'"
      using session_inv [of process st k st' N I] that assms(2,3) by simp
    then show ?thesis
      using assms(3) [of k st' s] that(2) by (auto simp: outcome_def split: option.splits)
  qed
  then obtain ok st' k where "serve process port threads st = Some (ok, st')" "session process st k st'" "k \<le> N"
    using assms(1) unfolding runs_requests_def by meson
  then show ?thesis
    using session_inv [of process st k st' N I] assms(2,3) by blast
qed

section \<open>The programs\<close>

text \<open>
  A program exits with a value or is terminated by an exception that nothing catches.  With a
  wrong number of arguments it prints how to call it; without a name the pointer to it is null.
\<close>

datatype status = Exit int | Terminated

definition usage :: "string list \<Rightarrow> string ub" where
  "usage argv = (case argv of [] \<Rightarrow> None
     | a # _ \<Rightarrow> Some (''Usage:'' @ NL @ a @ '' [port] [path]'' @ NL))"

text \<open>
  The functions that run a pool of threads; the first component of the result is false when an
  exception leaves them.
\<close>

definition read_threadpool :: "app_io \<Rightarrow> alloc \<Rightarrow> alloc \<Rightarrow> popen_fun \<Rightarrow> OZRecord \<Rightarrow> (world \<times> OZRead) serve_fun
    \<Rightarrow> world \<Rightarrow> string \<Rightarrow> int \<Rightarrow> nat \<Rightarrow> (bool \<times> string \<times> world) ub" where
  "read_threadpool app alloc0 alloc popen uninit serve w path port threads = do {
     (r, w1) \<leftarrow> read_handler_new popen uninit w path;
     (case r of
        Return h \<Rightarrow> do {
          (ok, w2, h2) \<leftarrow> serve (OZReadServiceProcessor_process app (read_iface alloc0 alloc)) port threads (w1, h);
          let starting = ''OZoneStore Read Server Starting ...'' @ NL;
          if ok then do {
            h3 \<leftarrow> read_handler_delete h2;
            Some (True, starting @ ''OZoneStore Read Server Stopping ...'' @ NL, w2)
          }
          else Some (False, starting, w2)
        }
      | _ \<Rightarrow> Some (False, [], w1))
   }"

definition write_threadpool :: "app_io \<Rightarrow> (int \<Rightarrow> nat \<Rightarrow> put_env) \<Rightarrow> bool \<Rightarrow> OZWrite \<Rightarrow> (world \<times> write_handler) serve_fun
    \<Rightarrow> world \<Rightarrow> string \<Rightarrow> int \<Rightarrow> nat \<Rightarrow> (bool \<times> string \<times> world) ub" where
  "write_threadpool app env mutex_ok uninit serve w path port threads = do {
     (r, w1) \<leftarrow> write_handler_new w uninit mutex_ok path;
     (case r of
        Return st \<Rightarrow> do {
          (ok, w2, st2) \<leftarrow> serve (OZWriteServiceProcessor_process app (write_iface True env)) port threads (w1, st);
          let starting = ''OZoneStore Write Server Starting ...'' @ NL;
          if ok then do {
            (h3, w3) \<leftarrow> write_handler_delete w2 st2;
            Some (True, starting @ ''OZoneStore Write Server Stopping ...'' @ NL, w3)
          }
          else Some (False, starting, w2)
        }
      | _ \<Rightarrow> Some (False, [], w1))
   }"

definition trav_threadpool :: "app_io \<Rightarrow> alloc \<Rightarrow> bool \<Rightarrow> OZRecord \<Rightarrow> (world \<times> trav_handler) serve_fun
    \<Rightarrow> world \<Rightarrow> string \<Rightarrow> int \<Rightarrow> nat \<Rightarrow> (bool \<times> string \<times> world) ub" where
  "trav_threadpool app alloc mutex_ok uninit serve w path port threads = do {
     r \<leftarrow> trav_handler_new uninit w mutex_ok path;
     (case r of
        Return st \<Rightarrow> do {
          (ok, w2, st2) \<leftarrow> serve (OZTravServiceProcessor_process app (trav_iface True alloc)) port threads (w, st);
          let starting = ''OZoneStore Trav Server Starting ...'' @ NL;
          if ok then do {
            st3 \<leftarrow> trav_handler_delete st2;
            Some (True, starting @ ''OZoneStore Trav Server Stopping ...'' @ NL, w2)
          }
          else Some (False, starting, w2)
        }
      | _ \<Rightarrow> Some (False, [], w))
   }"

definition numThreads :: nat where
  "numThreads = 8"

text \<open>\<open>main\<close> of a server, with the function that runs it.\<close>

definition server_main :: "(string \<Rightarrow> int \<Rightarrow> nat \<Rightarrow> (bool \<times> string \<times> world) ub) \<Rightarrow> world \<Rightarrow> string list
    \<Rightarrow> (status \<times> string \<times> world) ub" where
  "server_main threadpool w argv =
     (if length argv \<noteq> 3 then do { out \<leftarrow> usage argv; Some (Exit (- 1), out, w) }
      else do {
        let port = atoi (argv ! 1);
        (ok, out, w') \<leftarrow> threadpool (argv ! 2) port numThreads;
        Some (if ok then Exit 0 else Terminated, out, w')
      })"

definition read_main :: "app_io \<Rightarrow> alloc \<Rightarrow> alloc \<Rightarrow> popen_fun \<Rightarrow> OZRecord \<Rightarrow> (world \<times> OZRead) serve_fun
    \<Rightarrow> world \<Rightarrow> string list \<Rightarrow> (status \<times> string \<times> world) ub" where
  "read_main app alloc0 alloc popen uninit serve w =
     server_main (read_threadpool app alloc0 alloc popen uninit serve w) w"

definition write_main :: "app_io \<Rightarrow> (int \<Rightarrow> nat \<Rightarrow> put_env) \<Rightarrow> bool \<Rightarrow> OZWrite \<Rightarrow> (world \<times> write_handler) serve_fun
    \<Rightarrow> world \<Rightarrow> string list \<Rightarrow> (status \<times> string \<times> world) ub" where
  "write_main app env mutex_ok uninit serve w =
     server_main (write_threadpool app env mutex_ok uninit serve w) w"

definition trav_main :: "app_io \<Rightarrow> alloc \<Rightarrow> bool \<Rightarrow> OZRecord \<Rightarrow> (world \<times> trav_handler) serve_fun
    \<Rightarrow> world \<Rightarrow> string list \<Rightarrow> (status \<times> string \<times> world) ub" where
  "trav_main app alloc mutex_ok uninit serve w =
     server_main (trav_threadpool app alloc mutex_ok uninit serve w) w"

section \<open>The write server over its life\<close>

lemma outcome_mono: "outcome P r \<Longrightarrow> (\<And>st t. P st t \<Longrightarrow> Q st t) \<Longrightarrow> outcome Q r"
  by (auto simp: outcome_def split: option.splits sum.splits)

lemma grown_refl: "live_rep db s i n m \<Longrightarrow> grown db i n m k s"
  unfolding grown_def by (intro exI conjI) (auto simp: map_le_refl)

lemma grown_trans:
  assumes "m \<subseteq>\<^sub>m m'" and "i' \<le> i + int j" and "n' \<le> n + j" and "grown db i' n' m' k s"
  shows "grown db i n m (j + k) s"
proof -
  obtain i2 n2 m2 where g: "live_rep db s i2 n2 m2" "m' \<subseteq>\<^sub>m m2" "i2 \<le> i' + int k" "n2 \<le> n' + k"
    using assms(4) by (auto simp: grown_def)
  moreover have "m \<subseteq>\<^sub>m m2"
    using assms(1) g(2) by (rule map_le_trans)
  ultimately show ?thesis
    using assms(2,3) unfolding grown_def by (intro exI [of _ i2] exI [of _ n2] exI [of _ m2]) simp
qed

lemma write_server_grows:
  assumes "runs_requests N serve" and "live_rep db st i n m" and "i + int N \<le> 10 ^ 15" and "n + N < 2 ^ 63"
    and env: "\<forall>i j. untorn (env i j)"
  shows "\<exists>ok st' k. serve (OZWriteServiceProcessor_process app (write_iface True env)) port threads st =
    Some (ok, st') \<and> k \<le> N \<and> grown db i n m k st'"
proof (rule serve_inv [OF assms(1)])
  show "grown db i n m 0 st"
    using assms(2) by (rule grown_refl)
  fix j st1 and s :: string assume g: "grown db i n m j st1" and j: "j + length s \<le> N"
  obtain i' n' m' where st1: "live_rep db st1 i' n' m'" "m \<subseteq>\<^sub>m m'" "i' \<le> i + int j" "n' \<le> n + j"
    using g by (auto simp: grown_def)
  have "i' + int (length s) \<le> 10 ^ 15" "n' + length s < 2 ^ 63"
    using st1(3,4) assms(3,4) j by linarith+
  from write_processor_safe [OF st1(1) this env, of app]
  have "outcome (\<lambda>st2 t. grown db i n m (j + length s) st2)
      (OZWriteServiceProcessor_process app (write_iface True env) st1 s)"
    by (rule outcome_mono) (rule grown_trans [OF st1(2-4)])
  moreover have "grown db i n m (j + length s) st1"
    using grown_trans [OF st1(2-4) grown_refl [OF st1(1)]] .
  ultimately show "outcome (\<lambda>st2 t. grown db i n m (j + length s) st2)
      (OZWriteServiceProcessor_process app (write_iface True env) st1 s) \<and> grown db i n m (j + length s) st1" ..
qed

lemma write_threadpool_safe:
  assumes "runs_requests N serve" and "N \<le> 10 ^ 14"
    and "nul_free db" and "openable (mkdir w db) (key_path db)" and "openable (mkdir w db) (value_path db)"
    and "key_path db \<noteq> value_path db"
    and "db_inv (content w (key_path db)) (content w (value_path db)) rs"
    and "\<forall>r \<in> set rs. \<forall>n. rkey r = dec n \<longrightarrow> n < 2 ^ 31"
    and "length (content w (value_path db)) + N < 2 ^ 63" and "\<forall>i j. untorn (env i j)"
  shows "\<exists>ok out w' rs'. write_threadpool app env True uninit serve w db port threads = Some (ok, out, w') \<and>
    db_inv (content w' (key_path db)) (content w' (value_path db)) rs' \<and>
    db_map (content w (value_path db)) rs \<subseteq>\<^sub>m db_map (content w' (value_path db)) rs'"
proof -
  let ?v = "content w (value_path db)"
  obtain st w1 where new: "write_handler_new w uninit True db = Some (Return st, w1)"
      "server_inv db w1 st ?v rs" "on_disk db w1 ?v rs" "wid st = largest_id rs 0 + 1"
    using write_handler_new_ok [OF assms(3-8), of uninit] by blast
  have rep: "live_rep db (w1, st) (wid st) (length ?v) (db_map ?v rs)"
    using new(2,3) by (intro store_rep_live) (auto simp: store_rep_def)
  have "wid st + int N \<le> 10 ^ 15"
    using new(4) largest_id_less [of 0 rs] assms(2) by simp
  from write_server_grows [OF assms(1) rep this assms(9,10)]
  obtain ok s2 k where serve: "serve (OZWriteServiceProcessor_process app (write_iface True env)) port threads
      (w1, st) = Some (ok, s2)" "grown db (wid st) (length ?v) (db_map ?v rs) k s2"
    by blast
  then obtain i2 n2 m2 where s2: "live_rep db s2 i2 n2 m2" "db_map ?v rs \<subseteq>\<^sub>m m2"
    by (auto simp: grown_def)
  obtain w2 st2 where p: "s2 = (w2, st2)" by (cases s2)
  show ?thesis
  proof (cases ok)
    case True
    then show ?thesis
      using live_rep_closed(1) [OF s2(1)] s2(2) serve(1) new(1) p
      by (fastforce simp: write_threadpool_def)
  next
    case False
    then show ?thesis
      using live_rep_closed(2) [OF s2(1)] s2(2) serve(1) new(1) p
      by (fastforce simp: write_threadpool_def)
  qed
qed

end
