(* ===== verification/HostileProps.thy ===== *)
theory HostileProps
  imports ServerMain RpcProps TravProps
begin

text \<open>
  Properties of the running servers: what arbitrary input can do to them.
\<close>








text \<open>C33. The read server on any input: no bytes that a client sends lead to an undefined step or change
  the server; the processor answers or throws an exception of the protocol.\<close>

theorem read_server_any_bytes:
  assumes "reader_for db h rs" and "list_all rec_readable rs" and "rs \<noteq> []"
    and "db_inv k v rs" and "content w (value_path db) = v"
  shows "(\<exists>e. OZReadServiceProcessor_process app (read_iface (\<lambda>_ _. True) (\<lambda>_ _. True)) (w, h) s = Some (Inl e)) \<or>
    (\<exists>ok out t. OZReadServiceProcessor_process app (read_iface (\<lambda>_ _. True) (\<lambda>_ _. True)) (w, h) s =
      Some (Inr ((ok, out, (w, h)), t)))"
  using read_processor_safe [OF read_iface_read_only [OF assms], of app s]
  by (auto simp: outcome_def split: option.splits sum.splits)

lemma read_server_any_bytes_witness:
  "OZReadServiceProcessor_process ex_app (read_iface (\<lambda>_ _. True) (\<lambda>_ _. True)) (ex_world, ex_reader) ''garbage'' \<noteq> None"
  using read_server_any_bytes [OF ex_reader_for ex_readable ex_db_inv ex_content(2), of ex_app "''garbage''"] by auto

text \<open>C34. Every request ends: the loops over fields, elements and skipped values take at least a byte per
  round or are bounded by a length that was read, so on any input the processors of the three
  services come to an end within the fuel that the model gives them.\<close>

theorem requests_end:
  "OZReadServiceProcessor_process app ri st s \<noteq> Some (Inl Exhausted)
    \<and> OZWriteServiceProcessor_process app wi st' s \<noteq> Some (Inl Exhausted)
    \<and> OZTravServiceProcessor_process app ti st'' s \<noteq> Some (Inl Exhausted)"
proof (intro conjI; fold ends_def)
  show "ends (OZReadServiceProcessor_process app ri st s)"
    unfolding OZReadServiceProcessor_process_def
    by (rule process_message_ends)
      (simp add: OZReadServiceProcessor_process_fn_def process_get_def process_gets_def process_call_ends
        unknown_method_ends args_fueled)
  show "ends (OZWriteServiceProcessor_process app wi st' s)"
    unfolding OZWriteServiceProcessor_process_def
    by (rule process_message_ends)
      (simp add: OZWriteServiceProcessor_process_fn_def process_put_def process_puts_def process_call_ends
        unknown_method_ends args_fueled)
  show "ends (OZTravServiceProcessor_process app ti st'' s)"
    unfolding OZTravServiceProcessor_process_def
    by (rule process_message_ends)
      (simp add: OZTravServiceProcessor_process_fn_def process_next_kv_def process_call_ends
        unknown_method_ends args_fueled)
qed

text \<open>The traversal server does not survive any input: a request for a negative position, which any
  client can send, reads before the table of records.\<close>

theorem negative_position_undefined:
  assumes "trav_inv st rs path" and "acur < 0" and "int32 acur"
  shows "OZTravServiceProcessor_process app (trav_iface True alloc) (w, st) (send_next_kv acur @ s) = None"
proof -
  have "0 \<le> tnrecs (ot st)"
    using assms(1) by (simp add: trav_inv_def holds_trav_def)
  then have "next_kv True alloc w st x acur = None" for x
    using assms(2) by (simp add: next_kv_def negative_cur_undefined)
  moreover have "OZTravServiceProcessor_process app (trav_iface True alloc) (w, st) (send_next_kv acur @ s) =
      OZTravServiceProcessor_process_fn app (trav_iface True alloc) ''next_kv'' 0 (w, st)
        (OZTravService_next_kv_pargs_write acur @ s)"
    unfolding OZTravServiceProcessor_process_def send_next_kv_def
    by (rule process_call_message) (simp add: short_def)
  ultimately show ?thesis
    by (simp add: OZTravServiceProcessor_process_fn_def process_next_kv_def process_call_def next_kv_call_def
        trav_iface_def next_kv_args.round_trip [OF assms(3)])
qed

lemma negative_position_undefined_witness:
  "OZTravServiceProcessor_process ex_app (trav_iface True (\<lambda>_ _. True))
    (ex_world, \<lparr>ot = ex_trav, tcur = oztrav_cursor_init\<rparr>) (send_next_kv (- 1) @ []) = None"
proof -
  have "trav_inv \<lparr>ot = ex_trav, tcur = oztrav_cursor_init\<rparr> ex_recs (value_path ''db'')"
    using ex_holds_trav cursor_inv_init by (simp add: trav_inv_def)
  then show ?thesis
    by (rule negative_position_undefined) (simp_all add: int32_def)
qed

end
