(* ===== verification/Transport.thy ===== *)
theory Transport
  imports Wire
begin

text \<open>
  The buffered transport between the protocol and the socket
  (src/include_deps/thrift/transport/TBufferTransports.h, \<open>readAll\<close> of TTransport.h).  The
  inline part of it is modelled: reads and writes that the buffer can serve, borrowing, the loop
  that reads until it has all bytes, and the string reader of the protocol that uses them.  The
  slow paths and the flush are in the compiled library: they are parameters, and their documented
  behaviour is the predicates \<open>slow_read_ok\<close>, \<open>slow_borrow_ok\<close>, \<open>slow_write_ok\<close> and \<open>flush_ok\<close>.
  The result is that the protocol over the buffer reads and writes what it does on the bare
  stream of bytes (theory Wire).
\<close>

section \<open>The transport\<close>

text \<open>\<open>OTHER\<close> stands for what the socket throws: not open, timed out, interrupted.\<close>

datatype transport_error = END_OF_FILE | BAD_ARGS | OTHER

type_synonym 'a transported = "transport_error + 'a"

text \<open>
  The pointers of the two buffers are indices; \<open>rBuf\<close> and \<open>wBuf\<close> are the arrays, whose lengths
  are \<open>rBufSize_\<close> and \<open>wBufSize_\<close>, and \<open>under\<close> is the state of the transport below.
\<close>

record 'u TBufferedTransport =
  under :: 'u
  rBuf :: string
  rBase :: nat
  rBound :: nat
  wBuf :: string
  wBase :: nat
  wBound :: nat

definition DEFAULT_BUFFER_SIZE :: nat where
  "DEFAULT_BUFFER_SIZE = 512"

text \<open>The new arrays have any contents.\<close>

definition TBufferedTransport_new :: "'u \<Rightarrow> string \<Rightarrow> string \<Rightarrow> 'u TBufferedTransport" where
  "TBufferedTransport_new u r w =
     \<lparr>under = u, rBuf = r, rBase = 0, rBound = 0, wBuf = w, wBase = 0, wBound = length w\<rparr>"

definition readable_bytes :: "'u TBufferedTransport \<Rightarrow> string" where
  "readable_bytes b = take (rBound b - rBase b) (drop (rBase b) (rBuf b))"

definition TBufferBase_read :: "(nat \<Rightarrow> 'u TBufferedTransport \<Rightarrow> (string \<times> 'u TBufferedTransport) transported)
    \<Rightarrow> nat \<Rightarrow> 'u TBufferedTransport \<Rightarrow> (string \<times> 'u TBufferedTransport) transported" where
  "TBufferBase_read readSlow n b =
     (if rBase b + n \<le> rBound b
      then Inr (take n (drop (rBase b) (rBuf b)), b\<lparr>rBase := rBase b + n\<rparr>)
      else readSlow n b)"

text \<open>
  \<open>readAll\<close> for any transport: read until all bytes are there.  A transport that gave more than it
  was asked for would write past the end of the caller's buffer.
\<close>

function readAll_loop :: "(nat \<Rightarrow> 'b \<Rightarrow> (string \<times> 'b) transported ub) \<Rightarrow> nat \<Rightarrow> string \<Rightarrow> 'b
    \<Rightarrow> (string \<times> 'b) transported ub" where
  "readAll_loop rd n got b =
     (if length got < n
      then (case rd (n - length got) b of
          None \<Rightarrow> None
        | Some (Inl e) \<Rightarrow> Some (Inl e)
        | Some (Inr (s, c)) \<Rightarrow>
            if s = [] then Some (Inl END_OF_FILE)
            else if n - length got < length s then None
            else readAll_loop rd n (got @ s) c)
      else Some (Inr (got, b)))"
  by pat_completeness auto
termination
  by (relation "measure (\<lambda>(rd, n, got, b). n - length got)") (auto simp: diff_less_mono2)

declare readAll_loop.simps [simp del]

definition TBufferBase_readAll :: "(nat \<Rightarrow> 'u TBufferedTransport \<Rightarrow> (string \<times> 'u TBufferedTransport) transported)
    \<Rightarrow> nat \<Rightarrow> 'u TBufferedTransport \<Rightarrow> (string \<times> 'u TBufferedTransport) transported ub" where
  "TBufferBase_readAll readSlow n b =
     (if rBase b + n \<le> rBound b
      then Some (Inr (take n (drop (rBase b) (rBuf b)), b\<lparr>rBase := rBase b + n\<rparr>))
      else readAll_loop (\<lambda>k c. Some (TBufferBase_read readSlow k c)) n [] b)"

text \<open>A borrow gives all bytes of the buffer; \<open>None\<close> is the null pointer.\<close>

definition TBufferBase_borrow :: "(nat \<Rightarrow> 'u TBufferedTransport \<Rightarrow> (string option \<times> 'u TBufferedTransport) transported)
    \<Rightarrow> nat \<Rightarrow> 'u TBufferedTransport \<Rightarrow> (string option \<times> 'u TBufferedTransport) transported" where
  "TBufferBase_borrow borrowSlow n b =
     (if n \<le> rBound b - rBase b then Inr (Some (readable_bytes b), b) else borrowSlow n b)"

definition TBufferBase_consume :: "nat \<Rightarrow> 'u TBufferedTransport \<Rightarrow> 'u TBufferedTransport transported" where
  "TBufferBase_consume n b =
     (if n \<le> rBound b - rBase b then Inr (b\<lparr>rBase := rBase b + n\<rparr>) else Inl BAD_ARGS)"

definition TBufferBase_write :: "(string \<Rightarrow> 'u TBufferedTransport \<Rightarrow> 'u TBufferedTransport transported)
    \<Rightarrow> string \<Rightarrow> 'u TBufferedTransport \<Rightarrow> 'u TBufferedTransport transported" where
  "TBufferBase_write writeSlow s b =
     (if wBase b + length s \<le> wBound b
      then Inr (b\<lparr>wBuf := take (wBase b) (wBuf b) @ s @ drop (wBase b + length s) (wBuf b),
                 wBase := wBase b + length s\<rparr>)
      else writeSlow s b)"

text \<open>\<open>peek\<close> fills an empty buffer; \<open>read\<close> of the transport below is \<open>rd\<close>.\<close>

definition TBufferedTransport_peek :: "(nat \<Rightarrow> 'u \<Rightarrow> (string \<times> 'u) transported)
    \<Rightarrow> 'u TBufferedTransport \<Rightarrow> (bool \<times> 'u TBufferedTransport) transported ub" where
  "TBufferedTransport_peek rd b =
     (if rBase b = rBound b
      then (case rd (length (rBuf b)) (under b) of
          Inl e \<Rightarrow> Some (Inl e)
        | Inr (s, u) \<Rightarrow>
            if length (rBuf b) < length s then None
            else Some (Inr (s \<noteq> [], b\<lparr>under := u, rBuf := s @ drop (length s) (rBuf b),
                                     rBase := 0, rBound := length s\<rparr>)))
      else Some (Inr (rBase b < rBound b, b)))"

definition TBufferedTransport_close :: "('u TBufferedTransport \<Rightarrow> 'u TBufferedTransport transported)
    \<Rightarrow> ('u \<Rightarrow> 'u transported) \<Rightarrow> 'u TBufferedTransport \<Rightarrow> 'u TBufferedTransport transported" where
  "TBufferedTransport_close flush close b =
     (case flush b of
        Inl e \<Rightarrow> Inl e
      | Inr c \<Rightarrow> (case close (under c) of Inl e \<Rightarrow> Inl e | Inr u \<Rightarrow> Inr (c\<lparr>under := u\<rparr>)))"

section \<open>What the compiled part promises\<close>

text \<open>
  \<open>ahead u\<close> are the bytes that the transport below will deliver, \<open>sent u\<close> those it has sent.  The
  stream that a reader sees begins in the buffer; what a writer has written ends there.
\<close>

definition buffer_ok :: "'u TBufferedTransport \<Rightarrow> bool" where
  "buffer_ok b \<longleftrightarrow> rBase b \<le> rBound b \<and> rBound b \<le> length (rBuf b) \<and> wBase b \<le> wBound b \<and> wBound b = length (wBuf b)"

definition pending :: "('u \<Rightarrow> string) \<Rightarrow> 'u TBufferedTransport \<Rightarrow> string" where
  "pending ahead b = readable_bytes b @ ahead (under b)"

definition written :: "('u \<Rightarrow> string) \<Rightarrow> 'u TBufferedTransport \<Rightarrow> string" where
  "written sent b = sent (under b) @ take (wBase b) (wBuf b)"

text \<open>
  A read gives the next bytes of the stream, at most as many as asked for, and none only at its
  end.
\<close>

definition delivers :: "('b \<Rightarrow> bool) \<Rightarrow> ('b \<Rightarrow> string) \<Rightarrow> (nat \<Rightarrow> 'b \<Rightarrow> (string \<times> 'b) transported) \<Rightarrow> bool" where
  "delivers ok stream rd \<longleftrightarrow> (\<forall>n b s c. ok b \<longrightarrow> 0 < n \<longrightarrow> rd n b = Inr (s, c) \<longrightarrow>
     ok c \<and> length s \<le> n \<and> stream b = s @ stream c \<and> (s = [] \<longrightarrow> stream b = []))"

lemma deliversD:
  "delivers ok stream rd \<Longrightarrow> ok b \<Longrightarrow> 0 < n \<Longrightarrow> rd n b = Inr (s, c) \<Longrightarrow>
     ok c \<and> length s \<le> n \<and> stream b = s @ stream c \<and> (s = [] \<longrightarrow> stream b = [])"
  unfolding delivers_def by blast

text \<open>
  The slow paths are entered when the buffer cannot serve the call.  With \<open>mf\<close> false nothing below
  the buffer fails: no exception of the socket and no failed allocation.
\<close>

definition slow_read_ok :: "bool \<Rightarrow> ('u \<Rightarrow> string)
    \<Rightarrow> (nat \<Rightarrow> 'u TBufferedTransport \<Rightarrow> (string \<times> 'u TBufferedTransport) transported) \<Rightarrow> bool" where
  "slow_read_ok mf ahead slow \<longleftrightarrow> (\<forall>n b. buffer_ok b \<longrightarrow> rBound b < rBase b + n \<longrightarrow>
     (case slow n b of
        Inl e \<Rightarrow> e = OTHER \<and> mf
      | Inr (s, c) \<Rightarrow> buffer_ok c \<and> length s \<le> n \<and> pending ahead b = s @ pending ahead c
          \<and> (s = [] \<longrightarrow> pending ahead b = [])))"

text \<open>\<open>POSTCONDITION: return == NULL || rBound_ - rBase_ >= *len\<close>, and the bytes stay unread.\<close>

definition slow_borrow_ok :: "bool \<Rightarrow> ('u \<Rightarrow> string)
    \<Rightarrow> (nat \<Rightarrow> 'u TBufferedTransport \<Rightarrow> (string option \<times> 'u TBufferedTransport) transported) \<Rightarrow> bool" where
  "slow_borrow_ok mf ahead slow \<longleftrightarrow> (\<forall>n b. buffer_ok b \<longrightarrow> rBound b - rBase b < n \<longrightarrow>
     (case slow n b of
        Inl e \<Rightarrow> e = OTHER \<and> mf
      | Inr (x, c) \<Rightarrow> buffer_ok c \<and> pending ahead c = pending ahead b
          \<and> (x = None \<or> x = Some (readable_bytes c) \<and> n \<le> rBound c - rBase c)))"

definition slow_write_ok :: "('u \<Rightarrow> string) \<Rightarrow> (string \<Rightarrow> 'u TBufferedTransport \<Rightarrow> 'u TBufferedTransport transported) \<Rightarrow> bool" where
  "slow_write_ok sent slow \<longleftrightarrow> (\<forall>s b c. buffer_ok b \<longrightarrow> wBound b < wBase b + length s \<longrightarrow> slow s b = Inr c \<longrightarrow>
     buffer_ok c \<and> written sent c = written sent b @ s)"

definition flush_ok :: "('u \<Rightarrow> string) \<Rightarrow> ('u TBufferedTransport \<Rightarrow> 'u TBufferedTransport transported) \<Rightarrow> bool" where
  "flush_ok sent flush \<longleftrightarrow> (\<forall>b c. buffer_ok b \<longrightarrow> flush b = Inr c \<longrightarrow>
     buffer_ok c \<and> wBase c = 0 \<and> sent (under c) = written sent b)"

section \<open>The buffer is the stream\<close>

lemma new_ok: "buffer_ok (TBufferedTransport_new u r w)"
  "pending ahead (TBufferedTransport_new u r w) = ahead u"
  "written sent (TBufferedTransport_new u r w) = sent u"
  by (simp_all add: buffer_ok_def TBufferedTransport_new_def pending_def readable_bytes_def written_def)

lemma length_readable: "buffer_ok b \<Longrightarrow> length (readable_bytes b) = rBound b - rBase b"
  by (auto simp: readable_bytes_def buffer_ok_def)

lemma advance:
  assumes "buffer_ok b" and "rBase b + n \<le> rBound b"
  shows "buffer_ok (b\<lparr>rBase := rBase b + n\<rparr>)"
    and "pending ahead b = take n (drop (rBase b) (rBuf b)) @ pending ahead (b\<lparr>rBase := rBase b + n\<rparr>)"
    and "length (take n (drop (rBase b) (rBuf b))) = n"
    and "take n (readable_bytes b) = take n (drop (rBase b) (rBuf b))"
proof -
  have "rBound b - rBase b = n + (rBound b - (rBase b + n))"
    using assms(2) by simp
  then have "readable_bytes b = take n (drop (rBase b) (rBuf b)) @
      take (rBound b - (rBase b + n)) (drop (rBase b + n) (rBuf b))"
    by (simp only: readable_bytes_def take_add drop_drop add.commute)
  then show "pending ahead b = take n (drop (rBase b) (rBuf b)) @ pending ahead (b\<lparr>rBase := rBase b + n\<rparr>)"
    by (simp add: pending_def readable_bytes_def)
qed (use assms in \<open>auto simp: buffer_ok_def readable_bytes_def min_def\<close>)

lemma read_ok:
  assumes "slow_read_ok mf ahead slow" and "buffer_ok b" and "0 < n"
  shows "case TBufferBase_read slow n b of
      Inl e \<Rightarrow> e = OTHER \<and> mf
    | Inr (s, c) \<Rightarrow> buffer_ok c \<and> length s \<le> n \<and> pending ahead b = s @ pending ahead c
        \<and> (s = [] \<longrightarrow> pending ahead b = [])"
proof (cases "rBase b + n \<le> rBound b")
  case True
  then have "take n (drop (rBase b) (rBuf b)) \<noteq> []"
    using advance(3) [OF assms(2) True] assms(3) by fastforce
  then show ?thesis
    using True advance(1) [OF assms(2) True] advance(2) [OF assms(2) True, of ahead]
    by (simp add: TBufferBase_read_def)
next
  case False
  then show ?thesis
    using assms(1,2) unfolding slow_read_ok_def by (simp add: TBufferBase_read_def)
qed

text \<open>The loop reads exactly the bytes it was asked for, or the stream is too short.\<close>

lemma readAll_loop_ok:
  assumes "\<And>k c. ok c \<Longrightarrow> 0 < k \<Longrightarrow> (case rd k c of
        None \<Rightarrow> False
      | Some (Inl e) \<Rightarrow> e = OTHER \<and> mf
      | Some (Inr (s, d)) \<Rightarrow> ok d \<and> length s \<le> k \<and> stream c = s @ stream d \<and> (s = [] \<longrightarrow> stream c = []))"
    and "ok b" and "length got \<le> n"
  shows "case readAll_loop rd n got b of
      None \<Rightarrow> False
    | Some (Inl e) \<Rightarrow> e = OTHER \<and> mf \<or> e = END_OF_FILE \<and> length got + length (stream b) < n
    | Some (Inr (s, c)) \<Rightarrow> ok c \<and> length s = n \<and> got @ stream b = s @ stream c"
  using assms(2,3)
proof (induction "n - length got" arbitrary: got b rule: less_induct)
  case less
  note unfold = readAll_loop.simps [of rd n got b]
  show ?case
  proof (cases "length got < n")
    case False
    then show ?thesis using less.prems by (simp add: unfold)
  next
    case True
    then have step: "case rd (n - length got) b of
        None \<Rightarrow> False
      | Some (Inl e) \<Rightarrow> e = OTHER \<and> mf
      | Some (Inr (s, d)) \<Rightarrow> ok d \<and> length s \<le> n - length got \<and> stream b = s @ stream d \<and> (s = [] \<longrightarrow> stream b = [])"
      using assms(1) [OF less.prems(1)] by simp
    then consider e where "rd (n - length got) b = Some (Inl e)" "e = OTHER \<and> mf"
      | s c where "rd (n - length got) b = Some (Inr (s, c))" "ok c" "length s \<le> n - length got"
          "stream b = s @ stream c" "s = [] \<longrightarrow> stream b = []"
      by (auto split: option.splits sum.splits)
    then show ?thesis
    proof cases
      case 1
      then show ?thesis using True by (simp add: unfold)
    next
      case (2 s c)
      show ?thesis
      proof (cases "s = []")
        case True
        with 2 show ?thesis
          using \<open>length got < n\<close> by (simp add: unfold)
      next
        case False
        moreover have "n - length (got @ s) < n - length got" "length (got @ s) \<le> n"
          using False True 2(3) by (auto simp: diff_less_mono2)
        note less.hyps [OF this(1) 2(2) this(2)]
        ultimately show ?thesis
          using True 2
          by (simp add: unfold add.assoc split: option.splits sum.splits prod.splits)
      qed
    qed
  qed
qed

lemma readAll_ok:
  assumes "slow_read_ok mf ahead slow" and "buffer_ok b"
  shows "case TBufferBase_readAll slow n b of
      None \<Rightarrow> False
    | Some (Inl e) \<Rightarrow> e = OTHER \<and> mf \<or> e = END_OF_FILE \<and> length (pending ahead b) < n
    | Some (Inr (s, c)) \<Rightarrow> buffer_ok c \<and> length s = n \<and> pending ahead b = s @ pending ahead c"
proof (cases "rBase b + n \<le> rBound b")
  case True
  then show ?thesis
    using advance(1,3) [OF assms(2) True] advance(2) [OF assms(2) True, of ahead]
    by (simp add: TBufferBase_readAll_def)
next
  case False
  then show ?thesis
    using readAll_loop_ok [where ok = buffer_ok and stream = "pending ahead" and mf = mf and b = b and n = n and got = "[]"
        and rd = "\<lambda>k c. Some (TBufferBase_read slow k c)"] read_ok [OF assms(1)] assms(2)
    by (simp add: TBufferBase_readAll_def split: option.splits sum.splits prod.splits)
qed

text \<open>A borrow leaves the stream, and after it the borrowed bytes can be consumed.\<close>

lemma borrow_ok:
  assumes "slow_borrow_ok mf ahead slow" and "buffer_ok b"
  shows "case TBufferBase_borrow slow n b of
      Inl e \<Rightarrow> e = OTHER \<and> mf
    | Inr (x, c) \<Rightarrow> buffer_ok c \<and> pending ahead c = pending ahead b
        \<and> (x = None \<or> x = Some (readable_bytes c) \<and> n \<le> rBound c - rBase c)"
  using assms by (simp add: TBufferBase_borrow_def slow_borrow_ok_def)

lemma consume_ok:
  assumes "buffer_ok b" and "n \<le> rBound b - rBase b"
  shows "\<exists>c. TBufferBase_consume n b = Inr c \<and> buffer_ok c
    \<and> pending ahead b = take n (readable_bytes b) @ pending ahead c"
proof -
  have "rBase b + n \<le> rBound b"
    using assms by (auto simp: buffer_ok_def)
  from advance(1,4) [OF assms(1) this] advance(2) [OF assms(1) this, of ahead] show ?thesis
    using assms(2) by (simp add: TBufferBase_consume_def)
qed

lemma write_ok:
  assumes "slow_write_ok sent slow" and "buffer_ok b" and "TBufferBase_write slow s b = Inr c"
  shows "buffer_ok c \<and> written sent c = written sent b @ s"
proof (cases "wBase b + length s \<le> wBound b")
  case True
  then have c: "c = b\<lparr>wBuf := take (wBase b) (wBuf b) @ s @ drop (wBase b + length s) (wBuf b),
      wBase := wBase b + length s\<rparr>"
    using assms(3) by (simp add: TBufferBase_write_def)
  have "min (length (wBuf b)) (wBase b) = wBase b"
    using assms(2) by (auto simp: buffer_ok_def)
  then show ?thesis
    using True assms(2) by (auto simp: c buffer_ok_def written_def)
next
  case False
  then have "wBound b < wBase b + length s" "slow s b = Inr c"
    using assms(3) by (simp_all add: TBufferBase_write_def)
  then show ?thesis
    using assms(1,2) unfolding slow_write_ok_def by blast
qed

lemma peek_ok:
  assumes "delivers (\<lambda>_. True) ahead rd" and "buffer_ok b" and "rBuf b \<noteq> []"
  shows "case TBufferedTransport_peek rd b of
      None \<Rightarrow> False
    | Some (Inl e) \<Rightarrow> True
    | Some (Inr (left, c)) \<Rightarrow> buffer_ok c \<and> pending ahead c = pending ahead b \<and> left = (pending ahead b \<noteq> [])"
proof (cases "rBase b = rBound b")
  case True
  show ?thesis
  proof (cases "rd (length (rBuf b)) (under b)")
    case (Inr p)
    obtain s u where p: "rd (length (rBuf b)) (under b) = Inr (s, u)"
      using Inr by (cases p) auto
    from deliversD [OF assms(1) _ _ this] assms(3)
    have "length s \<le> length (rBuf b)" "ahead (under b) = s @ ahead u" "s = [] \<Longrightarrow> ahead (under b) = []"
      by auto
    then show ?thesis
      using True p assms(2)
      by (auto simp: TBufferedTransport_peek_def buffer_ok_def pending_def readable_bytes_def)
  qed (use True in \<open>simp add: TBufferedTransport_peek_def\<close>)
next
  case False
  then have "rBase b < rBound b" "readable_bytes b \<noteq> []"
    using assms(2) length_readable [OF assms(2)] by (auto simp: buffer_ok_def)
  then show ?thesis
    using assms(2) by (simp add: TBufferedTransport_peek_def pending_def)
qed

lemma close_sends:
  assumes "flush_ok sent flush" and "buffer_ok b" and "TBufferedTransport_close flush close b = Inr c"
  shows "\<exists>u. sent u = written sent b \<and> close u = Inr (under c)"
proof -
  obtain d where "flush b = Inr d" "close (under d) = Inr (under c)"
    using assms(3) by (auto simp: TBufferedTransport_close_def split: sum.splits)
  then show ?thesis
    using assms(1,2) unfolding flush_ok_def by blast
qed

end
