(* ===== verification/OverBuffer.thy ===== *)
theory OverBuffer
  imports Transport
begin

text \<open>
  The binary protocol as it is written: a template over its transport
  (src/include_deps/thrift/protocol/TBinaryProtocol.tcc).  The readers call \<open>readAll\<close>; a string
  is borrowed from the buffer of the transport when it is there, and otherwise read into a buffer
  that the protocol object keeps.  Each reader is shown to read what the reader of theory Wire
  reads from the bare stream.
\<close>

section \<open>Readers over a transport\<close>

text \<open>The operations of a transport that the readers call.\<close>

record 'b transport_ops =
  op_readAll :: "nat \<Rightarrow> 'b \<Rightarrow> (string \<times> 'b) transported ub"
  op_borrow :: "nat \<Rightarrow> 'b \<Rightarrow> (string option \<times> 'b) transported ub"
  op_consume :: "nat \<Rightarrow> 'b \<Rightarrow> 'b transported"

definition buffered_ops :: "(nat \<Rightarrow> 'u TBufferedTransport \<Rightarrow> (string \<times> 'u TBufferedTransport) transported)
    \<Rightarrow> (nat \<Rightarrow> 'u TBufferedTransport \<Rightarrow> (string option \<times> 'u TBufferedTransport) transported)
    \<Rightarrow> 'u TBufferedTransport transport_ops" where
  "buffered_ops readSlow borrowSlow =
     \<lparr>op_readAll = TBufferBase_readAll readSlow, op_borrow = (\<lambda>n b. Some (TBufferBase_borrow borrowSlow n b)),
      op_consume = TBufferBase_consume\<rparr>"

text \<open>
  The protocol object with its transport.  \<open>string_buf\<close> is null or a block of that many bytes;
  its contents are written before they are read.  \<open>grow n\<close> says whether \<open>realloc\<close> to \<open>n\<close> bytes
  succeeds.
\<close>

record 'b protocol_object =
  trans_of :: 'b
  string_buf :: "nat option"
  string_buf_size :: i32

record 'b reader_env =
  ops :: "'b transport_ops"
  grow :: "nat \<Rightarrow> bool"
  limits :: proto

datatype protocol_exception = Protocol proto_error | Transport transport_error | bad_alloc

type_synonym ('a, 'b) over = "'b protocol_object \<Rightarrow> (protocol_exception + 'a \<times> 'b protocol_object) ub"

definition protocol_object_new :: "'b \<Rightarrow> 'b protocol_object" where
  "protocol_object_new b = \<lparr>trans_of = b, string_buf = None, string_buf_size = 0\<rparr>"

definition oret :: "'a \<Rightarrow> ('a, 'b) over" where
  "oret x c = Some (Inr (x, c))"

definition othrow :: "protocol_exception \<Rightarrow> ('a, 'b) over" where
  "othrow e c = Some (Inl e)"

definition obind :: "('a, 'b) over \<Rightarrow> ('a \<Rightarrow> ('d, 'b) over) \<Rightarrow> ('d, 'b) over" where
  "obind r f c = (case r c of
     None \<Rightarrow> None
   | Some (Inl e) \<Rightarrow> Some (Inl e)
   | Some (Inr (x, d)) \<Rightarrow> f x d)"

definition over_readAll :: "'b reader_env \<Rightarrow> nat \<Rightarrow> (string, 'b) over" where
  "over_readAll E n c = (case op_readAll (ops E) n (trans_of c) of
     None \<Rightarrow> None
   | Some (Inl e) \<Rightarrow> Some (Inl (Transport e))
   | Some (Inr (s, b)) \<Rightarrow> Some (Inr (s, c\<lparr>trans_of := b\<rparr>)))"

definition over_readByte :: "'b reader_env \<Rightarrow> (i8, 'b) over" where
  "over_readByte E = obind (over_readAll E 1) (\<lambda>b. oret (of_nat (be_read b)))"

definition over_readBool :: "'b reader_env \<Rightarrow> (bool, 'b) over" where
  "over_readBool E = obind (over_readAll E 1) (\<lambda>b. oret (be_read b \<noteq> 0))"

definition over_readI16 :: "'b reader_env \<Rightarrow> (i16, 'b) over" where
  "over_readI16 E = obind (over_readAll E 2) (\<lambda>b. oret (of_nat (be_read b)))"

definition over_readI32 :: "'b reader_env \<Rightarrow> (i32, 'b) over" where
  "over_readI32 E = obind (over_readAll E 4) (\<lambda>b. oret (of_nat (be_read b)))"

definition over_readI64 :: "'b reader_env \<Rightarrow> (i64, 'b) over" where
  "over_readI64 E = obind (over_readAll E 8) (\<lambda>b. oret (of_nat (be_read b)))"

definition over_readDouble :: "'b reader_env \<Rightarrow> (i64, 'b) over" where
  "over_readDouble E = obind (over_readAll E 8) (\<lambda>b. oret (of_nat (be_read b)))"

text \<open>
  The body of a string.  Taking more than the borrowed bytes, or reading more than the string
  buffer has room for, would be undefined.
\<close>

definition borrow_string :: "'b reader_env \<Rightarrow> nat \<Rightarrow> (string option, 'b) over" where
  "borrow_string E n c = (case op_borrow (ops E) n (trans_of c) of
     None \<Rightarrow> None
   | Some (Inl e) \<Rightarrow> Some (Inl (Transport e))
   | Some (Inr (None, b)) \<Rightarrow> Some (Inr (None, c\<lparr>trans_of := b\<rparr>))
   | Some (Inr (Some s, b)) \<Rightarrow>
       if length s < n then None
       else (case op_consume (ops E) n b of
           Inl e \<Rightarrow> Some (Inl (Transport e))
         | Inr b1 \<Rightarrow> Some (Inr (Some (take n s), c\<lparr>trans_of := b1\<rparr>))))"

definition grow_string_buf :: "'b reader_env \<Rightarrow> i32 \<Rightarrow> (unit, 'b) over" where
  "grow_string_buf E sz c =
     (if sint (string_buf_size c) < sint sz \<or> string_buf c = None
      then if grow E (unat sz)
           then Some (Inr ((), c\<lparr>string_buf := Some (unat sz), string_buf_size := sz\<rparr>))
           else Some (Inl bad_alloc)
      else Some (Inr ((), c)))"

definition read_string_buf :: "'b reader_env \<Rightarrow> nat \<Rightarrow> (string, 'b) over" where
  "read_string_buf E n c = (case string_buf c of
     None \<Rightarrow> None
   | Some m \<Rightarrow> if m < n then None else over_readAll E n c)"

definition over_readStringBody :: "'b reader_env \<Rightarrow> i32 \<Rightarrow> (string, 'b) over" where
  "over_readStringBody E sz =
     (if sint sz < 0 then othrow (Protocol NegativeSize)
      else if 0 < sint (string_limit (limits E)) \<and> sint (string_limit (limits E)) < sint sz
        then othrow (Protocol SizeLimit)
      else if sz = 0 then oret []
      else obind (borrow_string E (unat sz)) (\<lambda>x. case x of
          Some str \<Rightarrow> oret str
        | None \<Rightarrow> obind (grow_string_buf E sz) (\<lambda>_. read_string_buf E (unat sz))))"

definition over_readString :: "'b reader_env \<Rightarrow> (string, 'b) over" where
  "over_readString E = obind (over_readI32 E) (over_readStringBody E)"

definition over_readFieldBegin :: "'b reader_env \<Rightarrow> (ttype \<times> i16, 'b) over" where
  "over_readFieldBegin E = obind (over_readByte E) (\<lambda>t. if t = T_STOP then oret (T_STOP, 0)
     else obind (over_readI16 E) (\<lambda>fid. oret (t, fid)))"

definition over_container_size :: "'b reader_env \<Rightarrow> (i32, 'b) over" where
  "over_container_size E = obind (over_readI32 E) (\<lambda>size.
     if sint size < 0 then othrow (Protocol NegativeSize)
     else if container_limit (limits E) \<noteq> 0 \<and> sint (container_limit (limits E)) < sint size
       then othrow (Protocol SizeLimit)
     else oret size)"

definition over_readListBegin :: "'b reader_env \<Rightarrow> (ttype \<times> u32, 'b) over" where
  "over_readListBegin E = obind (over_readByte E) (\<lambda>e. obind (over_container_size E) (\<lambda>size. oret (e, size)))"

definition over_readSetBegin :: "'b reader_env \<Rightarrow> (ttype \<times> u32, 'b) over" where
  "over_readSetBegin E = obind (over_readByte E) (\<lambda>e. obind (over_container_size E) (\<lambda>size. oret (e, size)))"

definition over_readMapBegin :: "'b reader_env \<Rightarrow> (ttype \<times> ttype \<times> u32, 'b) over" where
  "over_readMapBegin E = obind (over_readByte E) (\<lambda>k. obind (over_readByte E) (\<lambda>v.
     obind (over_container_size E) (\<lambda>size. oret (k, v, size))))"

definition over_readMessageBegin :: "'b reader_env \<Rightarrow> (string \<times> mtype \<times> i32, 'b) over" where
  "over_readMessageBegin E = obind (over_readI32 E) (\<lambda>sz.
     if sint sz < 0
     then if and sz VERSION_MASK \<noteq> VERSION_1 then othrow (Protocol BadVersion)
          else obind (over_readString E) (\<lambda>name. obind (over_readI32 E) (\<lambda>seqid.
            oret (name, ucast (and sz 0xff), seqid)))
     else if strict_read (limits E) then othrow (Protocol BadVersion)
     else obind (over_readStringBody E sz) (\<lambda>name. obind (over_readByte E) (\<lambda>t.
       obind (over_readI32 E) (\<lambda>seqid. oret (name, t, seqid)))))"

section \<open>They follow the readers of the stream\<close>

text \<open>
  What the readers need of a transport whose unread bytes are \<open>stream b\<close>: \<open>readAll\<close> takes exactly
  the bytes asked for or fails at the end, a borrow shows the bytes and leaves them, and what was
  borrowed can be consumed.  The socket and the allocator fail only if \<open>mf\<close> holds.
\<close>

definition env_ok :: "bool \<Rightarrow> ('b \<Rightarrow> bool) \<Rightarrow> ('b \<Rightarrow> string) \<Rightarrow> 'b reader_env \<Rightarrow> bool" where
  "env_ok mf ok stream E \<longleftrightarrow> (\<forall>n b. (mf \<or> grow E n) \<and> (ok b \<longrightarrow>
     (case op_readAll (ops E) n b of
        None \<Rightarrow> False
      | Some (Inl e) \<Rightarrow> e = OTHER \<and> mf \<or> e = END_OF_FILE \<and> length (stream b) < n
      | Some (Inr (s, c)) \<Rightarrow> ok c \<and> length s = n \<and> stream b = s @ stream c)
   \<and> (case op_borrow (ops E) n b of
        None \<Rightarrow> False
      | Some (Inl e) \<Rightarrow> e = OTHER \<and> mf
      | Some (Inr (None, c)) \<Rightarrow> ok c \<and> stream c = stream b
      | Some (Inr (Some s, c)) \<Rightarrow> n \<le> length s
          \<and> (\<exists>d. op_consume (ops E) n c = Inr d \<and> ok d \<and> stream b = take n s @ stream d))))"

definition string_buf_ok :: "'b protocol_object \<Rightarrow> bool" where
  "string_buf_ok c \<longleftrightarrow> (case string_buf c of None \<Rightarrow> True | Some m \<Rightarrow> sint (string_buf_size c) \<le> int m)"

fun agrees :: "bool \<Rightarrow> protocol_exception \<Rightarrow> proto_error + 'a \<Rightarrow> bool" where
  "agrees mf (Protocol p) r \<longleftrightarrow> r = Inl p"
| "agrees mf (Transport END_OF_FILE) r \<longleftrightarrow> r = Inl EndOfFile"
| "agrees mf (Transport BAD_ARGS) r \<longleftrightarrow> False"
| "agrees mf (Transport OTHER) r \<longleftrightarrow> mf"
| "agrees mf bad_alloc r \<longleftrightarrow> mf"

text \<open>
  \<open>follows mf ok stream R r\<close>: \<open>R\<close> takes no undefined step, and gives what \<open>r\<close> gives on the stream,
  unless the socket fails or memory runs out.
\<close>

definition follows :: "bool \<Rightarrow> ('b \<Rightarrow> bool) \<Rightarrow> ('b \<Rightarrow> string) \<Rightarrow> ('a, 'b) over \<Rightarrow> 'a reader \<Rightarrow> bool" where
  "follows mf ok stream R r \<longleftrightarrow> (\<forall>c. ok (trans_of c) \<longrightarrow> string_buf_ok c \<longrightarrow>
     (case R c of
        None \<Rightarrow> False
      | Some (Inl e) \<Rightarrow> agrees mf e (r (stream (trans_of c)))
      | Some (Inr (x, d)) \<Rightarrow> ok (trans_of d) \<and> string_buf_ok d \<and> r (stream (trans_of c)) = Inr (x, stream (trans_of d))))"

lemma string_buf_ok_trans [simp]: "string_buf_ok (c\<lparr>trans_of := b\<rparr>) = string_buf_ok c"
  by (simp add: string_buf_ok_def split: option.splits)

named_theorems follow_rules "readers over a transport that follow those of the stream"

lemma followsI:
  assumes "\<And>c. ok (trans_of c) \<Longrightarrow> string_buf_ok c \<Longrightarrow> (case R c of
        None \<Rightarrow> False
      | Some (Inl e) \<Rightarrow> agrees mf e (r (stream (trans_of c)))
      | Some (Inr (x, d)) \<Rightarrow> ok (trans_of d) \<and> string_buf_ok d \<and> r (stream (trans_of c)) = Inr (x, stream (trans_of d)))"
  shows "follows mf ok stream R r"
  using assms unfolding follows_def by blast

lemma followsD:
  assumes "follows mf ok stream R r" and "ok (trans_of c)" and "string_buf_ok c"
  obtains (error) e where "R c = Some (Inl e)" and "agrees mf e (r (stream (trans_of c)))"
  | (result) x d where "R c = Some (Inr (x, d))" and "ok (trans_of d)" and "string_buf_ok d"
      and "r (stream (trans_of c)) = Inr (x, stream (trans_of d))"
  using assms unfolding follows_def
  by (cases "R c"; cases "the (R c)") (auto split: prod.splits)

lemma follows_oret [follow_rules]: "follows mf ok stream (oret x) (ret x)"
  by (simp add: follows_def oret_def)

lemma follows_othrow [follow_rules]: "follows mf ok stream (othrow (Protocol e)) (fail e)"
  by (simp add: follows_def othrow_def)

lemma agrees_rbind: "agrees mf e (r s) \<Longrightarrow> agrees mf e (rbind r f s)"
  by (cases "(mf, e, r s)" rule: agrees.cases) (auto simp: rbind_def)

lemma follows_obind [follow_rules]:
  assumes "follows mf ok stream R r" and "\<And>x. follows mf ok stream (F x) (f x)"
  shows "follows mf ok stream (obind R F) (rbind r f)"
proof (rule followsI)
  fix c assume c: "ok (trans_of c)" "string_buf_ok c"
  show "case obind R F c of
        None \<Rightarrow> False
      | Some (Inl e) \<Rightarrow> agrees mf e (rbind r f (stream (trans_of c)))
      | Some (Inr (x, d)) \<Rightarrow> ok (trans_of d) \<and> string_buf_ok d
          \<and> rbind r f (stream (trans_of c)) = Inr (x, stream (trans_of d))"
  proof (rule followsD [OF assms(1) c])
    fix e assume "R c = Some (Inl e)" "agrees mf e (r (stream (trans_of c)))"
    then show ?thesis by (simp add: obind_def agrees_rbind)
  next
    fix x d assume "R c = Some (Inr (x, d))" "ok (trans_of d)" "string_buf_ok d"
      "r (stream (trans_of c)) = Inr (x, stream (trans_of d))"
    moreover from this have run: "rbind r f (stream (trans_of c)) = f x (stream (trans_of d))"
      by simp
    ultimately show ?thesis
      unfolding run using assms(2) [of x] by (simp add: obind_def follows_def)
  qed
qed

lemma follows_if [follow_rules]:
  "follows mf ok stream R r \<Longrightarrow> follows mf ok stream Q q \<Longrightarrow> follows mf ok stream (if b then R else Q) (if b then r else q)"
  by simp

lemma follows_readAll [follow_rules]:
  assumes "env_ok mf ok stream E"
  shows "follows mf ok stream (over_readAll E n) (readAll n)"
proof (rule followsI)
  fix c assume c: "ok (trans_of c)" "string_buf_ok c"
  have "case op_readAll (ops E) n (trans_of c) of
        None \<Rightarrow> False
      | Some (Inl e) \<Rightarrow> e = OTHER \<and> mf \<or> e = END_OF_FILE \<and> length (stream (trans_of c)) < n
      | Some (Inr (s, b)) \<Rightarrow> ok b \<and> length s = n \<and> stream (trans_of c) = s @ stream b"
    using assms c(1) unfolding env_ok_def by blast
  then show "case over_readAll E n c of
        None \<Rightarrow> False
      | Some (Inl e) \<Rightarrow> agrees mf e (readAll n (stream (trans_of c)))
      | Some (Inr (x, d)) \<Rightarrow> ok (trans_of d) \<and> string_buf_ok d
          \<and> readAll n (stream (trans_of c)) = Inr (x, stream (trans_of d))"
    using c(2)
    by (auto simp: over_readAll_def readAll_def string_buf_ok_def split: option.splits sum.splits prod.splits)
qed

lemma follows_int [follow_rules]:
  assumes "env_ok mf ok stream E"
  shows "follows mf ok stream (over_readByte E) readByte" "follows mf ok stream (over_readBool E) readBool"
    "follows mf ok stream (over_readI16 E) readI16" "follows mf ok stream (over_readI32 E) readI32"
    "follows mf ok stream (over_readI64 E) readI64" "follows mf ok stream (over_readDouble E) readDouble"
  unfolding over_readByte_def readByte_def over_readBool_def readBool_def over_readI16_def readI16_def
    over_readI32_def readI32_def over_readI64_def readI64_def over_readDouble_def readDouble_def
  by (intro follow_rules assms)+

text \<open>The two ways to read the body of a string.\<close>

lemma follows_string_buf:
  assumes "env_ok mf ok stream E" and "0 < sint sz"
  shows "follows mf ok stream (obind (grow_string_buf E sz) (\<lambda>_. read_string_buf E (unat sz))) (readAll (unat sz))"
proof (rule followsI)
  fix c assume c: "ok (trans_of c)" "string_buf_ok c"
  have n: "unat sz = nat (sint sz)"
    using assms(2) uint_sint_nonneg [of sz] by (simp flip: nat_uint_eq)
  show "case obind (grow_string_buf E sz) (\<lambda>_. read_string_buf E (unat sz)) c of
        None \<Rightarrow> False
      | Some (Inl e) \<Rightarrow> agrees mf e (readAll (unat sz) (stream (trans_of c)))
      | Some (Inr (x, d)) \<Rightarrow> ok (trans_of d) \<and> string_buf_ok d
          \<and> readAll (unat sz) (stream (trans_of c)) = Inr (x, stream (trans_of d))"
  proof (cases "grow_string_buf E sz c")
    case None
    then show ?thesis by (simp add: grow_string_buf_def split: if_splits)
  next
    case (Some r)
    show ?thesis
    proof (cases r)
      case (Inl e)
      have "mf \<or> grow E (unat sz)"
        using assms(1) unfolding env_ok_def by blast
      with Inl Some show ?thesis
        by (auto simp: grow_string_buf_def obind_def split: if_splits)
    next
      case (Inr p)
      then obtain d where d: "r = Inr ((), d)" by (cases p) auto
      with Some c(2) n obtain m where "string_buf d = Some m" "unat sz \<le> m" "string_buf_ok d"
          and t: "trans_of d = trans_of c"
        by (auto simp: grow_string_buf_def string_buf_ok_def split: if_splits option.splits)
      then show ?thesis
        using follows_readAll [OF assms(1), of "unat sz", unfolded follows_def, rule_format, of d] c(1) Some d
        unfolding t by (simp add: obind_def read_string_buf_def)
    qed
  qed
qed

lemma follows_borrow:
  assumes E: "env_ok mf ok stream E"
    and R: "follows mf ok stream R (readAll n)"
  shows "follows mf ok stream (obind (borrow_string E n) (\<lambda>x. case x of Some str \<Rightarrow> oret str | None \<Rightarrow> R)) (readAll n)"
    (is "follows mf ok stream ?R _")
proof (rule followsI)
  fix c assume c: "ok (trans_of c)" "string_buf_ok c"
  have b: "case op_borrow (ops E) n (trans_of c) of
        None \<Rightarrow> False
      | Some (Inl e) \<Rightarrow> e = OTHER \<and> mf
      | Some (Inr (None, b)) \<Rightarrow> ok b \<and> stream b = stream (trans_of c)
      | Some (Inr (Some s, b)) \<Rightarrow> n \<le> length s \<and> (\<exists>d. op_consume (ops E) n b = Inr d \<and> ok d
          \<and> stream (trans_of c) = take n s @ stream d)"
    using E c(1) unfolding env_ok_def by blast
  show "case ?R c of
        None \<Rightarrow> False
      | Some (Inl e) \<Rightarrow> agrees mf e (readAll n (stream (trans_of c)))
      | Some (Inr (x, d)) \<Rightarrow> ok (trans_of d) \<and> string_buf_ok d
          \<and> readAll n (stream (trans_of c)) = Inr (x, stream (trans_of d))"
  proof (cases "\<exists>e. op_borrow (ops E) n (trans_of c) = Some (Inl e)")
    case True
    with b show ?thesis by (auto simp: obind_def borrow_string_def)
  next
    case False
    with b obtain x d where p: "op_borrow (ops E) n (trans_of c) = Some (Inr (x, d))"
      by (cases "op_borrow (ops E) n (trans_of c)"; cases "the (op_borrow (ops E) n (trans_of c))") auto
    show ?thesis
    proof (cases x)
      case None
      then have d: "ok d" "stream (trans_of (c\<lparr>trans_of := d\<rparr>)) = stream (trans_of c)" "string_buf_ok (c\<lparr>trans_of := d\<rparr>)"
        using b c(2) p by simp_all
      show ?thesis
        using R [unfolded follows_def, rule_format, of "c\<lparr>trans_of := d\<rparr>"] p None d(1,3)
        unfolding d(2) by (simp add: obind_def borrow_string_def)
    next
      case (Some s)
      then show ?thesis
        using b c(2) p by (auto simp: obind_def borrow_string_def oret_def readAll_def)
    qed
  qed
qed

lemma follows_readStringBody [follow_rules]:
  assumes E: "env_ok mf ok stream E"
  shows "follows mf ok stream (over_readStringBody E sz) (readStringBody (limits E) sz)"
proof -
  have "0 < sint sz" if "\<not> sint sz < 0" "sz \<noteq> 0"
    using that by (metis linorder_cases signed_eq_0_iff)
  then show ?thesis
    using follows_borrow [OF E follows_string_buf [OF E]]
    unfolding over_readStringBody_def readStringBody_def by (auto intro: follow_rules)
qed

lemma follows_readString [follow_rules]:
  "env_ok mf ok stream E \<Longrightarrow> follows mf ok stream (over_readString E) (readString (limits E))"
  unfolding over_readString_def readString_def by (intro follow_rules)

lemma follows_container_size [follow_rules]:
  "env_ok mf ok stream E \<Longrightarrow> follows mf ok stream (over_container_size E) (container_size (limits E))"
  unfolding over_container_size_def container_size_def by (intro follow_rules)

lemma follows_begins [follow_rules]:
  assumes "env_ok mf ok stream E"
  shows "follows mf ok stream (over_readFieldBegin E) readFieldBegin"
    "follows mf ok stream (over_readListBegin E) (readListBegin (limits E))"
    "follows mf ok stream (over_readSetBegin E) (readSetBegin (limits E))"
    "follows mf ok stream (over_readMapBegin E) (readMapBegin (limits E))"
    "follows mf ok stream (over_readMessageBegin E) (readMessageBegin (limits E))"
  unfolding over_readFieldBegin_def readFieldBegin_def over_readListBegin_def readListBegin_def
    over_readSetBegin_def readSetBegin_def over_readMapBegin_def readMapBegin_def
    over_readMessageBegin_def readMessageBegin_def
  by (intro follow_rules assms)+

section \<open>The buffered transport\<close>

lemma buffered_borrow_ok:
  assumes "slow_borrow_ok mf ahead borrowSlow" and b: "buffer_ok b"
  shows "case TBufferBase_borrow borrowSlow n b of
        Inl e \<Rightarrow> e = OTHER \<and> mf
      | Inr (None, c) \<Rightarrow> buffer_ok c \<and> pending ahead c = pending ahead b
      | Inr (Some s, c) \<Rightarrow> n \<le> length s
          \<and> (\<exists>d. TBufferBase_consume n c = Inr d \<and> buffer_ok d \<and> pending ahead b = take n s @ pending ahead d)"
proof (cases "TBufferBase_borrow borrowSlow n b")
  case (Inl e)
  then show ?thesis
    using borrow_ok [OF assms, of n] by simp
next
  case (Inr p)
  obtain x c where p: "p = (x, c)" by force
  have c: "buffer_ok c" "pending ahead c = pending ahead b"
    "x = None \<or> x = Some (readable_bytes c) \<and> n \<le> rBound c - rBase c"
    using borrow_ok [OF assms, of n] Inr p by simp_all
  show ?thesis
  proof (cases x)
    case None
    then show ?thesis using Inr p c by simp
  next
    case (Some s)
    then have "s = readable_bytes c" "n \<le> rBound c - rBase c"
      using c(3) by simp_all
    then show ?thesis
      using consume_ok [OF c(1), of n ahead] length_readable [OF c(1)] Inr p c(2) Some by simp
  qed
qed

lemma buffered_env_ok:
  assumes "slow_read_ok mf ahead readSlow" and "slow_borrow_ok mf ahead borrowSlow"
    and "ops E = buffered_ops readSlow borrowSlow" and "mf \<or> (\<forall>n. grow E n)"
  shows "env_ok mf buffer_ok (pending ahead) E"
  using readAll_ok [OF assms(1)] buffered_borrow_ok [OF assms(2)] assms(4)
  unfolding env_ok_def assms(3) buffered_ops_def transport_ops.simps option.case by blast

section \<open>Writers over a transport\<close>

text \<open>The calls of \<open>write\<close> that a writer makes, in order, each with its bytes.\<close>

definition over_writeString :: "string \<Rightarrow> string list" where
  "over_writeString str = (let size = (of_nat (length str) :: u32) in
     writeI32 size # (if 0 < size then [take (unat size) str] else []))"

definition over_writeMessageBegin :: "proto \<Rightarrow> string \<Rightarrow> mtype \<Rightarrow> i32 \<Rightarrow> string list" where
  "over_writeMessageBegin p name messageType seqid =
     (if strict_write p
      then [writeI32 (or VERSION_1 (ucast messageType))] @ over_writeString name @ [writeI32 seqid]
      else over_writeString name @ [writeByte messageType] @ [writeI32 seqid])"

definition over_writeFieldBegin :: "ttype \<Rightarrow> i16 \<Rightarrow> string list" where
  "over_writeFieldBegin fieldType fieldId = [writeByte fieldType, writeI16 fieldId]"

definition over_writeListBegin :: "ttype \<Rightarrow> u32 \<Rightarrow> string list" where
  "over_writeListBegin elemType sz = [writeByte elemType, writeI32 sz]"

fun write_all :: "(string \<Rightarrow> 'u TBufferedTransport \<Rightarrow> 'u TBufferedTransport transported) \<Rightarrow> string list
    \<Rightarrow> 'u TBufferedTransport \<Rightarrow> 'u TBufferedTransport transported" where
  "write_all writeSlow [] b = Inr b"
| "write_all writeSlow (s # ss) b = (case TBufferBase_write writeSlow s b of
     Inl e \<Rightarrow> Inl e
   | Inr c \<Rightarrow> write_all writeSlow ss c)"

lemma concat_over_writeString: "concat (over_writeString str) = writeString str"
  by (simp add: over_writeString_def writeString_def Let_def word_neq_0_conv flip: word_neq_0_conv)

lemma concat_over_write:
  "concat (over_writeMessageBegin p name t seqid) = writeMessageBegin p name t seqid"
  "concat (over_writeFieldBegin t fid) = writeFieldBegin t fid"
  "concat (over_writeListBegin t n) = writeListBegin t n"
  by (simp_all add: over_writeMessageBegin_def writeMessageBegin_def concat_over_writeString
      over_writeFieldBegin_def writeFieldBegin_def over_writeListBegin_def writeListBegin_def)

lemma write_all_ok:
  "slow_write_ok sent slow \<Longrightarrow> buffer_ok b \<Longrightarrow> write_all slow ss b = Inr c \<Longrightarrow>
     buffer_ok c \<and> written sent c = written sent b @ concat ss"
proof (induction ss arbitrary: b)
  case (Cons s ss)
  then obtain d where "TBufferBase_write slow s b = Inr d" "write_all slow ss d = Inr c"
    by (auto split: sum.splits)
  with Cons write_ok [OF Cons.prems(1,2)] show ?case by fastforce
qed simp

text \<open>What was written and flushed is sent, in order, whatever the sizes of the writes and the buffer.\<close>

lemma flush_sends:
  assumes "slow_write_ok sent slow" and "flush_ok sent flush" and "buffer_ok b"
    and "write_all slow ss b = Inr c" and "flush c = Inr d"
  shows "sent (under d) = written sent b @ concat ss"
  using write_all_ok [OF assms(1,3,4)] assms(2,5) unfolding flush_ok_def by metis

end
