(* ===== verification/BufferProps.thy ===== *)
theory BufferProps
  imports OverBuffer
begin

text \<open>
  The properties of the buffered transport, with runs over a socket that delivers at most three
  bytes at a time.
\<close>

section \<open>A socket with short reads\<close>

text \<open>The bytes that will arrive and the bytes that were sent.\<close>

type_synonym ex_socket = "string \<times> string"

definition ex_readSlow :: "nat \<Rightarrow> ex_socket TBufferedTransport \<Rightarrow> (string \<times> ex_socket TBufferedTransport) transported" where
  "ex_readSlow n b = (let have = readable_bytes b in
     if have \<noteq> [] then Inr (have, b\<lparr>rBase := rBound b\<rparr>)
     else Inr (take (min n 3) (fst (under b)), b\<lparr>under := (drop (min n 3) (fst (under b)), snd (under b))\<rparr>))"

definition ex_borrowSlow :: "nat \<Rightarrow> ex_socket TBufferedTransport \<Rightarrow> (string option \<times> ex_socket TBufferedTransport) transported" where
  "ex_borrowSlow n b = Inr (None, b)"

definition ex_flush :: "ex_socket TBufferedTransport \<Rightarrow> ex_socket TBufferedTransport transported" where
  "ex_flush b = Inr (b\<lparr>under := (fst (under b), snd (under b) @ take (wBase b) (wBuf b)), wBase := 0\<rparr>)"

definition ex_writeSlow :: "string \<Rightarrow> ex_socket TBufferedTransport \<Rightarrow> ex_socket TBufferedTransport transported" where
  "ex_writeSlow s b = Inr (b\<lparr>under := (fst (under b), snd (under b) @ take (wBase b) (wBuf b) @ s), wBase := 0\<rparr>)"

definition ex_env :: "ex_socket TBufferedTransport reader_env" where
  "ex_env = \<lparr>ops = buffered_ops ex_readSlow ex_borrowSlow, grow = (\<lambda>_. True), limits = default_proto\<rparr>"

definition ex_buffer :: "string \<Rightarrow> ex_socket TBufferedTransport" where
  "ex_buffer s = TBufferedTransport_new (s, []) ''........'' ''........''"

lemma ex_slow_read: "slow_read_ok mf fst ex_readSlow"
  unfolding slow_read_ok_def
proof (intro allI impI)
  fix n and b :: "ex_socket TBufferedTransport"
  assume b: "buffer_ok b" "rBound b < rBase b + n"
  show "case ex_readSlow n b of
        Inl e \<Rightarrow> e = OTHER \<and> mf
      | Inr (s, c) \<Rightarrow> buffer_ok c \<and> length s \<le> n \<and> pending fst b = s @ pending fst c
          \<and> (s = [] \<longrightarrow> pending fst b = [])"
  proof (cases "readable_bytes b = []")
    case True
    then show ?thesis
      using b by (auto simp: ex_readSlow_def buffer_ok_def pending_def readable_bytes_def)
  next
    case False
    let ?c = "b\<lparr>rBase := rBound b\<rparr>"
    have "rBase b + (rBound b - rBase b) \<le> rBound b" "rBase b + (rBound b - rBase b) = rBound b"
      using b(1) by (simp_all add: buffer_ok_def)
    note advance(1) [OF b(1) this(1)] advance(2) [OF b(1) this(1), of fst] this(2)
    then show ?thesis
      using False b length_readable [OF b(1)] by (simp add: ex_readSlow_def readable_bytes_def)
  qed
qed

lemma ex_slow_borrow: "slow_borrow_ok mf fst ex_borrowSlow"
  by (simp add: slow_borrow_ok_def ex_borrowSlow_def)

lemma ex_slow_write: "slow_write_ok snd ex_writeSlow"
  by (auto simp: slow_write_ok_def ex_writeSlow_def buffer_ok_def written_def)

lemma ex_flush_ok: "flush_ok snd ex_flush"
  by (auto simp: flush_ok_def ex_flush_def buffer_ok_def written_def)

section \<open>Properties\<close>

text \<open>The readers of the binary protocol over a buffered transport read what they read from the
  bare stream of bytes, in however small pieces the socket delivers it: they take no undefined step,
  never consume what was not borrowed, and fail for another reason than the bytes only when the
  socket fails or memory runs out.\<close>

theorem buffered_readers_follow:
  assumes "slow_read_ok mf ahead readSlow" and "slow_borrow_ok mf ahead borrowSlow"
    and "ops E = buffered_ops readSlow borrowSlow" and "mf \<or> (\<forall>n. grow E n)"
    and "limits E = p"
  shows "follows mf buffer_ok (pending ahead) (over_readByte E) readByte
    \<and> follows mf buffer_ok (pending ahead) (over_readBool E) readBool
    \<and> follows mf buffer_ok (pending ahead) (over_readI16 E) readI16
    \<and> follows mf buffer_ok (pending ahead) (over_readI32 E) readI32
    \<and> follows mf buffer_ok (pending ahead) (over_readI64 E) readI64
    \<and> follows mf buffer_ok (pending ahead) (over_readString E) (readString p)
    \<and> follows mf buffer_ok (pending ahead) (over_readFieldBegin E) readFieldBegin
    \<and> follows mf buffer_ok (pending ahead) (over_readListBegin E) (readListBegin p)
    \<and> follows mf buffer_ok (pending ahead) (over_readMapBegin E) (readMapBegin p)
    \<and> follows mf buffer_ok (pending ahead) (over_readMessageBegin E) (readMessageBegin p)"
  using follows_int [OF buffered_env_ok [OF assms(1-4)]] follows_begins [OF buffered_env_ok [OF assms(1-4)]]
    follows_readString [OF buffered_env_ok [OF assms(1-4)]] assms(5)
  by simp

lemma buffered_readers_follow_witness:
  "follows False buffer_ok (pending fst) (over_readString ex_env) (readString default_proto)
    \<and> follows False buffer_ok (pending fst) (over_readMessageBegin ex_env) (readMessageBegin default_proto)"
  using buffered_readers_follow [OF ex_slow_read ex_slow_borrow, of ex_env False default_proto]
  by (simp add: ex_env_def)

text \<open>A message that one side writes through its buffer and flushes is the message that the other
  side reads through its own, with the bytes behind it left unread, unless a socket fails or memory
  runs out.\<close>

theorem buffered_message_round_trip:
  assumes "slow_write_ok sent writeSlow" and "flush_ok sent flush"
    and "slow_read_ok mf ahead readSlow" and "slow_borrow_ok mf ahead borrowSlow"
    and "ops E = buffered_ops readSlow borrowSlow" and "mf \<or> (\<forall>n. grow E n)"
    and "limits E = default_proto"
    and "t \<in> {T_CALL, T_REPLY, T_EXCEPTION, T_ONEWAY}" and "length name < 2 ^ 31" and "sent u = []"
    and "write_all writeSlow (over_writeMessageBegin default_proto name t seqid @ rest)
        (TBufferedTransport_new u r w) = Inr c"
    and "flush c = Inr d" and "ahead v = sent (under d)"
  shows "case over_readMessageBegin E (protocol_object_new (TBufferedTransport_new v r' w')) of
      None \<Rightarrow> False
    | Some (Inl e) \<Rightarrow> mf \<and> e \<in> {Transport OTHER, bad_alloc}
    | Some (Inr (msg, o')) \<Rightarrow> msg = (name, t, seqid) \<and> pending ahead (trans_of o') = concat rest"
proof -
  let ?b = "TBufferedTransport_new v r' w'" and ?msg = "(name, t, seqid)"
  let ?o = "protocol_object_new ?b"
  have o: "trans_of ?o = ?b" "buffer_ok (trans_of ?o)" "string_buf_ok ?o"
    by (simp_all add: protocol_object_new_def string_buf_ok_def new_ok)
  have "sent (under d) = writeMessageBegin default_proto name t seqid @ concat rest"
    using flush_sends [OF assms(1,2) new_ok(1) assms(11,12)] assms(10) by (simp add: new_ok concat_over_write)
  then have run: "readMessageBegin default_proto (pending ahead (trans_of ?o)) = Inr (?msg, concat rest)"
    using readMessageBegin_write [OF assms(8,9)] assms(13) o(1) by (simp add: new_ok)
  have exc: "mf \<and> e \<in> {Transport OTHER, bad_alloc}" if "agrees mf e (Inr (?msg, concat rest) :: proto_error + _)" for e
    using that by (cases "(mf, e, Inr (?msg, concat rest) :: proto_error + _)" rule: agrees.cases) auto
  have "follows mf buffer_ok (pending ahead) (over_readMessageBegin E) (readMessageBegin default_proto)"
    using follows_begins(5) [OF buffered_env_ok [OF assms(3-6)]] assms(7) by simp
  then show ?thesis
    using o(2,3) by (cases rule: followsD) (use run exc in auto)
qed

lemma buffered_message_round_trip_witness:
  "\<exists>c d. write_all ex_writeSlow (over_writeMessageBegin default_proto ''get'' T_CALL 0 @ [''body''])
        (ex_buffer []) = Inr c \<and> ex_flush c = Inr d
    \<and> (\<exists>o'. over_readMessageBegin ex_env (protocol_object_new (ex_buffer (snd (under d))))
          = Some (Inr ((''get'', T_CALL, 0), o')) \<and> pending fst (trans_of o') = ''body'')"
proof -
  have "\<exists>c. write_all ex_writeSlow ss b = Inr c" for ss b
    by (induction ss arbitrary: b) (auto simp: TBufferBase_write_def ex_writeSlow_def)
  then obtain c where c: "write_all ex_writeSlow (over_writeMessageBegin default_proto ''get'' T_CALL 0 @ [''body''])
      (TBufferedTransport_new ([], []) ''........'' ''........'') = Inr c"
    by blast
  obtain d where d: "ex_flush c = Inr d"
    by (simp add: ex_flush_def)
  show ?thesis
    using buffered_message_round_trip [OF ex_slow_write ex_flush_ok ex_slow_read ex_slow_borrow _ _ _ _ _ _ c d,
        of ex_env False "(snd (under d), [])" "''........''" "''........''"] c d
    by (auto simp: ex_env_def ex_buffer_def split: option.splits sum.splits)
qed

end
