(* ===== verification/TestProgram.thy ===== *)
theory TestProgram
  imports EndToEnd TravCorrect
begin

text \<open>
  The test program of the library (src/src/ozcore/test.c): each of its functions calls one part
  of the library and prints what came back.  The output of a function is the text that it prints
  itself; the two debugging lines of \<open>oztrav_next\<close> are left out, as in \<open>TravCore\<close>.  \<open>popen\<close>
  and the contents of uninitialised variables are parameters, as for the library; so are the
  text on the standard input, the elapsed time and the random numbers.

  A local variable without initialiser has indeterminate pointers; reading one is undefined.
\<close>

abbreviation line :: "string \<Rightarrow> string" where
  "line s \<equiv> s @ NL"

definition uninit_gets :: OZRead_Gets where
  "uninit_gets = \<lparr>skeys = Uninit, nkeys = 0, svalues = Uninit, cookie_cap = Uninit, cookies = []\<rparr>"

definition uninit_writer :: OZWrite where
  "uninit_writer = \<lparr>wkey = Uninit, wval = Uninit\<rparr>"

section \<open>Reading\<close>

definition test_ozread_open :: "popen_fun \<Rightarrow> OZRecord \<Rightarrow> world \<Rightarrow> (string \<times> world) ub" where
  "test_ozread_open popen uninit w = do {
     (ret, h, w') \<leftarrow> ozread_open popen uninit w ''/home/liheyuan/workspace_cpp_yq/kesdb/testd_db/'';
     Some (line (''test_ozread_open() '' @ dec ret), w')
   }"

definition test_ozread_get :: "alloc \<Rightarrow> popen_fun \<Rightarrow> OZRecord \<Rightarrow> world \<Rightarrow> (string \<times> world) ub" where
  "test_ozread_get alloc popen uninit w = do {
     (ret_open, h, w') \<leftarrow> ozread_open popen uninit w ''/tmp/test_db/'';
     out \<leftarrow> (if ret_open \<noteq> 0 then Some (line ''open db fail'')
       else do {
         (ret, p) \<leftarrow> ozread_get alloc w' (Some h) (Some \<lparr>gkey = Ptr ''1'', gvalue = Null, glen = 0\<rparr>);
         get \<leftarrow> p;
         text \<leftarrow> (if ret = 0
           then do {
             b \<leftarrow> nonnull (gvalue get);
             if b then do {
               buf \<leftarrow> deref (gvalue get);
               s \<leftarrow> buffer_cstr buf;
               Some (line ''ozread_get() succ'' @ line s)
             } else Some (line ''ozread_get() succ'')
           }
           else Some (line (''ozread_get() fail '' @ dec ret)));
         _ \<leftarrow> ozread_get_free get;
         Some text
       });
     _ \<leftarrow> ozread_close (Some h);
     Some (out, w')
   }"

text \<open>
  \<open>scanf("%d", &n)\<close> on a variable that holds \<open>n0\<close>, and \<open>scanf("%s", buf)\<close> for a buffer of
  \<open>sz\<close> bytes, which a longer word overruns.
\<close>

definition scanf_d :: "int \<Rightarrow> string \<Rightarrow> int \<times> string" where
  "scanf_d n0 s = (case scan_num s of
     (None, s') \<Rightarrow> (n0, s')
   | (Some v, s') \<Rightarrow> (sint (of_int (to_long v) :: u32), s'))"

definition scanf_s :: "nat \<Rightarrow> string \<Rightarrow> (string option \<times> string) ub" where
  "scanf_s sz s = (let s1 = skip_ws s; tok = takeWhile (\<lambda>c. \<not> isspace c) s1 in
     if s1 = [] then Some (None, [])
     else if sz \<le> length tok then None
     else Some (Some (cstr tok), dropWhile (\<lambda>c. \<not> isspace c) s1))"

text \<open>The loop that reads the keys: a key that could not be read stays indeterminate.\<close>

fun read_keys :: "nat \<Rightarrow> string ptr list \<Rightarrow> nat \<Rightarrow> string \<Rightarrow> (string \<times> string ptr list) ub" where
  "read_keys i ks 0 s = Some ([], ks)"
| "read_keys i ks (Suc n) s = do {
     (word, s') \<leftarrow> scanf_s 1024 s;
     (case word of
        None \<Rightarrow> do {
          (out, ks') \<leftarrow> read_keys (i + 1) ks n s';
          Some (line ''Read key error'' @ out, ks')
        }
      | Some k \<Rightarrow> if length ks \<le> i then None else read_keys (i + 1) (ks[i := Ptr k]) n s')
   }"

text \<open>What is printed for a key and its value; \<open>%d\<close> shows the low 32 bits of the length.\<close>

fun print_values :: "string ptr list \<Rightarrow> buffer ptr list \<Rightarrow> nat \<Rightarrow> string ub" where
  "print_values (k # ks) (v # vs) (Suc n) = do {
     key \<leftarrow> deref k;
     b \<leftarrow> nonnull v;
     out \<leftarrow> (if b then do {
         buf \<leftarrow> deref v;
         s \<leftarrow> buffer_cstr buf;
         Some (line (''length: '' @ dec_int (sint (of_nat (length s) :: u32))) @ line s)
       } else Some (line ''not found ''));
     rest \<leftarrow> print_values ks vs n;
     Some (line key @ out @ rest)
   }"
| "print_values ks vs 0 = Some []"
| "print_values ks vs (Suc n) = None"

text \<open>
  The batch test.  The result of \<open>ozread_gets_init\<close> is ignored.  A negative number makes every
  \<open>malloc\<close> fail and leaves the pointer to the values indeterminate, which \<open>ozread_gets_free\<close>
  then reads.
\<close>

definition test_gets_run :: "alloc \<Rightarrow> string \<Rightarrow> string \<Rightarrow> world \<Rightarrow> OZRead \<Rightarrow> string ub" where
  "test_gets_run alloc stdin elapsed w h =
     (let (n, s) = scanf_d 10 stdin; gets = snd (ozread_gets_init alloc uninit_gets (nat n)) in
      if n < 0 then None
      else do {
        ks \<leftarrow> (if n = 0 then Some [] else deref (skeys gets));
        (out1, ks') \<leftarrow> read_keys 0 ks (nat n) s;
        (ret, p) \<leftarrow> ozread_gets alloc w (Some h)
            (Some (if n = 0 then gets else gets\<lparr>skeys := Ptr ks'\<rparr>));
        got \<leftarrow> p;
        out2 \<leftarrow> (if ret = 0
          then do {
            vs \<leftarrow> (if nkeys got = 0 then Some [] else deref (svalues got));
            out \<leftarrow> print_values ks' vs (nkeys got);
            Some (line ''ozread_gets() succ'' @ out)
          }
          else Some (line (''ozread_gets() fail '' @ dec ret)));
        (if list_all (\<lambda>k. free_ok k = Some ()) ks' then Some () else None);
        _ \<leftarrow> ozread_gets_free got;
        Some (line ''open db succ'' @ out1 @ out2 @ line (''time '' @ elapsed @ ''(s)''))
      })"

definition test_ozread_gets :: "alloc \<Rightarrow> popen_fun \<Rightarrow> OZRecord \<Rightarrow> string \<Rightarrow> string \<Rightarrow> world
    \<Rightarrow> (string \<times> world) ub" where
  "test_ozread_gets alloc popen uninit stdin elapsed w = do {
     (ret_open, h, w') \<leftarrow> ozread_open popen uninit w ''/tmp/test_db'';
     out \<leftarrow> (if ret_open \<noteq> 0 then Some (line ''open db fail'')
       else test_gets_run alloc stdin elapsed w' h);
     _ \<leftarrow> ozread_close (Some h);
     Some (out, w')
   }"

section \<open>Writing\<close>

text \<open>\<open>strcat\<close> to an array of \<open>sz\<close> bytes: the final NUL must fit as well.\<close>

definition strcat :: "nat \<Rightarrow> string \<Rightarrow> string \<Rightarrow> string ub" where
  "strcat sz dst s = (if length dst + length s < sz then Some (dst @ s) else None)"

fun fill_value :: "nat \<Rightarrow> string \<Rightarrow> string \<Rightarrow> string ub" where
  "fill_value 0 key value = Some value"
| "fill_value (Suc n) key value = do {
     v1 \<leftarrow> strcat 4096 value '' '';
     v2 \<leftarrow> strcat 4096 v1 key;
     fill_value n key v2
   }"

definition PUT_ROUNDS :: nat where
  "PUT_ROUNDS = 300000"

definition test_key :: "nat \<Rightarrow> string" where
  "test_key rnd = take (OZ_KEY_BUF_SIZE - 1) (dec (rnd mod 10000000))"

text \<open>The loop, from round \<open>i\<close> for \<open>n\<close> rounds; \<open>rnd i\<close> is what \<open>random()\<close> returns in round \<open>i\<close>.\<close>

fun put_loop :: "(nat \<Rightarrow> put_env) \<Rightarrow> (nat \<Rightarrow> nat) \<Rightarrow> nat \<Rightarrow> nat \<Rightarrow> world \<Rightarrow> OZWrite
    \<Rightarrow> (string \<times> world \<times> OZWrite) ub" where
  "put_loop env rnd i 0 w wr = Some ([], w, wr)"
| "put_loop env rnd i (Suc n) w wr = do {
     let key = test_key (rnd i);
     value \<leftarrow> fill_value 50 key [];
     (ret, h, w1) \<leftarrow> ozwrite_put (env i) w (Some wr) key value (int (length value));
     wr1 \<leftarrow> h;
     (out, w2, wr2) \<leftarrow> put_loop env rnd (i + 1) n w1 wr1;
     Some ((if ret \<noteq> 0 then line (''write '' @ key @ '' fail.'') else []) @ out, w2, wr2)
   }"

definition test_ozwrite_put :: "(nat \<Rightarrow> put_env) \<Rightarrow> (nat \<Rightarrow> nat) \<Rightarrow> world \<Rightarrow> (string \<times> world) ub" where
  "test_ozwrite_put env rnd w = do {
     let (ret, h, w1) = ozwrite_open w (Some uninit_writer) ''/tmp/test_db'';
     wr \<leftarrow> h;
     (out, w2, wr') \<leftarrow> (if ret \<noteq> 0 then Some (line ''open db fail'', w1, wr)
       else do {
         (out, w2, wr') \<leftarrow> put_loop env rnd 0 PUT_ROUNDS w1 wr;
         Some (line ''open db succ'' @ out, w2, wr')
       });
     (_, w3) \<leftarrow> ozwrite_close w2 (Some wr');
     Some (out, w3)
   }"

section \<open>Traversing\<close>

definition test_oztrav_open :: "OZRecord \<Rightarrow> world \<Rightarrow> string ub" where
  "test_oztrav_open uninit w = do {
     (ret, h) \<leftarrow> oztrav_open uninit w ''/tmp/test_db'';
     _ \<leftarrow> oztrav_close (Some h);
     Some (line (''test_oztrav_open() '' @ dec ret))
   }"

definition pair_lines :: "string \<times> string \<Rightarrow> string" where
  "pair_lines kv = line (''key: '' @ fst kv) @ line (''value: '' @ snd kv)"

definition test_oztrav_next :: "alloc \<Rightarrow> OZRecord \<Rightarrow> world \<Rightarrow> string ub" where
  "test_oztrav_next alloc uninit w = do {
     (ret, h) \<leftarrow> oztrav_open uninit w ''/tmp/test_db'';
     out \<leftarrow> (if ret \<noteq> 0 then Some (line ''oztrav_open fail.'')
       else do {
         (kvs, _, c) \<leftarrow> traverse alloc w h oztrav_cursor_init;
         _ \<leftarrow> oztrav_cursor_free c;
         Some (concat (map pair_lines kvs))
       });
     _ \<leftarrow> oztrav_close (Some h);
     Some out
   }"

text \<open>The other tests are commented out in \<open>main\<close>.\<close>

definition test_main :: "alloc \<Rightarrow> OZRecord \<Rightarrow> world \<Rightarrow> (nat \<times> string) ub" where
  "test_main alloc uninit w = do {
     out \<leftarrow> test_oztrav_next alloc uninit w;
     Some (0, out)
   }"

end
