(* ===== verification/TestProps.thy ===== *)
theory TestProps
  imports TestProgram Example
begin

text \<open>
  The properties of the test program: what the writing test stores is what the batch test and
  the traversal test print, and what happens when the database cannot be opened.
\<close>

abbreviation test_db :: string where
  "test_db \<equiv> ''/tmp/test_db''"

section \<open>The keys and the values\<close>

text \<open>The key that is drawn in a round, and the value that belongs to a key.\<close>

abbreviation drawn :: "(nat \<Rightarrow> nat) \<Rightarrow> nat \<Rightarrow> string" where
  "drawn rnd i \<equiv> dec (rnd i mod 10000000)"

definition test_value :: "string \<Rightarrow> string" where
  "test_value key = concat (replicate 50 (CHR '' '' # key))"

lemma length_drawn: "length (drawn rnd i) \<le> 7"
  by (rule length_dec_le) simp_all

lemma test_key_drawn: "test_key (rnd i) = drawn rnd i"
  using length_drawn [of rnd i] by (simp add: test_key_def OZ_KEY_BUF_SIZE_def)

lemma key_ok_drawn: "key_ok (drawn rnd i)"
proof -
  have "rnd i mod 10000000 < 10 ^ 127"
    by (rule order_less_trans [of _ "10 ^ 7"]) simp_all
  then show ?thesis by (rule key_ok_dec)
qed

lemma length_concat_replicate: "length (concat (replicate n s)) = n * length s"
  by (induction n) simp_all

lemma length_test_value: "length (test_value key) = 50 * (length key + 1)"
  by (simp add: test_value_def length_concat_replicate)

lemma test_value_not_Nil: "test_value key \<noteq> []"
  using length_test_value [of key] by auto

lemma nul_free_test_value: "nul_free key \<Longrightarrow> nul_free (test_value key)"
  by (auto simp: test_value_def nul_free_def)

lemma fill_value_run:
  assumes "length v + n * (length key + 1) < 4096"
  shows "fill_value n key v = Some (v @ concat (replicate n (CHR '' '' # key)))"
  using assms by (induction n arbitrary: v) (simp_all add: strcat_def)

lemma fill_value_ok: "length key \<le> 80 \<Longrightarrow> fill_value 50 key [] = Some (test_value key)"
  unfolding test_value_def by (subst fill_value_run) simp_all

section \<open>The loop that writes\<close>

text \<open>A record holds the value that belongs to its key.\<close>

definition holds_value :: "string \<Rightarrow> OZRecord \<Rightarrow> bool" where
  "holds_value v r \<longleftrightarrow> rec_bytes v r = test_value (rkey r) \<and> rec_readable r"

lemma holds_value_append: "in_file v r \<Longrightarrow> holds_value v r \<Longrightarrow> holds_value (v @ u) r"
  by (simp add: holds_value_def rec_bytes_append)

definition written :: "world \<Rightarrow> (nat \<Rightarrow> nat) \<Rightarrow> nat \<Rightarrow> string \<Rightarrow> OZRecord list \<Rightarrow> bool" where
  "written w rnd i v rs \<longleftrightarrow> map rkey rs = map (drawn rnd) [0..<i] \<and> list_all (holds_value v) rs
     \<and> length v \<le> 400 * i \<and> files w (key_path test_db) \<noteq> None
     \<and> files w (value_path test_db) \<noteq> None"

lemma holds_value_new:
  assumes "key = dec n" and "length key \<le> 7" and "length v + 400 < 2 ^ 63"
  shows "holds_value (v @ test_value key) (new_rec v key (test_value key))"
proof -
  have len: "length (test_value key) \<le> 400"
    using assms(2) by (simp add: length_test_value)
  have "rec_bytes (v @ test_value key) (new_rec v key (test_value key)) = test_value key"
    using len assms(3) by (simp add: rec_bytes_def fread_bytes_def)
  moreover have "rec_readable (new_rec v (dec n) (test_value key))"
    using rec_readable_new len by simp
  ultimately show ?thesis by (simp add: holds_value_def assms(1))
qed

lemma written_step:
  assumes "writer_inv test_db w h v rs" and "written w rnd i v rs" and "i < 10 ^ 15"
    and "tell_ok env" "value_fault env = None" "key_fault env = None"
  shows "\<exists>h' w' v' rs'. ozwrite_put env w (Some h) (drawn rnd i) (test_value (drawn rnd i))
        (int (length (test_value (drawn rnd i)))) = Some (0, Some h', w')
    \<and> writer_inv test_db w' h' v' rs' \<and> written w' rnd (i + 1) v' rs' \<and> openable w' = openable w"
proof -
  let ?key = "drawn rnd i" and ?val = "test_value (drawn rnd i)" and ?r = "new_rec v (drawn rnd i) (test_value (drawn rnd i))"
  have len: "length ?val \<le> 400"
    using length_drawn [of rnd i] by (simp add: length_test_value)
  have v: "length v + 400 < 2 ^ 63"
    using assms(2,3) by (simp add: written_def)
  then have bounds: "length ?val < 2 ^ 32" "length (v @ ?val) < 2 ^ 63"
    using len by simp_all
  obtain h' w' where p: "ozwrite_put env w (Some h) ?key ?val (int (length ?val)) = Some (0, Some h', w')"
      "writer_inv test_db w' h' (v @ ?val) (rs @ [?r])"
      "files w' (value_path test_db) = Some (v @ ?val)"
      "files w' (key_path test_db) = Some (print_recs (rs @ [?r]))" "openable w' = openable w"
    using put_success [OF assms(1) key_ok_drawn test_value_not_Nil bounds assms(4-6)] by blast
  have "list_all (in_file v) rs"
    using assms(1) by (auto simp: writer_inv_def db_inv_def)
  then have "list_all (holds_value (v @ ?val)) rs"
    using assms(2) by (simp add: written_def list_all_iff holds_value_append)
  moreover have "holds_value (v @ ?val) ?r"
    by (rule holds_value_new [OF refl length_drawn v])
  ultimately have "written w' rnd (i + 1) (v @ ?val) (rs @ [?r])"
    using assms(2) p(3,4) len by (simp add: written_def)
  with p(1,2,5) show ?thesis by blast
qed

lemma put_loop_written:
  assumes "writer_inv test_db w h v rs" and "written w rnd i v rs" and "i + n < 10 ^ 15"
    and "\<forall>j. tell_ok (env j) \<and> value_fault (env j) = None \<and> key_fault (env j) = None"
  shows "\<exists>h' w' v' rs'. put_loop env rnd i n w h = Some ([], w', h')
    \<and> writer_inv test_db w' h' v' rs' \<and> written w' rnd (i + n) v' rs' \<and> openable w' = openable w"
  using assms(1-3)
proof (induction n arbitrary: i w h v rs)
  case (Suc n)
  obtain h1 w1 v1 rs1 where s: "ozwrite_put (env i) w (Some h) (drawn rnd i) (test_value (drawn rnd i))
        (int (length (test_value (drawn rnd i)))) = Some (0, Some h1, w1)"
      "writer_inv test_db w1 h1 v1 rs1" "written w1 rnd (i + 1) v1 rs1" "openable w1 = openable w"
    using written_step [OF Suc.prems(1,2), of "env i"] Suc.prems(3) assms(4) by auto
  obtain h2 w2 v2 rs2 where t: "put_loop env rnd (i + 1) n w1 h1 = Some ([], w2, h2)"
      "writer_inv test_db w2 h2 v2 rs2" "written w2 rnd (i + 1 + n) v2 rs2" "openable w2 = openable w1"
    using Suc.IH [OF s(2,3)] Suc.prems(3) by auto
  have "fill_value 50 (drawn rnd i) [] = Some (test_value (drawn rnd i))"
    using length_drawn [of rnd i] by (intro fill_value_ok) simp
  then have "put_loop env rnd i (Suc n) w h = Some ([], w2, h2)"
    using s(1) t(1) by (simp add: test_key_drawn)
  with t(2,3,4) s(4) show ?case by auto
qed auto

section \<open>The batch test\<close>

text \<open>The words that \<open>scanf\<close> reads whole into the buffer, and an input that asks for them.\<close>

definition scan_word :: "string \<Rightarrow> bool" where
  "scan_word k \<longleftrightarrow> k \<noteq> [] \<and> length k < 1024 \<and> nul_free k \<and> list_all (\<lambda>c. \<not> isspace c) k"

definition words_text :: "string list \<Rightarrow> string" where
  "words_text ks = concat (map (\<lambda>k. CHR '' '' # k) ks) @ NL"

lemma words_text_simps:
  "words_text [] = NL"
  "words_text (k # ks) = CHR '' '' # k @ words_text ks"
  by (simp_all add: words_text_def)

lemma words_text_stop: "words_text ks \<noteq> [] \<and> isspace (hd (words_text ks))"
  by (cases ks) (simp_all add: words_text_simps NL_def isspace_def)

lemma scanf_s_word:
  assumes "scan_word k"
  shows "scanf_s 1024 (words_text (k # ks)) = Some (Some k, words_text ks)"
proof -
  have "skip_ws (k @ words_text ks) = k @ words_text ks"
    using assms by (intro skip_ws_nonspace) (auto simp: scan_word_def neq_Nil_conv)
  moreover have "takeWhile (\<lambda>c. \<not> isspace c) (k @ words_text ks) = k"
      "dropWhile (\<lambda>c. \<not> isspace c) (k @ words_text ks) = words_text ks"
    using assms words_text_stop [of ks]
    by (intro takeWhile_append_stop dropWhile_append_stop; simp add: scan_word_def list_all_iff)+
  ultimately show ?thesis
    using assms by (simp add: scanf_s_def words_text_simps scan_simps isspace_def Let_def scan_word_def)
qed

lemma read_keys_words:
  assumes "\<forall>k \<in> set ks. scan_word k"
  shows "read_keys (length done) (done @ replicate (length ks) Uninit) (length ks) (words_text ks) =
    Some ([], done @ map Ptr ks)"
  using assms
proof (induction ks arbitrary: "done")
  case (Cons k ks)
  show ?case
    using Cons.IH [of "done @ [Ptr k]"] Cons.prems scanf_s_word [of k ks]
    by (simp add: list_update_append)
qed simp

text \<open>The answer that is printed for a key.\<close>

definition answer :: "(string \<Rightarrow> string option) \<Rightarrow> string \<Rightarrow> string" where
  "answer m k = line k @ (case m k of None \<Rightarrow> line ''not found ''
     | Some val \<Rightarrow> line (''length: '' @ dec (length val)) @ line val)"

definition printable :: "string \<Rightarrow> bool" where
  "printable val \<longleftrightarrow> nul_free val \<and> length val < 2 ^ 31"

lemma sint_u32_small: "n < 2 ^ 31 \<Longrightarrow> sint (of_nat n :: u32) = int n"
  by (simp add: signed_of_nat signed_take_bit_int_eq_self_iff)

lemma dec_int_length: "n < 2 ^ 31 \<Longrightarrow> dec_int (sint (of_nat n :: u32)) = dec n"
  unfolding sint_u32_small by (simp add: dec_int_def)

lemma print_values_answers:
  assumes "\<forall>k r. f k = Some r \<longrightarrow> printable (rec_bytes c r)"
  shows "print_values (map Ptr ks) (map (\<lambda>k. case f k of None \<Rightarrow> Null | Some r \<Rightarrow> Ptr (value_buffer c r)) ks)
      (length ks) = Some (concat (map (answer (\<lambda>k. map_option (rec_bytes c) (f k))) ks))"
proof (induction ks)
  case (Cons k ks)
  have "buffer_cstr (value_buffer c r) = Some (rec_bytes c r)" if "f k = Some r" for r
    using assms that by (simp add: buffer_cstr_def value_buffer_def printable_def)
  then show ?case
    using assms Cons by (auto simp: answer_def printable_def dec_int_length split: option.split)
qed simp

lemma batch_values_map:
  "batch_values rs c (map Ptr ks) =
    map (\<lambda>k. case lookup_rec rs k of None \<Rightarrow> Null | Some r \<Rightarrow> Ptr (value_buffer c r)) ks"
  by (rule nth_equalityI) (auto simp: batch_values_def request_rec_def)

text \<open>The batch test on a reader of a database prints what the map of the database has.\<close>

lemma gets_run_answers:
  assumes "reader_for db h rs" and "list_all rec_readable rs" and "rs \<noteq> []" and "db_inv kf v rs"
    and "content w (value_path db) = v" and "\<And>i n. alloc i n"
    and "\<forall>k \<in> set ks. scan_word k" and "length ks < 2 ^ 31"
    and "\<forall>k val. db_map v rs k = Some val \<longrightarrow> printable val"
  shows "test_gets_run alloc (dec (length ks) @ words_text ks) elapsed w h =
    Some (line ''open db succ'' @ line ''ozread_gets() succ'' @ concat (map (answer (db_map v rs)) ks)
      @ line (''time '' @ elapsed @ ''(s)''))"
proof -
  let ?n = "length ks" and ?ks = "map Ptr ks" and ?t = "reader_table rs"
  let ?vs = "map (\<lambda>k. case lookup_rec ?t k of None \<Rightarrow> Null | Some r \<Rightarrow> Ptr (value_buffer v r)) ks"
  let ?p = "\<lparr>skeys = Ptr ?ks, nkeys = ?n, svalues = Ptr (replicate ?n Null), cookie_cap = Ptr ?n, cookies = []\<rparr>"
  have table: "holds_table h ?t" "fpval h = Ptr (value_path db)"
    using assms(1) by (simp_all add: reader_for_def)
  have "keys_valid ?ks"
    using assms(7) by (simp add: keys_valid_def list_all_iff scan_word_def)
  moreover have "list_all (readable (content w (value_path db))) ?t"
    using readable_reader_table [OF assms(2-4)] assms(5) by simp
  ultimately obtain cs where run: "ozread_gets alloc w (Some h) (Some ?p) =
      Some (0, Some (?p\<lparr>svalues := Ptr ?vs, cookies := cs\<rparr>))"
    using gets_correct [OF table, of w alloc ?p ?ks] assms(5,6) by (auto simp: batch_values_map)
  have map: "(\<lambda>k. map_option (rec_bytes v) (lookup_rec ?t k)) = db_map v rs"
    by (simp add: lookup_reader_table [OF assms(2,3)] db_map_def fun_eq_iff)
  have "\<forall>k r. lookup_rec ?t k = Some r \<longrightarrow> printable (rec_bytes v r)"
    using assms(9) by (auto simp: lookup_reader_table [OF assms(2,3)] db_map_def)
  note out = print_values_answers [OF this, of ks, unfolded map]
  have scan: "scanf_d 10 (dec ?n @ words_text ks) = (int ?n, words_text ks)"
    using words_text_stop [of ks] assms(8) isdigit_not_space
    by (subst scanf_d_def, subst scan_num_dec) (auto simp: signed_of_nat signed_take_bit_int_eq_self_iff)
  have init: "ozread_gets_init alloc uninit_gets ?n = (0, ?p\<lparr>skeys := Ptr (replicate ?n Uninit)\<rparr>)"
    using assms(6) by (simp add: ozread_gets_init_def uninit_gets_def)
  have keys: "read_keys 0 (replicate ?n Uninit) ?n (words_text ks) = Some ([], ?ks)"
    using read_keys_words [OF assms(7), of "[]"] by simp
  have free: "ozread_gets_free (?p\<lparr>svalues := Ptr ?vs, cookies := cs\<rparr>) \<noteq> None"
    by (auto simp: ozread_gets_free_def list_all_iff split: option.split)
  show ?thesis
  proof (cases "ks = []")
    case True
    then have "ozread_gets alloc w (Some h) (Some (?p\<lparr>skeys := Ptr []\<rparr>)) = Some (0, Some (?p\<lparr>svalues := Ptr ?vs, cookies := cs\<rparr>))"
      using run by simp
    then show ?thesis
      using True scan init keys out free by (auto simp: test_gets_run_def Let_def)
  next
    case False
    then show ?thesis
      using scan init keys run out free by (auto simp: test_gets_run_def Let_def list_all_iff)
  qed
qed

section \<open>What the writing test leaves\<close>

text \<open>
  The directory can be used and holds no data: it is there or can be made, and its two files are
  missing or empty.
\<close>

definition test_place :: "world \<Rightarrow> bool" where
  "test_place w \<longleftrightarrow> openable (mkdir w test_db) (key_path test_db)
     \<and> openable (mkdir w test_db) (value_path test_db) \<and> tmp_openable w
     \<and> content w (key_path test_db) = [] \<and> content w (value_path test_db) = []"

definition no_fault :: "put_env \<Rightarrow> bool" where
  "no_fault env \<longleftrightarrow> tell_ok env \<and> value_fault env = None \<and> key_fault env = None"

lemma test_paths:
  "key_path test_db = ''/tmp/test_db/key.dat''" "value_path test_db = ''/tmp/test_db/value.dat''"
  by (simp_all add: key_path_def value_path_def snprintf_path_def OZ_BUF_SIZE_def
      OZ_KEY_FILENAME_def OZ_VALUE_FILENAME_def)

lemma test_db_plain: "plain_word (key_path test_db)" "length test_db \<le> 900" "\<not> is_tmp (value_path test_db)"
  by (simp_all add: test_paths plain_word_def isdigit_def)

lemma close_writer_files:
  assumes "ozwrite_close w (Some h) = Some (h', w')"
  shows "openable w' = openable w \<and> (\<forall>p. files w p \<noteq> None \<longrightarrow> files w' p \<noteq> None)"
  using assms
  by (auto simp: ozwrite_close_def close_stream_def fflush_def Let_def file_simps
      split: bind_splits if_splits)

definition left_by_test :: "(nat \<Rightarrow> nat) \<Rightarrow> world \<Rightarrow> string \<Rightarrow> OZRecord list \<Rightarrow> bool" where
  "left_by_test rnd w v rs \<longleftrightarrow> fopen_r w (key_path test_db) = Some (print_recs rs)
     \<and> fopen_r w (value_path test_db) = Some v \<and> db_inv (print_recs rs) v rs
     \<and> map rkey rs = map (drawn rnd) [0..<PUT_ROUNDS] \<and> list_all (holds_value v) rs \<and> tmp_openable w"

lemma test_put_leaves:
  assumes "test_place w" and "\<forall>i. no_fault (env i)"
  shows "\<exists>w' v rs. test_ozwrite_put env rnd w = Some (line ''open db succ'', w') \<and> left_by_test rnd w' v rs"
proof -
  have paths: "key_path test_db \<noteq> value_path test_db"
    by (simp add: test_paths)
  have "db_inv (content w (key_path test_db)) (content w (value_path test_db)) []"
    using assms(1) by (simp add: test_place_def db_inv_empty)
  with open_writer_inv [OF _ _ paths this] assms(1) obtain h1 w1 where o:
      "ozwrite_open w (Some uninit_writer) test_db = (0, Some h1, w1)" "writer_inv test_db w1 h1 [] []"
      "files w1 (key_path test_db) = Some []" "files w1 (value_path test_db) = Some []"
      "openable w1 = openable (mkdir w test_db)"
    unfolding test_place_def by metis
  have "written w1 rnd 0 [] []"
    using o(3,4) by (simp add: written_def)
  then obtain h2 w2 v rs where l: "put_loop env rnd 0 PUT_ROUNDS w1 h1 = Some ([], w2, h2)"
      "writer_inv test_db w2 h2 v rs" "written w2 rnd (0 + PUT_ROUNDS) v rs" "openable w2 = openable w1"
    using put_loop_written [OF o(2), of rnd 0 PUT_ROUNDS env] assms(2)
    by (auto simp: PUT_ROUNDS_def no_fault_def)
  obtain h3 w3 where c: "ozwrite_close w2 (Some h2) = Some (h3, w3)"
      "content w3 (value_path test_db) = v" "content w3 (key_path test_db) = print_recs rs"
    using close_writer [OF l(2)] by blast
  have f: "files w3 (key_path test_db) \<noteq> None" "files w3 (value_path test_db) \<noteq> None" "openable w3 = openable w1"
    using close_writer_files [OF c(1)] l(3,4) by (auto simp: written_def)
  then have "fopen_r w3 (key_path test_db) = Some (print_recs rs)" "fopen_r w3 (value_path test_db) = Some v"
    using c(2,3) o(5) assms(1) by (auto simp: fopen_r_def content_def test_place_def)
  moreover have "db_inv (print_recs rs) v rs"
    using l(2) by (auto simp: writer_inv_def db_inv_def)
  moreover have "tmp_openable w3"
    using assms(1) f(3) o(5) openable_mkdir by (auto simp: tmp_openable_def test_place_def)
  ultimately have "left_by_test rnd w3 v rs"
    using l(3) by (simp add: left_by_test_def written_def)
  moreover have "test_ozwrite_put env rnd w = Some (line ''open db succ'', w3)"
    using o(1) l(1) c(1) by (simp add: test_ozwrite_put_def)
  ultimately show ?thesis by blast
qed

text \<open>The map of what it leaves: the keys that were drawn, each with its value.\<close>

definition test_map :: "(nat \<Rightarrow> nat) \<Rightarrow> string \<Rightarrow> string option" where
  "test_map rnd k = (if \<exists>i < PUT_ROUNDS. k = drawn rnd i then Some (test_value k) else None)"

lemma left_map:
  assumes "left_by_test rnd w v rs"
  shows "db_map v rs = test_map rnd"
proof
  fix k
  have "rkey ` set rs = drawn rnd ` {0..<PUT_ROUNDS}"
    using assms unfolding left_by_test_def by (metis list.set_map set_upt)
  then have mem: "k \<in> rkey ` set rs \<longleftrightarrow> (\<exists>i < PUT_ROUNDS. k = drawn rnd i)"
    by auto
  show "db_map v rs k = test_map rnd k"
  proof (cases "latest rs k")
    case None
    then have "k \<notin> rkey ` set rs"
      by (simp add: latest_None)
    with None show ?thesis
      using mem by (simp add: db_map_def test_map_def)
  next
    case (Some r)
    from latest_mem [OF this] have r: "r \<in> set rs" "rkey r = k" by auto
    then have "rec_bytes v r = test_value k"
      using assms by (auto simp: left_by_test_def list_all_iff holds_value_def)
    moreover have "k \<in> rkey ` set rs" using r by auto
    ultimately show ?thesis
      using Some mem by (simp add: db_map_def test_map_def)
  qed
qed

lemma test_map_printable: "test_map rnd k = Some val \<Longrightarrow> printable val"
proof -
  assume "test_map rnd k = Some val"
  then obtain i where "val = test_value (drawn rnd i)"
    by (auto simp: test_map_def split: if_splits)
  then show ?thesis
    using length_drawn [of rnd i] by (simp add: printable_def nul_free_test_value length_test_value)
qed

section \<open>The properties\<close>

lemma reader_close: "reader_for db h rs \<Longrightarrow> ozread_close (Some h) \<noteq> None"
  by (auto simp: reader_for_def holds_table_def ozread_close_def list_all_iff)

lemma trav_close: "holds_trav h rs path \<Longrightarrow> oztrav_close (Some h) \<noteq> None"
  by (auto simp: holds_trav_def oztrav_close_def list_all_iff)

lemma left_readable:
  assumes "left_by_test rnd w v rs"
  shows "list_all rec_readable rs" and "length rs = PUT_ROUNDS" and "rs \<noteq> []" and "fits_splits rs"
    and "recs_ok rs" and "list_all (readable v) rs"
proof -
  show "list_all rec_readable rs"
    using assms by (simp add: left_by_test_def list_all_iff holds_value_def)
  then show "list_all (readable v) rs"
    using assms by (auto simp: left_by_test_def db_inv_def list_all_iff intro: readable_in_file)
  have "length (map rkey rs) = PUT_ROUNDS"
    using assms by (simp add: left_by_test_def)
  then show len: "length rs = PUT_ROUNDS" by simp
  then show "rs \<noteq> []" "fits_splits rs"
    by (auto simp: PUT_ROUNDS_def fits_splits_def OZSORT_PER_LINE_def OZSORT_MAX_SPLITS_def)
  show "recs_ok rs"
    using assms by (simp add: left_by_test_def db_inv_def)
qed

text \<open>C16. After the writing test on an empty directory, the batch test prints for every key that it
  reads its value when the key was among the random numbers, and "not found" otherwise.\<close>

theorem batch_test_finds_puts:
  assumes "test_place w" and "\<forall>i. no_fault (env i)" and "runs_sort popen now1 now2"
    and "\<forall>k \<in> set ks. scan_word k" and "length ks < 2 ^ 31"
  shows "\<exists>w1 w2. test_ozwrite_put env rnd w = Some (line ''open db succ'', w1)
    \<and> test_ozread_gets (\<lambda>_ _. True) popen uninit (dec (length ks) @ words_text ks) elapsed w1 =
      Some (line ''open db succ'' @ line ''ozread_gets() succ'' @ concat (map (answer (test_map rnd)) ks)
        @ line (''time '' @ elapsed @ ''(s)''), w2)"
proof -
  obtain w1 v rs where put: "test_ozwrite_put env rnd w = Some (line ''open db succ'', w1)"
      and left: "left_by_test rnd w1 v rs"
    using test_put_leaves [OF assms(1,2)] by blast
  note l = left [unfolded left_by_test_def] and rs = left_readable [OF left]
  obtain h w2 where o: "ozread_open popen uninit w1 test_db = Some (0, h, w2)" "reader_for test_db h rs"
      "clean_up w1 (tool_tmps now1 now2 rs) w2"
    using open_reader [OF assms(3) test_db_plain(1,2) _ _ test_db_plain(3) rs(5,1,4), of w1 v uninit] l by blast
  have "files w2 (value_path test_db) = files w1 (value_path test_db)"
    using o(3) test_db_plain(3) by (simp add: clean_up_def)
  then have c: "content w2 (value_path test_db) = v"
    using l fopen_r_content [of w1 "value_path test_db" v] by (simp add: content_def)
  have "\<forall>k val. db_map v rs k = Some val \<longrightarrow> printable val"
    by (simp add: left_map [OF left] test_map_printable)
  with gets_run_answers [OF o(2) rs(1,3) _ c _ assms(4,5), of "print_recs rs" "\<lambda>_ _. True" elapsed] l
  have "test_gets_run (\<lambda>_ _. True) (dec (length ks) @ words_text ks) elapsed w2 h =
      Some (line ''open db succ'' @ line ''ozread_gets() succ'' @ concat (map (answer (test_map rnd)) ks)
        @ line (''time '' @ elapsed @ ''(s)''))"
    by (simp add: left_map [OF left])
  with put o(1) reader_close [OF o(2)] show ?thesis
    by (auto simp: test_ozread_gets_def)
qed

text \<open>C28. After the writing test on an empty directory, the program prints every key that was
  drawn with its value, in the order of the rounds, repetitions included, and exits with 0.\<close>

theorem main_prints_puts:
  assumes "test_place w" and "\<forall>i. no_fault (env i)"
  shows "\<exists>w1. test_ozwrite_put env rnd w = Some (line ''open db succ'', w1)
    \<and> test_main (\<lambda>_ _. True) uninit w1 = Some (0,
        concat (map (\<lambda>i. line (''key: '' @ drawn rnd i) @ line (''value: '' @ test_value (drawn rnd i)))
          [0..<PUT_ROUNDS]))"
proof -
  obtain w1 v rs where put: "test_ozwrite_put env rnd w = Some (line ''open db succ'', w1)"
      and left: "left_by_test rnd w1 v rs"
    using test_put_leaves [OF assms] by blast
  note l = left [unfolded left_by_test_def] and rs = left_readable [OF left]
  obtain h where h: "oztrav_open uninit w1 test_db = Some (0, h)" "holds_trav h rs (value_path test_db)"
    using open_trav_parse [OF _ parse_print_recs [OF rs(5)] rs(3)] l by blast
  have c: "content w1 (value_path test_db) = v"
    using l fopen_r_content by blast
  obtain c' where t: "traverse (\<lambda>_ _. True) w1 h oztrav_cursor_init =
      Some (map (\<lambda>r. (cstr (rkey r), cstr (rec_bytes v r))) rs, 1, c')" "cursor_inv c'"
    using traverse_from [OF h(2) _ _ cursor_inv_init, of w1 "\<lambda>_ _. True" 0] rs(6) c
    by (auto simp: oztrav_cursor_init_def)
  have "map (\<lambda>r. (cstr (rkey r), cstr (rec_bytes v r))) rs = map (\<lambda>r. (rkey r, test_value (rkey r))) rs"
    using l rs(5) key_ok_nul_free
    by (auto simp: list_all_iff holds_value_def nul_free_test_value)
  also have "\<dots> = map (\<lambda>k. (k, test_value k)) (map rkey rs)"
    by simp
  also have "\<dots> = map (\<lambda>i. (drawn rnd i, test_value (drawn rnd i))) [0..<PUT_ROUNDS]"
    using l by (simp del: map_map) simp
  finally have "test_main (\<lambda>_ _. True) uninit w1 = Some (0,
      concat (map pair_lines (map (\<lambda>i. (drawn rnd i, test_value (drawn rnd i))) [0..<PUT_ROUNDS])))"
    using h(1) t(1) cursor_inv_free [OF t(2)] trav_close [OF h(2)]
    by (auto simp: test_main_def test_oztrav_next_def)
  with put show ?thesis by (simp add: comp_def pair_lines_def)
qed

text \<open>When the key file cannot be opened, the tests that read and traverse report it and return,
  but the writing test closes a stream pointer that was never set, which is undefined.\<close>

theorem failed_open_in_tests:
  assumes "\<not> openable (mkdir w test_db) (key_path test_db)"
  shows "test_ozwrite_put env rnd w = None \<and> test_main alloc uninit w = Some (0, line ''oztrav_open fail.'')"
proof
  have "ozwrite_open w (Some uninit_writer) test_db = (2, Some (uninit_writer\<lparr>wkey := Null\<rparr>), mkdir w test_db)"
    using assms by (simp add: ozwrite_open_def fopen_a_def)
  then show "test_ozwrite_put env rnd w = None"
    by (simp add: test_ozwrite_put_def ozwrite_close_def close_stream_def uninit_writer_def)
  have "fopen_r w (key_path test_db) = None"
    using assms openable_mkdir by (auto simp: fopen_r_def)
  then show "test_main alloc uninit w = Some (0, line ''oztrav_open fail.'')"
    by (simp add: test_main_def test_oztrav_next_def oztrav_open_def oztrav_open_kf_def oztrav_close_def null_trav_def)
qed

text \<open>A system on which everything can be opened and nothing is stored yet.\<close>

definition blank_world :: world where
  "blank_world = \<lparr>files = Map.empty, openable = (\<lambda>_. True), creatable = (\<lambda>_. True)\<rparr>"

lemma blank_place: "test_place blank_world"
  by (simp add: test_place_def blank_world_def mkdir_def tmp_openable_def content_def)

lemma batch_test_finds_puts_witness:
  "\<exists>w1 w2. test_ozwrite_put (\<lambda>_. no_faults) (\<lambda>_. 10000001) blank_world = Some (line ''open db succ'', w1)
    \<and> test_ozread_gets (\<lambda>_ _. True) (sh_popen 0 1) null_rec (''2'' @ '' 1 x'' @ NL) ''0.1'' w1 =
      Some (line ''open db succ'' @ line ''ozread_gets() succ''
        @ (line ''1'' @ line ''length: 100'' @ line (test_value ''1'')) @ (line ''x'' @ line ''not found '')
        @ line ''time 0.1(s)'', w2)"
proof -
  have dig: "dec 2 = ''2''" "dec 1 = ''1''" "dec 100 = ''100''"
    by (simp_all add: dec.simps digits_0_9 digits_0_9(2) [simplified])
  have val: "answer (test_map (\<lambda>_. 10000001)) ''1'' = line ''1'' @ line ''length: 100'' @ line (test_value ''1'')"
    "answer (test_map (\<lambda>_. 10000001)) ''x'' = line ''x'' @ line ''not found ''"
    using dig exI [of "\<lambda>i. i < (300000::nat)" 0] by (auto simp: answer_def test_map_def PUT_ROUNDS_def length_test_value)
  have words: "words_text [''1'', ''x''] = '' 1 x'' @ NL"
    by (simp add: words_text_def)
  have "\<forall>k \<in> set [''1'', ''x'']. scan_word k"
    by (simp add: scan_word_def isspace_def)
  from batch_test_finds_puts [OF blank_place _ runs_sort_sh_popen this, of "\<lambda>_. no_faults" "\<lambda>_. 10000001"
      0 1 null_rec "''0.1''"]
  show ?thesis
    using dig dig(1) [unfolded numeral_2_eq_2] by (simp add: val words no_fault_def no_faults_def)
qed

lemma main_prints_puts_witness:
  "\<exists>w1. test_main (\<lambda>_ _. True) null_rec w1 = Some (0,
    concat (map (\<lambda>i. line (''key: '' @ drawn Suc i) @ line (''value: '' @ test_value (drawn Suc i))) [0..<PUT_ROUNDS]))"
  using main_prints_puts [OF blank_place, of "\<lambda>_. no_faults" Suc null_rec]
  by (auto simp: no_fault_def no_faults_def simp del: upt_Suc)

lemma failed_open_in_tests_witness:
  "test_ozwrite_put (\<lambda>_. no_faults) id (blank_world\<lparr>openable := (\<lambda>_. False), creatable := (\<lambda>_. False)\<rparr>) = None"
  using failed_open_in_tests [of "blank_world\<lparr>openable := (\<lambda>_. False), creatable := (\<lambda>_. False)\<rparr>"]
  by (simp add: blank_world_def mkdir_def)

end
