(* ===== verification/Shutdown.thy ===== *)
theory Shutdown
  imports ServerMain
begin

text \<open>
  How the servers are stopped.  A signal handler acts on the server object through a global
  pointer, at any moment of the life of the program: before the object exists, while its loop
  runs, and after it was deleted.  The variant of the servers that does not block
  (\<open>server_nonblocking\<close>), which \<open>main\<close> does not call, is here as well.
\<close>

section \<open>The servers that do not block\<close>

text \<open>
  They differ from \<open>server_threadpool\<close> in the server object of the library, hence in the loop
  that is the parameter \<open>serve\<close>, and in that they never delete it.
\<close>

definition read_nonblocking :: "app_io \<Rightarrow> alloc \<Rightarrow> alloc \<Rightarrow> popen_fun \<Rightarrow> OZRecord \<Rightarrow> (world \<times> OZRead) serve_fun
    \<Rightarrow> world \<Rightarrow> string \<Rightarrow> int \<Rightarrow> nat \<Rightarrow> (bool \<times> string \<times> world) ub" where
  "read_nonblocking app alloc0 alloc popen uninit serve w path port threads = do {
     (r, w1) \<leftarrow> read_handler_new popen uninit w path;
     (case r of
        Return h \<Rightarrow> do {
          (ok, w2, h2) \<leftarrow> serve (OZReadServiceProcessor_process app (read_iface alloc0 alloc)) port threads (w1, h);
          let starting = ''OZoneStore Read Server Starting ...'' @ NL;
          if ok then do {
            h3 \<leftarrow> read_handler_delete h2;
            Some (True, starting @ ''OZoneStore Read Server Stopping ...'' @ NL, w2)
          }
          else Some (False, starting, w2)
        }
      | _ \<Rightarrow> Some (False, [], w1))
   }"

definition write_nonblocking :: "app_io \<Rightarrow> (int \<Rightarrow> nat \<Rightarrow> put_env) \<Rightarrow> bool \<Rightarrow> OZWrite \<Rightarrow> (world \<times> write_handler) serve_fun
    \<Rightarrow> world \<Rightarrow> string \<Rightarrow> int \<Rightarrow> nat \<Rightarrow> (bool \<times> string \<times> world) ub" where
  "write_nonblocking app env mutex_ok uninit serve w path port threads = do {
     (r, w1) \<leftarrow> write_handler_new w uninit mutex_ok path;
     (case r of
        Return st \<Rightarrow> do {
          (ok, w2, st2) \<leftarrow> serve (OZWriteServiceProcessor_process app (write_iface True env)) port threads (w1, st);
          let starting = ''OZoneStore Write Server Starting ...'' @ NL;
          if ok then do {
            (h3, w3) \<leftarrow> write_handler_delete w2 st2;
            Some (True, starting @ ''OZoneStore Write Server Stopping ...'' @ NL, w3)
          }
          else Some (False, starting, w2)
        }
      | _ \<Rightarrow> Some (False, [], w1))
   }"

section \<open>The server object and the signal handlers\<close>

text \<open>
  Of the object, the flag that its loop looks at: \<open>TThreadPoolServer::stop\<close> sets it.
  \<open>TNonblockingServer\<close> inherits a \<open>stop\<close> that does nothing.
\<close>

record server_object =
  stop_requested :: bool

definition TThreadPoolServer_new :: server_object where
  "TThreadPoolServer_new = \<lparr>stop_requested = False\<rparr>"


definition TServer_stop :: "server_object \<Rightarrow> server_object" where
  "TServer_stop s = s"


text \<open>This one deletes the object, and leaves the pointer.\<close>

definition handler_shutdown_nb :: "server_object ptr \<Rightarrow> server_object ptr ub" where
  "handler_shutdown_nb p = do {
     b \<leftarrow> nonnull p;
     if b then do {
       s \<leftarrow> deref p;
       let s' = TServer_stop s;
       Some Freed
     } else Some p
   }"

section \<open>The life of a server\<close>

text \<open>
  The steps of the program after the handler is bound: creating the object; rounds of its loop,
  which returns in the first round that finds the flag set; leaving the function, which deletes
  the object first in the threadpool variant, and closes the database; the end.  A signal may
  come before any step.  The loop itself is code of the library: \<open>returns\<close> says in which states of
  its object a round is its last.  What is relied on is that a loop returns when it was asked to
  and not before.  The call of \<open>interrupt\<close> in \<open>TThreadPoolServer::stop\<close> only wakes the loop up.
\<close>

datatype phase = Setup | Serving | Leaving | Over

datatype server_event = Signal | Step

type_synonym loop_end = "server_object \<Rightarrow> bool"

definition returns_when_asked :: "loop_end \<Rightarrow> bool" where
  "returns_when_asked returns \<longleftrightarrow> (\<forall>s. returns s \<longleftrightarrow> stop_requested s)"


fun nonblocking_step :: "loop_end \<Rightarrow> phase \<Rightarrow> server_object ptr \<Rightarrow> (phase \<times> server_object ptr) ub" where
  "nonblocking_step returns Setup p = Some (Serving, Ptr TThreadPoolServer_new)"
| "nonblocking_step returns Serving p = do {
     s \<leftarrow> deref p;
     Some (if returns s then (Leaving, p) else (Serving, p))
   }"
| "nonblocking_step returns _ p = Some (Over, p)"

fun life_event :: "(server_object ptr \<Rightarrow> server_object ptr ub) \<Rightarrow> (phase \<Rightarrow> server_object ptr \<Rightarrow> (phase \<times> server_object ptr) ub)
    \<Rightarrow> server_event \<Rightarrow> phase \<times> server_object ptr \<Rightarrow> (phase \<times> server_object ptr) ub" where
  "life_event shutdown step Signal (ph, p) =
     (if ph = Over then Some (ph, p) else do { p' \<leftarrow> shutdown p; Some (ph, p') })"
| "life_event shutdown step Step (ph, p) = step ph p"

fun life :: "(server_object ptr \<Rightarrow> server_object ptr ub) \<Rightarrow> (phase \<Rightarrow> server_object ptr \<Rightarrow> (phase \<times> server_object ptr) ub)
    \<Rightarrow> server_event list \<Rightarrow> phase \<times> server_object ptr \<Rightarrow> (phase \<times> server_object ptr) ub" where
  "life shutdown step [] st = Some st"
| "life shutdown step (e # es) st = do {
     st' \<leftarrow> life_event shutdown step e st;
     life shutdown step es st'
   }"


abbreviation nonblocking_life :: "loop_end \<Rightarrow> server_event list \<Rightarrow> (phase \<times> server_object ptr) ub" where
  "nonblocking_life returns es \<equiv> life handler_shutdown_nb (nonblocking_step returns) es (Setup, Null)"

lemma life_append:
  "life sh step (xs @ ys) st = Option.bind (life sh step xs st) (life sh step ys)"
  by (induction xs arbitrary: st) (simp_all split: bind_split)





text \<open>The states of the other variant.\<close>

fun nb_inv :: "phase \<times> server_object ptr \<Rightarrow> bool" where
  "nb_inv (Setup, p) = (p = Null)"
| "nb_inv (Serving, p) = (p = Freed \<or> p = Ptr TThreadPoolServer_new)"
| "nb_inv _ = False"

lemma nb_event:
  assumes "returns_when_asked returns" and "nb_inv st" and "life_event handler_shutdown_nb (nonblocking_step returns) e st = Some st'"
  shows "nb_inv st'"
  using assms
  by (cases st; cases e; cases "fst st"; force simp: handler_shutdown_nb_def returns_when_asked_def TThreadPoolServer_new_def split: if_splits bind_splits)

lemma nb_life:
  "returns_when_asked returns \<Longrightarrow> nb_inv st \<Longrightarrow> life handler_shutdown_nb (nonblocking_step returns) es st = Some st' \<Longrightarrow> nb_inv st'"
  by (induction es arbitrary: st) (auto split: bind_splits dest: nb_event)

section \<open>The properties\<close>



text \<open>The servers that do not block cannot be stopped: no defined life of one gets past serving,
  whatever signals come, and the round after a signal uses the object that the signal deleted.\<close>

theorem nonblocking_never_stops:
  assumes "returns_when_asked returns"
  shows "(case nonblocking_life returns es of None \<Rightarrow> True | Some (ph, p) \<Rightarrow> ph \<in> {Setup, Serving})
   \<and> nonblocking_life returns (Step # replicate m Step @ [Signal, Step]) = None"
proof
  show "case nonblocking_life returns es of None \<Rightarrow> True | Some (ph, p) \<Rightarrow> ph \<in> {Setup, Serving}"
  proof (cases "nonblocking_life returns es")
    case (Some st)
    have "nb_inv st" by (rule nb_life [OF assms _ Some]) simp
    with Some show ?thesis by (cases st; cases "fst st") auto
  qed simp
  have "life handler_shutdown_nb (nonblocking_step returns) (replicate m Step) (Serving, Ptr TThreadPoolServer_new) =
      Some (Serving, Ptr TThreadPoolServer_new)"
    using assms by (induction m) (simp_all add: TThreadPoolServer_new_def returns_when_asked_def)
  then show "nonblocking_life returns (Step # replicate m Step @ [Signal, Step]) = None"
    by (simp add: life_append handler_shutdown_nb_def)
qed

theorem nonblocking_never_stops_witness:
  "nonblocking_life stop_requested [Step, Step, Signal, Step] = None"
  using nonblocking_never_stops [of stop_requested "[]" 1] by (simp add: returns_when_asked_def)

end
