(* ===== verification/Varint.thy ===== *)
theory Varint
  imports WireStruct
begin

text \<open>
  The integers of the compact protocol (src/include_deps/thrift/protocol/TCompactProtocol.tcc):
  zigzag numbers, so that small negative numbers are small, and numbers of variable length, seven
  bits in a byte.  Words are compared bit by bit.
\<close>

unbundle bit_operations_syntax

section \<open>Integers of variable length\<close>

text \<open>
  \<open>UnknownType\<close> is the exception of \<open>getTType\<close>, with its text; the other errors are those of the
  binary protocol, and the one of a number that does not end within ten bytes.
\<close>

datatype compact_error = Proto proto_error | InvalidData | UnknownType string

definition char8 :: "i8 \<Rightarrow> char" where
  "char8 b = char_of (unat b)"

definition byte8 :: "char \<Rightarrow> i8" where
  "byte8 c = of_nat (byte c)"

lemma byte8_char8 [simp]: "byte8 (char8 b) = b"
  using unat_less_2p [of b] by (simp add: byte8_def char8_def)

text \<open>The loop that both writers have: seven bits in a byte, the last byte without the mark.\<close>

function varint_bytes :: "'a::len word \<Rightarrow> string" where
  "varint_bytes n =
     (if n AND NOT 0x7F = 0 then [char8 (ucast n)]
      else char8 (ucast ((n AND 0x7F) OR 0x80)) # varint_bytes (drop_bit 7 n))"
  by pat_completeness auto
termination
proof (relation "measure unat")
  fix n :: "'a::len word" assume "n AND NOT 0x7F \<noteq> 0"
  then have "n \<noteq> 0" by auto
  then have "0 < unat n" by (simp add: unat_gt_0)
  then show "(drop_bit 7 n, n) \<in> measure unat"
    by (simp add: unat_drop_bit_eq) (simp add: drop_bit_eq_div)
qed simp

declare varint_bytes.simps [simp del]

text \<open>The buffers have five and ten bytes; more would overrun them.\<close>

definition writeVarint32 :: "u32 \<Rightarrow> string ub" where
  "writeVarint32 n = (let buf = varint_bytes n in if length buf \<le> 5 then Some buf else None)"

definition writeVarint64 :: "u64 \<Rightarrow> string ub" where
  "writeVarint64 n = (let buf = varint_bytes n in if length buf \<le> 10 then Some buf else None)"

text \<open>
  Reading, byte by byte.  The fast path works on bytes that the transport has lent, at least ten
  of them, and gives how many of them it consumed.
\<close>

fun varint_slow :: "nat \<Rightarrow> nat \<Rightarrow> u64 \<Rightarrow> string \<Rightarrow> compact_error + u64 \<times> string" where
  "varint_slow rsize shift val [] = Inl (Proto EndOfFile)"
| "varint_slow rsize shift val (c # s) =
     (let val' = val OR push_bit shift (ucast (byte8 c AND 0x7f)) in
      if byte8 c AND 0x80 = 0 then Inr (val', s)
      else if 10 \<le> rsize + 1 then Inl InvalidData
      else varint_slow (rsize + 1) (shift + 7) val' s)"

function varint_fast :: "string \<Rightarrow> nat \<Rightarrow> nat \<Rightarrow> u64 \<Rightarrow> (compact_error + u64 \<times> nat) ub" where
  "varint_fast borrowed rsize shift val =
     (if length borrowed \<le> rsize then None
      else let b = byte8 (borrowed ! rsize); val' = val OR push_bit shift (ucast (b AND 0x7f)) in
        if b AND 0x80 = 0 then Some (Inr (val', rsize + 1))
        else if rsize + 1 = 10 then Some (Inl InvalidData)
        else varint_fast borrowed (rsize + 1) (shift + 7) val')"
  by pat_completeness auto
termination
  by (relation "measure (\<lambda>(borrowed, rsize, _). length borrowed - rsize)") auto

declare varint_fast.simps [simp del]

definition readVarint64 :: "string \<Rightarrow> compact_error + u64 \<times> string" where
  "readVarint64 = varint_slow 0 0 0"

definition readVarint32 :: "string \<Rightarrow> compact_error + u32 \<times> string" where
  "readVarint32 s = map_sum id (map_prod ucast id) (readVarint64 s)"

definition i32ToZigzag :: "i32 \<Rightarrow> u32" where
  "i32ToZigzag n = push_bit 1 n XOR signed_drop_bit 31 n"

definition i64ToZigzag :: "i64 \<Rightarrow> u64" where
  "i64ToZigzag n = push_bit 1 n XOR signed_drop_bit 63 n"

definition zigzagToI32 :: "u32 \<Rightarrow> i32" where
  "zigzagToI32 n = drop_bit 1 n XOR (- (n AND 1))"

definition zigzagToI64 :: "u64 \<Rightarrow> i64" where
  "zigzagToI64 n = drop_bit 1 n XOR (- (n AND 1))"

subsection \<open>Round trips\<close>

lemma bit_consts:
  "bit (127 :: int) k \<longleftrightarrow> k < 7" "bit (128 :: int) k \<longleftrightarrow> k = 7"
  "bit (127 :: nat) k \<longleftrightarrow> k < 7" "bit (128 :: nat) k \<longleftrightarrow> k = 7"
proof -
  have "127 = (mask 7 :: int)" "127 = (mask 7 :: nat)" "128 = (2 ^ 7 :: int)" "128 = (2 ^ 7 :: nat)"
    by (simp_all add: mask_eq_exp_minus_1)
  then show "bit (127 :: int) k \<longleftrightarrow> k < 7" "bit (128 :: int) k \<longleftrightarrow> k = 7"
    "bit (127 :: nat) k \<longleftrightarrow> k < 7" "bit (128 :: nat) k \<longleftrightarrow> k = 7"
    by (auto simp only: bit_mask_iff bit_exp_iff possible_bit_int possible_bit_nat)
qed

lemma word_eq_bits: "a = b \<longleftrightarrow> (\<forall>k < LENGTH('a). bit a k = bit b k)" for a b :: "'a::len word"
  by (auto intro: bit_word_eqI)

lemma high_bits_clear:
  fixes n :: "'a::len word"
  shows "n AND NOT 0x7F = 0 \<longleftrightarrow> (\<forall>k \<ge> 7. \<not> bit n k)"
  by (simp only: word_eq_bits bit_and_iff bit_not_iff bit_0_eq bot_apply bit_numeral_word_iff bit_consts possible_bit_word)
    (auto simp: not_less dest: bit_imp_le_length)

lemma mark_clear: "(b :: i8) AND 0x80 = 0 \<longleftrightarrow> \<not> bit b 7"
  by (auto simp: word_eq_bits bit_consts bit_simps dest: spec [of _ 7])

lemma last_byte:
  fixes n :: "'a::len word"
  assumes "n AND NOT 0x7F = 0"
  shows "(ucast n :: i8) AND 0x80 = 0" and "ucast ((ucast n :: i8) AND 0x7f) = (ucast n :: u64)"
proof -
  have high: "k < 7" if "bit n k" for k
    using assms [unfolded high_bits_clear] that not_less by blast
  then show "(ucast n :: i8) AND 0x80 = 0"
    by (auto simp: mark_clear bit_simps)
  show "ucast ((ucast n :: i8) AND 0x7f) = (ucast n :: u64)"
    using high by (fastforce simp: word_eq_bits bit_consts bit_simps)
qed

lemma more_byte:
  fixes n :: "'a::len word"
  assumes "8 \<le> LENGTH('a)"
  shows "(ucast ((n AND 0x7F) OR 0x80) :: i8) AND 0x80 \<noteq> 0"
    and "ucast ((ucast ((n AND 0x7F) OR 0x80) :: i8) AND 0x7f) = (ucast (n AND 0x7F) :: u64)"
  using assms by (auto simp: mark_clear word_eq_bits bit_consts bit_simps)

text \<open>A number of at most \<open>7 * k\<close> bits takes at most \<open>k\<close> bytes.\<close>

lemma length_varint:
  fixes n :: "'a::len word"
  assumes "drop_bit (7 * Suc k) n = 0"
  shows "length (varint_bytes n) \<le> Suc k"
  using assms
proof (induction n arbitrary: k rule: varint_bytes.induct)
  case (1 n)
  show ?case
  proof (cases "n AND NOT 0x7F = 0")
    case True
    then show ?thesis by (simp add: varint_bytes.simps [of n])
  next
    case False
    have "k \<noteq> 0"
    proof
      assume "k = 0"
      then have "drop_bit 7 n = 0"
        using "1.prems" by simp
      moreover have "bit n j = bit (drop_bit 7 n) (j - 7)" if "7 \<le> j" for j
        using that by (simp add: bit_drop_bit_eq)
      ultimately have "\<forall>j \<ge> 7. \<not> bit n j" by simp
      then have "n AND NOT 0x7F = 0"
        unfolding high_bits_clear .
      with False show False by (rule notE)
    qed
    then obtain j where k: "k = Suc j" by (cases k) auto
    have "drop_bit (7 * Suc j) (drop_bit 7 n) = 0"
      using "1.prems" by (simp add: k drop_bit_drop_bit add.commute)
    then show ?thesis
      using "1.IH" False k by (simp add: varint_bytes.simps [of n])
  qed
qed

lemma length_varint32: "length (varint_bytes (n :: u32)) \<le> 5"
  using length_varint [of 4 n] by (simp add: word_eq_bits bit_simps)

lemma length_varint64: "length (varint_bytes (n :: u64)) \<le> 10"
  using length_varint [of 9 n] by (simp add: word_eq_bits bit_simps)

lemma varint_not_Nil: "varint_bytes n \<noteq> []"
  by (subst varint_bytes.simps) simp

text \<open>What was written is read back, on top of the bits that are there already.\<close>

lemma varint_slow_write:
  fixes n :: "'a::len word"
  assumes "8 \<le> LENGTH('a)" and "rsize + length (varint_bytes n) \<le> 10"
  shows "varint_slow rsize shift val (varint_bytes n @ s) = Inr (val OR push_bit shift (ucast n), s)"
  using assms(2)
proof (induction n arbitrary: rsize shift val rule: varint_bytes.induct)
  case (1 n)
  show ?case
  proof (cases "n AND NOT 0x7F = 0")
    case True
    then show ?thesis
      by (simp add: varint_bytes.simps [of n] last_byte Let_def)
  next
    case False
    have "(val OR push_bit shift (ucast (n AND 0x7F))) OR push_bit (shift + 7) (ucast (drop_bit 7 n)) =
        val OR push_bit shift (ucast n :: u64)"
    proof (rule bit_word_eqI)
      fix k
      have "7 + (k - (shift + 7)) = k - shift" if "shift + 7 \<le> k"
        using that by simp
      then show "bit ((val OR push_bit shift (ucast (n AND 0x7F))) OR push_bit (shift + 7) (ucast (drop_bit 7 n))) k =
          bit (val OR push_bit shift (ucast n :: u64)) k"
        by (cases "shift + 7 \<le> k") (auto simp: bit_consts bit_simps not_le dest: bit_imp_le_length)
    qed
    then show ?thesis
      using "1.IH" [OF False, of "rsize + 1"] "1.prems" False varint_not_Nil [of "drop_bit 7 n"]
      by (cases "varint_bytes (drop_bit 7 n)") (auto simp: varint_bytes.simps [of n] more_byte [OF assms(1)] Let_def)
  qed
qed

lemma writeVarint32_total: "writeVarint32 n = Some (varint_bytes n)"
  using length_varint32 [of n] by (simp add: writeVarint32_def)

lemma writeVarint64_total: "writeVarint64 n = Some (varint_bytes n)"
  using length_varint64 [of n] by (simp add: writeVarint64_def)

lemma readVarint64_write: "readVarint64 (varint_bytes n @ s) = Inr (n, s)"
  using varint_slow_write [of 0 n 0 0 s] length_varint64 [of n] by (simp add: readVarint64_def)

lemma ucast_wide: "ucast (ucast (n :: u32) :: u64) = n"
  by (rule bit_word_eqI) (simp add: bit_simps)

lemma readVarint32_write: "readVarint32 (varint_bytes n @ s) = Inr (n, s)"
  using varint_slow_write [of 0 n 0 0 s] length_varint32 [of n]
  by (simp add: readVarint32_def readVarint64_def ucast_wide)

text \<open>The fast path gives what the slow one gives, whatever the bytes are, and never leaves them.\<close>

lemma varint_fast_slow:
  assumes "10 \<le> length b" and "rsize < 10"
  shows "case varint_slow rsize shift val (drop rsize b @ rest) of
      Inl e \<Rightarrow> varint_fast b rsize shift val = Some (Inl e)
    | Inr (x, t) \<Rightarrow> \<exists>n \<le> 10. varint_fast b rsize shift val = Some (Inr (x, n)) \<and> t = drop n b @ rest"
  using assms(2)
proof (induction "10 - rsize" arbitrary: rsize shift val)
  case (Suc k)
  have b: "drop rsize b = b ! rsize # drop (rsize + 1) b"
    using Suc.prems assms(1) by (simp add: Cons_nth_drop_Suc)
  let ?val = "val OR push_bit shift (ucast (byte8 (b ! rsize) AND 0x7f))"
  show ?case
  proof (cases "byte8 (b ! rsize) AND 0x80 = 0")
    case True
    then show ?thesis
      using Suc.prems assms(1) by (simp add: b varint_fast.simps [of b rsize] Let_def)
  next
    case False
    then have run: "varint_fast b rsize shift val =
        (if rsize + 1 = 10 then Some (Inl InvalidData) else varint_fast b (rsize + 1) (shift + 7) ?val)"
      "varint_slow rsize shift val (drop rsize b @ rest) =
        (if 10 \<le> rsize + 1 then Inl InvalidData else varint_slow (rsize + 1) (shift + 7) ?val (drop (rsize + 1) b @ rest))"
      using Suc.prems assms(1) by (simp_all add: b varint_fast.simps [of b rsize] Let_def)
    show ?thesis
    proof (cases "rsize + 1 = 10")
      case True
      then show ?thesis unfolding run by simp
    next
      case False
      then show ?thesis
        using Suc.hyps(1) [of "rsize + 1" "shift + 7" ?val] Suc.hyps(2) Suc.prems unfolding run by simp
    qed
  qed
qed simp

text \<open>A read takes at least a byte.\<close>

lemma varint_slow_eats: "varint_slow rsize shift val s = Inr (x, t) \<Longrightarrow> length t < length s"
  by (induction rsize shift val s rule: varint_slow.induct) (force simp: Let_def split: if_splits)+

lemma readVarint_eats:
  "readVarint64 s = Inr (x, t) \<Longrightarrow> length t < length s"
  "readVarint32 s = Inr (y, t) \<Longrightarrow> length t < length s"
  by (cases "varint_slow 0 0 0 s"; auto simp: readVarint64_def readVarint32_def dest: varint_slow_eats)+

subsection \<open>Zigzag\<close>

lemma zigzag_bits:
  "bit (i32ToZigzag n) k \<longleftrightarrow> k < 32 \<and> (if k = 0 then bit n 31 else bit n (k - 1) \<noteq> bit n 31)"
  "bit (i64ToZigzag m) k \<longleftrightarrow> k < 64 \<and> (if k = 0 then bit m 63 else bit m (k - 1) \<noteq> bit m 63)"
  by (simp_all only: i32ToZigzag_def i64ToZigzag_def bit_xor_iff bit_push_bit_iff bit_signed_drop_bit_iff possible_bit_word)
    (auto dest: bit_imp_le_length)

lemma minus_odd: "- (n AND 1) = (if bit n 0 then - 1 else 0)" for n :: "'a::len word"
  by (simp add: and_one_eq mod_2_eq_odd bit_0)

lemma unzigzag_bits:
  "bit (zigzagToI32 n) k \<longleftrightarrow> k < 32 \<and> (bit n (k + 1) \<noteq> bit n 0)"
  "bit (zigzagToI64 m) k \<longleftrightarrow> k < 64 \<and> (bit m (k + 1) \<noteq> bit m 0)"
  by (auto simp: zigzagToI32_def zigzagToI64_def minus_odd bit_simps dest: bit_imp_le_length)

lemma zigzag_round_trip: "zigzagToI32 (i32ToZigzag n) = n" "zigzagToI64 (i64ToZigzag m) = m"
proof -
  show "zigzagToI32 (i32ToZigzag n) = n"
  proof (rule bit_word_eqI)
    fix k assume "k < LENGTH(32)"
    then show "bit (zigzagToI32 (i32ToZigzag n)) k = bit n k"
      by (cases "k = 31") (auto simp: zigzag_bits unzigzag_bits)
  qed
  show "zigzagToI64 (i64ToZigzag m) = m"
  proof (rule bit_word_eqI)
    fix k assume "k < LENGTH(64)"
    then show "bit (zigzagToI64 (i64ToZigzag m)) k = bit m k"
      by (cases "k = 63") (auto simp: zigzag_bits unzigzag_bits)
  qed
qed

lemma unzigzag_round_trip: "i32ToZigzag (zigzagToI32 n) = n" "i64ToZigzag (zigzagToI64 m) = m"
  by (rule bit_word_eqI; auto simp: zigzag_bits unzigzag_bits dest: bit_imp_le_length)+

text \<open>The number that a zigzag number is: \<open>0, -1, 1, -2, 2, \<dots>\<close> become \<open>0, 1, 2, 3, 4, \<dots>\<close>.\<close>

lemma i32ToZigzag_value:
  "uint (i32ToZigzag n) = (if 0 \<le> sint n then 2 * sint n else - 2 * sint n - 1)"
proof -
  have sign: "signed_drop_bit 31 n = (if bit n 31 then - 1 else 0)"
    by (rule bit_word_eqI) (auto simp: bit_signed_drop_bit_iff not_le less_Suc_eq_0_disj dest: bit_imp_le_length)
  have r: "0 \<le> uint n" "uint n < 2 ^ 32" "- (2 ^ 31) \<le> sint n" "sint n < 2 ^ 31"
    using uint_bounded [of n] sint_ge [of n] sint_lt [of n] by simp_all
  have neg: "sint n < 0 \<longleftrightarrow> bit n 31"
    by (simp add: sint_uint signed_take_bit_negative_iff bit_uint_iff)
  have u: "uint n = sint n mod 2 ^ 32"
    by (simp add: uint_sint take_bit_eq_mod)
  have "sint n mod 2 ^ 32 = (if sint n < 0 then sint n + 2 ^ 32 else sint n)"
    using r mod_add_self2 [of "sint n" "2 ^ 32"] mod_pos_pos_trivial [of "sint n + 2 ^ 32" "2 ^ 32"] by simp
  then have s: "sint n = (if bit n 31 then uint n - 2 ^ 32 else uint n)"
    using u neg by simp
  show ?thesis
  proof (cases "bit n 31")
    case True
    have "i32ToZigzag n = NOT (2 * n)"
      using True sign by (simp add: i32ToZigzag_def)
    then have "i32ToZigzag n = word_of_int (- (2 * uint n) - 1)"
      by (simp add: not_eq_complement)
    then have "uint (i32ToZigzag n) = (- (2 * uint n) - 1) mod 2 ^ 32"
      by (simp only: uint_word_of_int) simp
    also have "\<dots> = (- (2 * uint n) - 1 + 2 ^ 33) mod 2 ^ 32"
      using mod_mult_self1 [of "- (2 * uint n) - 1" 2 "2 ^ 32"] by simp
    also have "\<dots> = - (2 * uint n) - 1 + 2 ^ 33"
      using True s r by (intro mod_pos_pos_trivial) simp_all
    finally show ?thesis using True s r by simp
  next
    case False
    have "i32ToZigzag n = word_of_int (2 * uint n)"
      using False sign by (simp add: i32ToZigzag_def)
    then have "uint (i32ToZigzag n) = (2 * uint n) mod 2 ^ 32"
      by (simp only: uint_word_of_int) simp
    also have "\<dots> = 2 * uint n"
      using False s r by (intro mod_pos_pos_trivial) simp_all
    finally show ?thesis using False s r by simp
  qed
qed

end
