(* ===== verification/Compact.thy ===== *)
theory Compact
  imports Varint
begin

text \<open>
  The compact protocol (src/include_deps/thrift/protocol/TCompactProtocol.tcc and .h), the other
  wire format that comes with the program: types in half a byte, field numbers as differences to
  the field before, the value of a boolean field in the header of the field.  The object has a
  state, which the writer and the reader of a stream have to keep in step.  As in theory Wire the
  bytes are a stream; the block of memory that a string is read into is left out.
\<close>

section \<open>Types\<close>

definition CT_STOP :: i8 where "CT_STOP = 0x00"
definition CT_BOOLEAN_TRUE :: i8 where "CT_BOOLEAN_TRUE = 0x01"
definition CT_BOOLEAN_FALSE :: i8 where "CT_BOOLEAN_FALSE = 0x02"
definition CT_BYTE :: i8 where "CT_BYTE = 0x03"
definition CT_I16 :: i8 where "CT_I16 = 0x04"
definition CT_I32 :: i8 where "CT_I32 = 0x05"
definition CT_I64 :: i8 where "CT_I64 = 0x06"
definition CT_DOUBLE :: i8 where "CT_DOUBLE = 0x07"
definition CT_BINARY :: i8 where "CT_BINARY = 0x08"
definition CT_LIST :: i8 where "CT_LIST = 0x09"
definition CT_SET :: i8 where "CT_SET = 0x0A"
definition CT_MAP :: i8 where "CT_MAP = 0x0B"
definition CT_STRUCT :: i8 where "CT_STRUCT = 0x0C"

lemmas ctype_defs = CT_STOP_def CT_BOOLEAN_TRUE_def CT_BOOLEAN_FALSE_def CT_BYTE_def CT_I16_def
  CT_I32_def CT_I64_def CT_DOUBLE_def CT_BINARY_def CT_LIST_def CT_SET_def CT_MAP_def CT_STRUCT_def

definition TTypeToCType :: "i8 list" where
  "TTypeToCType = [CT_STOP, 0, CT_BOOLEAN_TRUE, CT_BYTE, CT_DOUBLE, 0, CT_I16, 0, CT_I32, 0, CT_I64,
     CT_BINARY, CT_STRUCT, CT_MAP, CT_SET, CT_LIST]"

text \<open>An index outside of the table is undefined.\<close>

definition getCompactType :: "ttype \<Rightarrow> i8 ub" where
  "getCompactType t = (if 0 \<le> sint t \<and> sint t < 16 then Some (TTypeToCType ! nat (sint t)) else None)"

text \<open>
  The text of the exception is a literal plus a number: the literal without its first bytes.  The
  argument is half a byte.
\<close>

definition getTType :: "i8 \<Rightarrow> compact_error + ttype" where
  "getTType t =
     (if t = T_STOP then Inr T_STOP
      else if t = CT_BOOLEAN_FALSE \<or> t = CT_BOOLEAN_TRUE then Inr T_BOOL
      else if t = CT_BYTE then Inr T_BYTE
      else if t = CT_I16 then Inr T_I16
      else if t = CT_I32 then Inr T_I32
      else if t = CT_I64 then Inr T_I64
      else if t = CT_DOUBLE then Inr T_DOUBLE
      else if t = CT_BINARY then Inr T_STRING
      else if t = CT_LIST then Inr T_LIST
      else if t = CT_SET then Inr T_SET
      else if t = CT_MAP then Inr T_MAP
      else if t = CT_STRUCT then Inr T_STRUCT
      else Inl (UnknownType (drop (unat t) (''don'' @ [CHR 0x27] @ ''t know what type: ''))))"

section \<open>The object\<close>

text \<open>
  A boolean field whose header was announced but not written; a boolean value that came with a
  header; the last field numbers of the structs around, and of this one.
\<close>

record compact_state =
  booleanField :: "(ttype \<times> i16) option"
  boolValue :: "bool option"
  lastField :: "i16 list"
  lastFieldId :: i16

definition TCompactProtocol_new :: compact_state where
  "TCompactProtocol_new = \<lparr>booleanField = None, boolValue = None, lastField = [], lastFieldId = 0\<rparr>"

definition PROTOCOL_ID :: i8 where "PROTOCOL_ID = 0x82"
definition VERSION_N :: i8 where "VERSION_N = 1"
definition COMPACT_VERSION_MASK :: i8 where "COMPACT_VERSION_MASK = 0x1f"
definition TYPE_MASK :: i8 where "TYPE_MASK = 0xE0"
definition TYPE_SHIFT_AMOUNT :: nat where "TYPE_SHIFT_AMOUNT = 5"

section \<open>Writing\<close>

type_synonym compact_writer = "compact_state \<Rightarrow> (string \<times> compact_state) ub"

definition cwrite :: "string ub \<Rightarrow> compact_writer" where
  "cwrite w st = do { s \<leftarrow> w; Some (s, st) }"

definition cthen :: "compact_writer \<Rightarrow> compact_writer \<Rightarrow> compact_writer" where
  "cthen w v st = do { (s, st1) \<leftarrow> w st; (t, st2) \<leftarrow> v st1; Some (s @ t, st2) }"

definition compact_writeByte :: "i8 \<Rightarrow> string" where
  "compact_writeByte b = [char8 b]"

definition compact_writeI16 :: "i16 \<Rightarrow> string ub" where
  "compact_writeI16 i = writeVarint32 (i32ToZigzag (scast i))"

definition compact_writeI32 :: "i32 \<Rightarrow> string ub" where
  "compact_writeI32 i = writeVarint32 (i32ToZigzag i)"

definition compact_writeI64 :: "i64 \<Rightarrow> string ub" where
  "compact_writeI64 i = writeVarint64 (i64ToZigzag i)"

text \<open>A double is its 64 bits, the low byte first.\<close>

definition compact_writeDouble :: "i64 \<Rightarrow> string" where
  "compact_writeDouble d = rev (be_write 8 (unat d))"

definition compact_writeBinary :: "string \<Rightarrow> string ub" where
  "compact_writeBinary str = (let ssize = (of_nat (length str) :: u32) in do {
     n \<leftarrow> writeVarint32 ssize;
     Some (n @ take (unat ssize) str)
   })"

definition compact_writeString :: "string \<Rightarrow> string ub" where
  "compact_writeString str = compact_writeBinary str"

definition compact_writeMessageBegin :: "string \<Rightarrow> mtype \<Rightarrow> i32 \<Rightarrow> string ub" where
  "compact_writeMessageBegin name messageType seqid = do {
     n \<leftarrow> writeVarint32 seqid;
     str \<leftarrow> compact_writeString name;
     Some (compact_writeByte PROTOCOL_ID @
       compact_writeByte ((VERSION_N AND COMPACT_VERSION_MASK) OR
         (push_bit TYPE_SHIFT_AMOUNT messageType AND TYPE_MASK)) @ n @ str)
   }"

text \<open>The header of a field; \<open>typeOverride\<close> is \<open>- 1\<close> but for a boolean.\<close>

definition writeFieldBeginInternal :: "ttype \<Rightarrow> i16 \<Rightarrow> i8 \<Rightarrow> compact_writer" where
  "writeFieldBeginInternal fieldType fieldId typeOverride st = do {
     typeToWrite \<leftarrow> (if typeOverride = - 1 then getCompactType fieldType else Some typeOverride);
     s \<leftarrow> (if sint (lastFieldId st) < sint fieldId \<and> sint fieldId - sint (lastFieldId st) \<le> 15
       then Some (compact_writeByte (push_bit 4 (of_int (sint fieldId - sint (lastFieldId st))) OR typeToWrite))
       else do {
         i \<leftarrow> compact_writeI16 fieldId;
         Some (compact_writeByte typeToWrite @ i)
       });
     Some (s, st\<lparr>lastFieldId := fieldId\<rparr>)
   }"

definition compact_writeFieldBegin :: "ttype \<Rightarrow> i16 \<Rightarrow> compact_writer" where
  "compact_writeFieldBegin fieldType fieldId st =
     (if fieldType = T_BOOL then Some ([], st\<lparr>booleanField := Some (fieldType, fieldId)\<rparr>)
      else writeFieldBeginInternal fieldType fieldId (- 1) st)"

definition compact_writeFieldStop :: string where
  "compact_writeFieldStop = compact_writeByte T_STOP"

definition compact_writeStructBegin :: compact_writer where
  "compact_writeStructBegin st = Some ([], st\<lparr>lastField := lastFieldId st # lastField st, lastFieldId := 0\<rparr>)"

definition compact_writeStructEnd :: compact_writer where
  "compact_writeStructEnd st = (case lastField st of
     [] \<Rightarrow> None | f # fs \<Rightarrow> Some ([], st\<lparr>lastFieldId := f, lastField := fs\<rparr>))"

text \<open>The size is a signed number here.\<close>

definition writeCollectionBegin :: "i8 \<Rightarrow> i32 \<Rightarrow> string ub" where
  "writeCollectionBegin elemType sz = do {
     t \<leftarrow> getCompactType elemType;
     if sint sz \<le> 14 then Some (compact_writeByte (push_bit 4 (ucast sz) OR t))
     else do {
       n \<leftarrow> writeVarint32 sz;
       Some (compact_writeByte (0xf0 OR t) @ n)
     }
   }"

definition compact_writeListBegin :: "ttype \<Rightarrow> u32 \<Rightarrow> string ub" where
  "compact_writeListBegin elemType sz = writeCollectionBegin elemType sz"

definition compact_writeSetBegin :: "ttype \<Rightarrow> u32 \<Rightarrow> string ub" where
  "compact_writeSetBegin elemType sz = writeCollectionBegin elemType sz"

definition compact_writeMapBegin :: "ttype \<Rightarrow> ttype \<Rightarrow> u32 \<Rightarrow> string ub" where
  "compact_writeMapBegin keyType valType sz =
     (if sz = 0 then Some (compact_writeByte 0)
      else do {
        n \<leftarrow> writeVarint32 sz;
        k \<leftarrow> getCompactType keyType;
        v \<leftarrow> getCompactType valType;
        Some (n @ compact_writeByte (push_bit 4 k OR v))
      })"

definition compact_writeBool :: "bool \<Rightarrow> compact_writer" where
  "compact_writeBool value st = (let t = (if value then CT_BOOLEAN_TRUE else CT_BOOLEAN_FALSE) in
     case booleanField st of
       Some (fieldType, fieldId) \<Rightarrow> do {
         (s, st1) \<leftarrow> writeFieldBeginInternal fieldType fieldId t st;
         Some (s, st1\<lparr>booleanField := None\<rparr>)
       }
     | None \<Rightarrow> Some (compact_writeByte t, st))"

section \<open>Reading\<close>

type_synonym 'a compact_reader = "compact_state \<Rightarrow> string \<Rightarrow> (compact_error + 'a \<times> compact_state \<times> string) ub"

definition cret :: "'a \<Rightarrow> 'a compact_reader" where
  "cret x st s = Some (Inr (x, st, s))"

definition cthrow :: "compact_error \<Rightarrow> 'a compact_reader" where
  "cthrow e st s = Some (Inl e)"

definition cbind :: "'a compact_reader \<Rightarrow> ('a \<Rightarrow> 'b compact_reader) \<Rightarrow> 'b compact_reader" where
  "cbind r f st s = (case r st s of
     None \<Rightarrow> None
   | Some (Inl e) \<Rightarrow> Some (Inl e)
   | Some (Inr (x, st1, t)) \<Rightarrow> f x st1 t)"

definition on_stream :: "(string \<Rightarrow> compact_error + 'a \<times> string) \<Rightarrow> 'a compact_reader" where
  "on_stream r st s = Some (case r s of Inl e \<Rightarrow> Inl e | Inr (x, t) \<Rightarrow> Inr (x, st, t))"

definition compact_readAll :: "nat \<Rightarrow> string \<Rightarrow> compact_error + string \<times> string" where
  "compact_readAll n s = (if length s < n then Inl (Proto EndOfFile) else Inr (take n s, drop n s))"

definition compact_readByte :: "i8 compact_reader" where
  "compact_readByte = cbind (on_stream (compact_readAll 1)) (\<lambda>b. cret (byte8 (hd b)))"

definition compact_readI16 :: "i16 compact_reader" where
  "compact_readI16 = cbind (on_stream readVarint32) (\<lambda>v. cret (ucast (zigzagToI32 v)))"

definition compact_readI32 :: "i32 compact_reader" where
  "compact_readI32 = cbind (on_stream readVarint32) (\<lambda>v. cret (zigzagToI32 v))"

definition compact_readI64 :: "i64 compact_reader" where
  "compact_readI64 = cbind (on_stream readVarint64) (\<lambda>v. cret (zigzagToI64 v))"

definition compact_readDouble :: "i64 compact_reader" where
  "compact_readDouble = cbind (on_stream (compact_readAll 8)) (\<lambda>b. cret (of_nat (be_read (rev b))))"

definition compact_readBinary :: "proto \<Rightarrow> string compact_reader" where
  "compact_readBinary p = cbind (on_stream readVarint32) (\<lambda>sz.
     if sz = 0 then cret []
     else if sint sz < 0 then cthrow (Proto NegativeSize)
     else if 0 < sint (string_limit p) \<and> sint (string_limit p) < sint sz then cthrow (Proto SizeLimit)
     else on_stream (compact_readAll (unat sz)))"

definition compact_readString :: "proto \<Rightarrow> string compact_reader" where
  "compact_readString p = compact_readBinary p"

definition compact_readMessageBegin :: "proto \<Rightarrow> (string \<times> mtype \<times> i32) compact_reader" where
  "compact_readMessageBegin p = cbind compact_readByte (\<lambda>protocolId.
     if protocolId \<noteq> PROTOCOL_ID then cthrow (Proto BadVersion)
     else cbind compact_readByte (\<lambda>versionAndType.
       if versionAndType AND COMPACT_VERSION_MASK \<noteq> VERSION_N then cthrow (Proto BadVersion)
       else cbind (on_stream readVarint32) (\<lambda>seqid.
         cbind (compact_readString p) (\<lambda>name.
           cret (name, signed_drop_bit TYPE_SHIFT_AMOUNT versionAndType AND 0x03, seqid)))))"

definition compact_readStructBegin :: "unit compact_reader" where
  "compact_readStructBegin st s =
     Some (Inr ((), st\<lparr>lastField := lastFieldId st # lastField st, lastFieldId := 0\<rparr>, s))"

definition compact_readStructEnd :: "unit compact_reader" where
  "compact_readStructEnd st s = (case lastField st of
     [] \<Rightarrow> None | f # fs \<Rightarrow> Some (Inr ((), st\<lparr>lastFieldId := f, lastField := fs\<rparr>, s)))"

definition compact_getTType :: "i8 \<Rightarrow> ttype compact_reader" where
  "compact_getTType t st s = Some (case getTType t of Inl e \<Rightarrow> Inl e | Inr ty \<Rightarrow> Inr (ty, st, s))"

definition compact_fieldId :: "i16 \<Rightarrow> i16 compact_reader" where
  "compact_fieldId modifier st = (if modifier = 0 then compact_readI16 st else cret (lastFieldId st + modifier) st)"

definition compact_field :: "i8 \<Rightarrow> i16 \<Rightarrow> compact_state \<Rightarrow> compact_state" where
  "compact_field t fieldId st = st\<lparr>lastFieldId := fieldId,
     boolValue := (if t = CT_BOOLEAN_TRUE \<or> t = CT_BOOLEAN_FALSE then Some (t = CT_BOOLEAN_TRUE) else boolValue st)\<rparr>"

definition compact_readFieldBegin :: "(ttype \<times> i16) compact_reader" where
  "compact_readFieldBegin = cbind compact_readByte (\<lambda>b. let t = b AND 0x0f in
     if t = T_STOP then cret (T_STOP, 0)
     else cbind (compact_fieldId (ucast (drop_bit 4 (b AND 0xf0)))) (\<lambda>fieldId.
       cbind (compact_getTType t) (\<lambda>fieldType st. cret (fieldType, fieldId) (compact_field t fieldId st))))"

definition compact_check_size :: "proto \<Rightarrow> i32 \<Rightarrow> unit compact_reader" where
  "compact_check_size p sz =
     (if sint sz < 0 then cthrow (Proto NegativeSize)
      else if container_limit p \<noteq> 0 \<and> sint (container_limit p) < sint sz then cthrow (Proto SizeLimit)
      else cret ())"

definition compact_readMapBegin :: "proto \<Rightarrow> (ttype \<times> ttype \<times> u32) compact_reader" where
  "compact_readMapBegin p = cbind (on_stream readVarint32) (\<lambda>msize.
     cbind (if msize \<noteq> 0 then compact_readByte else cret 0) (\<lambda>kvType.
       cbind (compact_check_size p msize) (\<lambda>_.
         cbind (compact_getTType (drop_bit 4 kvType)) (\<lambda>keyType.
           cbind (compact_getTType (kvType AND 0xf)) (\<lambda>valType. cret (keyType, valType, msize))))))"

definition compact_readListBegin :: "proto \<Rightarrow> (ttype \<times> u32) compact_reader" where
  "compact_readListBegin p = cbind compact_readByte (\<lambda>size_and_type.
     let nibble = drop_bit 4 size_and_type AND 0x0f in
     cbind (if nibble = 15 then on_stream readVarint32 else cret (ucast nibble)) (\<lambda>lsize.
       cbind (compact_check_size p lsize) (\<lambda>_.
         cbind (compact_getTType (size_and_type AND 0x0f)) (\<lambda>elemType. cret (elemType, lsize)))))"

definition compact_readSetBegin :: "proto \<Rightarrow> (ttype \<times> u32) compact_reader" where
  "compact_readSetBegin p = compact_readListBegin p"

definition compact_readBool :: "bool compact_reader" where
  "compact_readBool st = (case boolValue st of
     Some b \<Rightarrow> cret b (st\<lparr>boolValue := None\<rparr>)
   | None \<Rightarrow> cbind compact_readByte (\<lambda>val. cret (val = CT_BOOLEAN_TRUE)) st)"

end
