(* ===== verification/CompactCorrect.thy ===== *)
theory CompactCorrect
  imports Compact
begin

text \<open>
  Writer and reader of the compact protocol in step: what \<open>skip\<close> (the template of TProtocol.h,
  which is how a reader walks over a value it does not want) takes is exactly what was written for
  a value of any type, and both objects are in their old states afterwards.
\<close>

section \<open>Skipping\<close>

definition compact_skip_scalar :: "proto \<Rightarrow> ttype \<Rightarrow> unit compact_reader option" where
  "compact_skip_scalar p t =
     (if t = T_BOOL then Some (cbind compact_readBool (\<lambda>_. cret ()))
      else if t = T_BYTE then Some (cbind compact_readByte (\<lambda>_. cret ()))
      else if t = T_I16 then Some (cbind compact_readI16 (\<lambda>_. cret ()))
      else if t = T_I32 then Some (cbind compact_readI32 (\<lambda>_. cret ()))
      else if t = T_I64 then Some (cbind compact_readI64 (\<lambda>_. cret ()))
      else if t = T_DOUBLE then Some (cbind compact_readDouble (\<lambda>_. cret ()))
      else if t = T_STRING then Some (cbind (compact_readString p) (\<lambda>_. cret ()))
      else None)"

subsection \<open>Readers that do not create input\<close>

definition reader_le :: "'a compact_reader \<Rightarrow> bool" where
  "reader_le r \<longleftrightarrow> (\<forall>st s x st' t. r st s = Some (Inr (x, st', t)) \<longrightarrow> length t \<le> length s)"

definition reader_less :: "'a compact_reader \<Rightarrow> bool" where
  "reader_less r \<longleftrightarrow> (\<forall>st s x st' t. r st s = Some (Inr (x, st', t)) \<longrightarrow> length t < length s)"

named_theorems reader_sizes "readers of the compact protocol that consume input"

lemma reader_leD: "reader_le r \<Longrightarrow> r st s = Some (Inr (x, st', t)) \<Longrightarrow> length t \<le> length s"
  unfolding reader_le_def by blast

lemma reader_lessD: "reader_less r \<Longrightarrow> r st s = Some (Inr (x, st', t)) \<Longrightarrow> length t < length s"
  unfolding reader_less_def by blast

lemma reader_less_le [reader_sizes]: "reader_less r \<Longrightarrow> reader_le r"
  by (auto simp: reader_less_def reader_le_def less_imp_le)

lemma reader_le_basic [reader_sizes]: "reader_le (cret x)" "reader_le (cthrow e)"
  by (simp_all add: reader_le_def cret_def cthrow_def)

lemma cbind_Inr:
  assumes "cbind r f st s = Some (Inr (x, st', t))"
  obtains y st1 u where "r st s = Some (Inr (y, st1, u))" and "f y st1 u = Some (Inr (x, st', t))"
  using assms by (auto simp: cbind_def split: option.splits sum.splits)

lemma reader_le_cbind [reader_sizes]:
  assumes "reader_le r" and "\<And>x. reader_le (f x)"
  shows "reader_le (cbind r f)"
  unfolding reader_le_def
  by (auto elim!: cbind_Inr dest!: reader_leD [OF assms(1)] reader_leD [OF assms(2)])

lemma reader_less_cbind [reader_sizes]:
  assumes "reader_less r" and "\<And>x. reader_le (f x)"
  shows "reader_less (cbind r f)"
  unfolding reader_less_def
  by (auto elim!: cbind_Inr dest!: reader_lessD [OF assms(1)] reader_leD [OF assms(2)])

lemma reader_if [reader_sizes]: "reader_le r \<Longrightarrow> reader_le q \<Longrightarrow> reader_le (if b then r else q)"
  by simp

lemma reader_stream [reader_sizes]:
  "reader_less (on_stream readVarint32)" "reader_less (on_stream readVarint64)"
  "reader_le (on_stream (compact_readAll n))" "0 < n \<Longrightarrow> reader_less (on_stream (compact_readAll n))"
  by (auto simp: reader_less_def reader_le_def on_stream_def compact_readAll_def
      split: sum.splits if_splits dest: readVarint_eats)

lemma reader_scalars [reader_sizes]:
  "reader_less compact_readByte" "reader_less compact_readI16" "reader_less compact_readI32"
  "reader_less compact_readI64" "reader_less compact_readDouble" "reader_less (compact_readString p)"
  unfolding compact_readByte_def compact_readI16_def compact_readI32_def compact_readI64_def
    compact_readDouble_def compact_readString_def compact_readBinary_def
  by (intro reader_sizes; simp)+

lemma reader_le_readBool [reader_sizes]: "reader_le compact_readBool"
proof -
  have "reader_le (cbind compact_readByte (\<lambda>val. cret (val = CT_BOOLEAN_TRUE)))"
    by (intro reader_sizes)
  then show ?thesis
    unfolding reader_le_def compact_readBool_def by (auto simp: cret_def split: option.splits)
qed

lemma compact_skip_scalar_le: "compact_skip_scalar p t = Some r \<Longrightarrow> reader_le r"
  by (auto simp: compact_skip_scalar_def split: if_splits
      intro!: reader_le_cbind reader_le_basic reader_le_readBool reader_scalars [THEN reader_less_le])

lemma reader_le_helpers [reader_sizes]:
  "reader_le (compact_getTType t)" "reader_le (compact_check_size p n)" "reader_le (compact_fieldId m)"
  "reader_le (\<lambda>st. cret x (g st))" "reader_le compact_readStructBegin" "reader_le compact_readStructEnd"
proof -
  have "reader_le compact_readI16" by (intro reader_sizes)
  then show "reader_le (compact_fieldId m)"
    by (auto simp: reader_le_def compact_fieldId_def cret_def)
qed (auto simp: reader_le_def compact_getTType_def compact_check_size_def cret_def cthrow_def
    compact_readStructBegin_def compact_readStructEnd_def split: sum.splits list.splits if_splits)

lemma reader_begins [reader_sizes]:
  "reader_less compact_readFieldBegin" "reader_less (compact_readListBegin p)"
  "reader_less (compact_readSetBegin p)" "reader_less (compact_readMapBegin p)"
  unfolding compact_readFieldBegin_def compact_readListBegin_def compact_readSetBegin_def
    compact_readMapBegin_def Let_def
  by (intro reader_sizes)+

lemma cbind_cong [fundef_cong]:
  assumes "r = q" and "st = st'" and "s = t"
    and "\<And>x st1 u. q st' t = Some (Inr (x, st1, u)) \<Longrightarrow> f x st1 u = g x st1 u"
  shows "cbind r f st s = cbind q g st' t"
  using assms by (auto simp: cbind_def split: option.split sum.split)

text \<open>
  As in theory WireStruct, the calls that are still to be done are a list of tasks.  A type that
  \<open>skip\<close> does not know is skipped without reading anything.
\<close>

function compact_skip_run :: "proto \<Rightarrow> task list \<Rightarrow> unit compact_reader" where
  "compact_skip_run p [] st s = Some (Inr ((), st, s))"
| "compact_skip_run p (Skip t # ts) st s = (case compact_skip_scalar p t of
     Some r \<Rightarrow> cbind r (\<lambda>_ st' s'. compact_skip_run p ts st' s') st s
   | None \<Rightarrow>
       if t = T_STRUCT
       then cbind compact_readStructBegin (\<lambda>_ st' s'. compact_skip_run p (SkipFields # ts) st' s') st s
       else if t = T_MAP
       then cbind (compact_readMapBegin p) (\<lambda>x st' s'. case x of (k, v, n) \<Rightarrow>
           compact_skip_run p (SkipPairs (unat n) k v # ts) st' s') st s
       else if t = T_SET
       then cbind (compact_readSetBegin p) (\<lambda>x st' s'. case x of (e, n) \<Rightarrow>
           compact_skip_run p (SkipElems (unat n) e # ts) st' s') st s
       else if t = T_LIST
       then cbind (compact_readListBegin p) (\<lambda>x st' s'. case x of (e, n) \<Rightarrow>
           compact_skip_run p (SkipElems (unat n) e # ts) st' s') st s
       else compact_skip_run p ts st s)"
| "compact_skip_run p (SkipFields # ts) st s = cbind compact_readFieldBegin (\<lambda>x st' s'. case x of (t, _) \<Rightarrow>
     if t = T_STOP then cbind compact_readStructEnd (\<lambda>_ st2 s2. compact_skip_run p ts st2 s2) st' s'
     else compact_skip_run p (Skip t # SkipFields # ts) st' s') st s"
| "compact_skip_run p (SkipElems n t # ts) st s =
     (if n = 0 then compact_skip_run p ts st s else compact_skip_run p (Skip t # SkipElems (n - 1) t # ts) st s)"
| "compact_skip_run p (SkipPairs n k v # ts) st s =
     (if n = 0 then compact_skip_run p ts st s
      else compact_skip_run p (Skip k # Skip v # SkipPairs (n - 1) k v # ts) st s)"
  by pat_completeness auto
termination
  by (relation "inv_image (less_than <*lex*> less_than) (\<lambda>(p, ts, st, s). (length s, \<Sum>t\<leftarrow>ts. task_weight t))")
    (auto dest!: reader_lessD [OF reader_begins(1)] reader_lessD [OF reader_begins(2)]
      reader_lessD [OF reader_begins(3)] reader_lessD [OF reader_begins(4)]
      reader_leD [OF reader_le_helpers(5)] reader_leD [OF reader_le_helpers(6)]
      reader_leD [OF compact_skip_scalar_le])

definition compact_skip :: "proto \<Rightarrow> ttype \<Rightarrow> unit compact_reader" where
  "compact_skip p t = compact_skip_run p [Skip t]"

declare compact_skip_run.simps [simp del]

section \<open>Reading what was written\<close>

definition wrote :: "string ub \<Rightarrow> 'a compact_reader \<Rightarrow> 'a \<Rightarrow> bool" where
  "wrote w r x \<longleftrightarrow> (\<exists>out. w = Some out \<and> (\<forall>st s. r st (out @ s) = Some (Inr (x, st, s))))"

lemma wroteI: "w = Some out \<Longrightarrow> (\<And>st s. r st (out @ s) = Some (Inr (x, st, s))) \<Longrightarrow> wrote w r x"
  unfolding wrote_def by blast

lemma cbind_step: "r st s = Some (Inr (x, st', t)) \<Longrightarrow> cbind r f st s = f x st' t"
  by (simp add: cbind_def)

lemma compact_readByte_write: "compact_readByte st (compact_writeByte b @ s) = Some (Inr (b, st, s))"
  by (simp add: compact_readByte_def cbind_def on_stream_def compact_readAll_def compact_writeByte_def cret_def)

lemma cbind_readByte: "cbind compact_readByte f st (compact_writeByte b @ s) = f b st s"
  by (rule cbind_step) (rule compact_readByte_write)

lemma wrote_varint:
  "wrote (writeVarint32 n) (on_stream readVarint32) n" "wrote (writeVarint64 m) (on_stream readVarint64) m"
  by (auto simp: wrote_def on_stream_def writeVarint32_total writeVarint64_total readVarint32_write readVarint64_write)

lemma wrote_cbind: "wrote w r x \<Longrightarrow> wrote w (cbind r (\<lambda>y. cret (f y))) (f x)"
  by (auto simp: wrote_def cbind_def cret_def)

lemma wrote_ints:
  "wrote (Some (compact_writeByte b)) compact_readByte b"
  "wrote (compact_writeI16 i) compact_readI16 i" "wrote (compact_writeI32 j) compact_readI32 j"
  "wrote (compact_writeI64 k) compact_readI64 k"
proof -
  show "wrote (Some (compact_writeByte b)) compact_readByte b"
    by (rule wroteI [OF refl]) (rule compact_readByte_write)
  have "ucast (scast i :: i32) = i"
    by (rule bit_word_eqI) (auto simp: bit_simps)
  then show "wrote (compact_writeI16 i) compact_readI16 i"
    using wrote_cbind [OF wrote_varint(1), of "i32ToZigzag (scast i)" "\<lambda>v. ucast (zigzagToI32 v) :: i16"]
    by (simp add: compact_writeI16_def compact_readI16_def zigzag_round_trip)
  show "wrote (compact_writeI32 j) compact_readI32 j"
    using wrote_cbind [OF wrote_varint(1), of "i32ToZigzag j" zigzagToI32]
    by (simp add: compact_writeI32_def compact_readI32_def zigzag_round_trip)
  show "wrote (compact_writeI64 k) compact_readI64 k"
    using wrote_cbind [OF wrote_varint(2), of "i64ToZigzag k" zigzagToI64]
    by (simp add: compact_writeI64_def compact_readI64_def zigzag_round_trip)
qed

lemma readAll_write: "n = length s \<Longrightarrow> compact_readAll n (s @ t) = Inr (s, t)"
  by (simp add: compact_readAll_def)

lemma wrote_double: "wrote (Some (compact_writeDouble d)) compact_readDouble d"
proof (rule wroteI [OF refl])
  fix st s
  have "unat d < 256 ^ 8"
    using unat_less_2p [of d] by simp
  then show "compact_readDouble st (compact_writeDouble d @ s) = Some (Inr (d, st, s))"
    using be_read_write [of "unat d" 8]
    by (simp add: compact_readDouble_def compact_writeDouble_def cbind_def on_stream_def readAll_write cret_def)
qed

lemma wrote_string:
  assumes "length str < 2 ^ 31"
  shows "wrote (compact_writeString str) (compact_readString default_proto) str"
proof -
  let ?n = "of_nat (length str) :: u32"
  have n: "unat ?n = length str" "sint ?n = int (length str)"
    using assms sint_small [OF assms] by simp_all
  then have z: "?n = 0 \<longleftrightarrow> str = []"
    by (metis length_0_conv unat_eq_0)
  obtain v where v: "writeVarint32 ?n = Some v" "\<And>st s. on_stream readVarint32 st (v @ s) = Some (Inr (?n, st, s))"
    using wrote_varint(1) [of ?n] by (auto simp: wrote_def)
  show ?thesis
  proof (rule wroteI)
    show "compact_writeString str = Some (v @ str)"
      using v(1) n by (simp add: compact_writeString_def compact_writeBinary_def)
    fix st s
    show "compact_readString default_proto st ((v @ str) @ s) = Some (Inr (str, st, s))"
      using v(2) [of st "str @ s"] n z
      by (simp add: compact_readString_def compact_readBinary_def cbind_step default_proto_def cret_def
          on_stream_def readAll_write)
  qed
qed

subsection \<open>Half bytes\<close>

lemma bit_low:
  fixes a :: i8
  assumes "a < 16" and "bit a k"
  shows "k < 4"
proof -
  have "unat a < 2 ^ 4"
    using assms(1) by (simp add: word_less_nat_alt)
  then have "take_bit 4 (unat a) = unat a"
    by (simp add: take_bit_nat_eq_self_iff)
  moreover have "bit (unat a) k"
    using assms(2) by (simp add: bit_unsigned_iff)
  ultimately have "bit (take_bit 4 (unat a)) k" by simp
  then show ?thesis by (simp add: bit_take_bit_iff)
qed

lemma bit_nibbles: "bit (15 :: int) k \<longleftrightarrow> k < 4" "bit (240 :: int) k \<longleftrightarrow> 4 \<le> k \<and> k < 8"
  "bit (15 :: nat) k \<longleftrightarrow> k < 4" "bit (240 :: nat) k \<longleftrightarrow> 4 \<le> k \<and> k < 8"
proof -
  have "15 = (mask 4 :: int)" "15 = (mask 4 :: nat)" "240 = (push_bit 4 (mask 4) :: int)" "240 = (push_bit 4 (mask 4) :: nat)"
    by (simp_all add: mask_eq_exp_minus_1)
  then show "bit (15 :: int) k \<longleftrightarrow> k < 4" "bit (240 :: int) k \<longleftrightarrow> 4 \<le> k \<and> k < 8"
    "bit (15 :: nat) k \<longleftrightarrow> k < 4" "bit (240 :: nat) k \<longleftrightarrow> 4 \<le> k \<and> k < 8"
    by (auto simp only: bit_mask_iff bit_push_bit_iff possible_bit_int possible_bit_nat)
qed

lemma nibbles:
  fixes a c :: i8
  assumes "a < 16" and "c < 16"
  shows "(push_bit 4 a OR c) AND 0x0f = c" "drop_bit 4 ((push_bit 4 a OR c) AND 0xf0) = a"
    "drop_bit 4 (push_bit 4 a OR c) = a" "drop_bit 4 (push_bit 4 a OR c) AND 0x0f = a"
  by (rule bit_word_eqI;
      use assms in \<open>auto simp: bit_nibbles bit_simps dest: bit_low\<close>)+

subsection \<open>Headers\<close>

definition valid_type :: "ttype \<Rightarrow> bool" where
  "valid_type t \<longleftrightarrow> t \<in> {T_BOOL, T_BYTE, T_DOUBLE, T_I16, T_I32, T_I64, T_STRING, T_STRUCT, T_MAP, T_SET, T_LIST}"

lemma valid_ctype:
  assumes "valid_type t"
  obtains c where "getCompactType t = Some c" and "c < 16" and "c \<noteq> 0" and "getTType c = Inr t"
    and "t \<noteq> T_BOOL \<Longrightarrow> c \<noteq> CT_BOOLEAN_TRUE \<and> c \<noteq> CT_BOOLEAN_FALSE"
proof -
  have "\<exists>c. getCompactType t = Some c \<and> c < 16 \<and> c \<noteq> 0 \<and> getTType c = Inr t
      \<and> (t \<noteq> T_BOOL \<longrightarrow> c \<noteq> CT_BOOLEAN_TRUE \<and> c \<noteq> CT_BOOLEAN_FALSE)"
    using assms by (auto simp: valid_type_def getCompactType_def TTypeToCType_def getTType_def ttype_defs ctype_defs)
  then show ?thesis using that by blast
qed

lemma header_write:
  assumes "c < 16" and "c \<noteq> 0" and "getTType c = Inr t"
    and "(if over = - 1 then getCompactType ft else Some over) = Some c"
  shows "\<exists>out. writeFieldBeginInternal ft fid over wst = Some (out, wst\<lparr>lastFieldId := fid\<rparr>)
    \<and> (\<forall>rst s. lastFieldId rst = lastFieldId wst \<longrightarrow>
        compact_readFieldBegin rst (out @ s) = Some (Inr ((t, fid), compact_field c fid rst, s)))"
proof (cases "sint (lastFieldId wst) < sint fid \<and> sint fid - sint (lastFieldId wst) \<le> 15")
  case True
  define d where "d = nat (sint fid - sint (lastFieldId wst))"
  have d: "0 < d" "d < 16" "sint fid - sint (lastFieldId wst) = int d"
    using True by (auto simp: d_def nat_less_iff)
  let ?m = "of_nat d :: i8"
  have m: "?m < 16" "ucast ?m = (of_nat d :: i16)" "(of_nat d :: i16) \<noteq> 0"
    using d(1,2) by (simp_all add: word_less_nat_alt unsigned_of_nat take_bit_nat_eq_self unat_eq_0 [symmetric])
  have "(of_int (sint fid - sint (lastFieldId wst)) :: i16) = of_nat d"
    unfolding d(3) by simp
  then have f: "lastFieldId wst + of_nat d = fid" by (simp add: diff_eq_eq)
  define b where "b = push_bit 4 ?m OR c"
  have b: "b AND 0x0f = c" "drop_bit 4 (b AND 0xf0) = ?m"
    unfolding b_def using nibbles(1,2) [OF m(1) assms(1)] by blast+
  have "writeFieldBeginInternal ft fid over wst = Some (compact_writeByte b, wst\<lparr>lastFieldId := fid\<rparr>)"
    using True assms(4) unfolding writeFieldBeginInternal_def d(3) b_def by simp
  moreover have "compact_readFieldBegin rst (compact_writeByte b @ s) =
      Some (Inr ((t, fid), compact_field c fid rst, s))" if "lastFieldId rst = lastFieldId wst" for rst s
    using that m(2,3) b f assms(2,3)
    by (simp add: compact_readFieldBegin_def cbind_readByte Let_def T_STOP_def)
      (simp add: compact_fieldId_def compact_getTType_def cbind_def cret_def)
  ultimately show ?thesis by blast
next
  case False
  obtain v where v: "compact_writeI16 fid = Some v" "\<And>st s. compact_readI16 st (v @ s) = Some (Inr (fid, st, s))"
    using wrote_ints(2) [of fid] by (auto simp: wrote_def)
  have c: "c AND 0x0f = c" "drop_bit 4 (c AND 0xf0) = 0"
    using nibbles(1,2) [of 0 c] assms(1) by simp_all
  have "writeFieldBeginInternal ft fid over wst =
      Some (compact_writeByte c @ v, wst\<lparr>lastFieldId := fid\<rparr>)"
    using assms(4) v(1) unfolding writeFieldBeginInternal_def if_not_P [OF False] by simp
  moreover have "compact_readFieldBegin rst ((compact_writeByte c @ v) @ s) =
      Some (Inr ((t, fid), compact_field c fid rst, s))" for rst s
    using v(2) c assms(2,3)
    by (simp add: compact_readFieldBegin_def cbind_readByte Let_def T_STOP_def)
      (simp add: compact_fieldId_def compact_getTType_def cbind_def cret_def)
  ultimately show ?thesis by blast
qed

text \<open>The header of a value; that of a boolean, which is written with its value.\<close>

lemma value_header:
  assumes "valid_type t" and "t \<noteq> T_BOOL"
  obtains h where "compact_writeFieldBegin t fid wst = Some (h, wst\<lparr>lastFieldId := fid\<rparr>)"
    and "\<And>rst s. lastFieldId rst = lastFieldId wst \<Longrightarrow>
      compact_readFieldBegin rst (h @ s) = Some (Inr ((t, fid), rst\<lparr>lastFieldId := fid\<rparr>, s))"
proof -
  obtain c where c: "getCompactType t = Some c" "c < 16" "c \<noteq> 0" "getTType c = Inr t"
      "c \<noteq> CT_BOOLEAN_TRUE" "c \<noteq> CT_BOOLEAN_FALSE"
    using valid_ctype [OF assms(1)] assms(2) by metis
  have "compact_field c fid rst = rst\<lparr>lastFieldId := fid\<rparr>" for rst
    using c(5,6) by (cases rst) (simp add: compact_field_def)
  then show ?thesis
    using that header_write [OF c(2-4), of "- 1" t fid wst] c(1) assms(2)
    by (auto simp: compact_writeFieldBegin_def)
qed

lemma bool_header:
  assumes "booleanField wst = None"
  obtains h where "cthen (compact_writeFieldBegin T_BOOL fid) (compact_writeBool b) wst =
      Some (h, wst\<lparr>lastFieldId := fid\<rparr>)"
    and "\<And>rst s. lastFieldId rst = lastFieldId wst \<Longrightarrow>
      compact_readFieldBegin rst (h @ s) = Some (Inr ((T_BOOL, fid), rst\<lparr>lastFieldId := fid, boolValue := Some b\<rparr>, s))"
proof -
  define c where "c = (if b then CT_BOOLEAN_TRUE else CT_BOOLEAN_FALSE)"
  have c: "c < 16" "c \<noteq> 0" "getTType c = Inr T_BOOL" "c \<noteq> - 1" "c = CT_BOOLEAN_TRUE \<or> c = CT_BOOLEAN_FALSE"
      "c = CT_BOOLEAN_TRUE \<longleftrightarrow> b"
    by (simp_all add: c_def getTType_def ctype_defs T_STOP_def)
  let ?w = "wst\<lparr>booleanField := Some (T_BOOL, fid)\<rparr>"
  obtain h where h: "writeFieldBeginInternal T_BOOL fid c ?w = Some (h, ?w\<lparr>lastFieldId := fid\<rparr>)"
      "\<And>rst s. lastFieldId rst = lastFieldId wst \<Longrightarrow>
        compact_readFieldBegin rst (h @ s) = Some (Inr ((T_BOOL, fid), compact_field c fid rst, s))"
    using header_write [OF c(1-3), of c T_BOOL fid ?w] c(4) by auto
  have "wst\<lparr>lastFieldId := fid, booleanField := None\<rparr> = wst\<lparr>lastFieldId := fid\<rparr>"
    using assms by (cases wst) simp
  then have "cthen (compact_writeFieldBegin T_BOOL fid) (compact_writeBool b) wst = Some (h, wst\<lparr>lastFieldId := fid\<rparr>)"
    using h(1) by (simp add: cthen_def compact_writeFieldBegin_def compact_writeBool_def c_def Let_def)
  moreover have "compact_field c fid rst = rst\<lparr>lastFieldId := fid, boolValue := Some b\<rparr>" for rst
    using c(5,6) by (auto simp: compact_field_def)
  ultimately show ?thesis
    using that h(2) by auto
qed

lemma stop_write: "compact_readFieldBegin st (compact_writeFieldStop @ s) = Some (Inr ((T_STOP, 0), st, s))"
  by (simp add: compact_readFieldBegin_def compact_writeFieldStop_def
      cbind_readByte cret_def T_STOP_def)

lemma check_size: "n < 2 ^ 31 \<Longrightarrow> compact_check_size default_proto (of_nat n) = cret ()"
  using sint_small [of n] by (simp add: compact_check_size_def default_proto_def)

lemma wrote_list:
  assumes "valid_type e" and "n < 2 ^ 31"
  shows "wrote (compact_writeListBegin e (of_nat n)) (compact_readListBegin default_proto) (e, of_nat n)"
proof -
  obtain c where c: "getCompactType e = Some c" "c < 16" "getTType c = Inr e"
    using valid_ctype [OF assms(1)] by metis
  note n = sint_small [OF assms(2)] check_size [OF assms(2)]
  show ?thesis
  proof (cases "n \<le> 14")
    case True
    let ?m = "of_nat n :: i8"
    have m: "?m < 16" "ucast ?m = (of_nat n :: i32)" "ucast (of_nat n :: i32) = ?m" "?m \<noteq> 15"
      using True by (simp_all add: word_less_nat_alt unsigned_of_nat take_bit_nat_eq_self word_unat_eq_iff)
    define b where "b = push_bit 4 ?m OR c"
    have b: "b AND 0x0f = c" "drop_bit 4 b AND 0x0f = ?m"
      unfolding b_def using nibbles(1,4) [OF m(1) c(2)] by blast+
    show ?thesis
    proof (rule wroteI)
      show "compact_writeListBegin e (of_nat n) = Some (compact_writeByte b)"
        using True c(1) n(1) m(3) by (simp add: compact_writeListBegin_def writeCollectionBegin_def b_def)
      show "compact_readListBegin default_proto st (compact_writeByte b @ s) =
          Some (Inr ((e, of_nat n), st, s))" for st s
        using b m(2,4) n(2) c(3)
        by (simp add: compact_readListBegin_def Let_def cbind_readByte) (simp add: compact_getTType_def cbind_def cret_def)
    qed
  next
    case False
    obtain v where v: "writeVarint32 (of_nat n) = Some v"
        "\<And>st s. on_stream readVarint32 st (v @ s) = Some (Inr (of_nat n, st, s))"
      using wrote_varint(1) [of "of_nat n"] by (auto simp: wrote_def)
    have f0: "(0xf0 :: i8) = push_bit 4 15" by simp
    show ?thesis
    proof (rule wroteI)
      show "compact_writeListBegin e (of_nat n) = Some (compact_writeByte (push_bit 4 15 OR c) @ v)"
        using False c(1) n(1) v(1) unfolding compact_writeListBegin_def writeCollectionBegin_def f0 by simp
      show "compact_readListBegin default_proto st ((compact_writeByte (push_bit 4 15 OR c) @ v) @ s) =
          Some (Inr ((e, of_nat n), st, s))" for st s
        using nibbles(1,4) [of 15 c] v(2) n(2) c(2,3)
        by (simp only: compact_readListBegin_def Let_def append_assoc cbind_readByte)
          (simp add: compact_getTType_def cbind_def cret_def)
    qed
  qed
qed

lemma empty_map_byte: "varint_bytes (0 :: u32) = compact_writeByte 0"
  by (simp add: varint_bytes.simps [of 0] compact_writeByte_def)

lemma on_varint_zero: "on_stream readVarint32 st (compact_writeByte 0 @ s) = Some (Inr (0, st, s))"
  using readVarint32_write [of 0 s] by (simp add: on_stream_def empty_map_byte)

text \<open>An empty map loses the types of its keys and values.\<close>

lemma wrote_map:
  assumes "valid_type k" and "valid_type v" and "n < 2 ^ 31"
  shows "wrote (compact_writeMapBegin k v (of_nat n)) (compact_readMapBegin default_proto)
    (if n = 0 then (T_STOP, T_STOP, 0) else (k, v, of_nat n))"
proof -
  obtain c where c: "getCompactType k = Some c" "c < 16" "getTType c = Inr k"
    using valid_ctype [OF assms(1)] by metis
  obtain d where d: "getCompactType v = Some d" "d < 16" "getTType d = Inr v"
    using valid_ctype [OF assms(2)] by metis
  note size = check_size [OF assms(3)]
  show ?thesis
  proof (cases "n = 0")
    case True
    have zero: "getTType 0 = Inr T_STOP"
      by (simp add: getTType_def T_STOP_def)
    have "compact_check_size default_proto 0 = cret ()"
      using check_size [of 0] by simp
    then have "compact_readMapBegin default_proto st (compact_writeByte 0 @ s) = Some (Inr ((T_STOP, T_STOP, 0), st, s))" for st s
      by (simp add: compact_readMapBegin_def cbind_step [of "on_stream readVarint32", OF on_varint_zero])
        (simp add: compact_getTType_def cbind_def cret_def zero)
    then show ?thesis
      using True by (auto simp: wrote_def compact_writeMapBegin_def)
  next
    case False
    have z: "(of_nat n :: i32) \<noteq> 0"
      using False assms(3) by (simp add: unat_eq_0 [symmetric])
    obtain l where l: "writeVarint32 (of_nat n) = Some l"
        "\<And>st s. on_stream readVarint32 st (l @ s) = Some (Inr (of_nat n, st, s))"
      using wrote_varint(1) [of "of_nat n"] by (auto simp: wrote_def)
    define b where "b = push_bit 4 c OR d"
    have b: "b AND 0x0f = d" "drop_bit 4 b = c"
      unfolding b_def using nibbles(1,3) [OF c(2) d(2)] by blast+
    show ?thesis
    proof (rule wroteI)
      show "compact_writeMapBegin k v (of_nat n) = Some (l @ compact_writeByte b)"
        using z l(1) c(1) d(1) by (simp add: compact_writeMapBegin_def b_def)
      show "compact_readMapBegin default_proto st ((l @ compact_writeByte b) @ s) =
          Some (Inr (if n = 0 then (T_STOP, T_STOP, 0) else (k, v, of_nat n), st, s))" for st s
        using False z l(2) [of st "compact_writeByte b @ s"] b size c(3) d(3)
        by (simp add: compact_readMapBegin_def cbind_step [of "on_stream readVarint32"] cbind_readByte)
          (simp add: compact_getTType_def cbind_def cret_def)
    qed
  qed
qed

subsection \<open>Messages\<close>

definition message_byte :: "mtype \<Rightarrow> i8" where
  "message_byte t = (VERSION_N AND COMPACT_VERSION_MASK) OR (push_bit TYPE_SHIFT_AMOUNT t AND TYPE_MASK)"

lemma message_type_bits:
  assumes "t \<in> {T_CALL, T_REPLY, T_EXCEPTION, T_ONEWAY}"
  shows "message_byte t AND COMPACT_VERSION_MASK = VERSION_N"
    and "signed_drop_bit TYPE_SHIFT_AMOUNT (message_byte t) AND 0x03 = (if t = T_ONEWAY then 0 else t)"
proof -
  have d: "signed_drop_bit 5 (0x21 :: i8) = 1" "signed_drop_bit 5 (0x41 :: i8) = 2"
    "signed_drop_bit 5 (0x61 :: i8) = 3" "signed_drop_bit 5 (0x81 :: i8) AND 0x03 = 0"
    by code_simp+
  then show "message_byte t AND COMPACT_VERSION_MASK = VERSION_N"
    "signed_drop_bit TYPE_SHIFT_AMOUNT (message_byte t) AND 0x03 = (if t = T_ONEWAY then 0 else t)"
    using assms
    by (auto simp: message_byte_def VERSION_N_def COMPACT_VERSION_MASK_def TYPE_MASK_def
        TYPE_SHIFT_AMOUNT_def T_CALL_def T_REPLY_def T_EXCEPTION_def T_ONEWAY_def)
qed

lemma wrote_message:
  assumes "length name < 2 ^ 31" and "message_byte t AND COMPACT_VERSION_MASK = VERSION_N"
  shows "wrote (compact_writeMessageBegin name t seqid) (compact_readMessageBegin default_proto)
    (name, signed_drop_bit TYPE_SHIFT_AMOUNT (message_byte t) AND 0x03, seqid)"
proof -
  obtain n where n: "writeVarint32 seqid = Some n" "\<And>st s. on_stream readVarint32 st (n @ s) = Some (Inr (seqid, st, s))"
    using wrote_varint(1) [of seqid] by (auto simp: wrote_def)
  obtain m where m: "compact_writeString name = Some m"
      "\<And>st s. compact_readString default_proto st (m @ s) = Some (Inr (name, st, s))"
    using wrote_string [OF assms(1)] by (auto simp: wrote_def)
  show ?thesis
  proof (rule wroteI)
    show "compact_writeMessageBegin name t seqid =
        Some (compact_writeByte PROTOCOL_ID @ compact_writeByte (message_byte t) @ n @ m)"
      by (simp add: compact_writeMessageBegin_def message_byte_def n(1) m(1))
    show "compact_readMessageBegin default_proto st
        ((compact_writeByte PROTOCOL_ID @ compact_writeByte (message_byte t) @ n @ m) @ s) =
      Some (Inr ((name, signed_drop_bit TYPE_SHIFT_AMOUNT (message_byte t) AND 0x03, seqid), st, s))" for st s
      using assms(2)
      by (simp add: compact_readMessageBegin_def cbind_readByte cbind_step [of "on_stream readVarint32", OF n(2)]
          cbind_step [of "compact_readString default_proto", OF m(2)] cret_def)
  qed
qed

text \<open>
  Sizes are signed in \<open>writeCollectionBegin\<close>: from \<open>2 ^ 31\<close> on a list is announced with the low four
  bits of its size.
\<close>

lemma big_list_header:
  assumes "2 ^ 31 \<le> uint n"
  shows "compact_writeListBegin T_I32 n = Some (compact_writeByte (push_bit 4 (ucast n) OR CT_I32))"
proof -
  have "uint n - 2 ^ 31 < 2 ^ 31" "0 \<le> uint n - 2 ^ 31"
    using assms uint_bounded [of n] by simp_all
  then have "uint n div 2 ^ 31 = 1"
    by (simp add: div_pos_geq div_pos_pos_trivial)
  then have "sint n < 0"
    by (simp add: sint_uint signed_take_bit_negative_iff bit_iff_odd)
  then show ?thesis
    by (simp add: compact_writeListBegin_def writeCollectionBegin_def getCompactType_def T_I32_def TTypeToCType_def)
qed

subsection \<open>Values\<close>

text \<open>How generated code writes a value of any type.\<close>

function (sequential) compact_encode :: "tval \<Rightarrow> compact_writer" and compact_fields :: "(i16 \<times> tval) list \<Rightarrow> compact_writer"
  and compact_elems :: "tval list \<Rightarrow> compact_writer" and compact_pairs :: "(tval \<times> tval) list \<Rightarrow> compact_writer" where
  "compact_encode (VBool b) = compact_writeBool b"
| "compact_encode (VByte i) = cwrite (Some (compact_writeByte i))"
| "compact_encode (VI16 i) = cwrite (compact_writeI16 i)"
| "compact_encode (VI32 i) = cwrite (compact_writeI32 i)"
| "compact_encode (VI64 i) = cwrite (compact_writeI64 i)"
| "compact_encode (VDouble d) = cwrite (Some (compact_writeDouble d))"
| "compact_encode (VString s) = cwrite (compact_writeString s)"
| "compact_encode (VStruct fs) = cthen compact_writeStructBegin (cthen (compact_fields fs) compact_writeStructEnd)"
| "compact_encode (VMap k v xs) = cthen (cwrite (compact_writeMapBegin k v (of_nat (length xs)))) (compact_pairs xs)"
| "compact_encode (VSet e xs) = cthen (cwrite (compact_writeSetBegin e (of_nat (length xs)))) (compact_elems xs)"
| "compact_encode (VList e xs) = cthen (cwrite (compact_writeListBegin e (of_nat (length xs)))) (compact_elems xs)"
| "compact_fields [] = cwrite (Some compact_writeFieldStop)"
| "compact_fields ((fid, x) # fs) = cthen (compact_writeFieldBegin (type_of x) fid) (cthen (compact_encode x) (compact_fields fs))"
| "compact_elems [] = cwrite (Some [])"
| "compact_elems (x # xs) = cthen (compact_encode x) (compact_elems xs)"
| "compact_pairs [] = cwrite (Some [])"
| "compact_pairs ((x, y) # xs) = cthen (compact_encode x) (cthen (compact_encode y) (compact_pairs xs))"
  by pat_completeness auto
termination
  by (relation "measure (case_sum (case_sum size field_sizes) (case_sum elem_sizes pair_sizes))")
    (auto simp: val_sizes_def)

text \<open>The declared types of containers, empty ones included, are types that exist.\<close>

function (sequential) declared_ok :: "tval \<Rightarrow> bool" and fields_declared :: "(i16 \<times> tval) list \<Rightarrow> bool"
  and elems_declared :: "tval list \<Rightarrow> bool" and pairs_declared :: "(tval \<times> tval) list \<Rightarrow> bool" where
  "declared_ok (VStruct fs) \<longleftrightarrow> fields_declared fs"
| "declared_ok (VMap k v xs) \<longleftrightarrow> valid_type k \<and> valid_type v \<and> pairs_declared xs"
| "declared_ok (VSet e xs) \<longleftrightarrow> valid_type e \<and> elems_declared xs"
| "declared_ok (VList e xs) \<longleftrightarrow> valid_type e \<and> elems_declared xs"
| "declared_ok _ \<longleftrightarrow> True"
| "fields_declared [] \<longleftrightarrow> True"
| "fields_declared ((_, x) # fs) \<longleftrightarrow> declared_ok x \<and> fields_declared fs"
| "elems_declared [] \<longleftrightarrow> True"
| "elems_declared (x # xs) \<longleftrightarrow> declared_ok x \<and> elems_declared xs"
| "pairs_declared [] \<longleftrightarrow> True"
| "pairs_declared ((x, y) # xs) \<longleftrightarrow> declared_ok x \<and> declared_ok y \<and> pairs_declared xs"
  by pat_completeness auto
termination
  by (relation "measure (case_sum (case_sum size field_sizes) (case_sum elem_sizes pair_sizes))")
    (auto simp: val_sizes_def)

lemma valid_type_of: "valid_type (type_of x)"
  by (cases x) (simp_all add: valid_type_def)

section \<open>In step\<close>

text \<open>
  The writer leaves its state as it was, and skipping in any state with no boolean pending takes
  what it wrote and leaves that state as it was.
\<close>

definition in_step :: "compact_writer \<Rightarrow> task list \<Rightarrow> bool" where
  "in_step w tasks \<longleftrightarrow> (\<forall>wst. booleanField wst = None \<longrightarrow> (\<exists>out. w wst = Some (out, wst) \<and>
     (\<forall>rst s ts. boolValue rst = None \<longrightarrow>
        compact_skip_run default_proto (tasks @ ts) rst (out @ s) = compact_skip_run default_proto ts rst s)))"

lemma in_stepI:
  assumes "\<And>wst. booleanField wst = None \<Longrightarrow> \<exists>out. w wst = Some (out, wst) \<and>
     (\<forall>rst s ts. boolValue rst = None \<longrightarrow>
        compact_skip_run default_proto (tasks @ ts) rst (out @ s) = compact_skip_run default_proto ts rst s)"
  shows "in_step w tasks"
  using assms unfolding in_step_def by blast

lemma in_stepE:
  assumes "in_step w tasks" and "booleanField wst = None"
  obtains out where "w wst = Some (out, wst)" and "\<And>rst s ts. boolValue rst = None \<Longrightarrow>
        compact_skip_run default_proto (tasks @ ts) rst (out @ s) = compact_skip_run default_proto ts rst s"
  using assms unfolding in_step_def by blast

lemma in_step_cthen:
  assumes "in_step w as" and "in_step v bs"
  shows "in_step (cthen w v) (as @ bs)"
proof (rule in_stepI)
  fix wst :: compact_state assume "booleanField wst = None"
  then obtain x y where "w wst = Some (x, wst)" "v wst = Some (y, wst)"
      "\<And>rst s ts. boolValue rst = None \<Longrightarrow>
        compact_skip_run default_proto (as @ ts) rst (x @ s) = compact_skip_run default_proto ts rst s"
      "\<And>rst s ts. boolValue rst = None \<Longrightarrow>
        compact_skip_run default_proto (bs @ ts) rst (y @ s) = compact_skip_run default_proto ts rst s"
    using in_stepE [OF assms(1)] in_stepE [OF assms(2)] by metis
  then show "\<exists>out. cthen w v wst = Some (out, wst) \<and>
     (\<forall>rst s ts. boolValue rst = None \<longrightarrow>
        compact_skip_run default_proto ((as @ bs) @ ts) rst (out @ s) = compact_skip_run default_proto ts rst s)"
    by (simp add: cthen_def)
qed

lemma in_step_scalar:
  assumes "wrote w r x" and "compact_skip_scalar default_proto t = Some (cbind r (\<lambda>_. cret ()))"
  shows "in_step (cwrite w) [Skip t]"
proof (rule in_stepI)
  fix wst :: compact_state
  obtain out where out: "w = Some out" "\<And>st s. r st (out @ s) = Some (Inr (x, st, s))"
    using assms(1) by (auto simp: wrote_def)
  have "compact_skip_run default_proto (Skip t # ts) rst (out @ s) = compact_skip_run default_proto ts rst s" for rst s ts
    by (simp add: compact_skip_run.simps(2) assms(2) cbind_def out(2) cret_def)
  with out(1) show "\<exists>out. cwrite w wst = Some (out, wst) \<and> (\<forall>rst s ts. boolValue rst = None \<longrightarrow>
      compact_skip_run default_proto ([Skip t] @ ts) rst (out @ s) = compact_skip_run default_proto ts rst s)"
    by (simp add: cwrite_def)
qed

lemma in_step_scalars:
  "in_step (cwrite (Some (compact_writeByte b))) [Skip T_BYTE]" "in_step (cwrite (compact_writeI16 i)) [Skip T_I16]"
  "in_step (cwrite (compact_writeI32 j)) [Skip T_I32]" "in_step (cwrite (compact_writeI64 k)) [Skip T_I64]"
  "in_step (cwrite (Some (compact_writeDouble d))) [Skip T_DOUBLE]"
  "length str < 2 ^ 31 \<Longrightarrow> in_step (cwrite (compact_writeString str)) [Skip T_STRING]"
  by (rule in_step_scalar, rule wrote_ints wrote_double wrote_string; simp add: compact_skip_scalar_def ttype_defs)+

lemma in_step_bool: "in_step (compact_writeBool b) [Skip T_BOOL]"
proof (rule in_stepI)
  fix wst :: compact_state assume "booleanField wst = None"
  moreover define c where "c = (if b then CT_BOOLEAN_TRUE else CT_BOOLEAN_FALSE)"
  moreover have "compact_skip_run default_proto (Skip T_BOOL # ts) rst (compact_writeByte c @ s) =
      compact_skip_run default_proto ts rst s" if "boolValue rst = None" for rst s ts
    using that
    by (simp add: compact_skip_run.simps(2) compact_skip_scalar_def compact_readBool_def cbind_def compact_readByte_write cret_def)
  ultimately show "\<exists>out. compact_writeBool b wst = Some (out, wst) \<and> (\<forall>rst s ts. boolValue rst = None \<longrightarrow>
      compact_skip_run default_proto ([Skip T_BOOL] @ ts) rst (out @ s) = compact_skip_run default_proto ts rst s)"
    by (simp add: compact_writeBool_def Let_def)
qed

text \<open>A container: its header, then its elements.\<close>

lemma in_step_container:
  assumes "wrote w r x" and "in_step v [task]"
    and "\<And>rst s ts. compact_skip_run default_proto (Skip t # ts) rst s =
      cbind r (\<lambda>y st' s'. compact_skip_run default_proto (rest y # ts) st' s') rst s"
    and "rest x = task"
  shows "in_step (cthen (cwrite w) v) [Skip t]"
proof (rule in_stepI)
  fix wst :: compact_state assume b: "booleanField wst = None"
  obtain out where out: "w = Some out" "\<And>st s. r st (out @ s) = Some (Inr (x, st, s))"
    using assms(1) by (auto simp: wrote_def)
  obtain els where els: "v wst = Some (els, wst)" "\<And>rst s ts. boolValue rst = None \<Longrightarrow>
      compact_skip_run default_proto ([task] @ ts) rst (els @ s) = compact_skip_run default_proto ts rst s"
    using in_stepE [OF assms(2) b] by blast
  show "\<exists>out. cthen (cwrite w) v wst = Some (out, wst) \<and> (\<forall>rst s ts. boolValue rst = None \<longrightarrow>
      compact_skip_run default_proto ([Skip t] @ ts) rst (out @ s) = compact_skip_run default_proto ts rst s)"
    using out els assms(4) by (simp add: cthen_def cwrite_def assms(3) cbind_step [of r, OF out(2)])
qed

lemma skip_run_containers:
  "compact_skip_run p (Skip T_MAP # ts) st s = cbind (compact_readMapBegin p) (\<lambda>x st' s'.
     compact_skip_run p ((case x of (k, v, n) \<Rightarrow> SkipPairs (unat n) k v) # ts) st' s') st s"
  "compact_skip_run p (Skip T_SET # ts) st s = cbind (compact_readSetBegin p) (\<lambda>x st' s'.
     compact_skip_run p ((case x of (e, n) \<Rightarrow> SkipElems (unat n) e) # ts) st' s') st s"
  "compact_skip_run p (Skip T_LIST # ts) st s = cbind (compact_readListBegin p) (\<lambda>x st' s'.
     compact_skip_run p ((case x of (e, n) \<Rightarrow> SkipElems (unat n) e) # ts) st' s') st s"
  by (simp_all add: compact_skip_run.simps(2) compact_skip_scalar_def ttype_defs prod.case_distrib [of "\<lambda>x. compact_skip_run p (x # ts) _ _"] split_beta)

lemma in_step_list:
  assumes "valid_type e" and "length xs < 2 ^ 31" and "in_step (compact_elems xs) [SkipElems (length xs) e]"
  shows "in_step (cthen (cwrite (compact_writeListBegin e (of_nat (length xs)))) (compact_elems xs)) [Skip T_LIST]"
    and "in_step (cthen (cwrite (compact_writeSetBegin e (of_nat (length xs)))) (compact_elems xs)) [Skip T_SET]"
proof -
  note w = wrote_list [OF assms(1,2)]
  then have ws: "wrote (compact_writeSetBegin e (of_nat (length xs))) (compact_readSetBegin default_proto) (e, of_nat (length xs))"
    by (simp add: compact_writeSetBegin_def compact_readSetBegin_def compact_writeListBegin_def)
  show "in_step (cthen (cwrite (compact_writeListBegin e (of_nat (length xs)))) (compact_elems xs)) [Skip T_LIST]"
    by (rule in_step_container [OF w assms(3) skip_run_containers(3)]) (use assms(2) in simp)
  show "in_step (cthen (cwrite (compact_writeSetBegin e (of_nat (length xs)))) (compact_elems xs)) [Skip T_SET]"
    by (rule in_step_container [OF ws assms(3) skip_run_containers(2)]) (use assms(2) in simp)
qed

lemma in_step_map:
  assumes "valid_type k" and "valid_type v" and "length xs < 2 ^ 31"
    and "in_step (compact_pairs xs) [SkipPairs (length xs) k v]"
  shows "in_step (cthen (cwrite (compact_writeMapBegin k v (of_nat (length xs)))) (compact_pairs xs)) [Skip T_MAP]"
proof (cases "xs = []")
  case True
  have "in_step (compact_pairs []) [SkipPairs 0 T_STOP T_STOP]"
    by (rule in_stepI) (simp add: cwrite_def compact_skip_run.simps(5))
  with True show ?thesis
    by (intro in_step_container [OF wrote_map [OF assms(1-3)] _ skip_run_containers(1)]) auto
next
  case False
  then show ?thesis
    using assms(3) by (intro in_step_container [OF wrote_map [OF assms(1-3)] assms(4) skip_run_containers(1)]) auto
qed

subsection \<open>Fields\<close>

text \<open>
  The fields of a struct: the writer ends with another last field number, and the reader leaves the
  struct.
\<close>

definition fields_in_step :: "compact_writer \<Rightarrow> bool" where
  "fields_in_step w \<longleftrightarrow> (\<forall>wst. booleanField wst = None \<longrightarrow> (\<exists>out i. w wst = Some (out, wst\<lparr>lastFieldId := i\<rparr>) \<and>
     (\<forall>rst s ts. boolValue rst = None \<longrightarrow> lastFieldId rst = lastFieldId wst \<longrightarrow>
        compact_skip_run default_proto (SkipFields # ts) rst (out @ s) =
        cbind compact_readStructEnd (\<lambda>_ st' s'. compact_skip_run default_proto ts st' s') rst s)))"

lemma fields_in_stepE:
  assumes "fields_in_step w" and "booleanField wst = None"
  obtains out i where "w wst = Some (out, wst\<lparr>lastFieldId := i\<rparr>)"
    and "\<And>rst s ts. boolValue rst = None \<Longrightarrow> lastFieldId rst = lastFieldId wst \<Longrightarrow>
        compact_skip_run default_proto (SkipFields # ts) rst (out @ s) =
        cbind compact_readStructEnd (\<lambda>_ st' s'. compact_skip_run default_proto ts st' s') rst s"
  using assms unfolding fields_in_step_def by blast

lemma struct_end_any: "cbind compact_readStructEnd f (st\<lparr>lastFieldId := i\<rparr>) s = cbind compact_readStructEnd f st s"
  by (simp add: cbind_def compact_readStructEnd_def split: list.split)

lemma fields_in_step_stop: "fields_in_step (cwrite (Some compact_writeFieldStop))"
proof -
  have "compact_skip_run default_proto (SkipFields # ts) rst (compact_writeFieldStop @ s) =
      cbind compact_readStructEnd (\<lambda>_ st' s'. compact_skip_run default_proto ts st' s') rst s" for rst s ts
    by (simp add: compact_skip_run.simps(3) cbind_step [of compact_readFieldBegin, OF stop_write])
  moreover have "wst = wst\<lparr>lastFieldId := lastFieldId wst\<rparr>" for wst :: compact_state
    by simp
  ultimately show ?thesis
    unfolding fields_in_step_def cwrite_def by (metis bind.bind_lunit)
qed

text \<open>The header and the value of one field.\<close>

definition field_in_step :: "compact_writer \<Rightarrow> i16 \<Rightarrow> bool" where
  "field_in_step w fid \<longleftrightarrow> (\<forall>wst. booleanField wst = None \<longrightarrow> (\<exists>out. w wst = Some (out, wst\<lparr>lastFieldId := fid\<rparr>) \<and>
     (\<forall>rst s ts. boolValue rst = None \<longrightarrow> lastFieldId rst = lastFieldId wst \<longrightarrow>
        compact_skip_run default_proto (SkipFields # ts) rst (out @ s) =
        compact_skip_run default_proto (SkipFields # ts) (rst\<lparr>lastFieldId := fid\<rparr>) s)))"

lemma fields_in_step_Cons:
  assumes "field_in_step w fid" and "fields_in_step v"
  shows "fields_in_step (cthen w v)"
  unfolding fields_in_step_def
proof (intro allI impI)
  fix wst :: compact_state assume b: "booleanField wst = None"
  obtain x where x: "w wst = Some (x, wst\<lparr>lastFieldId := fid\<rparr>)"
      "\<And>rst s ts. boolValue rst = None \<Longrightarrow> lastFieldId rst = lastFieldId wst \<Longrightarrow>
        compact_skip_run default_proto (SkipFields # ts) rst (x @ s) =
        compact_skip_run default_proto (SkipFields # ts) (rst\<lparr>lastFieldId := fid\<rparr>) s"
    using assms(1) b unfolding field_in_step_def by blast
  have "booleanField (wst\<lparr>lastFieldId := fid\<rparr>) = None"
    using b by simp
  from fields_in_stepE [OF assms(2) this] obtain y i where
      y: "v (wst\<lparr>lastFieldId := fid\<rparr>) = Some (y, wst\<lparr>lastFieldId := fid, lastFieldId := i\<rparr>)"
      "\<And>rst s ts. boolValue rst = None \<Longrightarrow> lastFieldId rst = lastFieldId (wst\<lparr>lastFieldId := fid\<rparr>) \<Longrightarrow>
        compact_skip_run default_proto (SkipFields # ts) rst (y @ s) =
        cbind compact_readStructEnd (\<lambda>_ st' s'. compact_skip_run default_proto ts st' s') rst s"
    by blast
  have "cthen w v wst = Some (x @ y, wst\<lparr>lastFieldId := i\<rparr>)"
    by (simp add: cthen_def x(1) y(1))
  moreover have "compact_skip_run default_proto (SkipFields # ts) rst ((x @ y) @ s) =
      cbind compact_readStructEnd (\<lambda>_ st' s'. compact_skip_run default_proto ts st' s') rst s"
    if "boolValue rst = None" "lastFieldId rst = lastFieldId wst" for rst s ts
    using x(2) [OF that] y(2) [of "rst\<lparr>lastFieldId := fid\<rparr>"] that by (simp add: struct_end_any)
  ultimately show "\<exists>out i. cthen w v wst = Some (out, wst\<lparr>lastFieldId := i\<rparr>) \<and>
     (\<forall>rst s ts. boolValue rst = None \<longrightarrow> lastFieldId rst = lastFieldId wst \<longrightarrow>
        compact_skip_run default_proto (SkipFields # ts) rst (out @ s) =
        cbind compact_readStructEnd (\<lambda>_ st' s'. compact_skip_run default_proto ts st' s') rst s)"
    by blast
qed

lemma skip_run_field:
  assumes "compact_readFieldBegin rst (h @ s) = Some (Inr ((t, fid), st', s))" and "t \<noteq> T_STOP"
  shows "compact_skip_run p (SkipFields # ts) rst (h @ s) = compact_skip_run p (Skip t # SkipFields # ts) st' s"
  using assms(2) by (simp add: compact_skip_run.simps(3) cbind_step [of compact_readFieldBegin, OF assms(1)])

lemma field_in_step_value:
  assumes "in_step w [Skip t]" and "valid_type t" and "t \<noteq> T_BOOL"
  shows "field_in_step (cthen (compact_writeFieldBegin t fid) w) fid"
  unfolding field_in_step_def
proof (intro allI impI)
  fix wst :: compact_state assume b: "booleanField wst = None"
  obtain h where h: "compact_writeFieldBegin t fid wst = Some (h, wst\<lparr>lastFieldId := fid\<rparr>)"
      "\<And>rst s. lastFieldId rst = lastFieldId wst \<Longrightarrow>
        compact_readFieldBegin rst (h @ s) = Some (Inr ((t, fid), rst\<lparr>lastFieldId := fid\<rparr>, s))"
    using value_header [OF assms(2,3)] by metis
  have "booleanField (wst\<lparr>lastFieldId := fid\<rparr>) = None"
    using b by simp
  from in_stepE [OF assms(1) this] obtain x where x: "w (wst\<lparr>lastFieldId := fid\<rparr>) = Some (x, wst\<lparr>lastFieldId := fid\<rparr>)"
      "\<And>rst s ts. boolValue rst = None \<Longrightarrow>
        compact_skip_run default_proto ([Skip t] @ ts) rst (x @ s) = compact_skip_run default_proto ts rst s"
    by blast
  have "t \<noteq> T_STOP"
    using assms(2) by (auto simp: valid_type_def ttype_defs)
  then have "compact_skip_run default_proto (SkipFields # ts) rst ((h @ x) @ s) =
      compact_skip_run default_proto (SkipFields # ts) (rst\<lparr>lastFieldId := fid\<rparr>) s"
    if "boolValue rst = None" "lastFieldId rst = lastFieldId wst" for rst s ts
    using skip_run_field [OF h(2) [OF that(2)]] x(2) [of "rst\<lparr>lastFieldId := fid\<rparr>" "SkipFields # ts"] that(1)
    by simp
  moreover have "cthen (compact_writeFieldBegin t fid) w wst = Some (h @ x, wst\<lparr>lastFieldId := fid\<rparr>)"
    by (simp add: cthen_def h(1) x(1))
  ultimately show "\<exists>out. cthen (compact_writeFieldBegin t fid) w wst = Some (out, wst\<lparr>lastFieldId := fid\<rparr>) \<and>
     (\<forall>rst s ts. boolValue rst = None \<longrightarrow> lastFieldId rst = lastFieldId wst \<longrightarrow>
        compact_skip_run default_proto (SkipFields # ts) rst (out @ s) =
        compact_skip_run default_proto (SkipFields # ts) (rst\<lparr>lastFieldId := fid\<rparr>) s)"
    by blast
qed

text \<open>A boolean field: its value is in the header, which is written with the value.\<close>

lemma field_in_step_bool: "field_in_step (cthen (compact_writeFieldBegin T_BOOL fid) (compact_writeBool b)) fid"
  unfolding field_in_step_def
proof (intro allI impI)
  fix wst :: compact_state assume "booleanField wst = None"
  then obtain h where h: "cthen (compact_writeFieldBegin T_BOOL fid) (compact_writeBool b) wst =
        Some (h, wst\<lparr>lastFieldId := fid\<rparr>)"
      "\<And>rst s. lastFieldId rst = lastFieldId wst \<Longrightarrow> compact_readFieldBegin rst (h @ s) =
        Some (Inr ((T_BOOL, fid), rst\<lparr>lastFieldId := fid, boolValue := Some b\<rparr>, s))"
    using bool_header by metis
  have "compact_skip_run default_proto (SkipFields # ts) rst (h @ s) =
      compact_skip_run default_proto (SkipFields # ts) (rst\<lparr>lastFieldId := fid\<rparr>) s"
    if "boolValue rst = None" "lastFieldId rst = lastFieldId wst" for rst s ts
  proof -
    have "rst\<lparr>lastFieldId := fid, boolValue := None\<rparr> = rst\<lparr>lastFieldId := fid\<rparr>"
      using that(1) by (cases rst) simp
    then show ?thesis
      using skip_run_field [OF h(2) [OF that(2)]]
      by (simp add: ttype_defs compact_skip_run.simps(2) compact_skip_scalar_def
          compact_readBool_def cbind_def cret_def)
  qed
  with h(1) show "\<exists>out. cthen (compact_writeFieldBegin T_BOOL fid) (compact_writeBool b) wst =
      Some (out, wst\<lparr>lastFieldId := fid\<rparr>) \<and>
     (\<forall>rst s ts. boolValue rst = None \<longrightarrow> lastFieldId rst = lastFieldId wst \<longrightarrow>
        compact_skip_run default_proto (SkipFields # ts) rst (out @ s) =
        compact_skip_run default_proto (SkipFields # ts) (rst\<lparr>lastFieldId := fid\<rparr>) s)"
    by blast
qed

lemma in_step_struct:
  assumes "fields_in_step w"
  shows "in_step (cthen compact_writeStructBegin (cthen w compact_writeStructEnd)) [Skip T_STRUCT]"
proof (rule in_stepI)
  fix wst :: compact_state assume b: "booleanField wst = None"
  let ?in = "\<lambda>st. st\<lparr>lastField := lastFieldId st # lastField st, lastFieldId := 0\<rparr>"
  have "booleanField (?in wst) = None"
    using b by simp
  from fields_in_stepE [OF assms this] obtain out i where out: "w (?in wst) = Some (out, (?in wst)\<lparr>lastFieldId := i\<rparr>)"
      "\<And>rst s ts. boolValue rst = None \<Longrightarrow> lastFieldId rst = lastFieldId (?in wst) \<Longrightarrow>
        compact_skip_run default_proto (SkipFields # ts) rst (out @ s) =
        cbind compact_readStructEnd (\<lambda>_ st' s'. compact_skip_run default_proto ts st' s') rst s"
    by blast
  have "cthen compact_writeStructBegin (cthen w compact_writeStructEnd) wst = Some (out, wst)"
    using out(1) by (simp add: cthen_def compact_writeStructBegin_def compact_writeStructEnd_def)
  moreover have "compact_skip_run default_proto (Skip T_STRUCT # ts) rst (out @ s) = compact_skip_run default_proto ts rst s"
    if "boolValue rst = None" for rst s ts
  proof -
    have "compact_skip_run default_proto (Skip T_STRUCT # ts) rst (out @ s) =
        compact_skip_run default_proto (SkipFields # ts) (?in rst) (out @ s)"
      by (simp add: compact_skip_run.simps(2) compact_skip_scalar_def ttype_defs cbind_def compact_readStructBegin_def)
    also have "\<dots> = compact_skip_run default_proto ts rst s"
      using out(2) [of "?in rst"] that by (simp add: cbind_def compact_readStructEnd_def)
    finally show ?thesis .
  qed
  ultimately show "\<exists>out. cthen compact_writeStructBegin (cthen w compact_writeStructEnd) wst = Some (out, wst) \<and>
     (\<forall>rst s ts. boolValue rst = None \<longrightarrow>
        compact_skip_run default_proto ([Skip T_STRUCT] @ ts) rst (out @ s) = compact_skip_run default_proto ts rst s)"
    by auto
qed

subsection \<open>Values of any type\<close>

lemma in_step_loops:
  "in_step w [Skip e] \<Longrightarrow> in_step v [SkipElems n e] \<Longrightarrow> in_step (cthen w v) [SkipElems (Suc n) e]"
  "in_step w [Skip k] \<Longrightarrow> in_step w' [Skip l] \<Longrightarrow> in_step v [SkipPairs n k l] \<Longrightarrow>
    in_step (cthen w (cthen w' v)) [SkipPairs (Suc n) k l]"
  "in_step (cwrite (Some [])) [SkipElems 0 e]" "in_step (cwrite (Some [])) [SkipPairs 0 k l]"
proof -
  show "in_step w [Skip e] \<Longrightarrow> in_step v [SkipElems n e] \<Longrightarrow> in_step (cthen w v) [SkipElems (Suc n) e]"
    using in_step_cthen [of w "[Skip e]" v "[SkipElems n e]"]
    by (simp add: in_step_def compact_skip_run.simps(4) [of _ "Suc n"])
  show "in_step w [Skip k] \<Longrightarrow> in_step w' [Skip l] \<Longrightarrow> in_step v [SkipPairs n k l] \<Longrightarrow>
      in_step (cthen w (cthen w' v)) [SkipPairs (Suc n) k l]"
    using in_step_cthen [of w "[Skip k]" "cthen w' v" "[Skip l, SkipPairs n k l]"]
      in_step_cthen [of w' "[Skip l]" v "[SkipPairs n k l]"]
    by (simp add: in_step_def compact_skip_run.simps(5) [of _ "Suc n"])
qed (simp_all add: in_step_def cwrite_def compact_skip_run.simps(4,5))

lemma field_in_step_type:
  assumes "in_step (compact_encode x) [Skip (type_of x)]"
  shows "field_in_step (cthen (compact_writeFieldBegin (type_of x) fid) (compact_encode x)) fid"
proof (cases "type_of x = T_BOOL")
  case True
  then obtain b where "x = VBool b"
    by (cases x) (simp_all add: ttype_defs)
  then show ?thesis using field_in_step_bool by simp
next
  case False
  then show ?thesis
    using field_in_step_value [OF assms valid_type_of] by simp
qed

lemma cthen_assoc: "cthen (cthen u v) w = cthen u (cthen v w)"
  by (rule ext) (simp add: cthen_def split: bind_split)

lemma compact_in_step:
  "wf_val x \<Longrightarrow> declared_ok x \<Longrightarrow> in_step (compact_encode x) [Skip (type_of x)]"
  "wf_fields fs \<Longrightarrow> fields_declared fs \<Longrightarrow> fields_in_step (compact_fields fs)"
  "wf_elems e xs \<Longrightarrow> elems_declared xs \<Longrightarrow> in_step (compact_elems xs) [SkipElems (length xs) e]"
  "wf_pairs k v ps \<Longrightarrow> pairs_declared ps \<Longrightarrow> in_step (compact_pairs ps) [SkipPairs (length ps) k v]"
proof (induction x and fs and xs and ps arbitrary: and and e and k v
    rule: compact_encode_compact_fields_compact_elems_compact_pairs.induct)
  case (13 fid x fs)
  then show ?case
    using fields_in_step_Cons [OF field_in_step_type [of x fid], of "compact_fields fs"] by (simp add: cthen_assoc)
qed (auto simp: in_step_scalars in_step_bool in_step_struct in_step_list in_step_map fields_in_step_stop in_step_loops)

end
