(* ===== verification/CompactProps.thy ===== *)
theory CompactProps
  imports CompactCorrect
begin

text \<open>Properties of the compact protocol.\<close>

unbundle bit_operations_syntax

text \<open>C18. What the compact protocol writes for a value of any type, nested structs, containers and
  boolean fields included, is taken by \<open>skip\<close> to the last byte and not further; the writer and the
  reader are afterwards in the states they had, so that the field numbers that follow are still
  the differences that the other side expects.
\<close>

theorem compact_skip_exact:
  assumes "wf_val x" and "declared_ok x" and "booleanField wst = None" and "boolValue rst = None"
  shows "\<exists>out. compact_encode x wst = Some (out, wst) \<and>
    (\<forall>s. compact_skip default_proto (type_of x) rst (out @ s) = Some (Inr ((), rst, s)))"
  using in_stepE [OF compact_in_step(1) [OF assms(1,2)] assms(3)] assms(4)
  by (metis append_Nil2 compact_skip_def compact_skip_run.simps(1))

theorem compact_skip_exact_witness:
  "\<exists>out. compact_encode (VStruct [(1, VBool True), (300, VList T_I32 [VI32 (- 5)]), (2, VMap T_BYTE T_STRUCT [])])
      TCompactProtocol_new = Some (out, TCompactProtocol_new) \<and>
    (\<forall>s. compact_skip default_proto T_STRUCT TCompactProtocol_new (out @ s) = Some (Inr ((), TCompactProtocol_new, s)))"
  using compact_skip_exact [of "VStruct [(1, VBool True), (300, VList T_I32 [VI32 (- 5)]), (2, VMap T_BYTE T_STRUCT [])]"
      TCompactProtocol_new TCompactProtocol_new]
  by (simp add: TCompactProtocol_new_def valid_type_def)

text \<open>The header of a field is read back with its type and number by a reader whose last field
  number is the writer's, whatever the two numbers are.  The header of a boolean field is only
  written with its value: the reader finds the value in the header and takes no byte for it.
\<close>

theorem compact_field_round_trip:
  assumes "valid_type t" and "t \<noteq> T_BOOL" and "lastFieldId rst = lastFieldId wst"
    and "booleanField wst = None" and "boolValue rst = None"
  shows "(\<exists>out. compact_writeFieldBegin t fid wst = Some (out, wst\<lparr>lastFieldId := fid\<rparr>) \<and>
      (\<forall>s. compact_readFieldBegin rst (out @ s) = Some (Inr ((t, fid), rst\<lparr>lastFieldId := fid\<rparr>, s)))) \<and>
    (\<exists>out. cthen (compact_writeFieldBegin T_BOOL fid) (compact_writeBool b) wst =
        Some (out, wst\<lparr>lastFieldId := fid\<rparr>) \<and>
      (\<forall>s. compact_readFieldBegin rst (out @ s) =
          Some (Inr ((T_BOOL, fid), rst\<lparr>lastFieldId := fid, boolValue := Some b\<rparr>, s)) \<and>
        compact_readBool (rst\<lparr>lastFieldId := fid, boolValue := Some b\<rparr>) s =
          Some (Inr (b, rst\<lparr>lastFieldId := fid\<rparr>, s))))"
proof
  show "\<exists>out. compact_writeFieldBegin t fid wst = Some (out, wst\<lparr>lastFieldId := fid\<rparr>) \<and>
      (\<forall>s. compact_readFieldBegin rst (out @ s) = Some (Inr ((t, fid), rst\<lparr>lastFieldId := fid\<rparr>, s)))"
    using value_header [OF assms(1,2), of fid wst] assms(3) by metis
  have "rst\<lparr>lastFieldId := fid, boolValue := None\<rparr> = rst\<lparr>lastFieldId := fid\<rparr>"
    using assms(5) by (cases rst) simp
  then have "compact_readBool (rst\<lparr>lastFieldId := fid, boolValue := Some b\<rparr>) s =
      Some (Inr (b, rst\<lparr>lastFieldId := fid\<rparr>, s))" for s
    by (simp add: compact_readBool_def cret_def)
  then show "\<exists>out. cthen (compact_writeFieldBegin T_BOOL fid) (compact_writeBool b) wst =
        Some (out, wst\<lparr>lastFieldId := fid\<rparr>) \<and>
      (\<forall>s. compact_readFieldBegin rst (out @ s) =
          Some (Inr ((T_BOOL, fid), rst\<lparr>lastFieldId := fid, boolValue := Some b\<rparr>, s)) \<and>
        compact_readBool (rst\<lparr>lastFieldId := fid, boolValue := Some b\<rparr>) s =
          Some (Inr (b, rst\<lparr>lastFieldId := fid\<rparr>, s)))"
    using bool_header [OF assms(4), of fid b] assms(3) by metis
qed

theorem compact_field_round_trip_witness:
  "(\<exists>out. compact_writeFieldBegin T_I32 7 TCompactProtocol_new = Some (out, TCompactProtocol_new\<lparr>lastFieldId := 7\<rparr>) \<and>
      (\<forall>s. compact_readFieldBegin TCompactProtocol_new (out @ s) =
        Some (Inr ((T_I32, 7), TCompactProtocol_new\<lparr>lastFieldId := 7\<rparr>, s))))"
  using compact_field_round_trip [of T_I32 TCompactProtocol_new TCompactProtocol_new 7 True]
  by (simp add: TCompactProtocol_new_def valid_type_def ttype_defs)

text \<open>C29. A 32-bit number takes at most the five bytes, a 64-bit number at most the ten bytes of the
  buffer it is written to, so neither write overruns it.  Reading gives the number back; and on any
  ten bytes that the transport lends, the fast path agrees with the byte-by-byte path, looks at no
  byte behind them and consumes as many.
\<close>

theorem varints_in_bounds:
  assumes "10 \<le> length lent"
  shows "(\<exists>out. writeVarint32 n = Some out \<and> length out \<le> 5 \<and> (\<forall>s. readVarint32 (out @ s) = Inr (n, s))) \<and>
    (\<exists>out. writeVarint64 m = Some out \<and> length out \<le> 10 \<and> (\<forall>s. readVarint64 (out @ s) = Inr (m, s))) \<and>
    (case readVarint64 (lent @ s) of
       Inl e \<Rightarrow> varint_fast lent 0 0 0 = Some (Inl e)
     | Inr (x, t) \<Rightarrow> \<exists>k \<le> 10. varint_fast lent 0 0 0 = Some (Inr (x, k)) \<and> t = drop k lent @ s)"
proof -
  have "case readVarint64 (lent @ s) of
       Inl e \<Rightarrow> varint_fast lent 0 0 0 = Some (Inl e)
     | Inr (x, t) \<Rightarrow> \<exists>k \<le> 10. varint_fast lent 0 0 0 = Some (Inr (x, k)) \<and> t = drop k lent @ s"
    using varint_fast_slow [OF assms, of 0 0 0 s] by (simp add: readVarint64_def)
  then show ?thesis
    using length_varint32 [of n] length_varint64 [of m]
    by (auto simp: writeVarint32_total writeVarint64_total readVarint32_write readVarint64_write)
qed

theorem varints_in_bounds_witness:
  "\<exists>k \<le> 10. varint_fast (map char8 [0xAC, 2, 0, 0, 0, 0, 0, 0, 0, 0]) 0 0 0 = Some (Inr (300, k))"
proof -
  have "readVarint64 (map char8 [0xAC, 2, 0, 0, 0, 0, 0, 0, 0, 0] @ []) =
      Inr (300, map char8 [0, 0, 0, 0, 0, 0, 0, 0] @ [])"
    by (simp add: readVarint64_def Let_def)
  then show ?thesis
    using varints_in_bounds [of "map char8 [0xAC, 2, 0, 0, 0, 0, 0, 0, 0, 0]" 0 0 "[]"]
    by auto
qed

text \<open>The header of a call, a reply or an exception is read back as it was written.  The type of
  a one-way message, 4, is cut to two bits by the reader: it arrives as the type 0, which no
  message has.
\<close>

theorem compact_message_types:
  assumes "length name < 2 ^ 31" and "t \<in> {T_CALL, T_REPLY, T_EXCEPTION, T_ONEWAY}"
  shows "\<exists>out. compact_writeMessageBegin name t seqid = Some out \<and>
    (\<forall>st s. compact_readMessageBegin default_proto st (out @ s) =
      Some (Inr ((name, if t = T_ONEWAY then 0 else t, seqid), st, s)))"
  using wrote_message [OF assms(1), of t seqid] message_type_bits [OF assms(2)] by (auto simp: wrote_def)

theorem compact_message_types_witness:
  "\<exists>out. compact_writeMessageBegin ''ping'' T_ONEWAY 1 = Some out \<and>
    (\<forall>st s. compact_readMessageBegin default_proto st (out @ s) = Some (Inr ((''ping'', 0, 1), st, s)))"
  using compact_message_types [of "''ping''" T_ONEWAY 1] by simp

end
