(* ===== verification/OverStruct.thy ===== *)
theory OverStruct
  imports OverBuffer WireCodec
begin

text \<open>
  Structs over a transport: skipping, the loops of the generated readers, and the requests of a
  processor.  A connection may go on for ever, so the loops are partial functions: \<open>None\<close> stands
  for an undefined step and for not returning, and what is proved excludes both.
\<close>

lemma obind_mono [partial_function_mono]:
  assumes "\<And>x d. mono_option (\<lambda>f. F f x d)"
  shows "mono_option (\<lambda>f. obind R (\<lambda>x d. F f x d) c)"
proof (rule monotoneI)
  fix f g :: "'c \<Rightarrow> 'd option" assume "fun_ord option_ord f g"
  then have "option_ord (F f x d) (F g x d)" for x d
    using assms by (rule monotoneD [rotated])
  then show "option_ord (obind R (\<lambda>x d. F f x d) c) (obind R (\<lambda>x d. F g x d) c)"
    by (auto simp: obind_def flat_ord_def split: option.split sum.split)
qed

section \<open>One run at a time\<close>

definition same_run :: "bool \<Rightarrow> ('b \<Rightarrow> bool) \<Rightarrow> ('b \<Rightarrow> string) \<Rightarrow> (protocol_exception + 'a \<times> 'b protocol_object) ub
    \<Rightarrow> proto_error + 'a \<times> string \<Rightarrow> bool" where
  "same_run mf ok stream run res \<longleftrightarrow> (case run of
     None \<Rightarrow> False
   | Some (Inl e) \<Rightarrow> agrees mf e res
   | Some (Inr (x, d)) \<Rightarrow> ok (trans_of d) \<and> string_buf_ok d \<and> res = Inr (x, stream (trans_of d)))"

lemma follows_iff:
  "follows mf ok stream R r \<longleftrightarrow> (\<forall>c. ok (trans_of c) \<longrightarrow> string_buf_ok c \<longrightarrow>
     same_run mf ok stream (R c) (r (stream (trans_of c))))"
  by (simp add: follows_def same_run_def)

lemma same_run_obind:
  assumes "follows mf ok stream R r" and "ok (trans_of c)" and "string_buf_ok c" and "s = stream (trans_of c)"
    and "\<And>x d. ok (trans_of d) \<Longrightarrow> string_buf_ok d \<Longrightarrow> r s = Inr (x, stream (trans_of d)) \<Longrightarrow>
      same_run mf ok stream (F x d) (f x (stream (trans_of d)))"
  shows "same_run mf ok stream (obind R F c) (rbind r f s)"
proof (rule followsD [OF assms(1-3)])
  fix e assume "R c = Some (Inl e)" "agrees mf e (r (stream (trans_of c)))"
  then show ?thesis by (simp add: same_run_def obind_def agrees_rbind assms(4))
next
  fix x d assume d: "R c = Some (Inr (x, d))" "ok (trans_of d)" "string_buf_ok d"
    "r (stream (trans_of c)) = Inr (x, stream (trans_of d))"
  then have "obind R F c = F x d" "rbind r f s = f x (stream (trans_of d))"
    by (simp_all add: obind_def assms(4))
  then show ?thesis
    using assms(5) [OF d(2,3)] d(4) assms(4) by simp
qed

lemma same_run_if:
  "(b \<Longrightarrow> same_run mf ok stream a x) \<Longrightarrow> (\<not> b \<Longrightarrow> same_run mf ok stream a' x') \<Longrightarrow>
    same_run mf ok stream (if b then a else a') (if b then x else x')"
  by simp

lemma same_run_oret: "ok (trans_of c) \<Longrightarrow> string_buf_ok c \<Longrightarrow>
    same_run mf ok stream (oret x c) (Inr (x, stream (trans_of c)))"
  by (simp add: same_run_def oret_def)

section \<open>Skipping\<close>

definition over_skip_scalar :: "'b reader_env \<Rightarrow> ttype \<Rightarrow> (unit, 'b) over option" where
  "over_skip_scalar E t =
     (if t = T_BOOL then Some (obind (over_readBool E) (\<lambda>_. oret ()))
      else if t = T_BYTE then Some (obind (over_readByte E) (\<lambda>_. oret ()))
      else if t = T_I16 then Some (obind (over_readI16 E) (\<lambda>_. oret ()))
      else if t = T_I32 then Some (obind (over_readI32 E) (\<lambda>_. oret ()))
      else if t = T_I64 then Some (obind (over_readI64 E) (\<lambda>_. oret ()))
      else if t = T_DOUBLE then Some (obind (over_readDouble E) (\<lambda>_. oret ()))
      else if t = T_STRING then Some (obind (over_readString E) (\<lambda>_. oret ()))
      else None)"

partial_function (option) over_skip_run :: "'b reader_env \<Rightarrow> task list \<Rightarrow> 'b protocol_object
    \<Rightarrow> (protocol_exception + unit \<times> 'b protocol_object) ub" where
  "over_skip_run E tasks c = (case tasks of
     [] \<Rightarrow> oret () c
   | task # ts \<Rightarrow> (case task of
       Skip t \<Rightarrow> (case over_skip_scalar E t of
           Some r \<Rightarrow> obind r (\<lambda>_ d. over_skip_run E ts d) c
         | None \<Rightarrow>
             if t = T_STRUCT then over_skip_run E (SkipFields # ts) c
             else if t = T_MAP
             then obind (over_readMapBegin E) (\<lambda>x d. case x of (k, v, n) \<Rightarrow>
                 over_skip_run E (SkipPairs (unat n) k v # ts) d) c
             else if t = T_SET
             then obind (over_readSetBegin E) (\<lambda>x d. case x of (e, n) \<Rightarrow>
                 over_skip_run E (SkipElems (unat n) e # ts) d) c
             else if t = T_LIST
             then obind (over_readListBegin E) (\<lambda>x d. case x of (e, n) \<Rightarrow>
                 over_skip_run E (SkipElems (unat n) e # ts) d) c
             else over_skip_run E ts c)
     | SkipFields \<Rightarrow> obind (over_readFieldBegin E) (\<lambda>x d. case x of (t, _) \<Rightarrow>
           if t = T_STOP then over_skip_run E ts d else over_skip_run E (Skip t # SkipFields # ts) d) c
     | SkipElems n t \<Rightarrow>
         if n = 0 then over_skip_run E ts c else over_skip_run E (Skip t # SkipElems (n - 1) t # ts) c
     | SkipPairs n k v \<Rightarrow>
         if n = 0 then over_skip_run E ts c
         else over_skip_run E (Skip k # Skip v # SkipPairs (n - 1) k v # ts) c))"

definition over_skip :: "'b reader_env \<Rightarrow> ttype \<Rightarrow> (unit, 'b) over" where
  "over_skip E t = over_skip_run E [Skip t]"

lemma skip_scalar_follows:
  assumes "env_ok mf ok stream E"
  shows "case skip_scalar (limits E) t of
      None \<Rightarrow> over_skip_scalar E t = None
    | Some r \<Rightarrow> \<exists>R. over_skip_scalar E t = Some R \<and> follows mf ok stream R r"
  using follows_int [OF assms] follows_readString [OF assms]
  by (simp add: skip_scalar_def over_skip_scalar_def follows_obind follows_oret)

lemma over_skip_run_ok:
  assumes "env_ok mf ok stream E"
  shows "p = limits E \<Longrightarrow> ok (trans_of c) \<Longrightarrow> string_buf_ok c \<Longrightarrow> s = stream (trans_of c) \<Longrightarrow>
    same_run mf ok stream (over_skip_run E ts c) (skip_run p ts s)"
proof (induction p ts s arbitrary: c rule: skip_run.induct)
  case (1 p s)
  then show ?case
    by (simp add: over_skip_run.simps [of E "[]"] same_run_oret)
next
  case (2 p t ts s)
  note run = over_skip_run.simps [of E "Skip t # ts" c] skip_run.simps(2) [of p t ts s]
  show ?case
  proof (cases "skip_scalar p t")
    case (Some r)
    then obtain R where R: "over_skip_scalar E t = Some R" "follows mf ok stream R r"
      using skip_scalar_follows [OF assms, of t] 2(7) by auto
    show ?thesis
      unfolding run list.case task.case R(1) Some option.case
      by (rule same_run_obind [OF R(2) 2(8-10)]) (use 2 Some in auto)
  next
    case None
    then have n: "over_skip_scalar E t = None"
      using skip_scalar_follows [OF assms, of t] 2(7) by simp
    note b = follows_begins [OF assms, folded 2(7)]
    show ?thesis
      unfolding run list.case task.case n None option.case
    proof (intro same_run_if)
      assume "t = T_STRUCT"
      then show "same_run mf ok stream (over_skip_run E (SkipFields # ts) c) (skip_run p (SkipFields # ts) s)"
        using 2 None by simp
    next
      assume "t \<noteq> T_STRUCT" "t = T_MAP"
      then show "same_run mf ok stream
          (obind (over_readMapBegin E) (\<lambda>x d. case x of (k, v, n) \<Rightarrow> over_skip_run E (SkipPairs (unat n) k v # ts) d) c)
          (rbind (readMapBegin p) (\<lambda>x s'. case x of (k, v, n) \<Rightarrow> skip_run p (SkipPairs (unat n) k v # ts) s') s)"
        by (intro same_run_obind [OF b(4) 2(8-10)]) (use 2 None in \<open>auto split: prod.split\<close>)
    next
      assume "t \<noteq> T_STRUCT" "t \<noteq> T_MAP" "t = T_SET"
      then show "same_run mf ok stream
          (obind (over_readSetBegin E) (\<lambda>x d. case x of (e, n) \<Rightarrow> over_skip_run E (SkipElems (unat n) e # ts) d) c)
          (rbind (readSetBegin p) (\<lambda>x s'. case x of (e, n) \<Rightarrow> skip_run p (SkipElems (unat n) e # ts) s') s)"
        by (intro same_run_obind [OF b(3) 2(8-10)]) (use 2 None in \<open>auto split: prod.split\<close>)
    next
      assume "t \<noteq> T_STRUCT" "t \<noteq> T_MAP" "t \<noteq> T_SET" "t = T_LIST"
      then show "same_run mf ok stream
          (obind (over_readListBegin E) (\<lambda>x d. case x of (e, n) \<Rightarrow> over_skip_run E (SkipElems (unat n) e # ts) d) c)
          (rbind (readListBegin p) (\<lambda>x s'. case x of (e, n) \<Rightarrow> skip_run p (SkipElems (unat n) e # ts) s') s)"
        by (intro same_run_obind [OF b(2) 2(8-10)]) (use 2 None in \<open>auto split: prod.split\<close>)
    next
      assume "t \<noteq> T_STRUCT" "t \<noteq> T_MAP" "t \<noteq> T_SET" "t \<noteq> T_LIST"
      then show "same_run mf ok stream (over_skip_run E ts c) (skip_run p ts s)"
        using 2 None by simp
    qed
  qed
next
  case (3 p ts s)
  show ?case
    unfolding over_skip_run.simps [of E "SkipFields # ts" c] skip_run.simps(3) [of p ts s] list.case task.case
    by (rule same_run_obind [OF follows_begins(1) [OF assms] 3(4-6)]) (use 3 in \<open>auto split: prod.split\<close>)
next
  case (4 p n t ts s)
  show ?case
    unfolding over_skip_run.simps [of E "SkipElems n t # ts" c] skip_run.simps(4) [of p n t ts s] list.case task.case
    by (intro same_run_if) (use 4 in simp_all)
next
  case (5 p n k v ts s)
  show ?case
    unfolding over_skip_run.simps [of E "SkipPairs n k v # ts" c] skip_run.simps(5) [of p n k v ts s] list.case task.case
    by (intro same_run_if) (use 5 in simp_all)
qed

lemma follows_skip [follow_rules]:
  "env_ok mf ok stream E \<Longrightarrow> follows mf ok stream (over_skip E t) (skip (limits E) t)"
  unfolding follows_iff over_skip_def skip_def by (blast intro: over_skip_run_ok)

section \<open>The loop over the fields of a struct\<close>

partial_function (option) over_read_struct :: "'b reader_env \<Rightarrow> (ttype \<Rightarrow> i16 \<Rightarrow> 'a \<Rightarrow> ('a, 'b) over) \<Rightarrow> 'a
    \<Rightarrow> 'b protocol_object \<Rightarrow> (protocol_exception + 'a \<times> 'b protocol_object) ub" where
  "over_read_struct E h x c = obind (over_readFieldBegin E) (\<lambda>f d. case f of (ftype, fid) \<Rightarrow>
     if ftype = T_STOP then oret x d
     else obind (h ftype fid x) (\<lambda>y d1. over_read_struct E h y d1) d) c"

definition over_skip_field :: "'b reader_env \<Rightarrow> ttype \<Rightarrow> 'a \<Rightarrow> ('a, 'b) over" where
  "over_skip_field E ftype x = obind (over_skip E ftype) (\<lambda>_. oret x)"

definition over_typed_field :: "'b reader_env \<Rightarrow> ttype \<Rightarrow> ttype \<Rightarrow> ('v, 'b) over \<Rightarrow> ('v \<Rightarrow> 'a \<Rightarrow> 'a) \<Rightarrow> 'a \<Rightarrow> ('a, 'b) over" where
  "over_typed_field E ftype declared R upd x =
     (if ftype = declared then obind R (\<lambda>v. oret (upd v x)) else over_skip_field E ftype x)"

lemma read_struct_ok:
  assumes "env_ok mf ok stream E" and "\<And>t f y. shrinks (h t f y)"
    and "\<And>t f y. follows mf ok stream (H t f y) (h t f y)"
  shows "ok (trans_of c) \<Longrightarrow> string_buf_ok c \<Longrightarrow> s = stream (trans_of c) \<Longrightarrow>
    same_run mf ok stream (over_read_struct E H x c) (read_struct h x s)"
proof (induction "length s" arbitrary: s x c rule: less_induct)
  case less
  show ?case
    unfolding over_read_struct.simps [of E H x c] read_struct_eq [where h = h and x = x and s = s, OF assms(2)]
  proof (rule same_run_obind [OF follows_begins(1) [OF assms(1)] less(2-4)])
    fix f d assume d: "ok (trans_of d)" "string_buf_ok d" "readFieldBegin s = Inr (f, stream (trans_of d))"
    obtain t fid where f: "f = (t, fid)" by fastforce
    have "same_run mf ok stream (obind (H t fid x) (\<lambda>y d1. over_read_struct E H y d1) d)
        (rbind (h t fid x) (read_struct h) (stream (trans_of d)))"
    proof (rule same_run_obind [OF assms(3) d(1,2) refl])
      fix y e assume "ok (trans_of e)" "string_buf_ok e"
        "h t fid x (stream (trans_of d)) = Inr (y, stream (trans_of e))"
      moreover from this have "length (stream (trans_of e)) < length s"
        using assms(2) [of t fid x] containers_eat(1) [OF d(3)] by (fastforce simp: shrinks_def)
      ultimately show "same_run mf ok stream (over_read_struct E H y e) (read_struct h y (stream (trans_of e)))"
        using less(1) by blast
    qed
    then show "same_run mf ok stream
        (case f of (ftype, fid) \<Rightarrow> if ftype = T_STOP then oret x d
          else obind (H ftype fid x) (\<lambda>y d1. over_read_struct E H y d1) d)
        ((case f of (t, fid) \<Rightarrow> if t = T_STOP then ret x else rbind (h t fid x) (read_struct h)) (stream (trans_of d)))"
      using d(1,2) by (simp add: f same_run_oret)
  qed
qed

lemma follows_read_struct:
  "env_ok mf ok stream E \<Longrightarrow> (\<And>t f y. shrinks (h t f y)) \<Longrightarrow>
    (\<And>t f y. follows mf ok stream (H t f y) (h t f y)) \<Longrightarrow>
    follows mf ok stream (over_read_struct E H x) (read_struct h x)"
  unfolding follows_iff [where R = "over_read_struct E H x"] by (blast intro: read_struct_ok)

text \<open>The generated code reads with the limits of its protocol object.\<close>

lemma follows_skip_field [follow_rules]:
  "env_ok mf ok stream E \<Longrightarrow> limits E = default_proto \<Longrightarrow>
    follows mf ok stream (over_skip_field E t x) (skip_field t x)"
  unfolding over_skip_field_def skip_field_def by (metis follows_obind follows_oret follows_skip)

lemma follows_typed_field [follow_rules]:
  "env_ok mf ok stream E \<Longrightarrow> limits E = default_proto \<Longrightarrow> follows mf ok stream R r \<Longrightarrow>
    follows mf ok stream (over_typed_field E t d R upd x) (typed_field t d r upd x)"
  unfolding over_typed_field_def typed_field_def by (intro follow_rules)

fun over_read_times :: "nat \<Rightarrow> ('a, 'b) over \<Rightarrow> ('a list, 'b) over" where
  "over_read_times 0 R = oret []"
| "over_read_times (Suc n) R = obind R (\<lambda>x. obind (over_read_times n R) (\<lambda>xs. oret (x # xs)))"

definition over_read_strings :: "'b reader_env \<Rightarrow> (string list, 'b) over" where
  "over_read_strings E = obind (over_readListBegin E) (\<lambda>(_, size).
     over_read_times (unat size) (over_readString E))"

lemma follows_read_times [follow_rules]:
  "follows mf ok stream R r \<Longrightarrow> follows mf ok stream (over_read_times n R) (read_times n r)"
  by (induction n) (auto intro!: follow_rules)

lemma follows_default_string:
  "env_ok mf ok stream E \<Longrightarrow> limits E = default_proto \<Longrightarrow>
    follows mf ok stream (over_readString E) (readString default_proto)"
  using follows_readString [of mf ok stream E] by simp

lemma follows_read_strings [follow_rules]:
  assumes "env_ok mf ok stream E" and "limits E = default_proto"
  shows "follows mf ok stream (over_read_strings E) read_strings"
proof -
  have "follows mf ok stream (over_readListBegin E) (readListBegin default_proto)"
    using follows_begins(2) [OF assms(1)] assms(2) by simp
  then show ?thesis
    unfolding over_read_strings_def read_strings_def
    by (rule follows_obind) (auto intro: follows_read_times follows_default_string [OF assms])
qed

end
