(* ===== verification/OverStub.thy ===== *)
theory OverStub
  imports OverStruct Remote
begin

text \<open>
  The generated code of the three services over a transport: the readers of the structs of the
  interface, of arguments and of results (src/src/server/ozstore_types.cpp, OZ...Service.cpp),
  the processors and the clients, each as a template over its connection.  They are shown to do
  what the readers, processors and clients of the stream do.
\<close>

section \<open>Structs\<close>

lemma follows_fid:
  "follows mf ok stream (R x) (r x) \<Longrightarrow> follows mf ok stream (Q x) (q x) \<Longrightarrow>
    follows mf ok stream ((if b then R else Q) x) ((if b then r else q) x)"
  by simp

lemmas struct_rules = follows_fid follows_if follows_typed_field follows_skip_field follows_default_string
  follows_read_strings follows_int follows_obind follows_oret

definition over_OZException_field :: "'b reader_env \<Rightarrow> ttype \<Rightarrow> i16 \<Rightarrow> OZException \<Rightarrow> (OZException, 'b) over" where
  "over_OZException_field E ftype fid =
     (if fid = 1 then over_typed_field E ftype T_STRING (over_readString E)
        (\<lambda>v x. x\<lparr>why := v, isset_why := True\<rparr>)
      else over_skip_field E ftype)"

definition over_OZException_read :: "'b reader_env \<Rightarrow> OZException \<Rightarrow> (OZException, 'b) over" where
  "over_OZException_read E = over_read_struct E (over_OZException_field E)"

lemma follows_OZException [follow_rules]:
  assumes "env_ok mf ok stream E" and "limits E = default_proto"
  shows "follows mf ok stream (over_OZException_read E x) (OZException_read x)"
proof -
  have "follows mf ok stream (over_OZException_field E t f y) (OZException_field t f y)" for t f y
    unfolding over_OZException_field_def OZException_field_def
    by (intro struct_rules assms)
  then show ?thesis
    unfolding over_OZException_read_def OZException_read_def
    by (rule follows_read_struct [OF assms(1) OZException_field_rules(1)])
qed

definition over_TravPair_field :: "'b reader_env \<Rightarrow> ttype \<Rightarrow> i16 \<Rightarrow> TravPair_isset \<Rightarrow> (TravPair_isset, 'b) over" where
  "over_TravPair_field E ftype fid =
     (if fid = 1 then over_typed_field E ftype T_STRING (over_readString E)
        (\<lambda>v x. x\<lparr>pkey := v, isset_key := True\<rparr>)
      else if fid = 2 then over_typed_field E ftype T_STRING (over_readString E)
        (\<lambda>v x. x\<lparr>pvalue := v, isset_value := True\<rparr>)
      else if fid = 3 then over_typed_field E ftype T_I32 (over_readI32 E)
        (\<lambda>v x. x\<lparr>pcur := sint v, isset_cur := True\<rparr>)
      else over_skip_field E ftype)"

definition over_TravPair_read :: "'b reader_env \<Rightarrow> TravPair_isset \<Rightarrow> (TravPair_isset, 'b) over" where
  "over_TravPair_read E = over_read_struct E (over_TravPair_field E)"

lemma follows_TravPair [follow_rules]:
  assumes "env_ok mf ok stream E" and "limits E = default_proto"
  shows "follows mf ok stream (over_TravPair_read E x) (TravPair_read x)"
proof -
  have "follows mf ok stream (over_TravPair_field E t f y) (TravPair_field t f y)" for t f y
    unfolding over_TravPair_field_def TravPair_field_def
    by (intro struct_rules assms)
  then show ?thesis
    unfolding over_TravPair_read_def TravPair_read_def
    by (rule follows_read_struct [OF assms(1) TravPair_field_rules(1)])
qed

definition over_OZReadService_get_args_field :: "'b reader_env \<Rightarrow> ttype \<Rightarrow> i16 \<Rightarrow> OZReadService_get_args \<Rightarrow> (OZReadService_get_args, 'b) over" where
  "over_OZReadService_get_args_field E ftype fid =
     (if fid = 1 then over_typed_field E ftype T_STRING (over_readString E)
        (\<lambda>v x. x\<lparr>get_key := v, get_isset_key := True\<rparr>)
      else over_skip_field E ftype)"

definition over_OZReadService_get_args_read :: "'b reader_env \<Rightarrow> OZReadService_get_args \<Rightarrow> (OZReadService_get_args, 'b) over" where
  "over_OZReadService_get_args_read E = over_read_struct E (over_OZReadService_get_args_field E)"

lemma follows_OZReadService_get_args [follow_rules]:
  assumes "env_ok mf ok stream E" and "limits E = default_proto"
  shows "follows mf ok stream (over_OZReadService_get_args_read E x) (OZReadService_get_args_read x)"
proof -
  have "follows mf ok stream (over_OZReadService_get_args_field E t f y) (OZReadService_get_args_field t f y)" for t f y
    unfolding over_OZReadService_get_args_field_def OZReadService_get_args_field_def
    by (intro struct_rules follows_OZException follows_TravPair assms)
  then show ?thesis
    unfolding over_OZReadService_get_args_read_def OZReadService_get_args_read_def
    by (rule follows_read_struct [OF assms(1) OZReadService_get_args_field_rules(1)])
qed

definition over_OZReadService_get_presult_field :: "'b reader_env \<Rightarrow> ttype \<Rightarrow> i16 \<Rightarrow> OZReadService_get_result \<Rightarrow> (OZReadService_get_result, 'b) over" where
  "over_OZReadService_get_presult_field E ftype fid x =
     (if fid = 0 then over_typed_field E ftype T_STRING (over_readString E)
        (\<lambda>v x. x\<lparr>get_success := v, get_isset_success := True\<rparr>) x
      else if fid = 1 then (if ftype = T_STRUCT
        then obind (over_OZException_read E (get_ouch x)) (\<lambda>v. oret (x\<lparr>get_ouch := v, get_isset_ouch := True\<rparr>))
        else over_skip_field E ftype x)
      else over_skip_field E ftype x)"

definition over_OZReadService_get_presult_read :: "'b reader_env \<Rightarrow> OZReadService_get_result \<Rightarrow> (OZReadService_get_result, 'b) over" where
  "over_OZReadService_get_presult_read E = over_read_struct E (over_OZReadService_get_presult_field E)"

lemma follows_OZReadService_get_presult [follow_rules]:
  assumes "env_ok mf ok stream E" and "limits E = default_proto"
  shows "follows mf ok stream (over_OZReadService_get_presult_read E x) (OZReadService_get_presult_read x)"
proof -
  have "follows mf ok stream (over_OZReadService_get_presult_field E t f y) (OZReadService_get_presult_field t f y)" for t f y
    unfolding over_OZReadService_get_presult_field_def OZReadService_get_presult_field_def
    by (intro struct_rules follows_OZException follows_TravPair assms)
  then show ?thesis
    unfolding over_OZReadService_get_presult_read_def OZReadService_get_presult_read_def
    by (rule follows_read_struct [OF assms(1) OZReadService_get_presult_field_rules(1)])
qed

definition over_OZReadService_gets_args_field :: "'b reader_env \<Rightarrow> ttype \<Rightarrow> i16 \<Rightarrow> OZReadService_gets_args \<Rightarrow> (OZReadService_gets_args, 'b) over" where
  "over_OZReadService_gets_args_field E ftype fid =
     (if fid = 1 then over_typed_field E ftype T_LIST (over_read_strings E)
        (\<lambda>v x. x\<lparr>gets_keys := v, gets_isset_keys := True\<rparr>)
      else over_skip_field E ftype)"

definition over_OZReadService_gets_args_read :: "'b reader_env \<Rightarrow> OZReadService_gets_args \<Rightarrow> (OZReadService_gets_args, 'b) over" where
  "over_OZReadService_gets_args_read E = over_read_struct E (over_OZReadService_gets_args_field E)"

lemma follows_OZReadService_gets_args [follow_rules]:
  assumes "env_ok mf ok stream E" and "limits E = default_proto"
  shows "follows mf ok stream (over_OZReadService_gets_args_read E x) (OZReadService_gets_args_read x)"
proof -
  have "follows mf ok stream (over_OZReadService_gets_args_field E t f y) (OZReadService_gets_args_field t f y)" for t f y
    unfolding over_OZReadService_gets_args_field_def OZReadService_gets_args_field_def
    by (intro struct_rules follows_OZException follows_TravPair assms)
  then show ?thesis
    unfolding over_OZReadService_gets_args_read_def OZReadService_gets_args_read_def
    by (rule follows_read_struct [OF assms(1) OZReadService_gets_args_field_rules(1)])
qed

definition over_OZReadService_gets_presult_field :: "'b reader_env \<Rightarrow> ttype \<Rightarrow> i16 \<Rightarrow> OZReadService_gets_result \<Rightarrow> (OZReadService_gets_result, 'b) over" where
  "over_OZReadService_gets_presult_field E ftype fid x =
     (if fid = 0 then over_typed_field E ftype T_LIST (over_read_strings E)
        (\<lambda>v x. x\<lparr>gets_success := v, gets_isset_success := True\<rparr>) x
      else if fid = 1 then (if ftype = T_STRUCT
        then obind (over_OZException_read E (gets_ouch x)) (\<lambda>v. oret (x\<lparr>gets_ouch := v, gets_isset_ouch := True\<rparr>))
        else over_skip_field E ftype x)
      else over_skip_field E ftype x)"

definition over_OZReadService_gets_presult_read :: "'b reader_env \<Rightarrow> OZReadService_gets_result \<Rightarrow> (OZReadService_gets_result, 'b) over" where
  "over_OZReadService_gets_presult_read E = over_read_struct E (over_OZReadService_gets_presult_field E)"

lemma follows_OZReadService_gets_presult [follow_rules]:
  assumes "env_ok mf ok stream E" and "limits E = default_proto"
  shows "follows mf ok stream (over_OZReadService_gets_presult_read E x) (OZReadService_gets_presult_read x)"
proof -
  have "follows mf ok stream (over_OZReadService_gets_presult_field E t f y) (OZReadService_gets_presult_field t f y)" for t f y
    unfolding over_OZReadService_gets_presult_field_def OZReadService_gets_presult_field_def
    by (intro struct_rules follows_OZException follows_TravPair assms)
  then show ?thesis
    unfolding over_OZReadService_gets_presult_read_def OZReadService_gets_presult_read_def
    by (rule follows_read_struct [OF assms(1) OZReadService_gets_presult_field_rules(1)])
qed

definition over_OZWriteService_put_args_field :: "'b reader_env \<Rightarrow> ttype \<Rightarrow> i16 \<Rightarrow> OZWriteService_put_args \<Rightarrow> (OZWriteService_put_args, 'b) over" where
  "over_OZWriteService_put_args_field E ftype fid =
     (if fid = 1 then over_typed_field E ftype T_STRING (over_readString E)
        (\<lambda>v x. x\<lparr>put_value := v, put_isset_value := True\<rparr>)
      else over_skip_field E ftype)"

definition over_OZWriteService_put_args_read :: "'b reader_env \<Rightarrow> OZWriteService_put_args \<Rightarrow> (OZWriteService_put_args, 'b) over" where
  "over_OZWriteService_put_args_read E = over_read_struct E (over_OZWriteService_put_args_field E)"

lemma follows_OZWriteService_put_args [follow_rules]:
  assumes "env_ok mf ok stream E" and "limits E = default_proto"
  shows "follows mf ok stream (over_OZWriteService_put_args_read E x) (OZWriteService_put_args_read x)"
proof -
  have "follows mf ok stream (over_OZWriteService_put_args_field E t f y) (OZWriteService_put_args_field t f y)" for t f y
    unfolding over_OZWriteService_put_args_field_def OZWriteService_put_args_field_def
    by (intro struct_rules follows_OZException follows_TravPair assms)
  then show ?thesis
    unfolding over_OZWriteService_put_args_read_def OZWriteService_put_args_read_def
    by (rule follows_read_struct [OF assms(1) OZWriteService_put_args_field_rules(1)])
qed

definition over_OZWriteService_put_presult_field :: "'b reader_env \<Rightarrow> ttype \<Rightarrow> i16 \<Rightarrow> OZWriteService_put_result \<Rightarrow> (OZWriteService_put_result, 'b) over" where
  "over_OZWriteService_put_presult_field E ftype fid x =
     (if fid = 1 then (if ftype = T_STRUCT
        then obind (over_OZException_read E (put_ouch x)) (\<lambda>v. oret (x\<lparr>put_ouch := v, put_isset_ouch := True\<rparr>))
        else over_skip_field E ftype x)
      else over_skip_field E ftype x)"

definition over_OZWriteService_put_presult_read :: "'b reader_env \<Rightarrow> OZWriteService_put_result \<Rightarrow> (OZWriteService_put_result, 'b) over" where
  "over_OZWriteService_put_presult_read E = over_read_struct E (over_OZWriteService_put_presult_field E)"

lemma follows_OZWriteService_put_presult [follow_rules]:
  assumes "env_ok mf ok stream E" and "limits E = default_proto"
  shows "follows mf ok stream (over_OZWriteService_put_presult_read E x) (OZWriteService_put_presult_read x)"
proof -
  have "follows mf ok stream (over_OZWriteService_put_presult_field E t f y) (OZWriteService_put_presult_field t f y)" for t f y
    unfolding over_OZWriteService_put_presult_field_def OZWriteService_put_presult_field_def
    by (intro struct_rules follows_OZException follows_TravPair assms)
  then show ?thesis
    unfolding over_OZWriteService_put_presult_read_def OZWriteService_put_presult_read_def
    by (rule follows_read_struct [OF assms(1) OZWriteService_put_presult_field_rules(1)])
qed

definition over_OZWriteService_puts_args_field :: "'b reader_env \<Rightarrow> ttype \<Rightarrow> i16 \<Rightarrow> OZWriteService_puts_args \<Rightarrow> (OZWriteService_puts_args, 'b) over" where
  "over_OZWriteService_puts_args_field E ftype fid =
     (if fid = 1 then over_typed_field E ftype T_LIST (over_read_strings E)
        (\<lambda>v x. x\<lparr>puts_values := v, puts_isset_values := True\<rparr>)
      else over_skip_field E ftype)"

definition over_OZWriteService_puts_args_read :: "'b reader_env \<Rightarrow> OZWriteService_puts_args \<Rightarrow> (OZWriteService_puts_args, 'b) over" where
  "over_OZWriteService_puts_args_read E = over_read_struct E (over_OZWriteService_puts_args_field E)"

lemma follows_OZWriteService_puts_args [follow_rules]:
  assumes "env_ok mf ok stream E" and "limits E = default_proto"
  shows "follows mf ok stream (over_OZWriteService_puts_args_read E x) (OZWriteService_puts_args_read x)"
proof -
  have "follows mf ok stream (over_OZWriteService_puts_args_field E t f y) (OZWriteService_puts_args_field t f y)" for t f y
    unfolding over_OZWriteService_puts_args_field_def OZWriteService_puts_args_field_def
    by (intro struct_rules follows_OZException follows_TravPair assms)
  then show ?thesis
    unfolding over_OZWriteService_puts_args_read_def OZWriteService_puts_args_read_def
    by (rule follows_read_struct [OF assms(1) OZWriteService_puts_args_field_rules(1)])
qed

definition over_OZWriteService_puts_presult_field :: "'b reader_env \<Rightarrow> ttype \<Rightarrow> i16 \<Rightarrow> OZWriteService_puts_result \<Rightarrow> (OZWriteService_puts_result, 'b) over" where
  "over_OZWriteService_puts_presult_field E ftype fid x =
     (if fid = 1 then (if ftype = T_STRUCT
        then obind (over_OZException_read E (puts_ouch x)) (\<lambda>v. oret (x\<lparr>puts_ouch := v, puts_isset_ouch := True\<rparr>))
        else over_skip_field E ftype x)
      else over_skip_field E ftype x)"

definition over_OZWriteService_puts_presult_read :: "'b reader_env \<Rightarrow> OZWriteService_puts_result \<Rightarrow> (OZWriteService_puts_result, 'b) over" where
  "over_OZWriteService_puts_presult_read E = over_read_struct E (over_OZWriteService_puts_presult_field E)"

lemma follows_OZWriteService_puts_presult [follow_rules]:
  assumes "env_ok mf ok stream E" and "limits E = default_proto"
  shows "follows mf ok stream (over_OZWriteService_puts_presult_read E x) (OZWriteService_puts_presult_read x)"
proof -
  have "follows mf ok stream (over_OZWriteService_puts_presult_field E t f y) (OZWriteService_puts_presult_field t f y)" for t f y
    unfolding over_OZWriteService_puts_presult_field_def OZWriteService_puts_presult_field_def
    by (intro struct_rules follows_OZException follows_TravPair assms)
  then show ?thesis
    unfolding over_OZWriteService_puts_presult_read_def OZWriteService_puts_presult_read_def
    by (rule follows_read_struct [OF assms(1) OZWriteService_puts_presult_field_rules(1)])
qed

definition over_OZTravService_next_kv_args_field :: "'b reader_env \<Rightarrow> ttype \<Rightarrow> i16 \<Rightarrow> OZTravService_next_kv_args \<Rightarrow> (OZTravService_next_kv_args, 'b) over" where
  "over_OZTravService_next_kv_args_field E ftype fid =
     (if fid = 1 then over_typed_field E ftype T_I32 (over_readI32 E)
        (\<lambda>v x. x\<lparr>kv_cur := sint v, kv_isset_cur := True\<rparr>)
      else over_skip_field E ftype)"

definition over_OZTravService_next_kv_args_read :: "'b reader_env \<Rightarrow> OZTravService_next_kv_args \<Rightarrow> (OZTravService_next_kv_args, 'b) over" where
  "over_OZTravService_next_kv_args_read E = over_read_struct E (over_OZTravService_next_kv_args_field E)"

lemma follows_OZTravService_next_kv_args [follow_rules]:
  assumes "env_ok mf ok stream E" and "limits E = default_proto"
  shows "follows mf ok stream (over_OZTravService_next_kv_args_read E x) (OZTravService_next_kv_args_read x)"
proof -
  have "follows mf ok stream (over_OZTravService_next_kv_args_field E t f y) (OZTravService_next_kv_args_field t f y)" for t f y
    unfolding over_OZTravService_next_kv_args_field_def OZTravService_next_kv_args_field_def
    by (intro struct_rules follows_OZException follows_TravPair assms)
  then show ?thesis
    unfolding over_OZTravService_next_kv_args_read_def OZTravService_next_kv_args_read_def
    by (rule follows_read_struct [OF assms(1) OZTravService_next_kv_args_field_rules(1)])
qed

definition over_OZTravService_next_kv_presult_field :: "'b reader_env \<Rightarrow> ttype \<Rightarrow> i16 \<Rightarrow> OZTravService_next_kv_result \<Rightarrow> (OZTravService_next_kv_result, 'b) over" where
  "over_OZTravService_next_kv_presult_field E ftype fid x =
     (if fid = 0 then (if ftype = T_STRUCT
        then obind (over_TravPair_read E (kv_success x)) (\<lambda>v. oret (x\<lparr>kv_success := v, kv_isset_success := True\<rparr>))
        else over_skip_field E ftype x)
      else over_skip_field E ftype x)"

definition over_OZTravService_next_kv_presult_read :: "'b reader_env \<Rightarrow> OZTravService_next_kv_result \<Rightarrow> (OZTravService_next_kv_result, 'b) over" where
  "over_OZTravService_next_kv_presult_read E = over_read_struct E (over_OZTravService_next_kv_presult_field E)"

lemma follows_OZTravService_next_kv_presult [follow_rules]:
  assumes "env_ok mf ok stream E" and "limits E = default_proto"
  shows "follows mf ok stream (over_OZTravService_next_kv_presult_read E x) (OZTravService_next_kv_presult_read x)"
proof -
  have "follows mf ok stream (over_OZTravService_next_kv_presult_field E t f y) (OZTravService_next_kv_presult_field t f y)" for t f y
    unfolding over_OZTravService_next_kv_presult_field_def OZTravService_next_kv_presult_field_def
    by (intro struct_rules follows_OZException follows_TravPair assms)
  then show ?thesis
    unfolding over_OZTravService_next_kv_presult_read_def OZTravService_next_kv_presult_read_def
    by (rule follows_read_struct [OF assms(1) OZTravService_next_kv_presult_field_rules(1)])
qed

section \<open>The processors\<close>

text \<open>
  As for the stream, the reply is the bytes that are written; the transport they are written to is
  another one than the transport that is read from.
\<close>

definition over_process_call :: "app_io \<Rightarrow> string \<Rightarrow> ('q, 'b) over \<Rightarrow> ('st \<Rightarrow> 'q \<Rightarrow> ('r reply \<times> 'st) ub)
    \<Rightarrow> ('r reply \<Rightarrow> TApplicationException + 'res) \<Rightarrow> ('res \<Rightarrow> string)
    \<Rightarrow> i32 \<Rightarrow> 'st \<Rightarrow> (bool \<times> string \<times> 'st, 'b) over" where
  "over_process_call app fname args call catch wr seqid st = obind args (\<lambda>q d. do {
     (r, st') \<leftarrow> call st q;
     let out = (case catch r of
         Inl x \<Rightarrow> app_reply app fname seqid x
       | Inr res \<Rightarrow> writeMessageBegin default_proto fname T_REPLY seqid @ wr res);
     oret (True, out, st') d
   })"

definition over_refuse :: "'b reader_env \<Rightarrow> app_io \<Rightarrow> TApplicationException \<Rightarrow> string \<Rightarrow> i32 \<Rightarrow> 'st
    \<Rightarrow> (bool \<times> string \<times> 'st, 'b) over" where
  "over_refuse E app x fname seqid st = obind (over_skip E T_STRUCT) (\<lambda>_.
     oret (False, app_reply app fname seqid x, st))"

definition over_unknown_method :: "'b reader_env \<Rightarrow> app_io \<Rightarrow> string \<Rightarrow> i32 \<Rightarrow> 'st \<Rightarrow> (bool \<times> string \<times> 'st, 'b) over" where
  "over_unknown_method E app fname = over_refuse E app
     \<lparr>message = ''Invalid method name: '' @ [CHR 0x27] @ fname @ [CHR 0x27], xtype = UNKNOWN_METHOD\<rparr> fname"

definition over_process_message :: "'b reader_env \<Rightarrow> app_io
    \<Rightarrow> (string \<Rightarrow> i32 \<Rightarrow> 'st \<Rightarrow> (bool \<times> string \<times> 'st, 'b) over) \<Rightarrow> 'st \<Rightarrow> (bool \<times> string \<times> 'st, 'b) over" where
  "over_process_message E app process_fn st = obind (over_readMessageBegin E) (\<lambda>(fname, mtype, seqid).
     if mtype \<noteq> T_CALL \<and> mtype \<noteq> T_ONEWAY
     then over_refuse E app \<lparr>message = [], xtype = INVALID_MESSAGE_TYPE\<rparr> fname seqid st
     else process_fn fname seqid st)"

definition over_OZReadService_process :: "'b reader_env \<Rightarrow> app_io \<Rightarrow> 'st OZReadServiceIf \<Rightarrow> 'st
    \<Rightarrow> (bool \<times> string \<times> 'st, 'b) over" where
  "over_OZReadService_process E app iface = over_process_message E app (\<lambda>fname.
     if fname = ''get''
     then over_process_call app ''get'' (over_OZReadService_get_args_read E OZReadService_get_args_new)
       (get_call iface) get_catch OZReadService_get_result_write
     else if fname = ''gets''
     then over_process_call app ''gets'' (over_OZReadService_gets_args_read E OZReadService_gets_args_new)
       (gets_call iface) gets_catch OZReadService_gets_result_write
     else over_unknown_method E app fname)"

definition over_OZWriteService_process :: "'b reader_env \<Rightarrow> app_io \<Rightarrow> 'st OZWriteServiceIf \<Rightarrow> 'st
    \<Rightarrow> (bool \<times> string \<times> 'st, 'b) over" where
  "over_OZWriteService_process E app iface = over_process_message E app (\<lambda>fname.
     if fname = ''put''
     then over_process_call app ''put'' (over_OZWriteService_put_args_read E OZWriteService_put_args_new)
       (put_call iface) put_catch OZWriteService_put_result_write
     else if fname = ''puts''
     then over_process_call app ''puts'' (over_OZWriteService_puts_args_read E OZWriteService_puts_args_new)
       (puts_call iface) puts_catch OZWriteService_puts_result_write
     else over_unknown_method E app fname)"

definition over_OZTravService_process :: "'b reader_env \<Rightarrow> app_io \<Rightarrow> 'st OZTravServiceIf \<Rightarrow> 'st
    \<Rightarrow> (bool \<times> string \<times> 'st, 'b) over" where
  "over_OZTravService_process E app iface = over_process_message E app (\<lambda>fname.
     if fname = ''next_kv''
     then over_process_call app ''next_kv'' (over_OZTravService_next_kv_args_read E OZTravService_next_kv_args_new)
       (next_kv_call iface) next_kv_catch OZTravService_next_kv_result_write
     else over_unknown_method E app fname)"

text \<open>
  A request is served as on the stream: when the handler takes no undefined step there, it takes
  none here, and the answer, the state and the bytes left are the same.
\<close>

definition serves :: "bool \<Rightarrow> ('b \<Rightarrow> bool) \<Rightarrow> ('b \<Rightarrow> string) \<Rightarrow> (bool \<times> string \<times> 'st, 'b) over
    \<Rightarrow> (string \<Rightarrow> 'st served) \<Rightarrow> bool" where
  "serves mf ok stream Q q \<longleftrightarrow> (\<forall>c res. ok (trans_of c) \<longrightarrow> string_buf_ok c \<longrightarrow> q (stream (trans_of c)) = Some res \<longrightarrow>
     same_run mf ok stream (Q c) res)"

lemma serves_call:
  assumes "follows mf ok stream A args"
  shows "serves mf ok stream (over_process_call app fname A call catch wr seqid st)
    (process_call app fname args call catch wr seqid st)"
  unfolding serves_def
proof (intro allI impI)
  fix c res
  assume c: "ok (trans_of c)" "string_buf_ok c"
    and res: "process_call app fname args call catch wr seqid st (stream (trans_of c)) = Some res"
  show "same_run mf ok stream (over_process_call app fname A call catch wr seqid st c) res"
  proof (rule followsD [OF assms c])
    fix e assume e: "A c = Some (Inl e)" "agrees mf e (args (stream (trans_of c)))"
    have "agrees mf e res"
    proof (cases "args (stream (trans_of c))")
      case (Inl x)
      then show ?thesis
        using e(2) res by (cases "(mf, e, res)" rule: agrees.cases) (auto simp: process_call_def)
    next
      case (Inr x)
      then show ?thesis
        using e(2) by (cases "(mf, e, res)" rule: agrees.cases) auto
    qed
    then show ?thesis
      by (simp add: over_process_call_def obind_def e(1) same_run_def)
  next
    fix x d assume d: "A c = Some (Inr (x, d))" "ok (trans_of d)" "string_buf_ok d"
      "args (stream (trans_of c)) = Inr (x, stream (trans_of d))"
    then obtain r st' where "call st x = Some (r, st')"
      using res by (auto simp: process_call_def split: bind_splits)
    then show ?thesis
      using res d by (auto simp: process_call_def over_process_call_def obind_def oret_def same_run_def Let_def)
  qed
qed

lemma serves_refuse:
  assumes "env_ok mf ok stream E" and "limits E = default_proto"
  shows "serves mf ok stream (over_refuse E app x fname seqid st) (refuse app x fname seqid st)"
proof -
  have "refuse app x fname seqid st s = Some (rbind (skip default_proto T_STRUCT)
      (\<lambda>_. ret (False, app_reply app fname seqid x, st)) s)" for s
    by (simp add: refuse_def rbind_def split: sum.split)
  moreover have "follows mf ok stream (over_refuse E app x fname seqid st)
      (rbind (skip default_proto T_STRUCT) (\<lambda>_. ret (False, app_reply app fname seqid x, st)))"
    unfolding over_refuse_def using follows_skip [OF assms(1), of T_STRUCT] assms(2)
    by (intro follows_obind follows_oret) simp
  ultimately show ?thesis
    by (simp add: serves_def follows_iff)
qed

lemma serves_message:
  assumes "env_ok mf ok stream E" and "limits E = default_proto"
    and "\<And>fname seqid. serves mf ok stream (F fname seqid st) (f fname seqid st)"
  shows "serves mf ok stream (over_process_message E app F st) (process_message app f st)"
  unfolding serves_def
proof (intro allI impI)
  fix c res
  assume c: "ok (trans_of c)" "string_buf_ok c"
    and res: "process_message app f st (stream (trans_of c)) = Some res"
  have "follows mf ok stream (over_readMessageBegin E) (readMessageBegin default_proto)"
    using follows_begins(5) [OF assms(1)] assms(2) by simp
  from this c show "same_run mf ok stream (over_process_message E app F st c) res"
  proof (cases rule: followsD)
    case (error e)
    then have "agrees mf e res"
      using res by (cases "(mf, e, res)" rule: agrees.cases) (auto simp: process_message_def)
    then show ?thesis
      by (simp add: over_process_message_def obind_def error same_run_def)
  next
    case (result x d)
    obtain fname t seqid where x: "x = (fname, t, seqid)" by (metis prod.exhaust)
    note s = serves_refuse [OF assms(1,2), of app "\<lparr>message = [], xtype = INVALID_MESSAGE_TYPE\<rparr>" fname seqid st]
      assms(3) [of fname seqid]
    show ?thesis
      using res s [unfolded serves_def] result(2,3)
      by (auto simp add: over_process_message_def process_message_def obind_def result(1,4) x split: if_splits)
  qed
qed

lemma serves_services:
  assumes "env_ok mf ok stream E" and "limits E = default_proto"
  shows "serves mf ok stream (over_OZReadService_process E app ri rs) (OZReadServiceProcessor_process app ri rs)"
    "serves mf ok stream (over_OZWriteService_process E app wi ws) (OZWriteServiceProcessor_process app wi ws)"
    "serves mf ok stream (over_OZTravService_process E app ti ts) (OZTravServiceProcessor_process app ti ts)"
proof -
  note s = serves_call [OF follows_OZReadService_get_args [OF assms]]
    serves_call [OF follows_OZReadService_gets_args [OF assms]]
    serves_call [OF follows_OZWriteService_put_args [OF assms]]
    serves_call [OF follows_OZWriteService_puts_args [OF assms]]
    serves_call [OF follows_OZTravService_next_kv_args [OF assms]] serves_refuse [OF assms]
  show "serves mf ok stream (over_OZReadService_process E app ri rs) (OZReadServiceProcessor_process app ri rs)"
    unfolding over_OZReadService_process_def OZReadServiceProcessor_process_def
    by (rule serves_message [OF assms])
      (simp add: s OZReadServiceProcessor_process_fn_def process_get_def process_gets_def
        over_unknown_method_def unknown_method_def)
  show "serves mf ok stream (over_OZWriteService_process E app wi ws) (OZWriteServiceProcessor_process app wi ws)"
    unfolding over_OZWriteService_process_def OZWriteServiceProcessor_process_def
    by (rule serves_message [OF assms])
      (simp add: s OZWriteServiceProcessor_process_fn_def process_put_def process_puts_def
        over_unknown_method_def unknown_method_def)
  show "serves mf ok stream (over_OZTravService_process E app ti ts) (OZTravServiceProcessor_process app ti ts)"
    unfolding over_OZTravService_process_def OZTravServiceProcessor_process_def
    by (rule serves_message [OF assms])
      (simp add: s OZTravServiceProcessor_process_fn_def process_next_kv_def
        over_unknown_method_def unknown_method_def)
qed

section \<open>The clients\<close>

definition over_recv_call :: "'b reader_env \<Rightarrow> (TApplicationException, 'b) over \<Rightarrow> string \<Rightarrow> ('res, 'b) over
    \<Rightarrow> ('res \<Rightarrow> 'a answer) \<Rightarrow> ('a answer, 'b) over" where
  "over_recv_call E readApp expected result finish = obind (over_readMessageBegin E) (\<lambda>(fname, mtype, rseqid).
     if mtype = T_EXCEPTION then obind readApp (\<lambda>x. oret (Application x))
     else obind (if mtype \<noteq> T_REPLY then over_skip E T_STRUCT else oret ()) (\<lambda>_.
       obind (if fname \<noteq> expected then over_skip E T_STRUCT else oret ()) (\<lambda>_.
         obind result (\<lambda>res. oret (finish res)))))"

lemma follows_recv_call:
  assumes "env_ok mf ok stream E" and "limits E = default_proto"
    and "follows mf ok stream A (app_read app)" and "follows mf ok stream R r"
  shows "follows mf ok stream (over_recv_call E A expected R finish) (recv_call app expected r finish)"
proof -
  have "follows mf ok stream (over_readMessageBegin E) (readMessageBegin default_proto)"
    "follows mf ok stream (over_skip E T_STRUCT) (skip default_proto T_STRUCT)"
    using follows_begins(5) [OF assms(1)] follows_skip [OF assms(1), of T_STRUCT] assms(2) by simp_all
  then show ?thesis
    unfolding over_recv_call_def recv_call_def
    by (intro follows_obind)
      (auto intro!: follows_obind follows_oret assms(3,4) follows_if split: prod.split)
qed

definition over_recv_get :: "'b reader_env \<Rightarrow> (TApplicationException, 'b) over \<Rightarrow> string \<Rightarrow> (string answer, 'b) over" where
  "over_recv_get E A result = over_recv_call E A ''get''
     (over_OZReadService_get_presult_read E (OZReadService_get_result_new\<lparr>get_success := result\<rparr>)) get_finish"

definition over_recv_gets :: "'b reader_env \<Rightarrow> (TApplicationException, 'b) over \<Rightarrow> string list \<Rightarrow> (string list answer, 'b) over" where
  "over_recv_gets E A result = over_recv_call E A ''gets''
     (over_OZReadService_gets_presult_read E (OZReadService_gets_result_new\<lparr>gets_success := result\<rparr>)) gets_finish"

definition over_recv_put :: "'b reader_env \<Rightarrow> (TApplicationException, 'b) over \<Rightarrow> (unit answer, 'b) over" where
  "over_recv_put E A = over_recv_call E A ''put''
     (over_OZWriteService_put_presult_read E OZWriteService_put_result_new) put_finish"

definition over_recv_puts :: "'b reader_env \<Rightarrow> (TApplicationException, 'b) over \<Rightarrow> (unit answer, 'b) over" where
  "over_recv_puts E A = over_recv_call E A ''puts''
     (over_OZWriteService_puts_presult_read E OZWriteService_puts_result_new) puts_finish"

definition over_recv_next_kv :: "'b reader_env \<Rightarrow> (TApplicationException, 'b) over \<Rightarrow> TravPair_isset
    \<Rightarrow> (TravPair_isset answer, 'b) over" where
  "over_recv_next_kv E A result = over_recv_call E A ''next_kv''
     (over_OZTravService_next_kv_presult_read E (OZTravService_next_kv_result_new\<lparr>kv_success := result\<rparr>)) next_kv_finish"

lemma follows_clients:
  assumes "env_ok mf ok stream E" and "limits E = default_proto" and "follows mf ok stream A (app_read app)"
  shows "follows mf ok stream (over_recv_get E A x) (recv_get app x)"
    "follows mf ok stream (over_recv_gets E A xs) (recv_gets app xs)"
    "follows mf ok stream (over_recv_put E A) (recv_put app)"
    "follows mf ok stream (over_recv_puts E A) (recv_puts app)"
    "follows mf ok stream (over_recv_next_kv E A p) (recv_next_kv app p)"
  unfolding over_recv_get_def recv_get_def over_recv_gets_def recv_gets_def over_recv_put_def recv_put_def
    over_recv_puts_def recv_puts_def over_recv_next_kv_def recv_next_kv_def
  by (rule follows_recv_call [OF assms]; intro follows_OZReadService_get_presult follows_OZReadService_gets_presult
      follows_OZWriteService_put_presult follows_OZWriteService_puts_presult follows_OZTravService_next_kv_presult assms)+

end
