(* ===== verification/OverProps.thy ===== *)
theory OverProps
  imports OverStub BufferProps RpcProps
begin

text \<open>
  Requests over buffered connections: the processors and clients of the program as they run in the
  servers, on sockets that deliver and take the bytes in pieces of any size.
\<close>

section \<open>A connection\<close>

text \<open>
  A writer makes any number of calls, flushes, and the other side finds the bytes ahead of it;
  nothing was sent before.
\<close>

definition sends :: "(string \<Rightarrow> 'u TBufferedTransport \<Rightarrow> 'u TBufferedTransport transported)
    \<Rightarrow> ('u TBufferedTransport \<Rightarrow> 'u TBufferedTransport transported) \<Rightarrow> ('u \<Rightarrow> string) \<Rightarrow> string \<Rightarrow> string \<Rightarrow> bool" where
  "sends writeSlow flush sent s arrived \<longleftrightarrow> (\<exists>u r w ss c d. sent u = [] \<and> concat ss = s \<and>
     write_all writeSlow ss (TBufferedTransport_new u r w) = Inr c \<and> flush c = Inr d \<and> arrived = sent (under d))"

lemma sends_same:
  assumes "slow_write_ok sent writeSlow" and "flush_ok sent flush" and "sends writeSlow flush sent s arrived"
  shows "arrived = s"
  using assms(3) flush_sends [OF assms(1,2) new_ok(1)] by (auto simp: sends_def new_ok)

abbreviation receiver :: "'u \<Rightarrow> string \<Rightarrow> string \<Rightarrow> 'u TBufferedTransport protocol_object" where
  "receiver v r w \<equiv> protocol_object_new (TBufferedTransport_new v r w)"

lemma receiver_ok: "buffer_ok (trans_of (receiver v r w))" "string_buf_ok (receiver v r w)"
    "pending ahead (trans_of (receiver v r w)) = ahead v"
  by (simp_all add: protocol_object_new_def string_buf_ok_def new_ok)

text \<open>What a run may end in when the socket fails or memory runs out.\<close>

lemma agrees_Inr: "agrees mf e (Inr x) \<Longrightarrow> mf \<and> e \<in> {Transport OTHER, bad_alloc}"
  by (cases "(mf, e, Inr x :: proto_error + _)" rule: agrees.cases) auto

definition ends_in :: "bool \<Rightarrow> (protocol_exception + 'a \<times> 'c) ub \<Rightarrow> ('a \<Rightarrow> bool) \<Rightarrow> bool" where
  "ends_in mf run P \<longleftrightarrow> (case run of
     None \<Rightarrow> False
   | Some (Inl e) \<Rightarrow> mf \<and> e \<in> {Transport OTHER, bad_alloc}
   | Some (Inr (x, _)) \<Rightarrow> P x)"

lemma same_run_ends: "same_run mf ok stream run (Inr (x, s)) \<Longrightarrow> P x \<Longrightarrow> ends_in mf run P"
  using agrees_Inr by (fastforce simp: same_run_def ends_in_def split: option.splits sum.splits)

lemma ends_in_mono: "ends_in mf run P \<Longrightarrow> (\<And>x. P x \<Longrightarrow> Q x) \<Longrightarrow> ends_in mf run Q"
  by (auto simp: ends_in_def split: option.splits sum.splits)

text \<open>A call that succeeds on the stream succeeds over two connections.\<close>

lemma buffered_call:
  assumes w: "slow_write_ok sent writeSlow" "flush_ok sent flush"
    and Q: "serves mf buffer_ok (pending ahead) Q (q st)"
    and R: "follows mf buffer_ok (pending ahead) R recv"
    and call: "remote_call request q recv st = Some (Inr a, st')"
    and arrived: "sends writeSlow flush sent request (ahead rq)"
  shows "ends_in mf (Q (receiver rq r0 w0)) (\<lambda>(_, out, s). s = st' \<and>
    (\<forall>rp r1 w1. sends writeSlow flush sent out (ahead rp) \<longrightarrow> ends_in mf (R (receiver rp r1 w1)) (\<lambda>x. x = a)))"
proof -
  obtain b out t u where q: "q st request = Some (Inr ((b, out, st'), t))" "recv out = Inr (a, u)"
    using call by (auto simp: remote_call_def split: bind_splits sum.splits)
  have run: "same_run mf buffer_ok (pending ahead) (Q (receiver rq r0 w0)) (Inr ((b, out, st'), t))"
    using Q [unfolded serves_def] receiver_ok [where v = rq and r = r0 and w = w0] q(1) sends_same [OF w arrived]
    by metis
  have "same_run mf buffer_ok (pending ahead) (R (receiver rp r1 w1)) (Inr (a, u))"
    if "sends writeSlow flush sent out (ahead rp)" for rp r1 w1
    using R [unfolded follows_iff] receiver_ok [where v = rp and r = r1 and w = w1] sends_same [OF w that] q(2)
    by metis
  then show ?thesis
    by (intro same_run_ends [OF run]) (auto intro: same_run_ends)
qed

text \<open>The server and the client of these runs.\<close>

text \<open>The sockets of theory BufferProps never fail.\<close>

lemma ex_env_facts: "ops ex_env = buffered_ops ex_readSlow ex_borrowSlow" "\<forall>n. grow ex_env n" "limits ex_env = default_proto"
  by (simp_all add: ex_env_def)

definition ex_over_app :: "(TApplicationException, ex_socket TBufferedTransport) over" where
  "ex_over_app = obind (over_readString ex_env) (\<lambda>m. obind (over_readByte ex_env) (\<lambda>c.
     oret \<lparr>message = m, xtype = ex_codes ! unat c\<rparr>))"

lemma ex_over_app: "follows False buffer_ok (pending fst) ex_over_app (app_read ex_app)"
proof -
  have e: "env_ok False buffer_ok (pending fst) ex_env"
    using buffered_env_ok [OF ex_slow_read ex_slow_borrow ex_env_facts(1)] ex_env_facts(2) by blast
  show ?thesis
    unfolding ex_over_app_def ex_app_def
    by simp (intro follows_obind follows_oret follows_default_string follows_int e ex_env_facts(3))
qed

lemma ex_sends: "sends ex_writeSlow ex_flush snd s s"
proof -
  have "\<exists>c. write_all ex_writeSlow ss b = Inr c" for ss b
    by (induction ss arbitrary: b) (auto simp: TBufferBase_write_def ex_writeSlow_def)
  then obtain c where c: "write_all ex_writeSlow [s] (TBufferedTransport_new ([], []) [] []) = Inr c"
    by blast
  obtain d where d: "ex_flush c = Inr d"
    by (simp add: ex_flush_def)
  have "snd (under d) = s"
    using flush_sends [OF ex_slow_write ex_flush_ok new_ok(1) c d] by (simp add: new_ok)
  then show ?thesis
    unfolding sends_def using c d by (intro exI [of _ "([], [])"] exI [of _ "[]"] exI [of _ "[s]"]) auto
qed

section \<open>Properties\<close>

text \<open>C37. The processors of the three services, reading through a buffer from a socket that delivers
  the bytes in any pieces, serve a request as they serve it on the bytes: the loops end, no step is
  undefined, handler, answer and new state are the same, and the bytes behind the request are left;
  only a failing socket or allocation can end it otherwise.\<close>

theorem buffered_requests_served:
  assumes "slow_read_ok mf ahead readSlow" and "slow_borrow_ok mf ahead borrowSlow"
    and "ops E = buffered_ops readSlow borrowSlow" and "mf \<or> (\<forall>n. grow E n)" and "limits E = default_proto"
  shows "serves mf buffer_ok (pending ahead) (over_OZReadService_process E app ri rs) (OZReadServiceProcessor_process app ri rs)
    \<and> serves mf buffer_ok (pending ahead) (over_OZWriteService_process E app wi ws) (OZWriteServiceProcessor_process app wi ws)
    \<and> serves mf buffer_ok (pending ahead) (over_OZTravService_process E app ti ts) (OZTravServiceProcessor_process app ti ts)"
  by (intro conjI serves_services [OF buffered_env_ok [OF assms(1-4)] assms(5)])

lemma buffered_requests_served_witness:
  "serves False buffer_ok (pending fst) (over_OZReadService_process ex_env ex_app OZReadServiceNull ())
     (OZReadServiceProcessor_process ex_app OZReadServiceNull ())"
  by (rule buffered_requests_served [OF ex_slow_read ex_slow_borrow ex_env_facts(1), THEN conjunct1])
    (simp_all add: ex_env_facts)

text \<open>C3. A get between two machines: the client writes the request through its buffer, the server
  reads it through its own, answers through its buffer, and the client reads that.  Whatever pieces
  the sockets deliver, the client gets the value in the database or the declared exception, and the
  server is unchanged, unless a socket or an allocation fails.\<close>

theorem buffered_get:
  assumes "slow_write_ok sent writeSlow" and "flush_ok sent flush"
    and "slow_read_ok mf ahead readSlow" and "slow_borrow_ok mf ahead borrowSlow"
    and "ops E = buffered_ops readSlow borrowSlow" and "mf \<or> (\<forall>n. grow E n)" and "limits E = default_proto"
    and "app_round_trip app" and "follows mf buffer_ok (pending ahead) A (app_read app)"
    and "reader_for db h rs" and "list_all rec_readable rs" and "rs \<noteq> []"
    and "db_inv k v rs" and "content w (value_path db) = v"
    and "short key" and "\<And>val. db_map v rs (cstr key) = Some val \<Longrightarrow> length val < 2 ^ 31"
    and "sends writeSlow flush sent (send_get key) (ahead request)"
  shows "ends_in mf (over_OZReadService_process E app (read_iface alloc0 (\<lambda>_ _. True)) (w, h) (receiver request r0 w0))
    (\<lambda>(_, out, st). st = (w, h) \<and>
      (\<forall>reply r1 w1. sends writeSlow flush sent out (ahead reply) \<longrightarrow>
        ends_in mf (over_recv_get E A result (receiver reply r1 w1)) (\<lambda>a. a = (case db_map v rs (cstr key) of
            None \<Rightarrow> Ouch \<lparr>why = ''key not found'', isset_why = True\<rparr> | Some val \<Rightarrow> Answer val))))"
proof -
  note env = buffered_env_ok [OF assms(3-6)]
  have "remote_call (send_get key) (OZReadServiceProcessor_process app (read_iface alloc0 (\<lambda>_ _. True)))
      (recv_get app result) (w, h) = Some (Inr (case db_map v rs (cstr key) of
        None \<Rightarrow> Ouch \<lparr>why = ''key not found'', isset_why = True\<rparr> | Some val \<Rightarrow> Answer val), (w, h))"
    using remote_get_db [OF assms(8,15) server_get_db_map [OF assms(10-14)]] assms(16)
    by (simp add: short_def OZReadServiceClient_get_def)
  from buffered_call [OF assms(1,2) serves_services(1) [OF env assms(7)] follows_clients(1) [OF env assms(7,9)] this assms(17)]
  show ?thesis .
qed

lemma buffered_get_witness:
  "ends_in False (over_OZReadService_process ex_env ex_app (read_iface (\<lambda>_ _. True) (\<lambda>_ _. True)) (ex_world, ex_reader)
      (receiver (send_get ''k'', []) [] []))
    (\<lambda>(_, out, st). st = (ex_world, ex_reader) \<and>
      ends_in False (over_recv_get ex_env ex_over_app [] (receiver (out, []) [] [])) (\<lambda>a. a = Answer ''z''))"
proof -
  have m: "db_map ex_value ex_recs (cstr ''k'') = Some ''z''"
    by (simp add: db_map_def latest_def ex_recs_def pick_def newer_def rec_bytes_def fread_bytes_def
        ex_value_def cstr_def)
  have facts: "short ''k''" "\<And>val. db_map ex_value ex_recs (cstr ''k'') = Some val \<Longrightarrow> length val < 2 ^ 31"
    "sends ex_writeSlow ex_flush snd (send_get ''k'') (fst (send_get ''k'', []))"
    using m ex_sends by (simp_all add: short_def)
  note run = buffered_get [OF ex_slow_write ex_flush_ok ex_slow_read ex_slow_borrow ex_env_facts(1) disjI2 [OF ex_env_facts(2)]
      ex_env_facts(3) ex_app_round_trip ex_over_app ex_reader_for ex_readable ex_db_inv ex_content(2) facts]
  have "ends_in False (over_recv_get ex_env ex_over_app [] (receiver (out, []) [] [])) (\<lambda>a. a = Answer ''z'')"
    if "\<forall>reply r1 w1. sends ex_writeSlow ex_flush snd out (fst reply) \<longrightarrow>
      ends_in False (over_recv_get ex_env ex_over_app [] (receiver reply r1 w1)) (\<lambda>a. a = (case db_map ex_value ex_recs (cstr ''k'') of
            None \<Rightarrow> Ouch \<lparr>why = ''key not found'', isset_why = True\<rparr> | Some val \<Rightarrow> Answer val))" for out
    using spec [OF spec [OF spec [OF that, of "(out, [])"], of "[]"], of "[]"] ex_sends [of out] m by simp
  then show ?thesis
    by (intro ends_in_mono [OF run [of "\<lambda>_ _. True" "[]" "[]" "[]"]]) auto
qed

end
