(* ===== verification/Tap.thy ===== *)
theory Tap
  imports CompactCorrect
begin

text \<open>
  The wiretap of the library (src/include_deps/thrift/protocol/TProtocolTap.h): a protocol object
  that reads from one protocol and writes what it read to another.  The source is the binary
  protocol on a stream of bytes; the sink is any protocol, given by its writers, with the binary and
  the compact protocol as instances.  The functions for the ends of things neither read nor write in
  these protocols and are left out.
\<close>

section \<open>Sinks\<close>

record 's sink =
  sink_messageBegin :: "string \<Rightarrow> mtype \<Rightarrow> i32 \<Rightarrow> 's \<Rightarrow> 's ub"
  sink_structBegin :: "'s \<Rightarrow> 's ub"
  sink_structEnd :: "'s \<Rightarrow> 's ub"
  sink_fieldBegin :: "ttype \<Rightarrow> i16 \<Rightarrow> 's \<Rightarrow> 's ub"
  sink_fieldStop :: "'s \<Rightarrow> 's ub"
  sink_mapBegin :: "ttype \<Rightarrow> ttype \<Rightarrow> u32 \<Rightarrow> 's \<Rightarrow> 's ub"
  sink_listBegin :: "ttype \<Rightarrow> u32 \<Rightarrow> 's \<Rightarrow> 's ub"
  sink_setBegin :: "ttype \<Rightarrow> u32 \<Rightarrow> 's \<Rightarrow> 's ub"
  sink_bool :: "bool \<Rightarrow> 's \<Rightarrow> 's ub"
  sink_byte :: "i8 \<Rightarrow> 's \<Rightarrow> 's ub"
  sink_i16 :: "i16 \<Rightarrow> 's \<Rightarrow> 's ub"
  sink_i32 :: "i32 \<Rightarrow> 's \<Rightarrow> 's ub"
  sink_i64 :: "i64 \<Rightarrow> 's \<Rightarrow> 's ub"
  sink_double :: "i64 \<Rightarrow> 's \<Rightarrow> 's ub"
  sink_string :: "string \<Rightarrow> 's \<Rightarrow> 's ub"
  sink_binary :: "string \<Rightarrow> 's \<Rightarrow> 's ub"

text \<open>The bytes written so far, with the state of the object for the compact protocol.\<close>

definition append_bytes :: "string \<Rightarrow> string \<Rightarrow> string ub" where
  "append_bytes out pre = Some (pre @ out)"

definition binary_sink :: "string sink" where
  "binary_sink = \<lparr>
     sink_messageBegin = (\<lambda>name t seqid. append_bytes (writeMessageBegin default_proto name t seqid)),
     sink_structBegin = append_bytes [], sink_structEnd = append_bytes [],
     sink_fieldBegin = (\<lambda>t fid. append_bytes (writeFieldBegin t fid)), sink_fieldStop = append_bytes writeFieldStop,
     sink_mapBegin = (\<lambda>k v n. append_bytes (writeMapBegin k v n)),
     sink_listBegin = (\<lambda>e n. append_bytes (writeListBegin e n)), sink_setBegin = (\<lambda>e n. append_bytes (writeSetBegin e n)),
     sink_bool = (\<lambda>x. append_bytes (writeBool x)), sink_byte = (\<lambda>x. append_bytes (writeByte x)),
     sink_i16 = (\<lambda>x. append_bytes (writeI16 x)), sink_i32 = (\<lambda>x. append_bytes (writeI32 x)),
     sink_i64 = (\<lambda>x. append_bytes (writeI64 x)), sink_double = (\<lambda>x. append_bytes (writeDouble x)),
     sink_string = (\<lambda>x. append_bytes (writeString x)), sink_binary = (\<lambda>x. append_bytes (writeString x))\<rparr>"

definition compact_run :: "compact_writer \<Rightarrow> compact_state \<times> string \<Rightarrow> (compact_state \<times> string) ub" where
  "compact_run w = (\<lambda>(st, pre). do { (out, st') \<leftarrow> w st; Some (st', pre @ out) })"

definition compact_sink :: "(compact_state \<times> string) sink" where
  "compact_sink = \<lparr>
     sink_messageBegin = (\<lambda>name t seqid. compact_run (cwrite (compact_writeMessageBegin name t seqid))),
     sink_structBegin = compact_run compact_writeStructBegin, sink_structEnd = compact_run compact_writeStructEnd,
     sink_fieldBegin = (\<lambda>t fid. compact_run (compact_writeFieldBegin t fid)),
     sink_fieldStop = compact_run (cwrite (Some compact_writeFieldStop)),
     sink_mapBegin = (\<lambda>k v n. compact_run (cwrite (compact_writeMapBegin k v n))),
     sink_listBegin = (\<lambda>e n. compact_run (cwrite (compact_writeListBegin e n))),
     sink_setBegin = (\<lambda>e n. compact_run (cwrite (compact_writeSetBegin e n))),
     sink_bool = (\<lambda>x. compact_run (compact_writeBool x)), sink_byte = (\<lambda>x. compact_run (cwrite (Some (compact_writeByte x)))),
     sink_i16 = (\<lambda>x. compact_run (cwrite (compact_writeI16 x))), sink_i32 = (\<lambda>x. compact_run (cwrite (compact_writeI32 x))),
     sink_i64 = (\<lambda>x. compact_run (cwrite (compact_writeI64 x))),
     sink_double = (\<lambda>x. compact_run (cwrite (Some (compact_writeDouble x)))),
     sink_string = (\<lambda>x. compact_run (cwrite (compact_writeString x))),
     sink_binary = (\<lambda>x. compact_run (cwrite (compact_writeBinary x)))\<rparr>"

section \<open>The tap\<close>

type_synonym ('a, 's) tap = "'s \<Rightarrow> string \<Rightarrow> (proto_error + 'a \<times> 's \<times> string) ub"

definition tapped :: "'a reader \<Rightarrow> ('a \<Rightarrow> 's \<Rightarrow> 's ub) \<Rightarrow> ('a, 's) tap" where
  "tapped r w d s = (case r s of
     Inl e \<Rightarrow> Some (Inl e)
   | Inr (x, t) \<Rightarrow> do { d' \<leftarrow> w x d; Some (Inr (x, d', t)) })"

definition tap_readMessageBegin :: "'s sink \<Rightarrow> proto \<Rightarrow> (string \<times> mtype \<times> i32, 's) tap" where
  "tap_readMessageBegin K p = tapped (readMessageBegin p) (\<lambda>(name, t, seqid). sink_messageBegin K name t seqid)"

definition tap_readStructBegin :: "'s sink \<Rightarrow> (unit, 's) tap" where
  "tap_readStructBegin K = tapped (ret ()) (\<lambda>_. sink_structBegin K)"

definition tap_readStructEnd :: "'s sink \<Rightarrow> (unit, 's) tap" where
  "tap_readStructEnd K = tapped (ret ()) (\<lambda>_. sink_structEnd K)"

definition tap_readFieldBegin :: "'s sink \<Rightarrow> (ttype \<times> i16, 's) tap" where
  "tap_readFieldBegin K = tapped readFieldBegin (\<lambda>(fieldType, fieldId).
     if fieldType = T_STOP then sink_fieldStop K else sink_fieldBegin K fieldType fieldId)"

definition tap_readMapBegin :: "'s sink \<Rightarrow> proto \<Rightarrow> (ttype \<times> ttype \<times> u32, 's) tap" where
  "tap_readMapBegin K p = tapped (readMapBegin p) (\<lambda>(keyType, valType, n). sink_mapBegin K keyType valType n)"

definition tap_readListBegin :: "'s sink \<Rightarrow> proto \<Rightarrow> (ttype \<times> u32, 's) tap" where
  "tap_readListBegin K p = tapped (readListBegin p) (\<lambda>(elemType, n). sink_listBegin K elemType n)"

definition tap_readSetBegin :: "'s sink \<Rightarrow> proto \<Rightarrow> (ttype \<times> u32, 's) tap" where
  "tap_readSetBegin K p = tapped (readSetBegin p) (\<lambda>(elemType, n). sink_setBegin K elemType n)"

definition tap_readBool :: "'s sink \<Rightarrow> (bool, 's) tap" where
  "tap_readBool K = tapped readBool (sink_bool K)"

definition tap_readByte :: "'s sink \<Rightarrow> (i8, 's) tap" where
  "tap_readByte K = tapped readByte (sink_byte K)"

definition tap_readI16 :: "'s sink \<Rightarrow> (i16, 's) tap" where
  "tap_readI16 K = tapped readI16 (sink_i16 K)"

definition tap_readI32 :: "'s sink \<Rightarrow> (i32, 's) tap" where
  "tap_readI32 K = tapped readI32 (sink_i32 K)"

definition tap_readI64 :: "'s sink \<Rightarrow> (i64, 's) tap" where
  "tap_readI64 K = tapped readI64 (sink_i64 K)"

definition tap_readDouble :: "'s sink \<Rightarrow> (i64, 's) tap" where
  "tap_readDouble K = tapped readDouble (sink_double K)"

definition tap_readString :: "'s sink \<Rightarrow> proto \<Rightarrow> (string, 's) tap" where
  "tap_readString K p = tapped (readString p) (sink_string K)"

text \<open>\<open>readBinary\<close> of the source is its \<open>readString\<close>.\<close>

definition tap_readBinary :: "'s sink \<Rightarrow> proto \<Rightarrow> (string, 's) tap" where
  "tap_readBinary K p = tapped (readString p) (sink_binary K)"

section \<open>Skipping through a tap\<close>

definition tret :: "'a \<Rightarrow> ('a, 's) tap" where
  "tret x d s = Some (Inr (x, d, s))"

definition tbind :: "('a, 's) tap \<Rightarrow> ('a \<Rightarrow> ('b, 's) tap) \<Rightarrow> ('b, 's) tap" where
  "tbind r f d s = (case r d s of
     None \<Rightarrow> None
   | Some (Inl e) \<Rightarrow> Some (Inl e)
   | Some (Inr (x, d', t)) \<Rightarrow> f x d' t)"

lemma tbind_cong [fundef_cong]:
  assumes "r = q" and "d = d'" and "s = t"
    and "\<And>x d1 u. q d' t = Some (Inr (x, d1, u)) \<Longrightarrow> f x d1 u = g x d1 u"
  shows "tbind r f d s = tbind q g d' t"
  using assms by (auto simp: tbind_def split: option.split sum.split)

lemma tbind_step: "r d s = Some (Inr (x, d', t)) \<Longrightarrow> tbind r f d s = f x d' t"
  by (simp add: tbind_def)

definition tap_skip_scalar :: "'s sink \<Rightarrow> proto \<Rightarrow> ttype \<Rightarrow> (unit, 's) tap option" where
  "tap_skip_scalar K p t =
     (if t = T_BOOL then Some (tbind (tap_readBool K) (\<lambda>_. tret ()))
      else if t = T_BYTE then Some (tbind (tap_readByte K) (\<lambda>_. tret ()))
      else if t = T_I16 then Some (tbind (tap_readI16 K) (\<lambda>_. tret ()))
      else if t = T_I32 then Some (tbind (tap_readI32 K) (\<lambda>_. tret ()))
      else if t = T_I64 then Some (tbind (tap_readI64 K) (\<lambda>_. tret ()))
      else if t = T_DOUBLE then Some (tbind (tap_readDouble K) (\<lambda>_. tret ()))
      else if t = T_STRING then Some (tbind (tap_readBinary K p) (\<lambda>_. tret ()))
      else None)"

lemma tapped_Inr: "tapped r w d s = Some (Inr (x, d', t)) \<Longrightarrow> r s = Inr (x, t)"
  by (auto simp: tapped_def split: sum.splits bind_splits)

lemma tapped_le: "shrinks r \<Longrightarrow> tbind (tapped r w) (\<lambda>_. tret ()) d s = Some (Inr (x, d', t)) \<Longrightarrow> length t \<le> length s"
  by (auto simp: tbind_def tret_def shrinks_def split: option.splits sum.splits dest!: tapped_Inr)

lemma tap_skip_scalar_le:
  "tap_skip_scalar K p t = Some r \<Longrightarrow> r d s = Some (Inr (x, d', u)) \<Longrightarrow> length u \<le> length s"
  unfolding tap_skip_scalar_def tap_readBool_def tap_readByte_def tap_readI16_def tap_readI32_def tap_readI64_def
    tap_readDouble_def tap_readBinary_def
  by (auto split: if_splits dest!: tapped_le [rotated] intro!: shrink_rules)

function tap_skip_run :: "'s sink \<Rightarrow> proto \<Rightarrow> task list \<Rightarrow> (unit, 's) tap" where
  "tap_skip_run K p [] d s = Some (Inr ((), d, s))"
| "tap_skip_run K p (Skip t # ts) d s = (case tap_skip_scalar K p t of
     Some r \<Rightarrow> tbind r (\<lambda>_ d' s'. tap_skip_run K p ts d' s') d s
   | None \<Rightarrow>
       if t = T_STRUCT
       then tbind (tap_readStructBegin K) (\<lambda>_ d' s'. tap_skip_run K p (SkipFields # ts) d' s') d s
       else if t = T_MAP
       then tbind (tap_readMapBegin K p) (\<lambda>x d' s'. case x of (k, v, n) \<Rightarrow>
           tap_skip_run K p (SkipPairs (unat n) k v # ts) d' s') d s
       else if t = T_SET
       then tbind (tap_readSetBegin K p) (\<lambda>x d' s'. case x of (e, n) \<Rightarrow>
           tap_skip_run K p (SkipElems (unat n) e # ts) d' s') d s
       else if t = T_LIST
       then tbind (tap_readListBegin K p) (\<lambda>x d' s'. case x of (e, n) \<Rightarrow>
           tap_skip_run K p (SkipElems (unat n) e # ts) d' s') d s
       else tap_skip_run K p ts d s)"
| "tap_skip_run K p (SkipFields # ts) d s = tbind (tap_readFieldBegin K) (\<lambda>x d' s'. case x of (t, _) \<Rightarrow>
     if t = T_STOP then tbind (tap_readStructEnd K) (\<lambda>_ d2 s2. tap_skip_run K p ts d2 s2) d' s'
     else tap_skip_run K p (Skip t # SkipFields # ts) d' s') d s"
| "tap_skip_run K p (SkipElems n t # ts) d s =
     (if n = 0 then tap_skip_run K p ts d s else tap_skip_run K p (Skip t # SkipElems (n - 1) t # ts) d s)"
| "tap_skip_run K p (SkipPairs n k v # ts) d s =
     (if n = 0 then tap_skip_run K p ts d s
      else tap_skip_run K p (Skip k # Skip v # SkipPairs (n - 1) k v # ts) d s)"
  by pat_completeness auto
termination
  by (relation "inv_image (less_than <*lex*> less_than) (\<lambda>(K, p, ts, d, s). (length s, \<Sum>t\<leftarrow>ts. task_weight t))")
    (auto simp: tap_readStructBegin_def tap_readStructEnd_def tap_readMapBegin_def tap_readSetBegin_def
      tap_readListBegin_def tap_readFieldBegin_def dest!: tapped_Inr containers_eat tap_skip_scalar_le)

definition tap_skip :: "'s sink \<Rightarrow> proto \<Rightarrow> ttype \<Rightarrow> (unit, 's) tap" where
  "tap_skip K p t = tap_skip_run K p [Skip t]"

declare tap_skip_run.simps [simp del]

end
