(* ===== verification/TapProps.thy ===== *)
theory TapProps
  imports Tap
begin

text \<open>
  What a tap writes: the sink is called as if the value that passes had been written to it.  With the
  binary protocol as the sink that is a copy, with the compact protocol a translation.
\<close>

section \<open>Writing a value to a sink\<close>

definition then_sink :: "('s \<Rightarrow> 's ub) \<Rightarrow> ('s \<Rightarrow> 's ub) \<Rightarrow> 's \<Rightarrow> 's ub" where
  "then_sink w v d = Option.bind (w d) v"

function (sequential) sink_encode :: "'s sink \<Rightarrow> tval \<Rightarrow> 's \<Rightarrow> 's ub"
  and sink_fields :: "'s sink \<Rightarrow> (i16 \<times> tval) list \<Rightarrow> 's \<Rightarrow> 's ub"
  and sink_elems :: "'s sink \<Rightarrow> tval list \<Rightarrow> 's \<Rightarrow> 's ub"
  and sink_pairs :: "'s sink \<Rightarrow> (tval \<times> tval) list \<Rightarrow> 's \<Rightarrow> 's ub" where
  "sink_encode K (VBool b) = sink_bool K b"
| "sink_encode K (VByte i) = sink_byte K i"
| "sink_encode K (VI16 i) = sink_i16 K i"
| "sink_encode K (VI32 i) = sink_i32 K i"
| "sink_encode K (VI64 i) = sink_i64 K i"
| "sink_encode K (VDouble x) = sink_double K x"
| "sink_encode K (VString s) = sink_binary K s"
| "sink_encode K (VStruct fs) = then_sink (sink_structBegin K) (then_sink (sink_fields K fs) (sink_structEnd K))"
| "sink_encode K (VMap k v xs) = then_sink (sink_mapBegin K k v (of_nat (length xs))) (sink_pairs K xs)"
| "sink_encode K (VSet e xs) = then_sink (sink_setBegin K e (of_nat (length xs))) (sink_elems K xs)"
| "sink_encode K (VList e xs) = then_sink (sink_listBegin K e (of_nat (length xs))) (sink_elems K xs)"
| "sink_fields K [] = sink_fieldStop K"
| "sink_fields K ((fid, x) # fs) = then_sink (sink_fieldBegin K (type_of x) fid) (then_sink (sink_encode K x) (sink_fields K fs))"
| "sink_elems K [] = Some"
| "sink_elems K (x # xs) = then_sink (sink_encode K x) (sink_elems K xs)"
| "sink_pairs K [] = Some"
| "sink_pairs K ((x, y) # xs) = then_sink (sink_encode K x) (then_sink (sink_encode K y) (sink_pairs K xs))"
  by pat_completeness auto
termination
  by (relation "measure (case_sum (case_sum (\<lambda>(_, x). size x) (\<lambda>(_, x). field_sizes x))
      (case_sum (\<lambda>(_, x). elem_sizes x) (\<lambda>(_, x). pair_sizes x)))")
    (auto simp: val_sizes_def)

section \<open>The sink gets what passes\<close>

lemma tapped_write: "r (out @ s) = Inr (x, s) \<Longrightarrow> w x d = Some d' \<Longrightarrow> tapped r w d (out @ s) = Some (Inr (x, d', s))"
  by (simp add: tapped_def)

lemmas tap_readers = tap_readBool_def tap_readByte_def tap_readI16_def tap_readI32_def tap_readI64_def
  tap_readDouble_def tap_readBinary_def

lemma tap_scalars:
  "sink_bool K b d = Some d' \<Longrightarrow> tap_skip_run K p (Skip T_BOOL # ts) d (writeBool b @ s) = tap_skip_run K p ts d' s"
  "sink_byte K i1 d = Some d' \<Longrightarrow> tap_skip_run K p (Skip T_BYTE # ts) d (writeByte i1 @ s) = tap_skip_run K p ts d' s"
  "sink_i16 K i2 d = Some d' \<Longrightarrow> tap_skip_run K p (Skip T_I16 # ts) d (writeI16 i2 @ s) = tap_skip_run K p ts d' s"
  "sink_i32 K i4 d = Some d' \<Longrightarrow> tap_skip_run K p (Skip T_I32 # ts) d (writeI32 i4 @ s) = tap_skip_run K p ts d' s"
  "sink_i64 K i8 d = Some d' \<Longrightarrow> tap_skip_run K p (Skip T_I64 # ts) d (writeI64 i8 @ s) = tap_skip_run K p ts d' s"
  "sink_double K i8 d = Some d' \<Longrightarrow> tap_skip_run K p (Skip T_DOUBLE # ts) d (writeDouble i8 @ s) = tap_skip_run K p ts d' s"
  "length str < 2 ^ 31 \<Longrightarrow> sink_binary K str d = Some d' \<Longrightarrow>
    tap_skip_run K default_proto (Skip T_STRING # ts) d (writeString str @ s) = tap_skip_run K default_proto ts d' s"
  by (subst tap_skip_run.simps(2),
      simp add: tap_skip_scalar_def ttype_defs wire_simps tap_readers tapped_write tbind_def tret_def)+

lemma tap_containers:
  "sink_structBegin K d = Some d' \<Longrightarrow>
    tap_skip_run K p (Skip T_STRUCT # ts) d s = tap_skip_run K p (SkipFields # ts) d' s"
  "n < 2 ^ 31 \<Longrightarrow> sink_mapBegin K k v (of_nat n) d = Some d' \<Longrightarrow>
    tap_skip_run K default_proto (Skip T_MAP # ts) d (writeMapBegin k v (of_nat n) @ s) =
    tap_skip_run K default_proto (SkipPairs n k v # ts) d' s"
  "n < 2 ^ 31 \<Longrightarrow> sink_setBegin K e (of_nat n) d = Some d' \<Longrightarrow>
    tap_skip_run K default_proto (Skip T_SET # ts) d (writeSetBegin e (of_nat n) @ s) =
    tap_skip_run K default_proto (SkipElems n e # ts) d' s"
  "n < 2 ^ 31 \<Longrightarrow> sink_listBegin K e (of_nat n) d = Some d' \<Longrightarrow>
    tap_skip_run K default_proto (Skip T_LIST # ts) d (writeListBegin e (of_nat n) @ s) =
    tap_skip_run K default_proto (SkipElems n e # ts) d' s"
  by (subst tap_skip_run.simps(2),
      simp add: tap_skip_scalar_def ttype_defs wire_simps tap_readStructBegin_def tap_readMapBegin_def
        tap_readSetBegin_def tap_readListBegin_def tapped_def tbind_def)+

lemma tap_loops:
  "sink_fieldStop K d = Some d1 \<Longrightarrow> sink_structEnd K d1 = Some d' \<Longrightarrow>
    tap_skip_run K p (SkipFields # ts) d (writeFieldStop @ s) = tap_skip_run K p ts d' s"
  "t \<noteq> T_STOP \<Longrightarrow> sink_fieldBegin K t fid d = Some d' \<Longrightarrow>
    tap_skip_run K p (SkipFields # ts) d (writeFieldBegin t fid @ s) = tap_skip_run K p (Skip t # SkipFields # ts) d' s"
  "tap_skip_run K p (SkipElems 0 e # ts) d s = tap_skip_run K p ts d s"
  "tap_skip_run K p (SkipElems (Suc n) e # ts) d s = tap_skip_run K p (Skip e # SkipElems n e # ts) d s"
  "tap_skip_run K p (SkipPairs 0 k v # ts) d s = tap_skip_run K p ts d s"
  "tap_skip_run K p (SkipPairs (Suc n) k v # ts) d s = tap_skip_run K p (Skip k # Skip v # SkipPairs n k v # ts) d s"
  by (subst tap_skip_run.simps(3-5),
      simp add: wire_simps tap_readFieldBegin_def tap_readStructEnd_def tapped_def tbind_def)+

lemma tap_encoded:
  "wf_val x \<Longrightarrow> sink_encode K x d = Some d' \<Longrightarrow>
    tap_skip_run K default_proto (Skip (type_of x) # ts) d (encode x @ s) = tap_skip_run K default_proto ts d' s"
  "wf_fields fs \<Longrightarrow> then_sink (sink_fields K fs) (sink_structEnd K) d = Some d' \<Longrightarrow>
    tap_skip_run K default_proto (SkipFields # ts) d (encode_fields fs @ s) = tap_skip_run K default_proto ts d' s"
  "wf_elems e xs \<Longrightarrow> sink_elems K xs d = Some d' \<Longrightarrow>
    tap_skip_run K default_proto (SkipElems (length xs) e # ts) d (encode_elems xs @ s) = tap_skip_run K default_proto ts d' s"
  "wf_pairs k v ps \<Longrightarrow> sink_pairs K ps d = Some d' \<Longrightarrow>
    tap_skip_run K default_proto (SkipPairs (length ps) k v # ts) d (encode_pairs ps @ s) = tap_skip_run K default_proto ts d' s"
  by (induction x and fs and xs and ps arbitrary: d d' ts s and d d' ts s and e d d' ts s and k v d d' ts s
      rule: encode_encode_fields_encode_elems_encode_pairs.induct)
    (auto simp: tap_scalars tap_containers tap_loops type_of_not_stop then_sink_def Option.bind_eq_Some_conv)

lemma tap_skip_value:
  "wf_val x \<Longrightarrow> sink_encode K x d = Some d' \<Longrightarrow>
    tap_skip K default_proto (type_of x) d (encode x @ s) = Some (Inr ((), d', s))"
  by (simp add: tap_skip_def tap_encoded tap_skip_run.simps(1))

section \<open>The two protocols as sinks\<close>

lemma binary_sink_encode:
  "sink_encode binary_sink x pre = Some (pre @ encode x)"
  "sink_fields binary_sink fs pre = Some (pre @ encode_fields fs)"
  "sink_elems binary_sink xs pre = Some (pre @ encode_elems xs)"
  "sink_pairs binary_sink ps pre = Some (pre @ encode_pairs ps)"
  by (induction x and fs and xs and ps arbitrary: pre and pre and pre and pre
      rule: encode_encode_fields_encode_elems_encode_pairs.induct)
    (simp_all add: binary_sink_def append_bytes_def then_sink_def)

lemma compact_run_cthen: "compact_run (cthen w v) = then_sink (compact_run w) (compact_run v)"
proof (rule ext)
  fix d :: "compact_state \<times> string"
  show "compact_run (cthen w v) d = then_sink (compact_run w) (compact_run v) d"
    by (cases d; cases "w (fst d)"; cases "v (snd (the (w (fst d))))")
      (auto simp: compact_run_def cthen_def then_sink_def)
qed

lemma compact_run_nil: "compact_run (cwrite (Some [])) = Some"
  by (rule ext) (auto simp: compact_run_def cwrite_def)

lemma compact_sink_encode:
  "sink_encode compact_sink x = compact_run (compact_encode x)"
  "sink_fields compact_sink fs = compact_run (compact_fields fs)"
  "sink_elems compact_sink xs = compact_run (compact_elems xs)"
  "sink_pairs compact_sink ps = compact_run (compact_pairs ps)"
  by (induction x and fs and xs and ps rule: compact_encode_compact_fields_compact_elems_compact_pairs.induct)
    (simp_all add: compact_sink_def compact_run_cthen compact_run_nil compact_writeString_def)

section \<open>The contract of a sink\<close>

text \<open>
  A sink in a good state takes any value, and \<open>got x d d'\<close> says what it has then.  Whatever passes
  a tap then reaches its sink.
\<close>

locale value_sink =
  fixes K :: "'s sink" and ready :: "'s \<Rightarrow> bool" and got :: "tval \<Rightarrow> 's \<Rightarrow> 's \<Rightarrow> bool"
  assumes takes: "ready d \<Longrightarrow> wf_val x \<Longrightarrow> declared_ok x \<Longrightarrow> \<exists>d'. sink_encode K x d = Some d' \<and> ready d' \<and> got x d d'"
begin

lemma passes:
  assumes "ready d" and "wf_val x" and "declared_ok x"
  shows "\<exists>d'. tap_skip K default_proto (type_of x) d (encode x @ s) = Some (Inr ((), d', s)) \<and> ready d' \<and> got x d d'"
proof -
  obtain d' where "sink_encode K x d = Some d'" "ready d'" "got x d d'"
    using takes [OF assms] by blast
  with tap_skip_value [OF assms(2) this(1)] show ?thesis by blast
qed

lemma passes_on:
  assumes "ready d" and "wf_val x" and "declared_ok x" and "wf_val y" and "declared_ok y"
  shows "\<exists>d1 d2. tbind (tap_skip K default_proto (type_of x)) (\<lambda>_. tap_skip K default_proto (type_of y)) d
      (encode x @ encode y @ s) = Some (Inr ((), d2, s)) \<and> got x d d1 \<and> got y d1 d2"
proof -
  obtain d1 where d1: "tap_skip K default_proto (type_of x) d (encode x @ encode y @ s) = Some (Inr ((), d1, encode y @ s))"
      "ready d1" "got x d d1"
    using passes [OF assms(1-3), of "encode y @ s"] by blast
  obtain d2 where "tap_skip K default_proto (type_of y) d1 (encode y @ s) = Some (Inr ((), d2, s))" "got y d1 d2"
    using passes [OF d1(2) assms(4,5), of s] by blast
  with d1(3) show ?thesis
    unfolding tbind_step [of "tap_skip K default_proto (type_of x)", OF d1(1)] by blast
qed

end

definition compact_got :: "tval \<Rightarrow> compact_state \<times> string \<Rightarrow> compact_state \<times> string \<Rightarrow> bool" where
  "compact_got x d d' \<longleftrightarrow> (\<exists>out. compact_encode x (fst d) = Some (out, fst d) \<and> d' = (fst d, snd d @ out)
     \<and> (\<forall>rst t. boolValue rst = None \<longrightarrow>
          compact_skip default_proto (type_of x) rst (out @ t) = Some (Inr ((), rst, t))))"

interpretation to_binary: value_sink binary_sink "\<lambda>_. True" "\<lambda>x d d'. d' = d @ encode x"
  by unfold_locales (simp add: binary_sink_encode)

interpretation to_compact: value_sink compact_sink "\<lambda>d. booleanField (fst d) = None" compact_got
proof
  fix d :: "compact_state \<times> string" and x
  assume "booleanField (fst d) = None" "wf_val x" "declared_ok x"
  then obtain out where out: "compact_encode x (fst d) = Some (out, fst d)"
      "\<And>rst s ts. boolValue rst = None \<Longrightarrow>
        compact_skip_run default_proto ([Skip (type_of x)] @ ts) rst (out @ s) = compact_skip_run default_proto ts rst s"
    using in_stepE [OF compact_in_step(1)] by blast
  then have "sink_encode compact_sink x d = Some (fst d, snd d @ out)"
    by (cases d) (simp add: compact_sink_encode compact_run_def)
  then show "\<exists>d'. sink_encode compact_sink x d = Some d' \<and> booleanField (fst d') = None \<and> compact_got x d d'"
    using out \<open>booleanField (fst d) = None\<close> out(2) [of _ "[]"]
    by (auto simp: compact_got_def compact_skip_def compact_skip_run.simps(1))
qed

section \<open>The property\<close>

text \<open>C19. A tap that reads a value of any type in the binary protocol takes exactly its bytes and
  writes the value to its sink: the very same bytes when the sink is the binary protocol, and what
  the compact protocol writes for the value when it is the compact protocol, which a reader of that
  protocol takes to the last byte.\<close>

theorem tap_translates:
  assumes "wf_val x" and "declared_ok x" and "booleanField st = None"
  shows "tap_skip binary_sink default_proto (type_of x) pre (encode x @ s) = Some (Inr ((), pre @ encode x, s))
    \<and> (\<exists>out. tap_skip compact_sink default_proto (type_of x) (st, pre) (encode x @ s) =
          Some (Inr ((), (st, pre @ out), s))
        \<and> compact_encode x st = Some (out, st)
        \<and> (\<forall>rst t. boolValue rst = None \<longrightarrow>
            compact_skip default_proto (type_of x) rst (out @ t) = Some (Inr ((), rst, t))))"
proof -
  obtain d' where "tap_skip compact_sink default_proto (type_of x) (st, pre) (encode x @ s) = Some (Inr ((), d', s))"
      "compact_got x (st, pre) d'"
    using to_compact.passes [of "(st, pre)" x s] assms by auto
  moreover have "tap_skip binary_sink default_proto (type_of x) pre (encode x @ s) = Some (Inr ((), pre @ encode x, s))"
    using to_binary.passes [OF _ assms(1,2), of pre s] by auto
  ultimately show ?thesis
    by (auto simp: compact_got_def)
qed

lemma tap_translates_witness:
  "\<exists>out. tap_skip compact_sink default_proto T_STRUCT (TCompactProtocol_new, ''log:'')
      (encode (VStruct [(1, VBool True), (300, VString ''key'')])) =
    Some (Inr ((), (TCompactProtocol_new, ''log:'' @ out), []))"
  using tap_translates [of "VStruct [(1, VBool True), (300, VString ''key'')]" TCompactProtocol_new "''log:''" "[]"]
  by (auto simp: TCompactProtocol_new_def simp del: encode.simps)

end
