(* ===== verification/MemoryBuffer.thy ===== *)
theory MemoryBuffer
  imports Transport
begin

text \<open>
  The transport that reads from and writes to a block of memory (class \<open>TMemoryBuffer\<close> of
  src/include_deps/thrift/transport/TBufferTransports.h), which the non-blocking servers read
  their requests from.  The block is the caller's or the buffer's own, so the heap is part of the
  state: allocating, freeing and copying are steps of it, and what would be undefined in C is
  \<open>None\<close>.  The functions of the compiled library are parameters; what the comments say of them is
  the predicate \<open>slow_paths_ok\<close>.
\<close>

section \<open>The heap\<close>

text \<open>
  \<open>room n\<close> says whether an allocation of \<open>n\<close> bytes succeeds, \<open>junk\<close> is what a new block holds.
\<close>

type_synonym block = nat

record c_heap =
  blocks :: "block \<Rightarrow> string option"
  next_block :: block
  room :: "nat \<Rightarrow> bool"
  junk :: "nat \<Rightarrow> char"

definition c_malloc :: "nat \<Rightarrow> c_heap \<Rightarrow> block option \<times> c_heap" where
  "c_malloc n h = (if room h n
     then (Some (next_block h), h\<lparr>blocks := (blocks h)(next_block h \<mapsto> map (junk h) [0..<n]),
                                  next_block := Suc (next_block h)\<rparr>)
     else (None, h))"

definition c_free :: "block option \<Rightarrow> c_heap \<Rightarrow> c_heap ub" where
  "c_free p h = (case p of
     None \<Rightarrow> Some h
   | Some a \<Rightarrow> if blocks h a = None then None else Some (h\<lparr>blocks := (blocks h)(a := None)\<rparr>))"

text \<open>A copy of no bytes is no step, whatever the pointers are.\<close>

definition load :: "block option \<Rightarrow> nat \<Rightarrow> nat \<Rightarrow> c_heap \<Rightarrow> string ub" where
  "load p i n h = (if n = 0 then Some [] else case p of
     None \<Rightarrow> None
   | Some a \<Rightarrow> (case blocks h a of
       None \<Rightarrow> None
     | Some c \<Rightarrow> if i + n \<le> length c then Some (take n (drop i c)) else None))"

definition store_at :: "block option \<Rightarrow> nat \<Rightarrow> string \<Rightarrow> c_heap \<Rightarrow> c_heap ub" where
  "store_at p i s h = (if s = [] then Some h else case p of
     None \<Rightarrow> None
   | Some a \<Rightarrow> (case blocks h a of
       None \<Rightarrow> None
     | Some c \<Rightarrow> if i + length s \<le> length c
         then Some (h\<lparr>blocks := (blocks h)(a \<mapsto> take i c @ s @ drop (i + length s) c)\<rparr>) else None))"

section \<open>The memory buffer\<close>

text \<open>The pointers are offsets into the block \<open>buffer_\<close>, which may be null.\<close>

record TMemoryBuffer =
  m_buffer :: "block option"
  m_bufferSize :: u32
  m_rBase :: nat
  m_rBound :: nat
  m_wBase :: nat
  m_wBound :: nat
  m_owner :: bool

type_synonym memory = "TMemoryBuffer \<times> c_heap"

datatype memory_error = Throws transport_error | Out_of_memory

text \<open>An exception leaves the state as it is by then.\<close>

type_synonym 'a memory_call = "memory \<Rightarrow> ((memory_error + 'a) \<times> memory) ub"

text \<open>The functions of the compiled library.\<close>

record memory_slow =
  ensureCanWrite :: "u32 \<Rightarrow> unit memory_call"
  memory_wroteBytes :: "u32 \<Rightarrow> unit memory_call"
  memory_readSlow :: "nat \<Rightarrow> memory \<Rightarrow> (string \<times> memory) transported ub"
  memory_writeSlow :: "string \<Rightarrow> unit memory_call"
  memory_borrowSlow :: "nat \<Rightarrow> memory \<Rightarrow> (string option \<times> memory) transported"
  memory_readAppend :: "string \<Rightarrow> u32 \<Rightarrow> string memory_call"

definition memory_setup :: "block option \<Rightarrow> u32 \<Rightarrow> bool \<Rightarrow> nat \<Rightarrow> TMemoryBuffer" where
  "memory_setup buf sz owner wPos =
     \<lparr>m_buffer = buf, m_bufferSize = sz, m_rBase = 0, m_rBound = wPos, m_wBase = wPos,
      m_wBound = unat sz, m_owner = owner\<rparr>"

text \<open>A failed assertion is \<open>None\<close>.\<close>

definition initCommon :: "block option \<Rightarrow> u32 \<Rightarrow> bool \<Rightarrow> nat \<Rightarrow> c_heap \<Rightarrow> ((memory_error + TMemoryBuffer) \<times> c_heap) ub" where
  "initCommon buf sz owner wPos h =
     (if buf = None \<and> sz \<noteq> 0
      then if \<not> owner then None
           else (case c_malloc (unat sz) h of
               (None, h1) \<Rightarrow> Some (Inl Out_of_memory, h1)
             | (Some a, h1) \<Rightarrow> Some (Inr (memory_setup (Some a) sz owner wPos), h1))
      else Some (Inr (memory_setup buf sz owner wPos), h))"

definition defaultSize :: u32 where
  "defaultSize = 1024"

definition TMemoryBuffer_new :: "c_heap \<Rightarrow> ((memory_error + TMemoryBuffer) \<times> c_heap) ub" where
  "TMemoryBuffer_new = initCommon None defaultSize True 0"

definition TMemoryBuffer_sized :: "u32 \<Rightarrow> c_heap \<Rightarrow> ((memory_error + TMemoryBuffer) \<times> c_heap) ub" where
  "TMemoryBuffer_sized sz = initCommon None sz True 0"

text \<open>\<open>write\<close> of the base class, on this memory.\<close>

definition memory_write :: "memory_slow \<Rightarrow> string \<Rightarrow> unit memory_call" where
  "memory_write S s = (\<lambda>(b, h).
     if m_wBase b + length s \<le> m_wBound b
     then (case store_at (m_buffer b) (m_wBase b) s h of
         None \<Rightarrow> None
       | Some h1 \<Rightarrow> Some (Inr (), b\<lparr>m_wBase := m_wBase b + length s\<rparr>, h1))
     else memory_writeSlow S s (b, h))"

text \<open>Policies are numbers, so that others than the three are possible.\<close>

definition OBSERVE :: int where "OBSERVE = 1"
definition COPY :: int where "COPY = 2"
definition TAKE_OWNERSHIP :: int where "TAKE_OWNERSHIP = 3"

definition TMemoryBuffer_of :: "memory_slow \<Rightarrow> block option \<Rightarrow> u32 \<Rightarrow> int \<Rightarrow> c_heap
    \<Rightarrow> ((memory_error + TMemoryBuffer) \<times> c_heap) ub" where
  "TMemoryBuffer_of S buf sz policy h =
     (if buf = None \<and> sz \<noteq> 0 then Some (Inl (Throws BAD_ARGS), h)
      else if policy = OBSERVE \<or> policy = TAKE_OWNERSHIP
        then initCommon buf sz (policy = TAKE_OWNERSHIP) (unat sz) h
      else if policy = COPY
        then (case initCommon None sz True 0 h of
            None \<Rightarrow> None
          | Some (Inl e, h1) \<Rightarrow> Some (Inl e, h1)
          | Some (Inr b, h1) \<Rightarrow> (case load buf 0 (unat sz) h1 of
              None \<Rightarrow> None
            | Some s \<Rightarrow> (case memory_write S s (b, h1) of
                None \<Rightarrow> None
              | Some (Inl e, _, h2) \<Rightarrow> Some (Inl e, h2)
              | Some (Inr _, b2, h2) \<Rightarrow> Some (Inr b2, h2))))
      else Some (Inl (Throws BAD_ARGS), h))"

definition TMemoryBuffer_destroy :: "memory \<Rightarrow> c_heap ub" where
  "TMemoryBuffer_destroy = (\<lambda>(b, h). if m_owner b then c_free (m_buffer b) h else Some h)"

definition memory_peek :: "TMemoryBuffer \<Rightarrow> bool" where
  "memory_peek b \<longleftrightarrow> m_rBase b < m_wBase b"

text \<open>A pointer is a block with an offset.\<close>

definition getBuffer :: "TMemoryBuffer \<Rightarrow> (block option \<times> nat) \<times> u32" where
  "getBuffer b = ((m_buffer b, m_rBase b), of_nat (m_wBase b - m_rBase b))"

definition appendBufferToString :: "string \<Rightarrow> memory \<Rightarrow> string ub" where
  "appendBufferToString str = (\<lambda>(b, h).
     if m_buffer b = None then Some str
     else (case getBuffer b of ((buf, i), sz) \<Rightarrow> map_option (\<lambda>s. str @ s) (load buf i (unat sz) h)))"

definition getBufferAsString :: "memory \<Rightarrow> string ub" where
  "getBufferAsString = (\<lambda>(b, h).
     if m_buffer b = None then Some []
     else (case getBuffer b of ((buf, i), sz) \<Rightarrow> load buf i (unat sz) h))"

definition resetBuffer :: "TMemoryBuffer \<Rightarrow> TMemoryBuffer" where
  "resetBuffer b0 =
     (let b = b0\<lparr>m_rBase := 0, m_rBound := 0, m_wBase := 0\<rparr>
      in if m_owner b then b else b\<lparr>m_wBound := m_wBase b, m_bufferSize := 0\<rparr>)"

definition memory_swap :: "TMemoryBuffer \<Rightarrow> TMemoryBuffer \<Rightarrow> TMemoryBuffer \<times> TMemoryBuffer" where
  "memory_swap this that =
     (this\<lparr>m_buffer := m_buffer that, m_bufferSize := m_bufferSize that, m_rBase := m_rBase that,
        m_rBound := m_rBound that, m_wBase := m_wBase that, m_wBound := m_wBound that,
        m_owner := m_owner that\<rparr>,
      that\<lparr>m_buffer := m_buffer this, m_bufferSize := m_bufferSize this, m_rBase := m_rBase this,
        m_rBound := m_rBound this, m_wBase := m_wBase this, m_wBound := m_wBound this,
        m_owner := m_owner this\<rparr>)"

text \<open>
  Both other resets construct a new buffer, swap it with this one, and destroy what was this one.
\<close>

definition replace_by :: "(c_heap \<Rightarrow> ((memory_error + TMemoryBuffer) \<times> c_heap) ub) \<Rightarrow> unit memory_call" where
  "replace_by new = (\<lambda>(b, h). case new h of
     None \<Rightarrow> None
   | Some (Inl e, h1) \<Rightarrow> Some (Inl e, b, h1)
   | Some (Inr new_buffer, h1) \<Rightarrow>
       (case memory_swap b new_buffer of (this, old) \<Rightarrow>
          map_option (\<lambda>h2. (Inr (), this, h2)) (TMemoryBuffer_destroy (old, h1))))"

definition resetBuffer_of :: "memory_slow \<Rightarrow> block option \<Rightarrow> u32 \<Rightarrow> int \<Rightarrow> unit memory_call" where
  "resetBuffer_of S buf sz policy = replace_by (TMemoryBuffer_of S buf sz policy)"

definition resetBuffer_sized :: "u32 \<Rightarrow> unit memory_call" where
  "resetBuffer_sized sz = replace_by (TMemoryBuffer_sized sz)"

definition readAsString :: "memory_slow \<Rightarrow> u32 \<Rightarrow> string memory_call" where
  "readAsString S len = memory_readAppend S [] len"

definition memory_readEnd :: "TMemoryBuffer \<Rightarrow> u32 \<times> TMemoryBuffer" where
  "memory_readEnd b = (of_nat (m_rBase b), if m_rBase b = m_wBase b then resetBuffer b else b)"

definition memory_writeEnd :: "TMemoryBuffer \<Rightarrow> u32" where
  "memory_writeEnd b = of_nat (m_wBase b)"

definition available_read :: "TMemoryBuffer \<Rightarrow> u32" where
  "available_read b = of_nat (m_wBase b - m_rBase b)"

definition available_write :: "TMemoryBuffer \<Rightarrow> u32" where
  "available_write b = of_nat (m_wBound b - m_wBase b)"

definition getWritePtr :: "memory_slow \<Rightarrow> u32 \<Rightarrow> (block option \<times> nat) memory_call" where
  "getWritePtr S len s = (case ensureCanWrite S len s of
     None \<Rightarrow> None
   | Some (Inl e, t) \<Rightarrow> Some (Inl e, t)
   | Some (Inr _, b, h) \<Rightarrow> Some (Inr (m_buffer b, m_wBase b), b, h))"

text \<open>The other operations of the base class, on this memory.\<close>

definition memory_read :: "memory_slow \<Rightarrow> nat \<Rightarrow> memory \<Rightarrow> (string \<times> memory) transported ub" where
  "memory_read S n = (\<lambda>(b, h).
     if m_rBase b + n \<le> m_rBound b
     then map_option (\<lambda>s. Inr (s, b\<lparr>m_rBase := m_rBase b + n\<rparr>, h)) (load (m_buffer b) (m_rBase b) n h)
     else memory_readSlow S n (b, h))"

definition memory_readAll :: "memory_slow \<Rightarrow> nat \<Rightarrow> memory \<Rightarrow> (string \<times> memory) transported ub" where
  "memory_readAll S n = (\<lambda>(b, h).
     if m_rBase b + n \<le> m_rBound b
     then map_option (\<lambda>s. Inr (s, b\<lparr>m_rBase := m_rBase b + n\<rparr>, h)) (load (m_buffer b) (m_rBase b) n h)
     else readAll_loop (memory_read S) n [] (b, h))"

text \<open>The bytes behind a borrowed pointer; \<open>None\<close> is the null pointer.\<close>

definition memory_borrow :: "memory_slow \<Rightarrow> nat \<Rightarrow> memory \<Rightarrow> (string option \<times> memory) transported ub" where
  "memory_borrow S n = (\<lambda>(b, h).
     if n \<le> m_rBound b - m_rBase b
     then map_option (\<lambda>s. Inr (Some s, b, h)) (load (m_buffer b) (m_rBase b) (m_rBound b - m_rBase b) h)
     else Some (memory_borrowSlow S n (b, h)))"

definition memory_consume :: "nat \<Rightarrow> memory \<Rightarrow> memory transported" where
  "memory_consume n = (\<lambda>(b, h).
     if n \<le> m_rBound b - m_rBase b then Inr (b\<lparr>m_rBase := m_rBase b + n\<rparr>, h) else Inl BAD_ARGS)"

end
