(* ===== verification/MemoryCorrect.thy ===== *)
theory MemoryCorrect
  imports MemoryBuffer
begin

text \<open>
  What the memory buffer promises (theory MemoryBuffer): its unread bytes are a queue, every block
  that is not its own is left as it is, and its own block is freed once.
\<close>

section \<open>State and invariant\<close>

definition heap_ok :: "c_heap \<Rightarrow> bool" where
  "heap_ok h \<longleftrightarrow> (\<forall>a \<ge> next_block h. blocks h a = None)"

definition mine :: "TMemoryBuffer \<Rightarrow> block set" where
  "mine b = (if m_owner b then set_option (m_buffer b) else {})"

text \<open>The blocks of the others, and the bytes to be read.\<close>

definition others :: "memory \<Rightarrow> block \<Rightarrow> string option" where
  "others = (\<lambda>(b, h). blocks h |` (- mine b))"

definition memory_bytes :: "memory \<Rightarrow> string" where
  "memory_bytes = (\<lambda>(b, h). case m_buffer b of None \<Rightarrow> [] | Some a \<Rightarrow> (case blocks h a of None \<Rightarrow> [] | Some c \<Rightarrow> c))"

definition unread :: "memory \<Rightarrow> string" where
  "unread s = drop (m_rBase (fst s)) (take (m_wBase (fst s)) (memory_bytes s))"

definition memory_ok :: "memory \<Rightarrow> bool" where
  "memory_ok = (\<lambda>(b, h). heap_ok h
     \<and> m_rBase b \<le> m_rBound b \<and> m_rBound b \<le> m_wBase b \<and> m_wBase b \<le> m_wBound b
     \<and> m_wBound b = unat (m_bufferSize b) \<and> (\<not> m_owner b \<longrightarrow> m_wBase b = m_wBound b)
     \<and> (case m_buffer b of
          None \<Rightarrow> m_bufferSize b = 0
        | Some a \<Rightarrow> (case blocks h a of None \<Rightarrow> False | Some c \<Rightarrow> unat (m_bufferSize b) \<le> length c)))"

text \<open>A step of the buffer keeps the invariant and the blocks of the others.\<close>

definition kept :: "memory \<Rightarrow> memory \<Rightarrow> bool" where
  "kept s t \<longleftrightarrow> memory_ok t \<and> others t = others s"

text \<open>
  The documented behaviour of the compiled part.  \<open>ensureCanWrite\<close> makes room or throws;
  \<open>wroteBytes\<close> takes the bytes behind the write pointer, when there was room for them; a read
  gives the next bytes, fewer than asked for only if there are no more in the buffer.
\<close>

definition appends :: "string \<Rightarrow> memory \<Rightarrow> ((memory_error + unit) \<times> memory) ub \<Rightarrow> bool" where
  "appends x s r \<longleftrightarrow> (case r of
     None \<Rightarrow> False
   | Some (Inl e, t) \<Rightarrow> kept s t \<and> unread t = unread s
   | Some (Inr _, t) \<Rightarrow> kept s t \<and> unread t = unread s @ x)"

definition slow_paths_ok :: "memory_slow \<Rightarrow> bool" where
  "slow_paths_ok S \<longleftrightarrow> (\<forall>s. memory_ok s \<longrightarrow>
     (\<forall>len. case ensureCanWrite S len s of
        None \<Rightarrow> False
      | Some (r, t) \<Rightarrow> kept s t \<and> unread t = unread s
          \<and> (case r of Inl _ \<Rightarrow> True | Inr _ \<Rightarrow> m_wBase (fst t) + unat len \<le> m_wBound (fst t)))
   \<and> (\<forall>len. m_wBase (fst s) + unat len \<le> m_wBound (fst s) \<longrightarrow>
        appends (take (unat len) (drop (m_wBase (fst s)) (memory_bytes s))) s (memory_wroteBytes S len s))
   \<and> (\<forall>n. m_rBound (fst s) < m_rBase (fst s) + n \<longrightarrow> (case memory_readSlow S n s of
        None \<Rightarrow> False
      | Some (Inl e) \<Rightarrow> False
      | Some (Inr (x, t)) \<Rightarrow> kept s t \<and> unread s = x @ unread t \<and> length x \<le> n
          \<and> (length x < n \<longrightarrow> unread t = [])))
   \<and> (\<forall>x. m_wBound (fst s) < m_wBase (fst s) + length x \<longrightarrow> appends x s (memory_writeSlow S x s))
   \<and> (\<forall>n. m_rBound (fst s) - m_rBase (fst s) < n \<longrightarrow> (case memory_borrowSlow S n s of
        Inl e \<Rightarrow> False
      | Inr (x, t) \<Rightarrow> kept s t \<and> unread t = unread s
          \<and> (x = None \<or> n \<le> m_rBound (fst t) - m_rBase (fst t)
               \<and> x = Some (drop (m_rBase (fst t)) (take (m_rBound (fst t)) (memory_bytes t))))))
   \<and> (\<forall>str len. case memory_readAppend S str len s of
        None \<Rightarrow> False
      | Some (Inl e, t) \<Rightarrow> kept s t \<and> unread t = unread s
      | Some (Inr y, t) \<Rightarrow> kept s t \<and> (\<exists>x. y = str @ x \<and> unread s = x @ unread t \<and> length x \<le> unat len)))"

lemma slow_pathsD:
  assumes "slow_paths_ok S" and "memory_ok s"
  shows "case ensureCanWrite S len s of
        None \<Rightarrow> False
      | Some (r, t) \<Rightarrow> kept s t \<and> unread t = unread s
          \<and> (case r of Inl _ \<Rightarrow> True | Inr _ \<Rightarrow> m_wBase (fst t) + unat len \<le> m_wBound (fst t))"
    and "m_wBase (fst s) + unat len \<le> m_wBound (fst s) \<Longrightarrow>
        appends (take (unat len) (drop (m_wBase (fst s)) (memory_bytes s))) s (memory_wroteBytes S len s)"
    and "m_rBound (fst s) < m_rBase (fst s) + n \<Longrightarrow> (case memory_readSlow S n s of
        None \<Rightarrow> False
      | Some (Inl e) \<Rightarrow> False
      | Some (Inr (x, t)) \<Rightarrow> kept s t \<and> unread s = x @ unread t \<and> length x \<le> n
          \<and> (length x < n \<longrightarrow> unread t = []))"
    and "m_wBound (fst s) < m_wBase (fst s) + length x \<Longrightarrow> appends x s (memory_writeSlow S x s)"
    and "m_rBound (fst s) - m_rBase (fst s) < n \<Longrightarrow> (case memory_borrowSlow S n s of
        Inl e \<Rightarrow> False
      | Inr (x, t) \<Rightarrow> kept s t \<and> unread t = unread s
          \<and> (x = None \<or> n \<le> m_rBound (fst t) - m_rBase (fst t)
               \<and> x = Some (drop (m_rBase (fst t)) (take (m_rBound (fst t)) (memory_bytes t)))))"
    and "case memory_readAppend S str len s of
        None \<Rightarrow> False
      | Some (Inl e, t) \<Rightarrow> kept s t \<and> unread t = unread s
      | Some (Inr y, t) \<Rightarrow> kept s t \<and> (\<exists>x. y = str @ x \<and> unread s = x @ unread t \<and> length x \<le> unat len)"
  using assms unfolding slow_paths_ok_def by (blast+)

section \<open>Bytes of the buffer\<close>

lemma memory_okD:
  assumes "memory_ok (b, h)"
  shows "heap_ok h" "m_rBase b \<le> m_rBound b" "m_rBound b \<le> m_wBase b" "m_wBase b \<le> m_wBound b"
    "m_wBound b = unat (m_bufferSize b)" "\<not> m_owner b \<Longrightarrow> m_wBase b = m_wBound b"
    "m_wBound b < 2 ^ 32" "m_wBound b \<le> length (memory_bytes (b, h))"
  using assms unsigned_less [of "m_bufferSize b", where 'a = nat]
  by (auto simp: memory_ok_def memory_bytes_def split: option.splits)

lemma load_memory:
  assumes "memory_ok (b, h)" and "i + n \<le> m_wBound b"
  shows "load (m_buffer b) i n h = Some (take n (drop i (memory_bytes (b, h))))"
  using assms by (auto simp: load_def memory_ok_def memory_bytes_def split: option.splits)

lemma length_unread: "memory_ok (b, h) \<Longrightarrow> length (unread (b, h)) = m_wBase b - m_rBase b"
  using memory_okD [of b h] by (simp add: unread_def)

lemma mine_block: "memory_ok (b, h) \<Longrightarrow> a \<in> mine b \<Longrightarrow> blocks h a \<noteq> None"
  by (auto simp: mine_def memory_ok_def split: if_splits option.splits)

lemma read_base:
  assumes "memory_ok (b, h)" and "m_rBase b + n \<le> m_rBound b"
  shows "kept (b, h) (b\<lparr>m_rBase := m_rBase b + n\<rparr>, h)"
    and "unread (b, h) = take n (drop (m_rBase b) (memory_bytes (b, h))) @ unread (b\<lparr>m_rBase := m_rBase b + n\<rparr>, h)"
    and "length (take n (drop (m_rBase b) (memory_bytes (b, h)))) = n"
proof -
  note ok = memory_okD [OF assms(1)]
  show "kept (b, h) (b\<lparr>m_rBase := m_rBase b + n\<rparr>, h)"
    using assms by (auto simp: kept_def memory_ok_def others_def mine_def split: option.splits)
  show "length (take n (drop (m_rBase b) (memory_bytes (b, h)))) = n"
    using ok assms(2) by simp
  have "take n (drop (m_rBase b) (memory_bytes (b, h))) = take n (unread (b, h))"
    using ok assms(2) by (simp add: unread_def drop_take)
  moreover have "unread (b\<lparr>m_rBase := m_rBase b + n\<rparr>, h) = drop n (unread (b, h))"
    by (simp add: unread_def memory_bytes_def add.commute split: option.splits)
  ultimately show "unread (b, h) = take n (drop (m_rBase b) (memory_bytes (b, h))) @ unread (b\<lparr>m_rBase := m_rBase b + n\<rparr>, h)"
    by simp
qed

text \<open>Bytes stored at the write pointer.\<close>

lemma store_at_end:
  assumes "memory_ok (b, h)" and "m_wBase b + length x \<le> m_wBound b"
  obtains g where "store_at (m_buffer b) (m_wBase b) x h = Some g" and "kept (b, h) (b, g)"
    and "unread (b, g) = unread (b, h)" and "take (length x) (drop (m_wBase b) (memory_bytes (b, g))) = x"
    and "kept (b, h) (b\<lparr>m_wBase := m_wBase b + length x\<rparr>, g)"
    and "unread (b\<lparr>m_wBase := m_wBase b + length x\<rparr>, g) = unread (b, h) @ x"
proof (cases "x = []")
  case True
  then show ?thesis
    using that [of h] assms(1) by (simp add: store_at_def kept_def)
next
  case False
  note ok = memory_okD [OF assms(1)]
  have own: "m_owner b"
    using ok(6) assms(2) False by force
  obtain a c where a: "m_buffer b = Some a" "blocks h a = Some c" "unat (m_bufferSize b) \<le> length c"
    using assms ok(5) False by (auto simp: memory_ok_def split: option.splits)
  let ?c = "take (m_wBase b) c @ x @ drop (m_wBase b + length x) c"
  let ?g = "h\<lparr>blocks := (blocks h)(a \<mapsto> ?c)\<rparr>"
  have len: "length ?c = length c" "m_wBase b + length x \<le> length c"
    using a(3) ok(5) assms(2) by simp_all
  have bytes: "memory_bytes (b\<lparr>m_wBase := k\<rparr>, ?g) = ?c" "memory_bytes (b, ?g) = ?c" "memory_bytes (b, h) = c" for k
    using a by (simp_all add: memory_bytes_def)
  have heap: "heap_ok ?g"
    using ok(1) a(2) by (auto simp: heap_ok_def)
  have frame: "others (b\<lparr>m_wBase := k\<rparr>, ?g) = others (b, h)" "others (b, ?g) = others (b, h)" for k
    using own a(1) by (auto simp: others_def mine_def restrict_map_def)
  have "store_at (m_buffer b) (m_wBase b) x h = Some ?g"
    using False a len by (simp add: store_at_def)
  moreover have "kept (b, h) (b, ?g)"
    using assms(1) heap frame(2) a len(1) by (simp add: kept_def memory_ok_def del: length_append)
  moreover have "unread (b, ?g) = unread (b, h)" "take (length x) (drop (m_wBase b) (memory_bytes (b, ?g))) = x"
    using len(2) unfolding unread_def bytes by simp_all
  moreover have "kept (b, h) (b\<lparr>m_wBase := m_wBase b + length x\<rparr>, ?g)"
    using assms heap frame(1) a len(1) own by (simp add: kept_def memory_ok_def del: length_append)
  moreover have "unread (b\<lparr>m_wBase := m_wBase b + length x\<rparr>, ?g) = unread (b, h) @ x"
    using len(2) ok(2,3) unfolding unread_def bytes by simp
  ultimately show ?thesis
    by (rule that)
qed

section \<open>Reading and writing\<close>

lemma memory_write_ok:
  assumes "slow_paths_ok S" and "memory_ok s"
  shows "appends x s (memory_write S x s)"
proof -
  obtain b h where s: "s = (b, h)" by force
  show ?thesis
  proof (cases "m_wBase b + length x \<le> m_wBound b")
    case True
    show ?thesis
      by (rule store_at_end [OF assms(2) [unfolded s] True])
        (use True in \<open>simp add: s memory_write_def appends_def\<close>)
  next
    case False
    then show ?thesis
      using slow_pathsD(4) [OF assms, of x] by (simp add: s memory_write_def)
  qed
qed

lemma memory_read_ok:
  assumes "slow_paths_ok S" and "memory_ok s"
  shows "case memory_read S n s of
      None \<Rightarrow> False
    | Some (Inl e) \<Rightarrow> False
    | Some (Inr (x, t)) \<Rightarrow> kept s t \<and> unread s = x @ unread t \<and> length x \<le> n \<and> (length x < n \<longrightarrow> unread t = [])"
proof -
  obtain b h where s: "s = (b, h)" by force
  show ?thesis
  proof (cases "m_rBase b + n \<le> m_rBound b")
    case True
    then have "load (m_buffer b) (m_rBase b) n h = Some (take n (drop (m_rBase b) (memory_bytes (b, h))))"
      using memory_okD [OF assms(2) [unfolded s]] load_memory [OF assms(2) [unfolded s]] by simp
    with True read_base [OF assms(2) [unfolded s] True] show ?thesis
      by (simp add: s memory_read_def)
  next
    case False
    then show ?thesis
      using slow_pathsD(3) [OF assms, of n] by (simp add: s memory_read_def)
  qed
qed

lemma memory_readAll_ok:
  assumes "slow_paths_ok S" and "memory_ok s"
  shows "case memory_readAll S n s of
      None \<Rightarrow> False
    | Some (Inl e) \<Rightarrow> e = END_OF_FILE \<and> length (unread s) < n
    | Some (Inr (x, t)) \<Rightarrow> kept s t \<and> unread s = x @ unread t \<and> length x = n"
proof -
  obtain b h where s: "s = (b, h)" by force
  show ?thesis
  proof (cases "m_rBase b + n \<le> m_rBound b")
    case True
    then have "load (m_buffer b) (m_rBase b) n h = Some (take n (drop (m_rBase b) (memory_bytes (b, h))))"
      using memory_okD [OF assms(2) [unfolded s]] load_memory [OF assms(2) [unfolded s]] by simp
    with True read_base [OF assms(2) [unfolded s] True] show ?thesis
      by (simp add: s memory_readAll_def)
  next
    case False
    have "case memory_read S k c of
          None \<Rightarrow> False
        | Some (Inl e) \<Rightarrow> e = OTHER \<and> False
        | Some (Inr (x, d)) \<Rightarrow> kept s d \<and> length x \<le> k \<and> unread c = x @ unread d \<and> (x = [] \<longrightarrow> unread c = [])"
      if "kept s c" and "0 < k" for k c
      using that memory_read_ok [OF assms(1), of c k] by (auto simp: kept_def split: option.splits sum.splits)
    from readAll_loop_ok [where rd = "memory_read S", OF this, of s "[]" n] assms(2)
    have "case readAll_loop (memory_read S) n [] s of
        None \<Rightarrow> False
      | Some (Inl e) \<Rightarrow> e = END_OF_FILE \<and> length (unread s) < n
      | Some (Inr (x, t)) \<Rightarrow> kept s t \<and> length x = n \<and> unread s = x @ unread t"
      by (auto simp: kept_def [of s s] split: option.splits sum.splits)
    with False show ?thesis
      by (auto simp: s memory_readAll_def split: option.splits sum.splits)
  qed
qed

section \<open>New blocks and old ones\<close>

lemma reset_ok:
  assumes "memory_ok (b, h)"
  shows "kept (b, h) (resetBuffer b, h)" and "unread (resetBuffer b, h) = []"
  using assms
  by (auto simp: kept_def memory_ok_def others_def mine_def resetBuffer_def Let_def unread_def split: option.splits)

text \<open>
  \<open>makes new p q m h\<close>: from the heap \<open>h\<close>, \<open>new\<close> gives a buffer that holds \<open>q\<close> in the block \<open>p\<close> or
  in a new one, with \<open>m\<close> the blocks of the others, or throws and leaves the blocks as they are.
\<close>

definition makes :: "(c_heap \<Rightarrow> ((memory_error + TMemoryBuffer) \<times> c_heap) ub) \<Rightarrow> block option \<Rightarrow> string
    \<Rightarrow> (block \<Rightarrow> string option) \<Rightarrow> c_heap \<Rightarrow> bool" where
  "makes new p q m h \<longleftrightarrow> (case new h of
     None \<Rightarrow> False
   | Some (Inl e, g) \<Rightarrow> heap_ok g \<and> blocks g = blocks h
   | Some (Inr b, g) \<Rightarrow> memory_ok (b, g) \<and> unread (b, g) = q \<and> others (b, g) = m
       \<and> (m_buffer b = p \<or> (\<exists>a. m_buffer b = Some a \<and> blocks h a = None)))"

lemma initCommon_new:
  assumes "heap_ok h"
  shows "makes (initCommon None sz True 0) None [] (blocks h) h"
proof (cases "sz = 0 \<or> \<not> room h (unat sz)")
  case True
  then show ?thesis
    using assms
    by (auto simp: makes_def initCommon_def c_malloc_def memory_setup_def memory_ok_def others_def mine_def
        unread_def memory_bytes_def)
next
  case False
  let ?g = "h\<lparr>blocks := (blocks h)(next_block h \<mapsto> map (junk h) [0..<unat sz]), next_block := Suc (next_block h)\<rparr>"
  have "blocks h (next_block h) = None" "heap_ok ?g"
    using assms by (auto simp: heap_ok_def)
  then show ?thesis
    using False
    by (auto simp: makes_def initCommon_def c_malloc_def memory_setup_def memory_ok_def others_def mine_def
        unread_def restrict_map_def)
qed

text \<open>A block that the caller gives, with at least \<open>sz\<close> bytes.\<close>

definition given :: "block option \<Rightarrow> u32 \<Rightarrow> (block \<Rightarrow> string option) \<Rightarrow> bool" where
  "given p sz m \<longleftrightarrow> (case p of None \<Rightarrow> True | Some a \<Rightarrow> (case m a of None \<Rightarrow> False | Some c \<Rightarrow> unat sz \<le> length c))"

definition given_bytes :: "block option \<Rightarrow> u32 \<Rightarrow> (block \<Rightarrow> string option) \<Rightarrow> string" where
  "given_bytes p sz m = (case p of None \<Rightarrow> [] | Some a \<Rightarrow> (case m a of None \<Rightarrow> [] | Some c \<Rightarrow> take (unat sz) c))"

definition taken :: "block option \<Rightarrow> int \<Rightarrow> block set" where
  "taken p policy = (if policy = TAKE_OWNERSHIP then set_option p else {})"

lemma initCommon_given:
  assumes "heap_ok h" and "given p sz (blocks h)" and "p = None \<Longrightarrow> sz = 0"
  shows "makes (initCommon p sz (policy = TAKE_OWNERSHIP) (unat sz)) p (given_bytes p sz (blocks h))
    (blocks h |` (- taken p policy)) h"
  using assms
  by (auto simp: makes_def initCommon_def memory_setup_def memory_ok_def others_def mine_def unread_def
      memory_bytes_def given_def given_bytes_def taken_def split: option.splits)

lemma load_given: "given p sz m \<Longrightarrow> (p = None \<Longrightarrow> sz = 0) \<Longrightarrow> (\<And>a c. m a = Some c \<Longrightarrow> blocks h a = Some c) \<Longrightarrow>
    load p 0 (unat sz) h = Some (given_bytes p sz m)"
  by (fastforce simp: load_def given_def given_bytes_def split: option.splits)

lemma length_given: "given p sz m \<Longrightarrow> (p = None \<Longrightarrow> sz = 0) \<Longrightarrow> length (given_bytes p sz m) = unat sz"
  by (auto simp: given_def given_bytes_def split: option.splits)

text \<open>The copy fits into the new block, so that the slow path is not taken.\<close>

lemma makes_copy:
  assumes "heap_ok h" and "given p sz (blocks h)" and "p = None \<Longrightarrow> sz = 0"
  shows "makes (TMemoryBuffer_of S p sz COPY) None (given_bytes p sz (blocks h)) (blocks h) h"
proof -
  let ?x = "given_bytes p sz (blocks h)"
  note new = initCommon_new [OF assms(1), of sz, unfolded makes_def]
  have of: "TMemoryBuffer_of S p sz COPY h = (case initCommon None sz True 0 h of
            None \<Rightarrow> None
          | Some (Inl e, h1) \<Rightarrow> Some (Inl e, h1)
          | Some (Inr b, h1) \<Rightarrow> (case load p 0 (unat sz) h1 of
              None \<Rightarrow> None
            | Some s \<Rightarrow> (case memory_write S s (b, h1) of
                None \<Rightarrow> None
              | Some (Inl e, _, h2) \<Rightarrow> Some (Inl e, h2)
              | Some (Inr _, b2, h2) \<Rightarrow> Some (Inr b2, h2))))"
    using assms(3) by (auto simp: TMemoryBuffer_of_def OBSERVE_def COPY_def TAKE_OWNERSHIP_def)
  consider e g where "initCommon None sz True 0 h = Some (Inl e, g)" "heap_ok g" "blocks g = blocks h"
    | b g where "initCommon None sz True 0 h = Some (Inr b, g)" "memory_ok (b, g)" "unread (b, g) = []"
        "others (b, g) = blocks h" "m_buffer b = None \<or> (\<exists>a. m_buffer b = Some a \<and> blocks h a = None)"
        "m_wBase b = 0" "m_wBound b = unat sz"
    using new by (auto simp: initCommon_def memory_setup_def split: option.splits sum.splits prod.splits if_splits)
  then show ?thesis
  proof cases
    case (1 e g)
    then show ?thesis by (simp add: makes_def of)
  next
    case (2 b g)
    have "blocks g a = Some c" if "blocks h a = Some c" for a c
      using that unfolding 2(4) [symmetric] by (auto simp: others_def restrict_map_def split: if_splits)
    from load_given [OF assms(2,3) this]
    have load: "load p 0 (unat sz) g = Some ?x" by blast
    have fits: "m_wBase b + length ?x \<le> m_wBound b"
      using length_given [OF assms(2,3)] 2(6,7) by simp
    show ?thesis
    proof (rule store_at_end [OF 2(2) fits])
      fix g1
      assume "store_at (m_buffer b) (m_wBase b) ?x g = Some g1"
        and "kept (b, g) (b\<lparr>m_wBase := m_wBase b + length ?x\<rparr>, g1)"
        and "unread (b\<lparr>m_wBase := m_wBase b + length ?x\<rparr>, g1) = unread (b, g) @ ?x"
      then show ?thesis
        using fits 2 by (simp add: makes_def of load memory_write_def kept_def)
    qed
  qed
qed

lemma makes_cases:
  assumes "makes new p q m h"
  obtains (error) e g where "new h = Some (Inl e, g)" and "heap_ok g" and "blocks g = blocks h"
  | (result) b g where "new h = Some (Inr b, g)" and "memory_ok (b, g)" and "unread (b, g) = q"
      and "others (b, g) = m" and "m_buffer b = p \<or> (\<exists>a. m_buffer b = Some a \<and> blocks h a = None)"
  using assms unfolding makes_def
  by (cases "new h"; cases "fst (the (new h))") (auto split: prod.splits)

lemma bad_buffer: "p = None \<and> sz \<noteq> 0 \<or> policy \<notin> {OBSERVE, COPY, TAKE_OWNERSHIP} \<Longrightarrow>
    TMemoryBuffer_of S p sz policy h = Some (Inl (Throws BAD_ARGS), h)"
  by (auto simp: TMemoryBuffer_of_def)

lemma makes_of:
  assumes "heap_ok h" and "given p sz (blocks h)"
  shows "makes (TMemoryBuffer_of S p sz policy) (if policy = COPY then None else p)
    (given_bytes p sz (blocks h)) (blocks h |` (- taken p policy)) h"
proof (cases "p = None \<and> sz \<noteq> 0 \<or> policy \<notin> {OBSERVE, COPY, TAKE_OWNERSHIP}")
  case True
  then show ?thesis
    using assms(1) by (simp add: makes_def bad_buffer)
next
  case False
  show ?thesis
  proof (cases "policy = COPY")
    case True
    have "taken p policy = {}"
      using True by (simp add: taken_def COPY_def TAKE_OWNERSHIP_def)
    with True False makes_copy [OF assms, of S] show ?thesis
      by (auto simp: restrict_map_def)
  next
    case other: False
    then have "TMemoryBuffer_of S p sz policy = initCommon p sz (policy = TAKE_OWNERSHIP) (unat sz)"
      using False by (auto simp: TMemoryBuffer_of_def fun_eq_iff)
    with other False initCommon_given [OF assms, of policy] show ?thesis
      by auto
  qed
qed

lemma destroy_ok:
  assumes "memory_ok s"
  shows "\<exists>g. TMemoryBuffer_destroy s = Some g \<and> blocks g = others s \<and> heap_ok g"
proof -
  obtain b h where s: "s = (b, h)" by force
  show ?thesis
  proof (cases "m_owner b \<and> m_buffer b \<noteq> None")
    case True
    then obtain a where "m_buffer b = Some a" "m_owner b" "blocks h a \<noteq> None"
      using mine_block [of b h] assms by (auto simp: s mine_def)
    then show ?thesis
      using memory_okD(1) [of b h] assms
      by (auto simp: s TMemoryBuffer_destroy_def c_free_def others_def mine_def restrict_map_def heap_ok_def fun_eq_iff)
  next
    case False
    then show ?thesis
      using memory_okD(1) [of b h] assms
      by (auto simp: s TMemoryBuffer_destroy_def c_free_def others_def mine_def restrict_map_def fun_eq_iff split: option.splits)
  qed
qed

lemma swap_pair: "memory_swap b c = (c, b)"
  by (simp add: memory_swap_def)

lemma replace_ok:
  assumes "memory_ok (b, h)" and "makes new p q m h" and "\<And>a. a \<in> mine b \<Longrightarrow> p \<noteq> Some a \<and> m a = blocks h a"
  shows "case replace_by new (b, h) of
      None \<Rightarrow> False
    | Some (Inl e, t) \<Rightarrow> kept (b, h) t \<and> unread t = unread (b, h) \<and> (\<exists>g. new h = Some (Inl e, g))
    | Some (Inr _, t) \<Rightarrow> memory_ok t \<and> unread t = q \<and> others t = m |` (- mine b)"
proof -
  from assms(2) show ?thesis
  proof (cases rule: makes_cases)
    case (error e g)
    then show ?thesis
      using assms(1)
      by (auto simp: replace_by_def kept_def memory_ok_def others_def unread_def memory_bytes_def split: option.splits)
  next
    case (result c g)
    have away: "m_buffer c \<noteq> Some a" "a \<notin> mine c" "blocks g a = blocks h a" "blocks h a \<noteq> None" if "a \<in> mine b" for a
    proof -
      show x: "blocks h a \<noteq> None"
        by (rule mine_block [OF assms(1) that])
      then show "m_buffer c \<noteq> Some a"
        using result(5) assms(3) [OF that] by auto
      then show y: "a \<notin> mine c"
        by (auto simp: mine_def)
      show "blocks g a = blocks h a"
        using y assms(3) [OF that] result(4) by (auto simp: others_def restrict_map_def fun_eq_iff split: if_splits)
    qed
    let ?g = "g\<lparr>blocks := blocks g |` (- mine b)\<rparr>"
    have d: "TMemoryBuffer_destroy (b, g) = Some ?g"
      using away(3,4)
      by (auto simp: TMemoryBuffer_destroy_def c_free_def mine_def restrict_map_def fun_eq_iff
          intro!: c_heap.equality split: option.splits)
    have "memory_ok (c, ?g)"
      using result(2) away(1) by (auto simp: memory_ok_def heap_ok_def restrict_map_def split: option.splits)
    moreover have "others (c, ?g) = m |` (- mine b)"
      unfolding result(4) [symmetric] by (auto simp: others_def restrict_map_def mine_def fun_eq_iff)
    moreover have "unread (c, ?g) = q"
      unfolding result(3) [symmetric] using away(1)
      by (auto simp: unread_def memory_bytes_def restrict_map_def split: option.splits)
    ultimately show ?thesis
      using result(1) d by (simp add: replace_by_def swap_pair)
  qed
qed

end
