(* ===== verification/MemoryQueue.thy ===== *)
theory MemoryQueue
  imports MemoryCorrect
begin

text \<open>
  The memory buffer refines a queue of bytes: the calls of a client, what each may do to the queue
  and to the client's blocks, and runs of calls.
\<close>

section \<open>Calls\<close>

text \<open>
  The calls of a client.  \<open>Fill\<close> is the use of \<open>getWritePtr\<close> that its comment describes: get the
  pointer, store the bytes there, and tell with \<open>wroteBytes\<close>.
\<close>

datatype memory_op = Write string | Read nat | Borrow nat | Consume nat | Peek | GetString | AppendTo string
  | ReadString u32 | AvailableRead | ReadEnd | Fill string | Reset | ResetSized u32 | ResetOf "block option" u32 int

datatype memory_reply = Done | Bytes string | Lent "string option" | Flag bool | Count u32 | Failed memory_error

definition done_or_failed :: "((memory_error + unit) \<times> memory) ub \<Rightarrow> (memory_reply \<times> memory) ub" where
  "done_or_failed r = map_option (\<lambda>(x, s). (case x of Inl e \<Rightarrow> Failed e | Inr _ \<Rightarrow> Done, s)) r"

definition fill :: "memory_slow \<Rightarrow> string \<Rightarrow> unit memory_call" where
  "fill S x s = (case getWritePtr S (of_nat (length x)) s of
     None \<Rightarrow> None
   | Some (Inl e, t) \<Rightarrow> Some (Inl e, t)
   | Some (Inr (p, i), b, h) \<Rightarrow> (case store_at p i x h of
       None \<Rightarrow> None
     | Some h1 \<Rightarrow> memory_wroteBytes S (of_nat (length x)) (b, h1)))"

fun memory_do :: "memory_slow \<Rightarrow> memory_op \<Rightarrow> memory \<Rightarrow> (memory_reply \<times> memory) ub" where
  "memory_do S (Write x) s = done_or_failed (memory_write S x s)"
| "memory_do S (Read n) s = (case memory_read S n s of
     None \<Rightarrow> None | Some (Inl e) \<Rightarrow> Some (Failed (Throws e), s) | Some (Inr (x, t)) \<Rightarrow> Some (Bytes x, t))"
| "memory_do S (Borrow n) s = (case memory_borrow S n s of
     None \<Rightarrow> None | Some (Inl e) \<Rightarrow> Some (Failed (Throws e), s) | Some (Inr (x, t)) \<Rightarrow> Some (Lent x, t))"
| "memory_do S (Consume n) s = (case memory_consume n s of
     Inl e \<Rightarrow> Some (Failed (Throws e), s) | Inr t \<Rightarrow> Some (Done, t))"
| "memory_do S Peek s = Some (Flag (memory_peek (fst s)), s)"
| "memory_do S GetString s = map_option (\<lambda>x. (Bytes x, s)) (getBufferAsString s)"
| "memory_do S (AppendTo str) s = map_option (\<lambda>x. (Bytes x, s)) (appendBufferToString str s)"
| "memory_do S (ReadString len) s = (case readAsString S len s of
     None \<Rightarrow> None | Some (Inl e, t) \<Rightarrow> Some (Failed e, t) | Some (Inr x, t) \<Rightarrow> Some (Bytes x, t))"
| "memory_do S AvailableRead s = Some (Count (available_read (fst s)), s)"
| "memory_do S ReadEnd s = (case memory_readEnd (fst s) of (n, b) \<Rightarrow> Some (Count n, b, snd s))"
| "memory_do S (Fill x) s = done_or_failed (fill S x s)"
| "memory_do S Reset s = Some (Done, resetBuffer (fst s), snd s)"
| "memory_do S (ResetSized sz) s = done_or_failed (resetBuffer_sized sz s)"
| "memory_do S (ResetOf p sz policy) s = done_or_failed (resetBuffer_of S p sz policy s)"

text \<open>A client gives only blocks that are its own and long enough, and its strings fit 32 bits.\<close>

fun callable :: "memory_op \<Rightarrow> (block \<Rightarrow> string option) \<Rightarrow> bool" where
  "callable (ResetOf p sz policy) m \<longleftrightarrow> given p sz m"
| "callable (Fill x) m \<longleftrightarrow> length x < 2 ^ 32"
| "callable _ m \<longleftrightarrow> True"

section \<open>The queue\<close>

text \<open>
  The abstract state: the bytes to be read and the blocks of the client.  \<open>queue_step op q m r q' m'\<close>
  is what the call may do.
\<close>

fun queue_step :: "memory_op \<Rightarrow> string \<Rightarrow> (block \<Rightarrow> string option) \<Rightarrow> memory_reply \<Rightarrow> string
    \<Rightarrow> (block \<Rightarrow> string option) \<Rightarrow> bool" where
  "queue_step (Write x) q m r q' m' \<longleftrightarrow> m' = m \<and> (case r of Done \<Rightarrow> q' = q @ x | Failed e \<Rightarrow> q' = q | _ \<Rightarrow> False)"
| "queue_step (Fill x) q m r q' m' \<longleftrightarrow> m' = m \<and> (case r of Done \<Rightarrow> q' = q @ x | Failed e \<Rightarrow> q' = q | _ \<Rightarrow> False)"
| "queue_step (Read n) q m r q' m' \<longleftrightarrow> m' = m
     \<and> (case r of Bytes x \<Rightarrow> q = x @ q' \<and> length x \<le> n \<and> (length x < n \<longrightarrow> q' = []) | _ \<Rightarrow> False)"
| "queue_step (Borrow n) q m r q' m' \<longleftrightarrow> m' = m \<and> q' = q
     \<and> (case r of Lent None \<Rightarrow> True | Lent (Some x) \<Rightarrow> n \<le> length x \<and> x = take (length x) q | _ \<Rightarrow> False)"
| "queue_step (Consume n) q m r q' m' \<longleftrightarrow> m' = m
     \<and> (case r of Done \<Rightarrow> n \<le> length q \<and> q' = drop n q | Failed e \<Rightarrow> e = Throws BAD_ARGS \<and> q' = q | _ \<Rightarrow> False)"
| "queue_step Peek q m r q' m' \<longleftrightarrow> m' = m \<and> q' = q \<and> r = Flag (q \<noteq> [])"
| "queue_step GetString q m r q' m' \<longleftrightarrow> m' = m \<and> q' = q \<and> r = Bytes q"
| "queue_step (AppendTo str) q m r q' m' \<longleftrightarrow> m' = m \<and> q' = q \<and> r = Bytes (str @ q)"
| "queue_step (ReadString n) q m r q' m' \<longleftrightarrow> m' = m
     \<and> (case r of Bytes x \<Rightarrow> q = x @ q' \<and> length x \<le> unat n | Failed e \<Rightarrow> q' = q | _ \<Rightarrow> False)"
| "queue_step AvailableRead q m r q' m' \<longleftrightarrow> m' = m \<and> q' = q \<and> (case r of Count n \<Rightarrow> unat n = length q | _ \<Rightarrow> False)"
| "queue_step ReadEnd q m r q' m' \<longleftrightarrow> m' = m \<and> q' = q \<and> (case r of Count n \<Rightarrow> True | _ \<Rightarrow> False)"
| "queue_step Reset q m r q' m' \<longleftrightarrow> m' = m \<and> q' = [] \<and> r = Done"
| "queue_step (ResetSized sz) q m r q' m' \<longleftrightarrow> m' = m \<and> (case r of Done \<Rightarrow> q' = [] | Failed e \<Rightarrow> q' = q | _ \<Rightarrow> False)"
| "queue_step (ResetOf p sz policy) q m r q' m' \<longleftrightarrow> (case r of
       Done \<Rightarrow> q' = given_bytes p sz m \<and> m' = m |` (- taken p policy)
     | Failed e \<Rightarrow> q' = q \<and> m' = m \<and> taken p policy = {}
     | _ \<Rightarrow> False)"

text \<open>Each call does what the queue allows, and nothing undefined.\<close>

definition refines :: "memory_slow \<Rightarrow> memory_op \<Rightarrow> memory \<Rightarrow> bool" where
  "refines S op s \<longleftrightarrow> (case memory_do S op s of
     None \<Rightarrow> False
   | Some (r, t) \<Rightarrow> memory_ok t \<and> queue_step op (unread s) (others s) r (unread t) (others t))"

lemma appends_refines:
  assumes "appends x s y" and "\<And>e. queue_step op (unread s) (others s) (Failed e) (unread s) (others s)"
    and "queue_step op (unread s) (others s) Done (unread s @ x) (others s)"
  shows "case done_or_failed y of
     None \<Rightarrow> False
   | Some (r, t) \<Rightarrow> memory_ok t \<and> queue_step op (unread s) (others s) r (unread t) (others t)"
  using assms by (auto simp: appends_def done_or_failed_def kept_def split: option.splits sum.splits)

lemma fill_ok:
  assumes "slow_paths_ok S" and "memory_ok s" and "length x < 2 ^ 32"
  shows "appends x s (fill S x s)"
proof -
  have len: "unat (of_nat (length x) :: u32) = length x"
    using assms(3) by (simp add: unsigned_of_nat take_bit_nat_eq_self)
  note e = slow_pathsD(1) [OF assms(1,2), of "of_nat (length x)"]
  then consider r b h where "ensureCanWrite S (of_nat (length x)) s = Some (Inl r, b, h)" "kept s (b, h)" "unread (b, h) = unread s"
    | b h where "ensureCanWrite S (of_nat (length x)) s = Some (Inr (), b, h)" "kept s (b, h)" "unread (b, h) = unread s"
        "m_wBase b + length x \<le> m_wBound b"
    using len by (cases "ensureCanWrite S (of_nat (length x)) s"; cases "fst (the (ensureCanWrite S (of_nat (length x)) s))")
      (auto split: prod.splits)
  then show ?thesis
  proof cases
    case (1 r b h)
    then show ?thesis by (simp add: fill_def getWritePtr_def appends_def)
  next
    case (2 b h)
    have ok: "memory_ok (b, h)"
      using 2(2) by (simp add: kept_def)
    show ?thesis
    proof (rule store_at_end [OF ok 2(4)])
      fix g
      assume g: "store_at (m_buffer b) (m_wBase b) x h = Some g" "kept (b, h) (b, g)" "unread (b, g) = unread (b, h)"
        "take (length x) (drop (m_wBase b) (memory_bytes (b, g))) = x"
      have "appends x (b, g) (memory_wroteBytes S (of_nat (length x)) (b, g))"
        using slow_pathsD(2) [OF assms(1), of "(b, g)" "of_nat (length x)"] g(2,4) 2(4) len by (simp add: kept_def)
      moreover have "kept s (b, g)" "unread (b, g) = unread s"
        using g 2 by (simp_all add: kept_def)
      ultimately show ?thesis
        using 2(1) g(1)
        by (auto simp: fill_def getWritePtr_def appends_def kept_def split: option.splits sum.splits)
    qed
  qed
qed

lemma reset_of_ok:
  assumes "memory_ok s" and "given p sz (others s)"
  shows "case resetBuffer_of S p sz policy s of
      None \<Rightarrow> False
    | Some (Inl e, t) \<Rightarrow> kept s t \<and> unread t = unread s \<and> taken p policy = {}
    | Some (Inr _, t) \<Rightarrow> memory_ok t \<and> unread t = given_bytes p sz (others s) \<and> others t = others s |` (- taken p policy)"
proof -
  obtain b h where s: "s = (b, h)" by force
  have sub: "blocks h a = Some c" if "others s a = Some c" for a c
    using that by (auto simp: s others_def restrict_map_def split: if_splits)
  have g: "given p sz (blocks h)" "given_bytes p sz (blocks h) = given_bytes p sz (others s)"
    using assms(2) by (auto simp: given_def given_bytes_def dest: sub split: option.splits)
  have away: "p \<noteq> Some a" if "a \<in> mine b" for a
    using that assms(2) by (auto simp: given_def s others_def split: option.splits)
  have m: "others s |` (- taken p policy) = blocks h |` (- taken p policy) |` (- mine b)"
    by (auto simp: s others_def restrict_map_def fun_eq_iff)
  have throws: "taken p policy = {}" if "TMemoryBuffer_of S p sz policy h = Some (Inl e, g)" for e g
    using that by (auto simp: TMemoryBuffer_of_def initCommon_def taken_def split: if_splits)
  have "heap_ok h"
    using memory_okD(1) assms(1) unfolding s by blast
  from replace_ok [OF assms(1) [unfolded s] makes_of [OF this g(1), of S policy]] away
  have "case replace_by (TMemoryBuffer_of S p sz policy) (b, h) of
      None \<Rightarrow> False
    | Some (Inl e, t) \<Rightarrow> kept (b, h) t \<and> unread t = unread (b, h) \<and> (\<exists>g. TMemoryBuffer_of S p sz policy h = Some (Inl e, g))
    | Some (Inr _, t) \<Rightarrow> memory_ok t \<and> unread t = given_bytes p sz (blocks h) \<and> others t = blocks h |` (- taken p policy) |` (- mine b)"
    by (auto simp: taken_def restrict_map_def)
  then show ?thesis
    unfolding resetBuffer_of_def s [symmetric] using g(2) m throws
    by (auto simp: s split: option.splits sum.splits)
qed

lemma reset_sized_ok:
  assumes "memory_ok s"
  shows "case resetBuffer_sized sz s of
      None \<Rightarrow> False
    | Some (Inl e, t) \<Rightarrow> kept s t \<and> unread t = unread s
    | Some (Inr _, t) \<Rightarrow> memory_ok t \<and> unread t = [] \<and> others t = others s"
proof -
  obtain b h where s: "s = (b, h)" by force
  have "heap_ok h"
    using memory_okD(1) assms unfolding s by blast
  from replace_ok [OF assms [unfolded s] initCommon_new [OF this, of sz]] show ?thesis
    using assms unfolding resetBuffer_sized_def TMemoryBuffer_sized_def s
    by (auto simp: others_def appends_def kept_def split: option.splits sum.splits)
qed

lemma get_string_ok:
  assumes "memory_ok s"
  shows "getBufferAsString s = Some (unread s)" and "appendBufferToString str s = Some (str @ unread s)"
    and "memory_peek (fst s) = (unread s \<noteq> [])" and "unat (available_read (fst s)) = length (unread s)"
proof -
  obtain b h where s: "s = (b, h)" by force
  note ok = memory_okD [OF assms [unfolded s]] and len = length_unread [OF assms [unfolded s]]
  have bound: "m_wBase b - m_rBase b < 2 ^ 32"
    using ok(4,7) by simp
  then have size: "unat (of_nat (m_wBase b - m_rBase b) :: u32) = m_wBase b - m_rBase b"
    by (simp add: unsigned_of_nat take_bit_nat_eq_self)
  have load: "load (m_buffer b) (m_rBase b) (m_wBase b - m_rBase b) h = Some (unread s)"
    using load_memory [OF assms [unfolded s], of "m_rBase b" "m_wBase b - m_rBase b"] ok
    by (simp add: s unread_def drop_take)
  have null: "unread s = []" if "m_buffer b = None"
    using that by (simp add: s unread_def memory_bytes_def)
  show "getBufferAsString s = Some (unread s)"
    using load size null by (auto simp: s getBufferAsString_def getBuffer_def)
  show "appendBufferToString str s = Some (str @ unread s)"
    using load size null by (auto simp: s appendBufferToString_def getBuffer_def)
  show "memory_peek (fst s) = (unread s \<noteq> [])"
    using len by (auto simp: s memory_peek_def simp flip: length_greater_0_conv)
  show "unat (available_read (fst s)) = length (unread s)"
    using len size by (simp add: s available_read_def)
qed

lemma consume_memory_ok:
  assumes "memory_ok s"
  shows "case memory_consume n s of
      Inl e \<Rightarrow> e = BAD_ARGS \<and> m_rBound (fst s) - m_rBase (fst s) < n
    | Inr t \<Rightarrow> kept s t \<and> n \<le> m_rBound (fst s) - m_rBase (fst s) \<and> n \<le> length (unread s) \<and> unread s = take n (unread s) @ unread t"
proof -
  obtain b h where s: "s = (b, h)" by force
  show ?thesis
  proof (cases "n \<le> m_rBound b - m_rBase b")
    case True
    then have "m_rBase b + n \<le> m_rBound b"
      using memory_okD(2) [OF assms [unfolded s]] by simp
    from read_base [OF assms [unfolded s] this] show ?thesis
      using True by (auto simp: s memory_consume_def)
  qed (simp add: s memory_consume_def)
qed

lemma borrow_memory_ok:
  assumes "slow_paths_ok S" and "memory_ok s"
  shows "case memory_borrow S n s of
      None \<Rightarrow> False
    | Some (Inl e) \<Rightarrow> False
    | Some (Inr (x, t)) \<Rightarrow> kept s t \<and> unread t = unread s
        \<and> (case x of None \<Rightarrow> True | Some y \<Rightarrow> n \<le> length y \<and> y = take (length y) (unread t)
             \<and> length y = m_rBound (fst t) - m_rBase (fst t))"
proof -
  obtain b h where s: "s = (b, h)" by force
  have prefix: "drop (m_rBase c) (take (m_rBound c) (memory_bytes (c, g))) = take (m_rBound c - m_rBase c) (unread (c, g))
      \<and> m_rBound c - m_rBase c \<le> length (unread (c, g))"
    if "memory_ok (c, g)" for c g
    using memory_okD [OF that] length_unread [OF that] by (simp add: unread_def drop_take min_def)
  show ?thesis
  proof (cases "n \<le> m_rBound b - m_rBase b")
    case True
    have "load (m_buffer b) (m_rBase b) (m_rBound b - m_rBase b) h =
        Some (drop (m_rBase b) (take (m_rBound b) (memory_bytes (b, h))))"
      using load_memory [OF assms(2) [unfolded s], of "m_rBase b" "m_rBound b - m_rBase b"] memory_okD [OF assms(2) [unfolded s]]
      by (simp add: drop_take)
    with True show ?thesis
      using prefix [OF assms(2) [unfolded s]] assms(2) by (simp add: s memory_borrow_def kept_def)
  next
    case False
    then have "case memory_borrowSlow S n s of
        Inl e \<Rightarrow> False
      | Inr (x, t) \<Rightarrow> kept s t \<and> unread t = unread s
          \<and> (x = None \<or> n \<le> m_rBound (fst t) - m_rBase (fst t)
               \<and> x = Some (drop (m_rBase (fst t)) (take (m_rBound (fst t)) (memory_bytes t))))"
      using slow_pathsD(5) [OF assms] by (simp add: s)
    then obtain x c g where slow: "memory_borrowSlow S n s = Inr (x, c, g)" "kept s (c, g)" "unread (c, g) = unread s"
        "x = None \<or> n \<le> m_rBound c - m_rBase c \<and> x = Some (drop (m_rBase c) (take (m_rBound c) (memory_bytes (c, g))))"
      by (auto split: sum.splits)
    have "memory_ok (c, g)"
      using slow(2) by (simp add: kept_def)
    from prefix [OF this] slow show ?thesis
      using False unfolding memory_borrow_def s by (auto simp: min_def)
  qed
qed

section \<open>Every call refines the queue\<close>

lemma readEnd_ok:
  assumes "memory_ok (b, h)"
  shows "kept (b, h) (snd (memory_readEnd b), h) \<and> unread (snd (memory_readEnd b), h) = unread (b, h)"
proof (cases "m_rBase b = m_wBase b")
  case True
  then have "unread (b, h) = []"
    by (simp add: unread_def)
  with True reset_ok [OF assms] show ?thesis
    by (simp add: memory_readEnd_def)
qed (use assms in \<open>simp add: memory_readEnd_def kept_def\<close>)

lemma memory_refines:
  assumes "slow_paths_ok S" and "memory_ok s" and "callable op (others s)"
  shows "refines S op s"
proof (cases op)
  case (Write x)
  show ?thesis
    unfolding refines_def Write memory_do.simps
    by (rule appends_refines [OF memory_write_ok [OF assms(1,2)]]) simp_all
next
  case (Fill x)
  show ?thesis
    unfolding refines_def Fill memory_do.simps
    by (rule appends_refines [OF fill_ok [OF assms(1,2)]]) (use assms(3) Fill in simp_all)
next
  case (Read n)
  show ?thesis
    using memory_read_ok [OF assms(1,2), of n]
    by (auto simp: refines_def Read kept_def split: option.splits sum.splits)
next
  case (Borrow n)
  show ?thesis
    using borrow_memory_ok [OF assms(1,2), of n]
    by (auto simp: refines_def Borrow kept_def split: option.splits sum.splits)
next
  case (Consume n)
  have "q' = drop n q" if "q = take n q @ q'" for q q' :: string
    using that by (metis append_take_drop_id same_append_eq)
  with consume_memory_ok [OF assms(2), of n] show ?thesis
    using assms(2) by (auto simp: refines_def Consume kept_def split: sum.splits)
next
  case (ReadString n)
  show ?thesis
    using slow_pathsD(6) [OF assms(1,2), of "[]" n]
    by (auto simp: refines_def ReadString readAsString_def kept_def split: option.splits sum.splits)
next
  case ReadEnd
  show ?thesis
    using readEnd_ok [of "fst s" "snd s"] assms(2)
    by (auto simp: refines_def ReadEnd kept_def split: prod.splits)
next
  case Reset
  show ?thesis
    using reset_ok [of "fst s" "snd s"] assms(2) by (simp add: refines_def Reset kept_def)
next
  case (ResetSized sz)
  show ?thesis
    using reset_sized_ok [OF assms(2), of sz]
    by (auto simp: refines_def ResetSized done_or_failed_def kept_def split: option.splits sum.splits)
next
  case (ResetOf p sz policy)
  show ?thesis
    using reset_of_ok [OF assms(2), of p sz policy S] assms(3)
    by (auto simp: refines_def ResetOf done_or_failed_def kept_def split: option.splits sum.splits)
qed (use get_string_ok [OF assms(2)] assms(2) in \<open>simp_all add: refines_def\<close>)

section \<open>Runs\<close>

fun memory_run :: "memory_slow \<Rightarrow> memory_op list \<Rightarrow> memory \<Rightarrow> (memory_reply list \<times> memory) ub" where
  "memory_run S [] s = Some ([], s)"
| "memory_run S (op # ops) s = (case memory_do S op s of
     None \<Rightarrow> None
   | Some (r, t) \<Rightarrow> map_option (\<lambda>(rs, u). (r # rs, u)) (memory_run S ops t))"

text \<open>Each call is one that the client may make by then.\<close>

fun all_callable :: "memory_slow \<Rightarrow> memory_op list \<Rightarrow> memory \<Rightarrow> bool" where
  "all_callable S [] s \<longleftrightarrow> True"
| "all_callable S (op # ops) s \<longleftrightarrow> callable op (others s)
     \<and> (case memory_do S op s of None \<Rightarrow> True | Some (r, t) \<Rightarrow> all_callable S ops t)"

fun given_away :: "memory_op list \<Rightarrow> block set" where
  "given_away [] = {}"
| "given_away (ResetOf p sz policy # ops) = taken p policy \<union> given_away ops"
| "given_away (_ # ops) = given_away ops"

lemma step_others:
  assumes "queue_step op q m r q' m'"
  shows "m' |` (- given_away ops) = m |` (- given_away (op # ops))"
  using assms by (cases op) (auto simp: restrict_map_def fun_eq_iff split: memory_reply.splits)

lemma memory_run_ok:
  assumes "slow_paths_ok S" and "memory_ok s" and "all_callable S ops s"
  shows "\<exists>rs t. memory_run S ops s = Some (rs, t) \<and> memory_ok t \<and> others t = others s |` (- given_away ops)"
  using assms(2,3)
proof (induction ops arbitrary: s)
  case Nil
  then show ?case by (simp add: restrict_map_def)
next
  case (Cons op ops)
  from memory_refines [OF assms(1) Cons.prems(1), of op] Cons.prems(2) obtain r t where
    t: "memory_do S op s = Some (r, t)" "memory_ok t" "queue_step op (unread s) (others s) r (unread t) (others t)"
    by (auto simp: refines_def split: option.splits)
  with Cons.prems(2) have "all_callable S ops t" by simp
  from Cons.IH [OF t(2) this] t(1) show ?case
    using step_others [OF t(3), of ops] by auto
qed

end
