(* ===== verification/MemoryProps.thy ===== *)
theory MemoryProps
  imports MemoryQueue OverProps
begin

text \<open>
  The properties of the memory buffer: its life leaks no block and frees none twice, it refines a
  queue of bytes, and a processor that reads its request from one serves what it serves on the bare
  stream of bytes.
\<close>

section \<open>The protocol over a memory buffer\<close>

definition memory_ops :: "memory_slow \<Rightarrow> memory transport_ops" where
  "memory_ops S = \<lparr>op_readAll = memory_readAll S, op_borrow = memory_borrow S, op_consume = memory_consume\<rparr>"

lemma memory_lent:
  assumes "slow_paths_ok S" and "memory_ok b"
  shows "case memory_borrow S n b of
        None \<Rightarrow> False
      | Some (Inl e) \<Rightarrow> e = OTHER \<and> mf
      | Some (Inr (None, c)) \<Rightarrow> kept b c \<and> unread c = unread b
      | Some (Inr (Some x, c)) \<Rightarrow> n \<le> length x
          \<and> (\<exists>d. memory_consume n c = Inr d \<and> kept b d \<and> unread b = take n x @ unread d)"
proof -
  obtain x c where c1: "memory_borrow S n b = Some (Inr (x, c))"
    using borrow_memory_ok [OF assms, of n] by (auto split: option.splits sum.splits)
  note c = borrow_memory_ok [OF assms, of n, unfolded c1 option.case sum.case prod.case]
  show ?thesis
  proof (cases x)
    case None
    with c c1 show ?thesis by simp
  next
    case (Some y)
    have y: "n \<le> length y" "y = take (length y) (unread b)" "n \<le> m_rBound (fst c) - m_rBase (fst c)"
      using c unfolding Some option.case by metis+
    have "memory_ok c"
      using c by (simp add: kept_def)
    from consume_memory_ok [OF this, of n] y(3) obtain d where
      d: "memory_consume n c = Inr d" "kept c d" "unread c = take n (unread c) @ unread d"
      by (auto split: sum.splits)
    have "take n y = take n (unread b)"
      using y(1,2) by (metis min.absorb1 take_take)
    then show ?thesis
      using c c1 Some y(1) d by (cases d) (simp add: kept_def)
  qed
qed

lemma memory_env_ok:
  assumes "slow_paths_ok S" and "ops E = memory_ops S" and "mf \<or> (\<forall>n. grow E n)"
  shows "env_ok mf (kept s) unread E"
  unfolding env_ok_def assms(2) memory_ops_def transport_ops.simps
proof (intro allI conjI impI)
  fix n b
  assume "kept s b"
  then have ok: "memory_ok b" and trans: "kept b c \<Longrightarrow> kept s c" for c
    by (simp_all add: kept_def)
  show "case memory_readAll S n b of
        None \<Rightarrow> False
      | Some (Inl e) \<Rightarrow> e = OTHER \<and> mf \<or> e = END_OF_FILE \<and> length (unread b) < n
      | Some (Inr (x, c)) \<Rightarrow> kept s c \<and> length x = n \<and> unread b = x @ unread c"
    using memory_readAll_ok [OF assms(1) ok, of n] trans by (auto split: option.splits sum.splits)
  show "case memory_borrow S n b of
        None \<Rightarrow> False
      | Some (Inl e) \<Rightarrow> e = OTHER \<and> mf
      | Some (Inr (None, c)) \<Rightarrow> kept s c \<and> unread c = unread b
      | Some (Inr (Some x, c)) \<Rightarrow> n \<le> length x
          \<and> (\<exists>d. memory_consume n c = Inr d \<and> kept s d \<and> unread b = take n x @ unread d)"
    using memory_lent [OF assms(1) ok, where n = n] trans by (fastforce split: option.splits sum.splits)
qed (use assms(3) in blast)

section \<open>Slow paths\<close>

text \<open>Slow paths as documented, for buffers that never grow.\<close>

definition ex_shown :: "TMemoryBuffer \<Rightarrow> TMemoryBuffer" where
  "ex_shown b = b\<lparr>m_rBound := m_wBase b\<rparr>"

definition ex_take :: "nat \<Rightarrow> memory \<Rightarrow> string \<times> memory" where
  "ex_take n = (\<lambda>(b, h). (take n (unread (b, h)),
     ex_shown b\<lparr>m_rBase := m_rBase b + length (take n (unread (b, h)))\<rparr>, h))"

definition ex_slow :: memory_slow where
  "ex_slow = \<lparr>
     ensureCanWrite = (\<lambda>len s. Some (if m_wBase (fst s) + unat len \<le> m_wBound (fst s) then Inr () else Inl (Throws BAD_ARGS), s)),
     memory_wroteBytes = (\<lambda>len (b, h). Some (Inr (), b\<lparr>m_wBase := m_wBase b + unat len\<rparr>, h)),
     memory_readSlow = (\<lambda>n s. Some (Inr (ex_take n s))),
     memory_writeSlow = (\<lambda>x s. Some (Inl Out_of_memory, s)),
     memory_borrowSlow = (\<lambda>n (b, h). if n \<le> m_wBase b - m_rBase b
       then Inr (Some (unread (b, h)), ex_shown b, h) else Inr (None, b, h)),
     memory_readAppend = (\<lambda>str len s. case ex_take (unat len) s of (x, t) \<Rightarrow> Some (Inr (str @ x), t))\<rparr>"

lemma ex_shown_ok: "memory_ok (b, h) \<Longrightarrow> kept (b, h) (ex_shown b, h) \<and> unread (ex_shown b, h) = unread (b, h)"
  by (auto simp: kept_def memory_ok_def others_def mine_def ex_shown_def unread_def memory_bytes_def split: option.splits)

lemma ex_take_ok:
  assumes "memory_ok s"
  shows "case ex_take n s of (x, t) \<Rightarrow> kept s t \<and> unread s = x @ unread t \<and> length x \<le> n \<and> (length x < n \<longrightarrow> unread t = [])"
proof -
  obtain b h where s: "s = (b, h)" by force
  note shown = ex_shown_ok [OF assms [unfolded s]]
  let ?k = "length (take n (unread (b, h)))"
  have k: "m_rBase (ex_shown b) + ?k \<le> m_rBound (ex_shown b)"
    using length_unread [OF assms [unfolded s]] memory_okD(2,3) [OF assms [unfolded s]] by (simp add: ex_shown_def)
  have ok: "memory_ok (ex_shown b, h)"
    using shown by (simp add: kept_def)
  have same: "m_rBase (ex_shown b) = m_rBase b"
    by (simp add: ex_shown_def)
  note r = read_base [OF ok k, unfolded same]
  have x: "take ?k (drop (m_rBase b) (memory_bytes (ex_shown b, h))) = take n (unread (b, h))"
    using r(2,3) shown by (metis append_eq_conv_conj length_take min.cobounded1 min.idem take_take)
  have u: "unread (b, h) = take n (unread (b, h)) @ unread (ex_shown b\<lparr>m_rBase := m_rBase b + ?k\<rparr>, h)"
    using r(2) shown unfolding x by simp
  then have "unread (ex_shown b\<lparr>m_rBase := m_rBase b + ?k\<rparr>, h) = drop n (unread (b, h))"
    by (metis append_take_drop_id same_append_eq)
  then show ?thesis
    using r(1) u shown by (auto simp: s ex_take_def kept_def)
qed

lemma ex_wrote_ok:
  assumes "memory_ok (b, h)" and "m_wBase b + n \<le> m_wBound b"
  shows "kept (b, h) (b\<lparr>m_wBase := m_wBase b + n\<rparr>, h)"
    and "unread (b\<lparr>m_wBase := m_wBase b + n\<rparr>, h) = unread (b, h) @ take n (drop (m_wBase b) (memory_bytes (b, h)))"
proof -
  note ok = memory_okD [OF assms(1)]
  show "kept (b, h) (b\<lparr>m_wBase := m_wBase b + n\<rparr>, h)"
    using assms by (auto simp: kept_def memory_ok_def others_def mine_def split: option.splits)
  have "memory_bytes (b\<lparr>m_wBase := m_wBase b + n\<rparr>, h) = memory_bytes (b, h)"
    by (simp add: memory_bytes_def)
  then show "unread (b\<lparr>m_wBase := m_wBase b + n\<rparr>, h) = unread (b, h) @ take n (drop (m_wBase b) (memory_bytes (b, h)))"
    using ok assms(2) by (simp add: unread_def take_add)
qed

lemma ex_slow_ok: "slow_paths_ok ex_slow"
  unfolding slow_paths_ok_def
proof (intro allI impI conjI)
  fix s len n x str
  assume s: "memory_ok s"
  obtain b h where bh: "s = (b, h)" by force
  show "case ensureCanWrite ex_slow len s of
        None \<Rightarrow> False
      | Some (r, t) \<Rightarrow> kept s t \<and> unread t = unread s
          \<and> (case r of Inl _ \<Rightarrow> True | Inr _ \<Rightarrow> m_wBase (fst t) + unat len \<le> m_wBound (fst t))"
    using s by (simp add: ex_slow_def kept_def)
  show "appends (take (unat len) (drop (m_wBase (fst s)) (memory_bytes s))) s (memory_wroteBytes ex_slow len s)"
    if "m_wBase (fst s) + unat len \<le> m_wBound (fst s)"
    using that s ex_wrote_ok [of b h "unat len"] by (simp add: bh ex_slow_def appends_def)
  show "case memory_readSlow ex_slow n s of
        None \<Rightarrow> False
      | Some (Inl e) \<Rightarrow> False
      | Some (Inr (x, t)) \<Rightarrow> kept s t \<and> unread s = x @ unread t \<and> length x \<le> n \<and> (length x < n \<longrightarrow> unread t = [])"
    using ex_take_ok [OF s, of n] by (simp add: ex_slow_def)
  show "appends x s (memory_writeSlow ex_slow x s)"
    using s by (simp add: ex_slow_def appends_def kept_def)
  show "case memory_borrowSlow ex_slow n s of
        Inl e \<Rightarrow> False
      | Inr (x, t) \<Rightarrow> kept s t \<and> unread t = unread s
          \<and> (x = None \<or> n \<le> m_rBound (fst t) - m_rBase (fst t)
               \<and> x = Some (drop (m_rBase (fst t)) (take (m_rBound (fst t)) (memory_bytes t))))"
    using s ex_shown_ok [of b h]
    by (auto simp: bh ex_slow_def ex_shown_def kept_def unread_def memory_bytes_def)
  show "case memory_readAppend ex_slow str len s of
        None \<Rightarrow> False
      | Some (Inl e, t) \<Rightarrow> kept s t \<and> unread t = unread s
      | Some (Inr y, t) \<Rightarrow> kept s t \<and> (\<exists>x. y = str @ x \<and> unread s = x @ unread t \<and> length x \<le> unat len)"
    using ex_take_ok [OF s, of "unat len"] by (auto simp: ex_slow_def split: prod.splits)
qed

section \<open>Properties\<close>

text \<open>C21. A memory buffer is a queue of bytes: whatever a client calls, with blocks of its own, no
  step is undefined, the invariant holds afterwards, and the reply, the unread bytes and the blocks of
  the client are what the queue allows.  A call that throws leaves the unread bytes, observed blocks
  are not written, and a block is taken over only when the client says so.\<close>

theorem memory_buffer_is_queue:
  assumes "slow_paths_ok S" and "memory_ok s" and "callable op (others s)"
  shows "\<exists>r t. memory_do S op s = Some (r, t) \<and> memory_ok t
    \<and> queue_step op (unread s) (others s) r (unread t) (others t)"
  using memory_refines [OF assms] by (auto simp: refines_def split: option.splits)

definition ex_heap :: c_heap where
  "ex_heap = \<lparr>blocks = [0 \<mapsto> ''hello''], next_block = 1, room = (\<lambda>_. True), junk = (\<lambda>_. CHR 0x00)\<rparr>"

lemma ex_memory_ok: "memory_ok (memory_setup None 0 True 0, ex_heap)"
    "others (memory_setup None 0 True 0, ex_heap) = [0 \<mapsto> ''hello'']"
  by (simp_all add: memory_ok_def memory_setup_def ex_heap_def heap_ok_def others_def mine_def)

lemma memory_buffer_is_queue_witness:
  "\<exists>r t. memory_do ex_slow (ResetOf (Some 0) 4 TAKE_OWNERSHIP) (memory_setup None 0 True 0, ex_heap) = Some (r, t)
    \<and> memory_ok t \<and> (r = Done \<longrightarrow> unread t = ''hell'' \<and> others t = Map.empty)"
  using memory_buffer_is_queue [OF ex_slow_ok ex_memory_ok(1), of "ResetOf (Some 0) 4 TAKE_OWNERSHIP"]
  by (auto simp: ex_memory_ok(2) given_def given_bytes_def taken_def restrict_map_def fun_eq_iff)

text \<open>C22. The life of a memory buffer: it is constructed, a client makes any calls, and it is
  destroyed.  Then no block is left that was not there before, none was freed twice, and the blocks
  that were there hold what they held, those given away excepted, which are freed.\<close>

theorem memory_buffer_frees_once:
  assumes "slow_paths_ok S" and "heap_ok h" and "TMemoryBuffer_new h = Some (Inr b, g)"
    and "all_callable S calls (b, g)"
  shows "\<exists>rs t h'. memory_run S calls (b, g) = Some (rs, t) \<and> TMemoryBuffer_destroy t = Some h'
    \<and> blocks h' = blocks h |` (- given_away calls)"
proof -
  have "memory_ok (b, g)" "others (b, g) = blocks h"
    using initCommon_new [OF assms(2), of defaultSize] assms(3) by (simp_all add: makes_def TMemoryBuffer_new_def)
  with memory_run_ok [OF assms(1) this(1) assms(4)] destroy_ok show ?thesis
    by (metis (no_types, lifting))
qed

lemma memory_buffer_frees_once_witness:
  "\<exists>b g rs t h'. TMemoryBuffer_new ex_heap = Some (Inr b, g)
    \<and> memory_run ex_slow [Write ''x'', ResetOf (Some 0) 5 TAKE_OWNERSHIP, Read 2] (b, g) = Some (rs, t)
    \<and> TMemoryBuffer_destroy t = Some h' \<and> blocks h' = Map.empty"
proof -
  have h: "heap_ok ex_heap"
    by (simp add: ex_heap_def heap_ok_def)
  obtain b g where new: "TMemoryBuffer_new ex_heap = Some (Inr b, g)" "memory_ok (b, g)" "others (b, g) = [0 \<mapsto> ''hello'']"
    using initCommon_new [OF h, of defaultSize]
    by (auto simp: makes_def TMemoryBuffer_new_def initCommon_def c_malloc_def ex_heap_def split: option.splits if_splits)
  from memory_buffer_is_queue [OF ex_slow_ok new(2), of "Write ''x''"] obtain r u where
    u: "memory_do ex_slow (Write ''x'') (b, g) = Some (r, u)" "others u = [0 \<mapsto> ''hello'']"
    using new(3) by auto
  have "all_callable ex_slow [Write ''x'', ResetOf (Some 0) 5 TAKE_OWNERSHIP, Read 2] (b, g)"
    using u by (auto simp: given_def split: option.splits simp del: memory_do.simps)
  from memory_buffer_frees_once [OF ex_slow_ok h new(1) this] new(1) show ?thesis
    by (fastforce simp: taken_def ex_heap_def restrict_map_def fun_eq_iff simp del: memory_run.simps)
qed

text \<open>C20. A request in the client's memory is served from there: after a reset that observes the
  block, the three processors read the request from the memory buffer as they read it from the stream
  of bytes, with the same answers and the same new state, and all blocks of the client, the request
  among them, are as they were.\<close>

theorem memory_requests_served:
  assumes "slow_paths_ok S" and "memory_ok s" and "others s p = Some req" and "length req < 2 ^ 32"
    and "ops E = memory_ops S" and "mf \<or> (\<forall>n. grow E n)" and "limits E = default_proto"
  shows "\<exists>t. resetBuffer_of S (Some p) (of_nat (length req)) OBSERVE s = Some (Inr (), t)
    \<and> kept s t \<and> unread t = req
    \<and> serves mf (kept s) unread (over_OZReadService_process E app ri rs) (OZReadServiceProcessor_process app ri rs)
    \<and> serves mf (kept s) unread (over_OZWriteService_process E app wi ws) (OZWriteServiceProcessor_process app wi ws)
    \<and> serves mf (kept s) unread (over_OZTravService_process E app ti ts) (OZTravServiceProcessor_process app ti ts)"
proof -
  have len: "unat (of_nat (length req) :: u32) = length req"
    using assms(4) by (simp add: unsigned_of_nat take_bit_nat_eq_self)
  then have g: "given (Some p) (of_nat (length req)) (others s)"
      "given_bytes (Some p) (of_nat (length req)) (others s) = req"
    using assms(3) by (simp_all add: given_def given_bytes_def)
  have "case resetBuffer_of S (Some p) (of_nat (length req)) OBSERVE s of None \<Rightarrow> True | Some (r, t) \<Rightarrow> r = Inr ()"
    by (cases s) (auto simp: resetBuffer_of_def replace_by_def TMemoryBuffer_of_def initCommon_def swap_pair split: option.splits)
  with reset_of_ok [OF assms(2) g(1), of OBSERVE S] obtain t where
    t: "resetBuffer_of S (Some p) (of_nat (length req)) OBSERVE s = Some (Inr (), t)"
    by (cases "resetBuffer_of S (Some p) (of_nat (length req)) OBSERVE s") auto
  have observed: "taken (Some p) OBSERVE = {}"
    by (simp add: taken_def OBSERVE_def TAKE_OWNERSHIP_def)
  note t
  moreover have "kept s t" "unread t = req"
    using reset_of_ok [OF assms(2) g(1), of OBSERVE S] g(2)
    by (simp_all add: t kept_def observed restrict_map_def)
  ultimately show ?thesis
    by (intro exI conjI serves_services [OF memory_env_ok [OF assms(1,5,6)] assms(7)])
qed

definition ex_memory_env :: "memory reader_env" where
  "ex_memory_env = \<lparr>ops = memory_ops ex_slow, grow = (\<lambda>_. True), limits = default_proto\<rparr>"

lemma memory_requests_served_witness:
  "\<exists>t. resetBuffer_of ex_slow (Some 0) 5 OBSERVE (memory_setup None 0 True 0, ex_heap) = Some (Inr (), t) \<and> unread t = ''hello''"
  using memory_requests_served [OF ex_slow_ok ex_memory_ok(1), of 0 "''hello''" ex_memory_env False ex_app
      OZReadServiceNull "()" OZWriteServiceNull "()" OZTravServiceNull "()"]
  by (auto simp: ex_memory_ok(2) ex_memory_env_def)

end
