(* ===== verification/LibErrors.thy ===== *)
theory LibErrors
  imports RpcCore OverBuffer
begin

text \<open>
  The exceptions of the RPC library and their texts (src/include_deps/thrift: TTransportException.h,
  TProtocolException.h, TApplicationException.h).  A text that was given is shown up to its first NUL;
  an exception without one shows a text for its type.  A type is a number, so that numbers outside of
  the enumeration are possible.
\<close>

section \<open>Texts\<close>

definition given_or :: "string \<Rightarrow> string \<Rightarrow> string" where
  "given_or msg def = (if msg = [] then def else cstr msg)"

record TTransportException =
  transport_message :: string
  transport_type :: int

definition TTransportException_what :: "TTransportException \<Rightarrow> string" where
  "TTransportException_what x = given_or (transport_message x)
     (if transport_type x = 0 then ''TTransportException: Unknown transport exception''
      else if transport_type x = 1 then ''TTransportException: Transport not open''
      else if transport_type x = 2 then ''TTransportException: Timed out''
      else if transport_type x = 3 then ''TTransportException: End of file''
      else if transport_type x = 4 then ''TTransportException: Interrupted''
      else if transport_type x = 5 then ''TTransportException: Invalid arguments''
      else if transport_type x = 6 then ''TTransportException: Corrupted Data''
      else if transport_type x = 7 then ''TTransportException: Internal error''
      else ''TTransportException: (Invalid exception type)'')"

text \<open>The constructor with an error number; \<open>strerror_s\<close> is code of the compiled library.\<close>

definition TTransportException_errno :: "(int \<Rightarrow> string) \<Rightarrow> int \<Rightarrow> string \<Rightarrow> int \<Rightarrow> TTransportException" where
  "TTransportException_errno strerror_s t msg errno_copy =
     \<lparr>transport_message = msg @ '': '' @ strerror_s errno_copy, transport_type = t\<rparr>"

record TProtocolException =
  protocol_message :: string
  protocol_type :: int

definition TProtocolException_what :: "TProtocolException \<Rightarrow> string" where
  "TProtocolException_what x = given_or (protocol_message x)
     (if protocol_type x = 0 then ''TProtocolException: Unknown protocol exception''
      else if protocol_type x = 1 then ''TProtocolException: Invalid data''
      else if protocol_type x = 2 then ''TProtocolException: Negative size''
      else if protocol_type x = 3 then ''TProtocolException: Exceeded size limit''
      else if protocol_type x = 4 then ''TProtocolException: Invalid version''
      else if protocol_type x = 5 then ''TProtocolException: Not implemented''
      else ''TProtocolException: (Invalid exception type)'')"

definition TApplicationException_what :: "TApplicationException \<Rightarrow> string" where
  "TApplicationException_what x = given_or (message x) (case xtype x of
       UNKNOWN \<Rightarrow> ''TApplicationException: Unknown application exception''
     | UNKNOWN_METHOD \<Rightarrow> ''TApplicationException: Unknown method''
     | INVALID_MESSAGE_TYPE \<Rightarrow> ''TApplicationException: Invalid message type''
     | WRONG_METHOD_NAME \<Rightarrow> ''TApplicationException: Wrong method name''
     | BAD_SEQUENCE_ID \<Rightarrow> ''TApplicationException: Bad sequence identifier''
     | MISSING_RESULT \<Rightarrow> ''TApplicationException: Missing result''
     | _ \<Rightarrow> ''TApplicationException: (Invalid exception type)'')"

section \<open>Which exceptions can be told apart\<close>

text \<open>
  The texts tell the declared types of the transport and of the protocol apart.  Two declared types
  of the application exception, an internal error and an error of the protocol, are shown as invalid.
\<close>

lemma transport_texts_distinct:
  assumes "0 \<le> t" and "t < 8" and "0 \<le> u" and "u < 8"
    and "TTransportException_what \<lparr>transport_message = [], transport_type = t\<rparr> =
      TTransportException_what \<lparr>transport_message = [], transport_type = u\<rparr>"
  shows "t = u"
proof -
  have "t \<in> {0, 1, 2, 3, 4, 5, 6, 7}" "u \<in> {0, 1, 2, 3, 4, 5, 6, 7}"
    using assms(1-4) by auto
  then show ?thesis
    using assms(5) by (auto simp: TTransportException_what_def given_or_def)
qed

lemma protocol_texts_distinct:
  assumes "0 \<le> t" and "t < 6" and "0 \<le> u" and "u < 6"
    and "TProtocolException_what \<lparr>protocol_message = [], protocol_type = t\<rparr> =
      TProtocolException_what \<lparr>protocol_message = [], protocol_type = u\<rparr>"
  shows "t = u"
proof -
  have "t \<in> {0, 1, 2, 3, 4, 5}" "u \<in> {0, 1, 2, 3, 4, 5}"
    using assms(1-4) by auto
  then show ?thesis
    using assms(5) by (auto simp: TProtocolException_what_def given_or_def)
qed

lemma declared_types_shown_invalid:
  "TApplicationException_what \<lparr>message = [], xtype = t\<rparr> = ''TApplicationException: (Invalid exception type)'' \<longleftrightarrow>
     t \<in> {INTERNAL_ERROR, PROTOCOL_ERROR}"
  by (cases t) (simp_all add: TApplicationException_what_def given_or_def)

text \<open>No exception is shown without a text, unless it was given one that begins with NUL.\<close>

lemma what_not_empty:
  "hd (message x) \<noteq> CHR 0x00 \<Longrightarrow> TApplicationException_what x \<noteq> []"
  "hd (transport_message y) \<noteq> CHR 0x00 \<Longrightarrow> TTransportException_what y \<noteq> []"
  "hd (protocol_message z) \<noteq> CHR 0x00 \<Longrightarrow> TProtocolException_what z \<noteq> []"
  by (cases "message x"; cases "transport_message y"; cases "protocol_message z";
      simp add: TApplicationException_what_def TTransportException_what_def TProtocolException_what_def
        given_or_def cstr_def split: TApplicationExceptionType.split)+

end
