(* ===== verification/Wrappers.thy ===== *)
theory Wrappers
  imports MemoryQueue OverBuffer
begin

text \<open>
  Transports around another transport: the one that reads short for tests
  (src/include_deps/thrift/transport/TShortReadTransport.h), and the one that copies requests or
  replies to a second transport, with the one that takes everything and gives nothing
  (TTransportUtils.h).
\<close>

section \<open>Short reads\<close>

text \<open>
  \<open>draws\<close> are the numbers that \<open>rand\<close> gives, \<open>drawn\<close> of which were used; \<open>cut r\<close> is the comparison
  \<open>r / (double) RAND_MAX >= fullProb_\<close>.
\<close>

record 'b TShortReadTransport =
  inner :: 'b
  draws :: "nat \<Rightarrow> nat"
  drawn :: nat
  cut :: "nat \<Rightarrow> bool"

definition short_draw :: "'b TShortReadTransport \<Rightarrow> nat \<times> 'b TShortReadTransport" where
  "short_draw t = (draws t (drawn t), t\<lparr>drawn := Suc (drawn t)\<rparr>)"

definition short_read :: "(nat \<Rightarrow> 'b \<Rightarrow> (string \<times> 'b) transported ub) \<Rightarrow> nat \<Rightarrow> 'b TShortReadTransport
    \<Rightarrow> (string \<times> 'b TShortReadTransport) transported ub" where
  "short_read rd len t =
     (if len = 0 then Some (Inr ([], t))
      else (case short_draw t of (r, t1) \<Rightarrow>
        case (if cut t r then (case short_draw t1 of (r2, t2) \<Rightarrow> (1 + r2 mod len, t2)) else (len, t1)) of (n, t3) \<Rightarrow>
          map_option (map_sum id (\<lambda>(s, b). (s, t3\<lparr>inner := b\<rparr>))) (rd n (inner t3))))"

text \<open>\<open>readAll\<close> is the loop that every transport has; borrowing and consuming are those of the inner one.\<close>

definition short_readAll :: "(nat \<Rightarrow> 'b \<Rightarrow> (string \<times> 'b) transported ub) \<Rightarrow> nat \<Rightarrow> 'b TShortReadTransport
    \<Rightarrow> (string \<times> 'b TShortReadTransport) transported ub" where
  "short_readAll rd len t = readAll_loop (short_read rd) len [] t"

definition short_borrow :: "(nat \<Rightarrow> 'b \<Rightarrow> (string option \<times> 'b) transported ub) \<Rightarrow> nat \<Rightarrow> 'b TShortReadTransport
    \<Rightarrow> (string option \<times> 'b TShortReadTransport) transported ub" where
  "short_borrow bw len t = map_option (map_sum id (\<lambda>(s, b). (s, t\<lparr>inner := b\<rparr>))) (bw len (inner t))"

definition short_consume :: "(nat \<Rightarrow> 'b \<Rightarrow> 'b transported) \<Rightarrow> nat \<Rightarrow> 'b TShortReadTransport
    \<Rightarrow> 'b TShortReadTransport transported" where
  "short_consume cs len t = map_sum id (\<lambda>b. t\<lparr>inner := b\<rparr>) (cs len (inner t))"

definition short_peek :: "('b \<Rightarrow> (bool \<times> 'b) transported ub) \<Rightarrow> 'b TShortReadTransport
    \<Rightarrow> (bool \<times> 'b TShortReadTransport) transported ub" where
  "short_peek pk t = map_option (map_sum id (\<lambda>(x, b). (x, t\<lparr>inner := b\<rparr>))) (pk (inner t))"

definition short_write :: "(string \<Rightarrow> 'b \<Rightarrow> 'b transported) \<Rightarrow> string \<Rightarrow> 'b TShortReadTransport
    \<Rightarrow> 'b TShortReadTransport transported" where
  "short_write wr s t = map_sum id (\<lambda>b. t\<lparr>inner := b\<rparr>) (wr s (inner t))"

definition short_ops :: "(nat \<Rightarrow> 'b \<Rightarrow> (string \<times> 'b) transported ub) \<Rightarrow> 'b transport_ops
    \<Rightarrow> 'b TShortReadTransport transport_ops" where
  "short_ops rd base = \<lparr>op_readAll = short_readAll rd, op_borrow = short_borrow (op_borrow base),
     op_consume = short_consume (op_consume base)\<rparr>"

text \<open>The contract of a read, as in \<open>readAll_loop_ok\<close>.\<close>

definition reads_ok :: "bool \<Rightarrow> ('b \<Rightarrow> bool) \<Rightarrow> ('b \<Rightarrow> string) \<Rightarrow> (nat \<Rightarrow> 'b \<Rightarrow> (string \<times> 'b) transported ub) \<Rightarrow> bool" where
  "reads_ok mf ok stream rd \<longleftrightarrow> (\<forall>k c. ok c \<longrightarrow> 0 < k \<longrightarrow> (case rd k c of
        None \<Rightarrow> False
      | Some (Inl e) \<Rightarrow> e = OTHER \<and> mf
      | Some (Inr (s, d)) \<Rightarrow> ok d \<and> length s \<le> k \<and> stream c = s @ stream d \<and> (s = [] \<longrightarrow> stream c = [])))"

lemma reads_okD: "reads_ok mf ok stream rd \<Longrightarrow> ok c \<Longrightarrow> 0 < k \<Longrightarrow> (case rd k c of
        None \<Rightarrow> False
      | Some (Inl e) \<Rightarrow> e = OTHER \<and> mf
      | Some (Inr (s, d)) \<Rightarrow> ok d \<and> length s \<le> k \<and> stream c = s @ stream d \<and> (s = [] \<longrightarrow> stream c = []))"
  unfolding reads_ok_def by blast

lemma short_reads_ok:
  assumes "reads_ok mf ok stream rd"
  shows "reads_ok mf (ok \<circ> inner) (stream \<circ> inner) (short_read rd)"
  unfolding reads_ok_def
proof (intro allI impI)
  fix k :: nat and c :: "'a TShortReadTransport"
  assume "(ok \<circ> inner) c" and k: "0 < k"
  then have ok: "ok (inner c)" by simp
  define n where "n = (if cut c (draws c (drawn c)) then 1 + draws c (Suc (drawn c)) mod k else k)"
  define j where "j = (if cut c (draws c (drawn c)) then Suc (Suc (drawn c)) else Suc (drawn c))"
  have "draws c (Suc (drawn c)) mod k < k"
    using k by simp
  then have n: "0 < n" "n \<le> k"
    using k by (auto simp: n_def Suc_le_eq)
  have "short_read rd k c = map_option (map_sum id (\<lambda>(s, b). (s, c\<lparr>drawn := j, inner := b\<rparr>))) (rd n (inner c))"
    using k by (simp add: short_read_def short_draw_def n_def j_def)
  then show "case short_read rd k c of
        None \<Rightarrow> False
      | Some (Inl e) \<Rightarrow> e = OTHER \<and> mf
      | Some (Inr (s, d)) \<Rightarrow> (ok \<circ> inner) d \<and> length s \<le> k \<and> (stream \<circ> inner) c = s @ (stream \<circ> inner) d
          \<and> (s = [] \<longrightarrow> (stream \<circ> inner) c = [])"
    using reads_okD [OF assms ok n(1)] n(2) by (auto split: option.splits sum.splits)
qed

text \<open>However short the reads, the protocol over such a transport reads as over the inner one.\<close>

lemma short_env_ok:
  assumes "env_ok mf ok stream E" and "reads_ok mf ok stream rd"
    and "ops F = short_ops rd (ops E)" and "grow F = grow E"
  shows "env_ok mf (ok \<circ> inner) (stream \<circ> inner) F"
  unfolding env_ok_def
proof (intro allI conjI impI)
  fix n :: nat and b :: "'a TShortReadTransport"
  show "mf \<or> grow F n"
    using assms(1,4) unfolding env_ok_def by metis
  assume ok: "(ok \<circ> inner) b"
  note short = reads_okD [OF short_reads_ok [OF assms(2)]]
  show "case op_readAll (ops F) n b of
        None \<Rightarrow> False
      | Some (Inl e) \<Rightarrow> e = OTHER \<and> mf \<or> e = END_OF_FILE \<and> length ((stream \<circ> inner) b) < n
      | Some (Inr (s, c)) \<Rightarrow> (ok \<circ> inner) c \<and> length s = n \<and> (stream \<circ> inner) b = s @ (stream \<circ> inner) c"
    using readAll_loop_ok [where rd = "short_read rd", OF short ok, of "[]" n]
    by (auto simp: assms(3) short_ops_def short_readAll_def split: option.splits sum.splits)
  have "case op_borrow (ops E) n (inner b) of
        None \<Rightarrow> False
      | Some (Inl e) \<Rightarrow> e = OTHER \<and> mf
      | Some (Inr (None, c)) \<Rightarrow> ok c \<and> stream c = stream (inner b)
      | Some (Inr (Some s, c)) \<Rightarrow> n \<le> length s
          \<and> (\<exists>d. op_consume (ops E) n c = Inr d \<and> ok d \<and> stream (inner b) = take n s @ stream d)"
    using assms(1) ok unfolding env_ok_def by simp
  then show "case op_borrow (ops F) n b of
        None \<Rightarrow> False
      | Some (Inl e) \<Rightarrow> e = OTHER \<and> mf
      | Some (Inr (None, c)) \<Rightarrow> (ok \<circ> inner) c \<and> (stream \<circ> inner) c = (stream \<circ> inner) b
      | Some (Inr (Some s, c)) \<Rightarrow> n \<le> length s
          \<and> (\<exists>d. op_consume (ops F) n c = Inr d \<and> (ok \<circ> inner) d \<and> (stream \<circ> inner) b = take n s @ (stream \<circ> inner) d)"
    by (fastforce simp: assms(3) short_ops_def short_borrow_def short_consume_def split: option.splits sum.splits)
qed

lemma memory_reads_ok:
  assumes "slow_paths_ok S"
  shows "reads_ok mf (kept s) unread (memory_read S)"
  unfolding reads_ok_def
proof (intro allI impI)
  fix k c
  assume "kept s c" and "0 < (k::nat)"
  then show "case memory_read S k c of
        None \<Rightarrow> False
      | Some (Inl e) \<Rightarrow> e = OTHER \<and> mf
      | Some (Inr (x, d)) \<Rightarrow> kept s d \<and> length x \<le> k \<and> unread c = x @ unread d \<and> (x = [] \<longrightarrow> unread c = [])"
    using memory_read_ok [OF assms, of c k] by (auto simp: kept_def split: option.splits sum.splits)
qed

section \<open>Nothing\<close>

definition TNullTransport_isOpen :: bool where
  "TNullTransport_isOpen = True"

definition TNullTransport_write :: "string \<Rightarrow> unit \<Rightarrow> unit transported" where
  "TNullTransport_write s u = Inr u"

section \<open>The pipe\<close>

text \<open>
  What is read from \<open>p_src\<close> is kept in a buffer that grows, and handed to \<open>p_dst\<close> at the end of a
  request or reply.  A buffer is a null pointer or its bytes; a flag may be indeterminate (\<open>None\<close>).
\<close>

record ('s, 'd) TPipedTransport =
  p_src :: 's
  p_dst :: 'd
  p_rBuf :: "string option"
  p_rBufSize :: u32
  p_rPos :: u32
  p_rLen :: u32
  p_wBuf :: "string option"
  p_wBufSize :: u32
  p_wLen :: u32
  pipeOnRead :: "bool option"
  pipeOnWrite :: "bool option"

definition piped_with :: "bool option \<Rightarrow> bool option \<Rightarrow> u32 \<Rightarrow> string option \<Rightarrow> string option \<Rightarrow> 's \<Rightarrow> 'd
    \<Rightarrow> ('s, 'd) TPipedTransport" where
  "piped_with onRead onWrite sz r w src dst = \<lparr>p_src = src, p_dst = dst, p_rBuf = r, p_rBufSize = 512, p_rPos = 0, p_rLen = 0,
     p_wBuf = w, p_wBufSize = sz, p_wLen = 0, pipeOnRead = onRead, pipeOnWrite = onWrite\<rparr>"

text \<open>\<open>r\<close> and \<open>w\<close> are what the two calls of \<open>malloc\<close> give; \<open>None\<close> throws \<open>std::bad_alloc\<close>.\<close>

definition TPipedTransport_new :: "string option \<Rightarrow> string option \<Rightarrow> 's \<Rightarrow> 'd \<Rightarrow> ('s, 'd) TPipedTransport option" where
  "TPipedTransport_new r w src dst =
     (if r = None \<or> w = None then None else Some (piped_with (Some True) (Some False) 512 r w src dst))"

definition TPipedTransport_sized :: "u32 \<Rightarrow> string option \<Rightarrow> string option \<Rightarrow> 's \<Rightarrow> 'd
    \<Rightarrow> ('s, 'd) TPipedTransport option" where
  "TPipedTransport_sized sz r w src dst =
     (if r = None \<or> w = None then None else Some (piped_with None None sz r w src dst))"

definition setPipeOnRead :: "bool \<Rightarrow> ('s, 'd) TPipedTransport \<Rightarrow> ('s, 'd) TPipedTransport" where
  "setPipeOnRead pipeVal p = p\<lparr>pipeOnRead := Some pipeVal\<rparr>"

definition setPipeOnWrite :: "bool \<Rightarrow> ('s, 'd) TPipedTransport \<Rightarrow> ('s, 'd) TPipedTransport" where
  "setPipeOnWrite pipeVal p = p\<lparr>pipeOnWrite := Some pipeVal\<rparr>"

text \<open>\<open>regrow k\<close>: the \<open>k\<close> bytes by which \<open>realloc\<close> extends a block, if it can; otherwise it gives null.\<close>

definition piped_double :: "(nat \<Rightarrow> string option) \<Rightarrow> ('s, 'd) TPipedTransport \<Rightarrow> ('s, 'd) TPipedTransport" where
  "piped_double regrow p = (let n = p_rBufSize p * 2 in p\<lparr>p_rBufSize := n,
     p_rBuf := (case p_rBuf p of
       None \<Rightarrow> regrow (unat n)
     | Some b \<Rightarrow> map_option (\<lambda>x. take (unat n) b @ x) (regrow (unat n - length b)))\<rparr>)"

definition piped_peek :: "(nat \<Rightarrow> string option) \<Rightarrow> (nat \<Rightarrow> 's \<Rightarrow> (string \<times> 's) transported)
    \<Rightarrow> ('s, 'd) TPipedTransport \<Rightarrow> (bool \<times> ('s, 'd) TPipedTransport) transported ub" where
  "piped_peek regrow rd p =
     (if p_rLen p \<le> p_rPos p
      then (let p1 = (if p_rLen p = p_rBufSize p then piped_double regrow p else p)
        in case rd (unat (p_rBufSize p1 - p_rPos p1)) (p_src p1) of
          Inl e \<Rightarrow> Some (Inl e)
        | Inr (s, u) \<Rightarrow> (case p_rBuf p1 of
            None \<Rightarrow> None
          | Some b \<Rightarrow> if length b < unat (p_rPos p1) + length s then None
              else let len = p_rLen p1 + of_nat (length s) in
                Some (Inr (p_rPos p1 < len, p1\<lparr>p_src := u, p_rLen := len,
                  p_rBuf := Some (take (unat (p_rPos p1)) b @ s @ drop (unat (p_rPos p1) + length s) b)\<rparr>))))
      else Some (Inr (p_rPos p < p_rLen p, p)))"

text \<open>The bytes that are handed over; reading past a block is undefined.\<close>

definition pipe_to :: "(string \<Rightarrow> 'd \<Rightarrow> 'd transported) \<Rightarrow> ('d \<Rightarrow> 'd transported) \<Rightarrow> bool option \<Rightarrow> string option
    \<Rightarrow> nat \<Rightarrow> 'd \<Rightarrow> 'd transported ub" where
  "pipe_to wr fl flag buf n d = (case flag of
     None \<Rightarrow> None
   | Some False \<Rightarrow> Some (Inr d)
   | Some True \<Rightarrow> (case buf of
       None \<Rightarrow> None
     | Some b \<Rightarrow> if length b < n then None
         else (case wr (take n b) d of Inl e \<Rightarrow> Some (Inl e) | Inr d1 \<Rightarrow> Some (fl d1))))"

text \<open>\<open>memcpy\<close> is undefined when the two regions overlap.\<close>

definition piped_readEnd :: "(string \<Rightarrow> 'd \<Rightarrow> 'd transported) \<Rightarrow> ('d \<Rightarrow> 'd transported) \<Rightarrow> ('s \<Rightarrow> 's transported)
    \<Rightarrow> ('s, 'd) TPipedTransport \<Rightarrow> (u32 \<times> ('s, 'd) TPipedTransport) transported ub" where
  "piped_readEnd wr fl rend p = (case pipe_to wr fl (pipeOnRead p) (p_rBuf p) (unat (p_rPos p)) (p_dst p) of
     None \<Rightarrow> None
   | Some (Inl e) \<Rightarrow> Some (Inl e)
   | Some (Inr d) \<Rightarrow> (case rend (p_src p) of
       Inl e \<Rightarrow> Some (Inl e)
     | Inr u \<Rightarrow>
         let pos = unat (p_rPos p); read_ahead = unat (p_rLen p - p_rPos p)
         in case p_rBuf p of
           None \<Rightarrow> None
         | Some b \<Rightarrow>
             if length b < pos + read_ahead \<or> pos < read_ahead then None
             else Some (Inr (p_rPos p, p\<lparr>p_src := u, p_dst := d, p_rPos := 0, p_rLen := p_rLen p - p_rPos p,
               p_rBuf := Some (take read_ahead (drop pos b) @ drop read_ahead b)\<rparr>))))"

definition piped_writeEnd :: "(string \<Rightarrow> 'd \<Rightarrow> 'd transported) \<Rightarrow> ('d \<Rightarrow> 'd transported)
    \<Rightarrow> ('s, 'd) TPipedTransport \<Rightarrow> (u32 \<times> ('s, 'd) TPipedTransport) transported ub" where
  "piped_writeEnd wr fl p =
     map_option (map_sum id (\<lambda>d. (p_wLen p, p\<lparr>p_dst := d\<rparr>)))
       (pipe_to wr fl (pipeOnWrite p) (p_wBuf p) (unat (p_wLen p)) (p_dst p))"

text \<open>The factory keeps the target of all pipes, which can be set once.\<close>

definition initializeTargetTransport :: "'d \<Rightarrow> 'd option \<Rightarrow> string + 'd option" where
  "initializeTargetTransport dstTrans d = (case d of
     None \<Rightarrow> Inr (Some dstTrans)
   | Some _ \<Rightarrow> Inl ''Target transport already initialized'')"

section \<open>What the pipe keeps\<close>

definition piped_ok :: "('s, 'd) TPipedTransport \<Rightarrow> bool" where
  "piped_ok p \<longleftrightarrow> p_rPos p \<le> p_rLen p \<and> p_rLen p \<le> p_rBufSize p \<and> 0 < p_rBufSize p
     \<and> map_option length (p_rBuf p) = Some (unat (p_rBufSize p))"

definition piped_unread :: "('s \<Rightarrow> string) \<Rightarrow> ('s, 'd) TPipedTransport \<Rightarrow> string" where
  "piped_unread ahead p = drop (unat (p_rPos p)) (take (unat (p_rLen p)) (the (p_rBuf p))) @ ahead (p_src p)"

lemma TPipedTransport_new_ok:
  assumes "TPipedTransport_new r w src dst = Some p" and "map_option length r = Some 512"
  shows "piped_ok p" and "piped_unread ahead p = ahead src"
  using assms by (auto simp: TPipedTransport_new_def piped_with_def piped_ok_def piped_unread_def split: if_splits)

text \<open>
  At the end of a request the target gets exactly the bytes that were read of it, and the bytes read
  ahead are still to be read; but when more bytes were read ahead than the request has, the copy
  overlaps.
\<close>

lemma piped_readEnd_ok:
  assumes "piped_ok p" and "pipeOnRead p = Some flag"
    and "flag \<Longrightarrow> wr (take (unat (p_rPos p)) (the (p_rBuf p))) (p_dst p) = Inr d \<and> fl d = Inr d1"
    and "\<not> flag \<Longrightarrow> d1 = p_dst p" and "rend (p_src p) = Inr u" and "ahead u = ahead (p_src p)"
  shows "if unat (p_rPos p) < unat (p_rLen p) - unat (p_rPos p) then piped_readEnd wr fl rend p = None
    else \<exists>q. piped_readEnd wr fl rend p = Some (Inr (p_rPos p, q)) \<and> piped_ok q \<and> p_dst q = d1 \<and> p_rPos q = 0
      \<and> piped_unread ahead q = piped_unread ahead p"
proof -
  obtain b where b: "p_rBuf p = Some b" "length b = unat (p_rBufSize p)"
    using assms(1) by (auto simp: piped_ok_def)
  have le: "unat (p_rPos p) \<le> unat (p_rLen p)" "unat (p_rLen p) \<le> unat (p_rBufSize p)"
    using assms(1) by (simp_all add: piped_ok_def word_le_nat_alt)
  then have sub: "unat (p_rLen p - p_rPos p) = unat (p_rLen p) - unat (p_rPos p)"
    using assms(1) by (simp add: unat_sub piped_ok_def)
  have pipe: "pipe_to wr fl (pipeOnRead p) (p_rBuf p) (unat (p_rPos p)) (p_dst p) = Some (Inr d1)"
    using assms(2-4) b le by (cases flag) (simp_all add: pipe_to_def)
  show ?thesis
  proof (cases "unat (p_rPos p) < unat (p_rLen p) - unat (p_rPos p)")
    case True
    then show ?thesis
      using pipe assms(5) b sub by (simp add: piped_readEnd_def Let_def)
  next
    case False
    have "p_rLen p - p_rPos p \<le> p_rBufSize p"
      using le sub by (simp add: word_le_nat_alt)
    then show ?thesis
      using False pipe assms b le sub
      by (simp add: piped_readEnd_def Let_def piped_ok_def piped_unread_def word_le_nat_alt take_drop)
  qed
qed

text \<open>A peek gives no byte away, as long as the buffer can be doubled.\<close>

lemma piped_double_ok:
  assumes "piped_ok p" and "unat (p_rBufSize p) < 2 ^ 31" and "\<And>k. \<exists>x. regrow k = Some x \<and> length x = k"
    and "p_rLen p = p_rBufSize p"
  shows "piped_ok (piped_double regrow p)" and "p_rLen p < p_rBufSize (piped_double regrow p)"
    and "piped_unread ahead (piped_double regrow p) = piped_unread ahead p"
proof -
  obtain b where b: "p_rBuf p = Some b" "length b = unat (p_rBufSize p)"
    using assms(1) by (auto simp: piped_ok_def)
  have n: "unat (p_rBufSize p * 2) = 2 * unat (p_rBufSize p)"
    using assms(2) by (simp add: unat_word_ariths)
  obtain x where x: "regrow (unat (p_rBufSize p)) = Some x" "length x = unat (p_rBufSize p)"
    using assms(3) by blast
  have buf: "p_rBuf (piped_double regrow p) = Some (b @ x)"
    using b n x by (simp add: piped_double_def Let_def)
  have pos: "0 < unat (p_rBufSize p)"
    using assms(1) by (simp add: piped_ok_def word_less_nat_alt)
  show "piped_ok (piped_double regrow p)" "p_rLen p < p_rBufSize (piped_double regrow p)"
    using assms(1,4) buf b n x pos
    by (simp_all add: piped_ok_def piped_double_def Let_def word_le_nat_alt word_less_nat_alt)
  show "piped_unread ahead (piped_double regrow p) = piped_unread ahead p"
    using b assms(4) unfolding piped_unread_def buf by (simp add: piped_double_def Let_def)
qed

lemma piped_peek_ok:
  assumes "piped_ok p" and "delivers (\<lambda>_. True) ahead rd" and "unat (p_rBufSize p) < 2 ^ 31"
    and "\<And>k. \<exists>x. regrow k = Some x \<and> length x = k"
  shows "case piped_peek regrow rd p of
      None \<Rightarrow> False
    | Some (Inl e) \<Rightarrow> True
    | Some (Inr (left, q)) \<Rightarrow> piped_ok q \<and> piped_unread ahead q = piped_unread ahead p \<and> left = (piped_unread ahead p \<noteq> [])"
proof (cases "p_rLen p \<le> p_rPos p")
  case False
  then have "unat (p_rPos p) < unat (p_rLen p)" "unat (p_rLen p) \<le> length (the (p_rBuf p))"
    using assms(1) by (auto simp: piped_ok_def word_less_nat_alt word_le_nat_alt)
  then have "piped_unread ahead p \<noteq> []"
    by (simp add: piped_unread_def)
  then show ?thesis
    using False assms(1) by (simp add: piped_peek_def)
next
  case True
  then have eq: "p_rPos p = p_rLen p"
    using assms(1) by (simp add: piped_ok_def)
  define p1 where "p1 = (if p_rLen p = p_rBufSize p then piped_double regrow p else p)"
  have same: "p_rPos p1 = p_rPos p" "p_rLen p1 = p_rLen p" "p_src p1 = p_src p"
    by (simp_all add: p1_def piped_double_def Let_def)
  have ok: "piped_ok p1" "p_rLen p < p_rBufSize p1" "piped_unread ahead p1 = piped_unread ahead p"
    using assms(1) piped_double_ok [OF assms(1,3,4)] by (auto simp: p1_def piped_ok_def)
  obtain b where b: "p_rBuf p1 = Some b" "length b = unat (p_rBufSize p1)"
    using ok(1) by (auto simp: piped_ok_def)
  have room: "unat (p_rBufSize p1 - p_rPos p1) = unat (p_rBufSize p1) - unat (p_rLen p)" "unat (p_rLen p) < unat (p_rBufSize p1)"
    using ok(2) by (simp_all add: same eq unat_sub word_less_nat_alt order_less_imp_le)
  have unread: "piped_unread ahead p = ahead (p_src p)"
    unfolding ok(3) [symmetric] by (simp add: piped_unread_def same eq)
  show ?thesis
  proof (cases "rd (unat (p_rBufSize p1 - p_rPos p1)) (p_src p)")
    case (Inl e)
    then show ?thesis
      using True by (simp add: piped_peek_def Let_def same flip: p1_def)
  next
    case (Inr a)
    obtain s u where a: "a = (s, u)" by force
    from deliversD [OF assms(2) _ _ Inr [unfolded a]] room
    have d: "length s \<le> unat (p_rBufSize p1) - unat (p_rLen p)" "ahead (p_src p) = s @ ahead u" "s = [] \<Longrightarrow> ahead (p_src p) = []"
      by auto
    have "unat (p_rLen p) + length s < 2 ^ 32"
      using d(1) room(2) unsigned_less [of "p_rBufSize p1", where 'a = nat] by simp
    then have len: "unat (p_rLen p + of_nat (length s)) = unat (p_rLen p) + length s"
      by (simp add: unat_word_ariths unsigned_of_nat take_bit_nat_eq_self)
    let ?b = "take (unat (p_rLen p)) b @ s @ drop (unat (p_rLen p) + length s) b"
    let ?q = "p1\<lparr>p_src := u, p_rLen := p_rLen p + of_nat (length s), p_rBuf := Some ?b\<rparr>"
    have "piped_peek regrow rd p = Some (Inr (p_rLen p < p_rLen p + of_nat (length s), ?q))"
      using True Inr a b d(1) room(2) by (simp add: piped_peek_def Let_def same eq flip: p1_def)
    moreover have "piped_ok ?q"
      using ok(1) b d(1) room(2) len by (simp add: piped_ok_def same eq word_le_nat_alt word_less_nat_alt)
    moreover have "piped_unread ahead ?q = piped_unread ahead p"
      using unread d(2) b room(2) by (simp add: piped_unread_def same eq len)
    moreover have "p_rLen p < p_rLen p + of_nat (length s) \<longleftrightarrow> piped_unread ahead p \<noteq> []"
      using d(2,3) unread len by (auto simp: word_less_nat_alt)
    ultimately show ?thesis by simp
  qed
qed

text \<open>The result of \<open>realloc\<close> is not checked: when it fails, the source reads to a null pointer.\<close>

lemma piped_peek_null:
  assumes "piped_ok p" and "p_rPos p = p_rBufSize p" and "rd n (p_src p) = Inr (s, u)"
    and "n = unat (p_rBufSize p * 2 - p_rPos p)" and "\<And>k. regrow k = None"
  shows "piped_peek regrow rd p = None"
  using assms by (auto simp: piped_peek_def piped_ok_def piped_double_def Let_def split: option.splits)

end
