(* ===== verification/WrapperProps.thy ===== *)
theory WrapperProps
  imports Wrappers MemoryProps
begin

text \<open>
  The processors of the program behind a transport that reads short.
\<close>

text \<open>C24. Short reads do not matter: around a memory buffer or a buffered connection, a transport that
  cuts any of the reads to any shorter length, but not to nothing, serves the requests of the three
  services as they are served on the stream of bytes, whatever numbers are drawn.\<close>

theorem short_reads_served:
  assumes "slow_paths_ok S" and "mf \<or> (\<forall>n. grow F n)" and "limits F = default_proto"
    and "ops F = short_ops (memory_read S) (memory_ops S)"
    and "slow_read_ok mf ahead readSlow" and "slow_borrow_ok mf ahead borrowSlow"
    and "mf \<or> (\<forall>n. grow G n)" and "limits G = default_proto"
    and "ops G = short_ops (\<lambda>k c. Some (TBufferBase_read readSlow k c)) (buffered_ops readSlow borrowSlow)"
  shows "serves mf (kept s \<circ> inner) (unread \<circ> inner) (over_OZReadService_process F app ri rs) (OZReadServiceProcessor_process app ri rs)
    \<and> serves mf (kept s \<circ> inner) (unread \<circ> inner) (over_OZWriteService_process F app wi ws) (OZWriteServiceProcessor_process app wi ws)
    \<and> serves mf (kept s \<circ> inner) (unread \<circ> inner) (over_OZTravService_process F app ti ts) (OZTravServiceProcessor_process app ti ts)
    \<and> serves mf (buffer_ok \<circ> inner) (pending ahead \<circ> inner) (over_OZReadService_process G app ri rs) (OZReadServiceProcessor_process app ri rs)
    \<and> serves mf (buffer_ok \<circ> inner) (pending ahead \<circ> inner) (over_OZWriteService_process G app wi ws) (OZWriteServiceProcessor_process app wi ws)
    \<and> serves mf (buffer_ok \<circ> inner) (pending ahead \<circ> inner) (over_OZTravService_process G app ti ts) (OZTravServiceProcessor_process app ti ts)"
proof -
  let ?M = "\<lparr>ops = memory_ops S, grow = grow F, limits = limits F\<rparr>"
  let ?B = "\<lparr>ops = buffered_ops readSlow borrowSlow, grow = grow G, limits = limits G\<rparr>"
  have "env_ok mf (kept s) unread ?M"
    by (rule memory_env_ok [OF assms(1)]) (use assms(2) in simp_all)
  from short_env_ok [OF this memory_reads_ok [OF assms(1)], of F] assms(4)
  have memory: "env_ok mf (kept s \<circ> inner) (unread \<circ> inner) F" by simp
  have "env_ok mf buffer_ok (pending ahead) ?B"
    by (rule buffered_env_ok [OF assms(5,6)]) (use assms(7) in simp_all)
  moreover have "reads_ok mf buffer_ok (pending ahead) (\<lambda>k c. Some (TBufferBase_read readSlow k c))"
    using read_ok [OF assms(5)] by (simp add: reads_ok_def)
  ultimately have buffered: "env_ok mf (buffer_ok \<circ> inner) (pending ahead \<circ> inner) G"
    using short_env_ok [of mf buffer_ok "pending ahead" ?B _ G] assms(9) by simp
  show ?thesis
    by (intro conjI serves_services [OF memory assms(3)] serves_services [OF buffered assms(8)])
qed

definition ex_short_env :: "memory TShortReadTransport reader_env" where
  "ex_short_env = \<lparr>ops = short_ops (memory_read ex_slow) (memory_ops ex_slow), grow = (\<lambda>_. True), limits = default_proto\<rparr>"

definition ex_short_socket :: "ex_socket TBufferedTransport TShortReadTransport reader_env" where
  "ex_short_socket = \<lparr>ops = short_ops (\<lambda>k c. Some (TBufferBase_read ex_readSlow k c)) (buffered_ops ex_readSlow ex_borrowSlow),
     grow = (\<lambda>_. True), limits = default_proto\<rparr>"

lemma short_reads_served_witness:
  "serves False (kept (memory_setup None 0 True 0, ex_heap) \<circ> inner) (unread \<circ> inner)
     (over_OZReadService_process ex_short_env ex_app OZReadServiceNull ()) (OZReadServiceProcessor_process ex_app OZReadServiceNull ())"
  by (rule short_reads_served [OF ex_slow_ok _ _ _ ex_slow_read ex_slow_borrow, where G = ex_short_socket, THEN conjunct1])
    (simp_all add: ex_short_env_def ex_short_socket_def)

end
