(* ===== verification/Stats.thy ===== *)
theory Stats
  imports WireStruct OZone
begin

text \<open>
  The processor of the library that counts the calls of each method and prints their arguments
  (src/include_deps/thrift/processor/StatsProcessor.h), on a stream of bytes in the binary protocol.
  As in theory WireStruct the recursion is modelled with its stack written out; a task may also be a
  text that is printed in between.  What \<open>printf\<close> makes of a double is a parameter.
\<close>

section \<open>Printing a value\<close>

datatype stats_task =
  Show ttype
| ShowFields
| ShowElems nat ttype
| ShowPairs nat ttype ttype
| ShowArgs
| Print string

text \<open>What was printed, and the exception or the bytes left.\<close>

type_synonym printed = "string \<times> (proto_error + string)"

definition put_text :: "bool \<Rightarrow> string \<Rightarrow> printed \<Rightarrow> printed" where
  "put_text pr text r = (if pr then (text @ fst r, snd r) else r)"

definition show_scalar :: "(i64 \<Rightarrow> string) \<Rightarrow> proto \<Rightarrow> ttype \<Rightarrow> string reader option" where
  "show_scalar dbl p t =
     (if t = T_BOOL then Some (rbind readBool (\<lambda>x. ret (if x then ''1'' else ''0'')))
      else if t = T_BYTE then Some (rbind readByte (\<lambda>x. ret (dec_int (sint x))))
      else if t = T_I16 then Some (rbind readI16 (\<lambda>x. ret (dec_int (sint x))))
      else if t = T_I32 then Some (rbind readI32 (\<lambda>x. ret (dec_int (sint x))))
      else if t = T_I64 then Some (rbind readI64 (\<lambda>x. ret (dec_int (sint x))))
      else if t = T_DOUBLE then Some (rbind readDouble (\<lambda>x. ret (dbl x)))
      else if t = T_STRING then Some (rbind (readString p) (\<lambda>x. ret (cstr x)))
      else None)"

definition then_read :: "'a reader \<Rightarrow> ('a \<Rightarrow> string \<Rightarrow> printed) \<Rightarrow> string \<Rightarrow> printed" where
  "then_read r f s = (case r s of Inl e \<Rightarrow> ([], Inl e) | Inr (x, t) \<Rightarrow> f x t)"

lemma then_read_cong [fundef_cong]:
  "r = q \<Longrightarrow> s = t \<Longrightarrow> (\<And>x u. q t = Inr (x, u) \<Longrightarrow> f x u = g x u) \<Longrightarrow> then_read r f s = then_read q g t"
  by (auto simp: then_read_def split: sum.split)

lemma show_scalar_le:
  assumes "show_scalar dbl p t = Some r" and "r s = Inr (x, u)"
  shows "length u \<le> length s"
proof -
  have "shrinks r"
    using assms(1) by (auto simp: show_scalar_def intro!: shrink_rules split: if_splits)
  with assms(2) show ?thesis by (auto simp: shrinks_def)
qed

fun stats_weight :: "stats_task \<Rightarrow> nat" where
  "stats_weight (Show t) = 3"
| "stats_weight ShowFields = 1"
| "stats_weight (ShowElems n t) = 5 * n + 1"
| "stats_weight (ShowPairs n k v) = 9 * n + 1"
| "stats_weight ShowArgs = 1"
| "stats_weight (Print t) = 1"

definition BS :: char where
  "BS = CHR 0x08"

function stats_run :: "bool \<Rightarrow> (i64 \<Rightarrow> string) \<Rightarrow> proto \<Rightarrow> stats_task list \<Rightarrow> string \<Rightarrow> printed" where
  "stats_run pr dbl p [] s = ([], Inr s)"
| "stats_run pr dbl p (Print t # ts) s = put_text pr t (stats_run pr dbl p ts s)"
| "stats_run pr dbl p (Show t # ts) s = (case show_scalar dbl p t of
     Some r \<Rightarrow> then_read r (\<lambda>x s'. put_text pr x (stats_run pr dbl p ts s')) s
   | None \<Rightarrow>
       if t = T_STRUCT
       then put_text pr ''<'' (stats_run pr dbl p (ShowFields # Print (BS # ''>'') # ts) s)
       else if t = T_MAP
       then then_read (readMapBegin p) (\<lambda>x s'. case x of (k, v, n) \<Rightarrow>
           put_text pr ''{'' (stats_run pr dbl p (ShowPairs (unat n) k v # Print (BS # ''}'') # ts) s')) s
       else if t = T_SET
       then then_read (readSetBegin p) (\<lambda>x s'. case x of (e, n) \<Rightarrow>
           put_text pr ''{'' (stats_run pr dbl p (ShowElems (unat n) e # Print (BS # ''}'') # ts) s')) s
       else if t = T_LIST
       then then_read (readListBegin p) (\<lambda>x s'. case x of (e, n) \<Rightarrow>
           put_text pr ''['' (stats_run pr dbl p (ShowElems (unat n) e # Print (BS # '']'') # ts) s')) s
       else stats_run pr dbl p ts s)"
| "stats_run pr dbl p (ShowFields # ts) s = then_read readFieldBegin (\<lambda>x s'. case x of (t, _) \<Rightarrow>
     if t = T_STOP then stats_run pr dbl p ts s'
     else stats_run pr dbl p (Show t # Print '','' # ShowFields # ts) s') s"
| "stats_run pr dbl p (ShowArgs # ts) s = then_read readFieldBegin (\<lambda>x s'. case x of (t, _) \<Rightarrow>
     if t = T_STOP then stats_run pr dbl p ts s'
     else stats_run pr dbl p (Show t # Print '', '' # ShowArgs # ts) s') s"
| "stats_run pr dbl p (ShowElems n t # ts) s =
     (if n = 0 then stats_run pr dbl p ts s
      else stats_run pr dbl p (Show t # Print '','' # ShowElems (n - 1) t # ts) s)"
| "stats_run pr dbl p (ShowPairs n k v # ts) s =
     (if n = 0 then stats_run pr dbl p ts s
      else stats_run pr dbl p (Show k # Print ''=>'' # Show v # Print '','' # ShowPairs (n - 1) k v # ts) s)"
  by pat_completeness auto
termination
  by (relation "inv_image (less_than <*lex*> less_than) (\<lambda>(pr, dbl, p, ts, s). (length s, \<Sum>t\<leftarrow>ts. stats_weight t))")
    (auto dest: containers_eat show_scalar_le)

declare stats_run.simps [simp del]

definition printAndPassToBuffer :: "bool \<Rightarrow> (i64 \<Rightarrow> string) \<Rightarrow> proto \<Rightarrow> ttype \<Rightarrow> string \<Rightarrow> printed" where
  "printAndPassToBuffer pr dbl p t = stats_run pr dbl p [Show t]"

section \<open>The processor\<close>

record StatsProcessor =
  frequency_map :: "string \<Rightarrow> i64 option"
  stats_print :: bool
  stats_frequency :: bool

definition StatsProcessor_new :: "bool \<Rightarrow> bool \<Rightarrow> StatsProcessor" where
  "StatsProcessor_new pr freq = \<lparr>frequency_map = Map.empty, stats_print = pr, stats_frequency = freq\<rparr>"

text \<open>A count that does not fit is undefined.\<close>

definition count_call :: "string \<Rightarrow> StatsProcessor \<Rightarrow> StatsProcessor ub" where
  "count_call fname st = (case frequency_map st fname of
     None \<Rightarrow> Some (st\<lparr>frequency_map := (frequency_map st)(fname \<mapsto> 1)\<rparr>)
   | Some n \<Rightarrow> if sint n = 2 ^ 63 - 1 then None
       else Some (st\<lparr>frequency_map := (frequency_map st)(fname \<mapsto> n + 1)\<rparr>))"

datatype stats_exception = Stats_protocol proto_error | Unexpected_type

definition stats_process :: "(i64 \<Rightarrow> string) \<Rightarrow> proto \<Rightarrow> StatsProcessor \<Rightarrow> string
    \<Rightarrow> (StatsProcessor \<times> string \<times> (stats_exception + string)) ub" where
  "stats_process dbl p st s = (case readMessageBegin p s of
     Inl e \<Rightarrow> Some (st, [], Inl (Stats_protocol e))
   | Inr ((fname, mtype, seqid), t) \<Rightarrow>
       if mtype \<noteq> T_CALL
       then Some (st, if stats_print st then ''Unknown message type'' @ NL else [], Inl Unexpected_type)
       else (case (if stats_frequency st then count_call fname st else Some st) of
           None \<Rightarrow> None
         | Some st' \<Rightarrow>
             let r = put_text (stats_print st) (cstr fname @ '' ('')
               (stats_run (stats_print st) dbl p [ShowArgs, Print (BS # BS # '')'' @ NL)] t)
             in Some (st', fst r, map_sum Stats_protocol id (snd r))))"

definition get_frequency_map :: "StatsProcessor \<Rightarrow> string \<Rightarrow> i64 option" where
  "get_frequency_map = frequency_map"

section \<open>It reads what skipping reads\<close>

fun unprinted :: "stats_task list \<Rightarrow> task list" where
  "unprinted [] = []"
| "unprinted (Show t # ts) = Skip t # unprinted ts"
| "unprinted (ShowFields # ts) = SkipFields # unprinted ts"
| "unprinted (ShowArgs # ts) = SkipFields # unprinted ts"
| "unprinted (ShowElems n t # ts) = SkipElems n t # unprinted ts"
| "unprinted (ShowPairs n k v # ts) = SkipPairs n k v # unprinted ts"
| "unprinted (Print t # ts) = unprinted ts"

lemma snd_put_text [simp]: "snd (put_text pr text r) = snd r"
  by (simp add: put_text_def)

lemma rbind_forget: "rbind (rbind r (\<lambda>x. ret (f x))) (\<lambda>_. ret ()) = rbind r (\<lambda>_. ret ())"
  by (auto simp: rbind_def ret_def fun_eq_iff split: sum.splits)

lemma show_scalar_skips:
  "(case show_scalar dbl p t of None \<Rightarrow> skip_scalar p t = None
    | Some r \<Rightarrow> skip_scalar p t = Some (rbind r (\<lambda>_. ret ())))"
  by (simp add: show_scalar_def skip_scalar_def rbind_forget)

text \<open>
  Whether it prints or not, and whatever arrives, it takes the bytes that skipping takes and fails
  where skipping fails.
\<close>

definition bytes_left :: "proto_error + unit \<times> string \<Rightarrow> proto_error + string" where
  "bytes_left r = (case r of Inl e \<Rightarrow> Inl e | Inr (_, t) \<Rightarrow> Inr t)"

lemma bytes_left_simps [simp]: "bytes_left (Inl e) = Inl e" "bytes_left (Inr (u, t)) = Inr t"
  by (simp_all add: bytes_left_def)

lemma then_read_skips:
  "(\<And>x t. r s = Inr (x, t) \<Longrightarrow> snd (f x t) = bytes_left (g x t)) \<Longrightarrow>
    snd (then_read r f s) = bytes_left (rbind r g s)"
  by (auto simp: then_read_def rbind_def split: sum.splits)

lemma stats_run_skips:
  "snd (stats_run pr dbl p ts s) = bytes_left (skip_run p (unprinted ts) s)"
proof (induction pr dbl p ts s rule: stats_run.induct)
  case (1 pr dbl p s)
  show ?case by (simp add: stats_run.simps(1))
next
  case (2 pr dbl p t ts s)
  then show ?case by (simp add: stats_run.simps(2))
next
  case (3 pr dbl p t ts s)
  note unfold = stats_run.simps(3) [of pr dbl p t ts s] skip_run.simps(2) [of p t "unprinted ts" s]
  show ?case
  proof (cases "show_scalar dbl p t")
    case None
    then have scalar: "skip_scalar p t = None"
      using show_scalar_skips [where dbl = dbl and p = p and t = t] by simp
    consider "t = T_STRUCT" | "t = T_MAP" | "t = T_SET" | "t = T_LIST"
      | "t \<noteq> T_STRUCT" "t \<noteq> T_MAP" "t \<noteq> T_SET" "t \<noteq> T_LIST"
      by blast
    then show ?thesis
    proof cases
      case 1
      show ?thesis
        unfolding unfold unprinted.simps None scalar option.case
        using 1 3(1) [OF None 1] by simp
    next
      case 2
      show ?thesis
        unfolding unfold unprinted.simps None scalar option.case
        using 2 3(2) [OF None] by (auto simp: ttype_defs intro!: then_read_skips)
    next
      case 3
      show ?thesis
        unfolding unfold unprinted.simps None scalar option.case
        using 3 \<open>show_scalar dbl p t = None\<close> "3.IH"(3) by (auto simp: ttype_defs intro!: then_read_skips)
    next
      case 4
      show ?thesis
        unfolding unfold unprinted.simps None scalar option.case
        using 4 \<open>show_scalar dbl p t = None\<close> "3.IH"(4) by (auto simp: ttype_defs intro!: then_read_skips)
    next
      case 5
      show ?thesis
        unfolding unfold unprinted.simps None scalar option.case
        using 5 3(5) [OF None 5] by simp
    qed
  next
    case (Some r)
    then have "skip_scalar p t = Some (rbind r (\<lambda>_. ret ()))"
      using show_scalar_skips [where dbl = dbl and p = p and t = t] by simp
    with Some 3(6) [OF Some] show ?thesis
      by (auto simp: unfold then_read_def rbind_def ret_def split: sum.splits)
  qed
next
  case (4 pr dbl p ts s)
  then show ?case
    by (auto simp: stats_run.simps(4) [of pr dbl p ts s] skip_run.simps(3) [of p "unprinted ts" s]
        intro!: then_read_skips split: prod.splits)
next
  case (5 pr dbl p ts s)
  then show ?case
    by (auto simp: stats_run.simps(5) [of pr dbl p ts s] skip_run.simps(3) [of p "unprinted ts" s]
        intro!: then_read_skips split: prod.splits)
next
  case (6 pr dbl p n t ts s)
  then show ?case
    by (simp add: stats_run.simps(6) [of pr dbl p n t ts s] skip_run.simps(4) [of p n t "unprinted ts" s])
next
  case (7 pr dbl p n k v ts s)
  then show ?case
    by (simp add: stats_run.simps(7) [of pr dbl p n k v ts s] skip_run.simps(5) [of p n k v "unprinted ts" s])
qed

section \<open>What is printed\<close>

text \<open>The text of a value, stated without the reading.\<close>

function (sequential) show_val :: "(i64 \<Rightarrow> string) \<Rightarrow> tval \<Rightarrow> string"
  and show_fields :: "(i64 \<Rightarrow> string) \<Rightarrow> string \<Rightarrow> (i16 \<times> tval) list \<Rightarrow> string"
  and show_elems :: "(i64 \<Rightarrow> string) \<Rightarrow> tval list \<Rightarrow> string"
  and show_pairs :: "(i64 \<Rightarrow> string) \<Rightarrow> (tval \<times> tval) list \<Rightarrow> string" where
  "show_val dbl (VBool b) = (if b then ''1'' else ''0'')"
| "show_val dbl (VByte i) = dec_int (sint i)"
| "show_val dbl (VI16 i) = dec_int (sint i)"
| "show_val dbl (VI32 i) = dec_int (sint i)"
| "show_val dbl (VI64 i) = dec_int (sint i)"
| "show_val dbl (VDouble x) = dbl x"
| "show_val dbl (VString s) = cstr s"
| "show_val dbl (VStruct fs) = ''<'' @ show_fields dbl '','' fs @ BS # ''>''"
| "show_val dbl (VMap k v xs) = ''{'' @ show_pairs dbl xs @ BS # ''}''"
| "show_val dbl (VSet e xs) = ''{'' @ show_elems dbl xs @ BS # ''}''"
| "show_val dbl (VList e xs) = ''['' @ show_elems dbl xs @ BS # '']''"
| "show_fields dbl sep [] = []"
| "show_fields dbl sep ((fid, x) # fs) = show_val dbl x @ sep @ show_fields dbl sep fs"
| "show_elems dbl [] = []"
| "show_elems dbl (x # xs) = show_val dbl x @ '','' @ show_elems dbl xs"
| "show_pairs dbl [] = []"
| "show_pairs dbl ((x, y) # xs) = show_val dbl x @ ''=>'' @ show_val dbl y @ '','' @ show_pairs dbl xs"
  by pat_completeness auto
termination
  by (relation "measure (case_sum (case_sum (\<lambda>(_, x). size x) (\<lambda>(_, _, x). field_sizes x))
      (case_sum (\<lambda>(_, x). elem_sizes x) (\<lambda>(_, x). pair_sizes x)))")
    (auto simp: val_sizes_def)

lemma put_text_append [simp]: "put_text pr a (put_text pr b r) = put_text pr (a @ b) r"
  by (simp add: put_text_def)

lemma put_text_Nil [simp]: "put_text pr [] r = r"
  by (simp add: put_text_def)

lemma stats_scalars:
  "stats_run pr dbl p (Show T_BOOL # ts) (writeBool b @ s) = put_text pr (if b then ''1'' else ''0'') (stats_run pr dbl p ts s)"
  "stats_run pr dbl p (Show T_BYTE # ts) (writeByte i1 @ s) = put_text pr (dec_int (sint i1)) (stats_run pr dbl p ts s)"
  "stats_run pr dbl p (Show T_I16 # ts) (writeI16 i2 @ s) = put_text pr (dec_int (sint i2)) (stats_run pr dbl p ts s)"
  "stats_run pr dbl p (Show T_I32 # ts) (writeI32 i4 @ s) = put_text pr (dec_int (sint i4)) (stats_run pr dbl p ts s)"
  "stats_run pr dbl p (Show T_I64 # ts) (writeI64 i8 @ s) = put_text pr (dec_int (sint i8)) (stats_run pr dbl p ts s)"
  "stats_run pr dbl p (Show T_DOUBLE # ts) (writeDouble i8 @ s) = put_text pr (dbl i8) (stats_run pr dbl p ts s)"
  "length str < 2 ^ 31 \<Longrightarrow> stats_run pr dbl default_proto (Show T_STRING # ts) (writeString str @ s) =
    put_text pr (cstr str) (stats_run pr dbl default_proto ts s)"
  by (subst stats_run.simps(3), simp add: show_scalar_def ttype_defs wire_simps then_read_def ret_def rbind_def)+

lemma stats_containers:
  "stats_run pr dbl p (Show T_STRUCT # ts) s =
    put_text pr ''<'' (stats_run pr dbl p (ShowFields # Print (BS # ''>'') # ts) s)"
  "n < 2 ^ 31 \<Longrightarrow> stats_run pr dbl default_proto (Show T_MAP # ts) (writeMapBegin k v (of_nat n) @ s) =
    put_text pr ''{'' (stats_run pr dbl default_proto (ShowPairs n k v # Print (BS # ''}'') # ts) s)"
  "n < 2 ^ 31 \<Longrightarrow> stats_run pr dbl default_proto (Show T_SET # ts) (writeSetBegin e (of_nat n) @ s) =
    put_text pr ''{'' (stats_run pr dbl default_proto (ShowElems n e # Print (BS # ''}'') # ts) s)"
  "n < 2 ^ 31 \<Longrightarrow> stats_run pr dbl default_proto (Show T_LIST # ts) (writeListBegin e (of_nat n) @ s) =
    put_text pr ''['' (stats_run pr dbl default_proto (ShowElems n e # Print (BS # '']'') # ts) s)"
  by (subst stats_run.simps(3), simp add: show_scalar_def ttype_defs wire_simps then_read_def)+

lemma stats_loops:
  "stats_run pr dbl p (Print text # ts) s = put_text pr text (stats_run pr dbl p ts s)"
  "stats_run pr dbl p (ShowFields # ts) (writeFieldStop @ s) = stats_run pr dbl p ts s"
  "t \<noteq> T_STOP \<Longrightarrow> stats_run pr dbl p (ShowFields # ts) (writeFieldBegin t fid @ s) =
    stats_run pr dbl p (Show t # Print '','' # ShowFields # ts) s"
  "stats_run pr dbl p (ShowArgs # ts) (writeFieldStop @ s) = stats_run pr dbl p ts s"
  "t \<noteq> T_STOP \<Longrightarrow> stats_run pr dbl p (ShowArgs # ts) (writeFieldBegin t fid @ s) =
    stats_run pr dbl p (Show t # Print '', '' # ShowArgs # ts) s"
  "stats_run pr dbl p (ShowElems 0 e # ts) s = stats_run pr dbl p ts s"
  "stats_run pr dbl p (ShowElems (Suc n) e # ts) s = stats_run pr dbl p (Show e # Print '','' # ShowElems n e # ts) s"
  "stats_run pr dbl p (ShowPairs 0 k v # ts) s = stats_run pr dbl p ts s"
  "stats_run pr dbl p (ShowPairs (Suc n) k v # ts) s =
    stats_run pr dbl p (Show k # Print ''=>'' # Show v # Print '','' # ShowPairs n k v # ts) s"
  by (subst stats_run.simps(2,4-7), simp add: wire_simps then_read_def)+

lemma stats_encoded:
  "wf_val x \<Longrightarrow> stats_run pr dbl default_proto (Show (type_of x) # ts) (encode x @ s) =
    put_text pr (show_val dbl x) (stats_run pr dbl default_proto ts s)"
  "wf_fields fs \<Longrightarrow> stats_run pr dbl default_proto (ShowFields # ts) (encode_fields fs @ s) =
    put_text pr (show_fields dbl '','' fs) (stats_run pr dbl default_proto ts s)"
  "wf_elems e xs \<Longrightarrow> stats_run pr dbl default_proto (ShowElems (length xs) e # ts) (encode_elems xs @ s) =
    put_text pr (show_elems dbl xs) (stats_run pr dbl default_proto ts s)"
  "wf_pairs k v ps \<Longrightarrow> stats_run pr dbl default_proto (ShowPairs (length ps) k v # ts) (encode_pairs ps @ s) =
    put_text pr (show_pairs dbl ps) (stats_run pr dbl default_proto ts s)"
  by (induction x and fs and xs and ps arbitrary: ts s and ts s and e ts s and k v ts s
      rule: encode_encode_fields_encode_elems_encode_pairs.induct)
    (auto simp: stats_scalars stats_containers stats_loops type_of_not_stop)

lemma stats_args:
  "wf_fields fs \<Longrightarrow> stats_run pr dbl default_proto (ShowArgs # ts) (encode_fields fs @ s) =
    put_text pr (show_fields dbl '', '' fs) (stats_run pr dbl default_proto ts s)"
  by (induction fs arbitrary: s) (auto simp: stats_loops type_of_not_stop stats_encoded(1))

section \<open>Serving calls\<close>

text \<open>The message of a call, and what is printed of it.\<close>

type_synonym stats_call = "string \<times> i32 \<times> (i16 \<times> tval) list"

fun call_bytes :: "stats_call \<Rightarrow> string" where
  "call_bytes (fname, seqid, fs) = writeMessageBegin default_proto fname T_CALL seqid @ encode_fields fs"

fun call_ok :: "stats_call \<Rightarrow> bool" where
  "call_ok (fname, seqid, fs) \<longleftrightarrow> length fname < 2 ^ 31 \<and> wf_fields fs"

fun call_text :: "(i64 \<Rightarrow> string) \<Rightarrow> stats_call \<Rightarrow> string" where
  "call_text dbl (fname, seqid, fs) = cstr fname @ '' ('' @ show_fields dbl '', '' fs @ BS # BS # '')'' @ NL"

lemma stats_process_call:
  assumes "call_ok c"
  shows "stats_process dbl default_proto st (call_bytes c @ s) =
    (case (if stats_frequency st then count_call (fst c) st else Some st) of
       None \<Rightarrow> None
     | Some st' \<Rightarrow> Some (st', if stats_print st then call_text dbl c else [], Inr s))"
proof -
  obtain fname seqid fs where c: "c = (fname, seqid, fs)" by (metis prod.exhaust)
  have "readMessageBegin default_proto (call_bytes c @ s) = Inr ((fname, T_CALL, seqid), encode_fields fs @ s)"
    using readMessageBegin_write [of T_CALL fname seqid "encode_fields fs @ s"] assms by (simp add: c)
  then show ?thesis
    using assms
    by (auto simp: stats_process_def c stats_args stats_loops stats_run.simps(1) put_text_def split: option.splits)
qed

text \<open>A server that hands every request to the processor.\<close>

fun stats_serve :: "(i64 \<Rightarrow> string) \<Rightarrow> nat \<Rightarrow> StatsProcessor \<Rightarrow> string
    \<Rightarrow> (StatsProcessor \<times> string \<times> (stats_exception + string)) ub" where
  "stats_serve dbl 0 st s = Some (st, [], Inr s)"
| "stats_serve dbl (Suc n) st s = (case stats_process dbl default_proto st s of
     Some (st', out, Inr t) \<Rightarrow> map_option (\<lambda>(st2, out2, r). (st2, out @ out2, r)) (stats_serve dbl n st' t)
   | r \<Rightarrow> r)"

definition calls_of :: "string \<Rightarrow> stats_call list \<Rightarrow> nat" where
  "calls_of fname cs = count_list (map fst cs) fname"

fun count_is :: "i64 option \<Rightarrow> nat \<Rightarrow> bool" where
  "count_is None m \<longleftrightarrow> m = 0"
| "count_is (Some k) m \<longleftrightarrow> 0 < m \<and> sint k = int m"

definition counts :: "StatsProcessor \<Rightarrow> (string \<Rightarrow> nat) \<Rightarrow> bool" where
  "counts st n \<longleftrightarrow> (\<forall>f. count_is (frequency_map st f) (n f))"

lemma count_call_counts:
  assumes "counts st n" and "n f + 1 < 2 ^ 63"
  shows "\<exists>st'. count_call f st = Some st' \<and> counts st' (n(f := n f + 1))
    \<and> stats_print st' = stats_print st \<and> stats_frequency st' = stats_frequency st"
proof (cases "frequency_map st f")
  case None
  then have "n f = 0"
    using spec [OF assms(1) [unfolded counts_def], of f] by simp
  with None have "count_call f st = Some (st\<lparr>frequency_map := (frequency_map st)(f \<mapsto> 1)\<rparr>)"
      and "counts (st\<lparr>frequency_map := (frequency_map st)(f \<mapsto> 1)\<rparr>) (n(f := n f + 1))"
    using assms(1) by (simp_all add: count_call_def counts_def)
  then show ?thesis by simp
next
  case (Some k)
  then have k: "sint k = int (n f)" "0 < n f"
    using spec [OF assms(1) [unfolded counts_def], of f] by simp_all
  have "sint (k + 1) = int (n f + 1)"
    using k assms(2) by (simp add: signed_take_bit_int_eq_self sint_word_ariths)
  then have "counts (st\<lparr>frequency_map := (frequency_map st)(f \<mapsto> k + 1)\<rparr>) (n(f := n f + 1))"
    using assms(1) by (simp add: counts_def)
  moreover have "count_call f st = Some (st\<lparr>frequency_map := (frequency_map st)(f \<mapsto> k + 1)\<rparr>)"
    using Some k assms(2) by (simp add: count_call_def)
  ultimately show ?thesis by simp
qed

lemma stats_serve_calls:
  assumes "list_all call_ok cs" and "counts st n" and "\<forall>f. n f + length cs < 2 ^ 63" and "stats_frequency st"
  shows "\<exists>st'. stats_serve dbl (length cs) st (concat (map call_bytes cs) @ s) =
      Some (st', if stats_print st then concat (map (call_text dbl) cs) else [], Inr s)
    \<and> counts st' (\<lambda>f. n f + calls_of f cs)"
  using assms
proof (induction cs arbitrary: st n)
  case Nil
  then show ?case by (simp add: calls_of_def)
next
  case (Cons c cs)
  have "n (fst c) + 1 < 2 ^ 63"
    using Cons.prems(3) by (metis Suc_eq_plus1 add_leD1 add_le_cancel_left le_add1 length_Cons not_le order_le_less_trans plus_1_eq_Suc)
  from count_call_counts [OF Cons.prems(2) this] obtain st1 where st1: "count_call (fst c) st = Some st1"
      "counts st1 (n(fst c := n (fst c) + 1))" "stats_print st1 = stats_print st" "stats_frequency st1"
    using Cons.prems(4) by auto
  have "\<forall>f. (n(fst c := n (fst c) + 1)) f + length cs < 2 ^ 63"
    using Cons.prems(3) by (auto simp: less_Suc_eq intro: Suc_lessD)
  from Cons.IH [OF _ st1(2) this st1(4)] Cons.prems(1) obtain st2 where
    "stats_serve dbl (length cs) st1 (concat (map call_bytes cs) @ s) =
      Some (st2, if stats_print st then concat (map (call_text dbl) cs) else [], Inr s)"
    "counts st2 (\<lambda>f. (n(fst c := n (fst c) + 1)) f + calls_of f cs)"
    using st1(3) by auto
  moreover have "(\<lambda>f. (n(fst c := n (fst c) + 1)) f + calls_of f cs) = (\<lambda>f. n f + calls_of f (c # cs))"
    by (auto simp: calls_of_def fun_eq_iff)
  moreover have "stats_process dbl default_proto st (call_bytes c @ concat (map call_bytes cs) @ s) =
      Some (st1, if stats_print st then call_text dbl c else [], Inr (concat (map call_bytes cs) @ s))"
    using stats_process_call [of c dbl st "concat (map call_bytes cs) @ s"] Cons.prems(1,4) st1(1) by simp
  ultimately show ?case
    using st1(3) by (simp only: list.size concat.simps list.map append_assoc stats_serve.simps add_Suc_right add_0_right plus_nat.add_0) simp
qed

section \<open>The property\<close>

text \<open>On any bytes: the arguments of a call are read as skipping a struct reads them.\<close>

lemma stats_reads_like_skip:
  assumes "readMessageBegin p s = Inr ((fname, T_CALL, seqid), t)" and "stats_process dbl p st s = Some (st', out, r)"
  shows "r = map_sum Stats_protocol id (bytes_left (skip_run p [SkipFields] t))"
  using assms by (auto simp: stats_process_def Let_def stats_run_skips split: option.splits)

text \<open>C25. The statistics of a server: whatever calls with arguments of any types arrive, the processor
  takes exactly their bytes, counts under the name of each method how often it was called, and
  prints the calls in order with all their arguments, or nothing.\<close>

theorem stats_counts_calls:
  assumes "list_all call_ok cs" and "length cs < 2 ^ 63"
  shows "\<exists>st. stats_serve dbl (length cs) (StatsProcessor_new pr True) (concat (map call_bytes cs) @ s) =
      Some (st, if pr then concat (map (call_text dbl) cs) else [], Inr s)
    \<and> (\<forall>f. count_is (get_frequency_map st f) (calls_of f cs))"
proof -
  have "counts (StatsProcessor_new pr True) (\<lambda>_. 0)"
    by (simp add: counts_def StatsProcessor_new_def)
  from stats_serve_calls [OF assms(1) this, of dbl s] assms(2) show ?thesis
    by (simp add: StatsProcessor_new_def counts_def get_frequency_map_def)
qed

lemma stats_counts_calls_witness:
  "\<exists>st. stats_serve (\<lambda>_. ''0.0'') (Suc (Suc 0)) (StatsProcessor_new True True)
      (call_bytes (''get'', 0, [(1, VString ''k'')]) @ call_bytes (''get'', 0, [(1, VBool True)])) =
      Some (st, ''get (k, '' @ BS # BS # '')'' @ NL @ ''get (1, '' @ BS # BS # '')'' @ NL, Inr [])
    \<and> count_is (get_frequency_map st ''get'') (Suc (Suc 0))"
proof -
  let ?cs = "[(''get'', 0, [(1, VString ''k'')]), (''get'', 0, [(1, VBool True)])] :: stats_call list"
  obtain st where st: "stats_serve (\<lambda>_. ''0.0'') (length ?cs) (StatsProcessor_new True True) (concat (map call_bytes ?cs) @ []) =
      Some (st, concat (map (call_text (\<lambda>_. ''0.0'')) ?cs), Inr [])"
    "count_is (get_frequency_map st ''get'') (calls_of ''get'' ?cs)"
    using stats_counts_calls [of ?cs "\<lambda>_. ''0.0''" True "[]"] by auto
  have "calls_of ''get'' ?cs = Suc (Suc 0)"
    by (simp add: calls_of_def)
  moreover have "concat (map (call_text (\<lambda>_. ''0.0'')) ?cs) =
      ''get (k, '' @ BS # BS # '')'' @ NL @ ''get (1, '' @ BS # BS # '')'' @ NL"
    by (simp add: cstr_def)
  ultimately show ?thesis
    using st by (simp del: call_bytes.simps stats_serve.simps call_text.simps)
qed

end
