(* ===== verification/Times.thy ===== *)
theory Times
  imports OZPrelude "HOL-Library.Signed_Division"
begin

text \<open>
  The conversions between times and numbers of ticks (src/include_deps/thrift/concurrency/Util.h).
  Numbers are signed with 64 bits: a result that does not fit is undefined, as is division by zero,
  and division truncates.
\<close>

section \<open>Signed numbers with 64 bits\<close>

definition fits64 :: "int \<Rightarrow> int ub" where
  "fits64 i = (if - (2 ^ 63) \<le> i \<and> i < 2 ^ 63 then Some i else None)"

definition mul64 :: "int \<Rightarrow> int \<Rightarrow> int ub" where
  "mul64 a b = fits64 (a * b)"

definition add64 :: "int \<Rightarrow> int \<Rightarrow> int ub" where
  "add64 a b = fits64 (a + b)"

definition div64 :: "int \<Rightarrow> int \<Rightarrow> int ub" where
  "div64 a b = (if b = 0 then None else fits64 (a sdiv b))"

definition mod64 :: "int \<Rightarrow> int \<Rightarrow> int ub" where
  "mod64 a b = (if b = 0 \<or> fits64 (a sdiv b) = None then None else Some (a smod b))"

lemma fits64_Some: "- (2 ^ 63) \<le> i \<Longrightarrow> i < 2 ^ 63 \<Longrightarrow> fits64 i = Some i"
  by (simp add: fits64_def)

lemmas arith64_defs = mul64_def add64_def div64_def mod64_def

section \<open>Conversions\<close>

definition NS_PER_S :: int where "NS_PER_S = 1000000000"
definition US_PER_S :: int where "US_PER_S = 1000000"
definition MS_PER_S :: int where "MS_PER_S = 1000"
definition NS_PER_MS :: int where "NS_PER_MS = NS_PER_S sdiv MS_PER_S"
definition US_PER_MS :: int where "US_PER_MS = US_PER_S sdiv MS_PER_S"

lemmas per_defs = NS_PER_S_def US_PER_S_def MS_PER_S_def NS_PER_MS_def US_PER_MS_def

record timespec =
  tv_sec :: int
  tv_nsec :: int

record timeval =
  val_sec :: int
  tv_usec :: int

definition toTimespec :: "int \<Rightarrow> timespec ub" where
  "toTimespec ms = do {
     s \<leftarrow> div64 ms MS_PER_S;
     r \<leftarrow> mod64 ms MS_PER_S;
     n \<leftarrow> mul64 r NS_PER_MS;
     Some \<lparr>tv_sec = s, tv_nsec = n\<rparr> }"

definition toTimeval :: "int \<Rightarrow> timeval ub" where
  "toTimeval ms = do {
     s \<leftarrow> div64 ms MS_PER_S;
     r \<leftarrow> mod64 ms MS_PER_S;
     u \<leftarrow> mul64 r US_PER_MS;
     Some \<lparr>val_sec = s, tv_usec = u\<rparr> }"

definition toTicks :: "int \<Rightarrow> int \<Rightarrow> int \<Rightarrow> int \<Rightarrow> int ub" where
  "toTicks secs oldTicks oldTicksPerSec newTicksPerSec = do {
     result \<leftarrow> mul64 secs newTicksPerSec;
     ticks \<leftarrow> mul64 oldTicks newTicksPerSec;
     part \<leftarrow> div64 ticks oldTicksPerSec;
     result \<leftarrow> add64 result part;
     oldPerNew \<leftarrow> div64 oldTicksPerSec newTicksPerSec;
     if oldPerNew = 0 then Some result
     else do {
       rest \<leftarrow> mod64 oldTicks oldPerNew;
       half \<leftarrow> div64 oldPerNew 2;
       if half \<le> rest then add64 result 1 else Some result } }"

definition toTicks_timespec :: "timespec \<Rightarrow> int \<Rightarrow> int ub" where
  "toTicks_timespec t ticksPerSec = toTicks (tv_sec t) (tv_nsec t) NS_PER_S ticksPerSec"

definition toTicks_timeval :: "timeval \<Rightarrow> int \<Rightarrow> int ub" where
  "toTicks_timeval t ticksPerSec = toTicks (val_sec t) (tv_usec t) US_PER_S ticksPerSec"

definition toMilliseconds_timespec :: "timespec \<Rightarrow> int ub" where
  "toMilliseconds_timespec t = toTicks_timespec t MS_PER_S"

definition toMilliseconds_timeval :: "timeval \<Rightarrow> int ub" where
  "toMilliseconds_timeval t = toTicks_timeval t MS_PER_S"

definition toUsec_timespec :: "timespec \<Rightarrow> int ub" where
  "toUsec_timespec t = toTicks_timespec t US_PER_S"

definition toUsec_timeval :: "timeval \<Rightarrow> int ub" where
  "toUsec_timeval t = toTicks_timeval t US_PER_S"

text \<open>The clock itself is code of the compiled library.\<close>

definition currentTime :: "(int \<Rightarrow> int) \<Rightarrow> int" where
  "currentTime currentTimeTicks = currentTimeTicks MS_PER_S"

definition currentTimeUsec :: "(int \<Rightarrow> int) \<Rightarrow> int" where
  "currentTimeUsec currentTimeTicks = currentTimeTicks US_PER_S"

section \<open>There and back\<close>

text \<open>Truncated division by a positive number.\<close>

lemma sdiv_by: "0 < b \<Longrightarrow> a sdiv b = (if 0 \<le> a then a div b else - (- a div b))" for a b :: int
  by (simp add: signed_divide_int_def sgn_if)

lemma smod_by: "0 < b \<Longrightarrow> a smod b = (if 0 \<le> a then a mod b else - (- a mod b))" for a b :: int
  by (simp add: signed_modulo_int_def sgn_if)



lemmas ticks_defs = toTimespec_def toTimeval_def toTicks_timespec_def toTicks_timeval_def
  toMilliseconds_timespec_def toMilliseconds_timeval_def toUsec_timespec_def toUsec_timeval_def
  toTicks_def arith64_defs per_defs




text \<open>When the ticks stay the same, nothing is to be rounded, but one is added.\<close>

lemma same_ticks_add_one:
  assumes "0 \<le> s" and "s < 2 ^ 32" and "0 \<le> u" and "u < 10 ^ 6"
  shows "toUsec_timeval \<lparr>val_sec = s, tv_usec = u\<rparr> = Some (s * 1000000 + u + 1)"
  using assms by (simp add: ticks_defs sdiv_by smod_by fits64_Some)



end
