(* ===== verification/ServerBase.thy ===== *)
theory ServerBase
  imports Wire
begin

text \<open>
  The object that all servers of the RPC library have (src/include_deps/thrift/server/TServer.h): what
  it serves and how it makes transports and protocols of a connection; and the small tools of
  Thrift.h: the iterator over the names of an enumeration, the output of messages, and exceptions
  that are thrown later.
\<close>

section \<open>Servers\<close>

text \<open>
  A factory is what it makes of a transport: the default one gives the transport back
  (\<open>TTransportFactory\<close>), the binary one a protocol on it without limits.  A member that may be
  null is an \<open>option\<close>.
\<close>

type_synonym 't transport_factory = "'t \<Rightarrow> 't"
type_synonym 't protocol_factory = "'t \<Rightarrow> 't \<times> proto"

definition TTransportFactory_getTransport :: "'t transport_factory" where
  "TTransportFactory_getTransport transport = transport"

definition TBinaryProtocolFactory_getProtocol :: "'t protocol_factory" where
  "TBinaryProtocolFactory_getProtocol transport = (transport, default_proto)"

record ('p, 's, 't, 'e) TServer =
  sv_processor :: 'p
  sv_serverTransport :: "'s option"
  sv_inputTransportFactory :: "'t transport_factory"
  sv_outputTransportFactory :: "'t transport_factory"
  sv_inputProtocolFactory :: "'t protocol_factory"
  sv_outputProtocolFactory :: "'t protocol_factory"
  sv_eventHandler :: "'e option"

definition TServer_new :: "'p \<Rightarrow> ('p, 's, 't, 'e) TServer" where
  "TServer_new processor = \<lparr>sv_processor = processor, sv_serverTransport = None,
     sv_inputTransportFactory = TTransportFactory_getTransport, sv_outputTransportFactory = TTransportFactory_getTransport,
     sv_inputProtocolFactory = TBinaryProtocolFactory_getProtocol, sv_outputProtocolFactory = TBinaryProtocolFactory_getProtocol,
     sv_eventHandler = None\<rparr>"

definition TServer_over :: "'p \<Rightarrow> 's \<Rightarrow> ('p, 's, 't, 'e) TServer" where
  "TServer_over processor serverTransport = \<lparr>sv_processor = processor, sv_serverTransport = Some serverTransport,
     sv_inputTransportFactory = TTransportFactory_getTransport, sv_outputTransportFactory = TTransportFactory_getTransport,
     sv_inputProtocolFactory = TBinaryProtocolFactory_getProtocol, sv_outputProtocolFactory = TBinaryProtocolFactory_getProtocol,
     sv_eventHandler = None\<rparr>"

definition TServer_with :: "'p \<Rightarrow> 's \<Rightarrow> 't transport_factory \<Rightarrow> 't protocol_factory \<Rightarrow> ('p, 's, 't, 'e) TServer" where
  "TServer_with processor serverTransport transportFactory protocolFactory =
     \<lparr>sv_processor = processor, sv_serverTransport = Some serverTransport,
      sv_inputTransportFactory = transportFactory, sv_outputTransportFactory = transportFactory,
      sv_inputProtocolFactory = protocolFactory, sv_outputProtocolFactory = protocolFactory, sv_eventHandler = None\<rparr>"

definition TServer_full :: "'p \<Rightarrow> 's \<Rightarrow> 't transport_factory \<Rightarrow> 't transport_factory \<Rightarrow> 't protocol_factory
    \<Rightarrow> 't protocol_factory \<Rightarrow> ('p, 's, 't, 'e) TServer" where
  "TServer_full processor serverTransport itf otf ipf opf =
     \<lparr>sv_processor = processor, sv_serverTransport = Some serverTransport,
      sv_inputTransportFactory = itf, sv_outputTransportFactory = otf,
      sv_inputProtocolFactory = ipf, sv_outputProtocolFactory = opf, sv_eventHandler = None\<rparr>"

text \<open>The setters work on every server, that is on every extension of the record.\<close>

type_synonym ('p, 's, 't, 'e, 'z) server = "('p, 's, 't, 'e, 'z) TServer_scheme"

definition setInputTransportFactory :: "'t transport_factory \<Rightarrow> ('p, 's, 't, 'e, 'z) server \<Rightarrow> ('p, 's, 't, 'e, 'z) server" where
  "setInputTransportFactory f s = s\<lparr>sv_inputTransportFactory := f\<rparr>"

definition setOutputTransportFactory :: "'t transport_factory \<Rightarrow> ('p, 's, 't, 'e, 'z) server \<Rightarrow> ('p, 's, 't, 'e, 'z) server" where
  "setOutputTransportFactory f s = s\<lparr>sv_outputTransportFactory := f\<rparr>"

definition setInputProtocolFactory :: "'t protocol_factory \<Rightarrow> ('p, 's, 't, 'e, 'z) server \<Rightarrow> ('p, 's, 't, 'e, 'z) server" where
  "setInputProtocolFactory f s = s\<lparr>sv_inputProtocolFactory := f\<rparr>"

definition setOutputProtocolFactory :: "'t protocol_factory \<Rightarrow> ('p, 's, 't, 'e, 'z) server \<Rightarrow> ('p, 's, 't, 'e, 'z) server" where
  "setOutputProtocolFactory f s = s\<lparr>sv_outputProtocolFactory := f\<rparr>"

definition setServerEventHandler :: "'e \<Rightarrow> ('p, 's, 't, 'e, 'z) server \<Rightarrow> ('p, 's, 't, 'e, 'z) server" where
  "setServerEventHandler h s = s\<lparr>sv_eventHandler := Some h\<rparr>"

lemmas server_setter_defs = setInputTransportFactory_def setOutputTransportFactory_def setInputProtocolFactory_def
  setOutputProtocolFactory_def setServerEventHandler_def

text \<open>The shorter constructors are the long one with the defaults.\<close>

lemma constructors_agree:
  "TServer_with p st tf pf = TServer_full p st tf tf pf pf"
  "TServer_over p st = TServer_with p st TTransportFactory_getTransport TBinaryProtocolFactory_getProtocol"
  "(TServer_new p :: ('p, 's, 't, 'e) TServer)\<lparr>sv_serverTransport := Some st\<rparr> = TServer_over p st"
  by (simp_all add: TServer_new_def TServer_over_def TServer_with_def TServer_full_def)

section \<open>The names of an enumeration\<close>

record TEnumIterator =
  enum_ii :: int
  enum_n :: int
  enum_values :: "int list"
  enum_names :: "string list"

definition TEnumIterator_new :: "int \<Rightarrow> int list \<Rightarrow> string list \<Rightarrow> TEnumIterator" where
  "TEnumIterator_new n enums names = \<lparr>enum_ii = 0, enum_n = n, enum_values = enums, enum_names = names\<rparr>"

definition enum_next :: "TEnumIterator \<Rightarrow> TEnumIterator ub" where
  "enum_next it = (if enum_ii it < 2 ^ 31 - 1 then Some (it\<lparr>enum_ii := enum_ii it + 1\<rparr>) else None)"

text \<open>A failed assertion and an access outside of the arrays are \<open>None\<close>.\<close>

definition enum_differs :: "TEnumIterator \<Rightarrow> TEnumIterator \<Rightarrow> bool ub" where
  "enum_differs it stop = (if enum_n stop = -1 then Some (enum_ii it \<noteq> enum_n it) else None)"

definition enum_deref :: "TEnumIterator \<Rightarrow> (int \<times> string) ub" where
  "enum_deref it = (let i = enum_ii it in
     if 0 \<le> i \<and> nat i < length (enum_values it) \<and> nat i < length (enum_names it)
     then Some (enum_values it ! nat i, enum_names it ! nat i) else None)"

text \<open>What a container that is filled from two iterators goes through; the number bounds the steps.\<close>

fun enum_pairs :: "nat \<Rightarrow> TEnumIterator \<Rightarrow> TEnumIterator \<Rightarrow> (int \<times> string) list option ub" where
  "enum_pairs 0 it stop = Some None"
| "enum_pairs (Suc k) it stop = do {
     more \<leftarrow> enum_differs it stop;
     if \<not> more then Some (Some [])
     else do {
       x \<leftarrow> enum_deref it;
       it' \<leftarrow> enum_next it;
       map_option (map_option (Cons x)) (enum_pairs k it' stop) } }"

lemma enum_pairs_from:
  assumes "enum_n stop = -1" and "enum_ii it = int i" and "enum_n it = int n" and "i \<le> n" and "n < 2 ^ 31"
    and "length (enum_values it) = n" and "length (enum_names it) = n" and "n - i < k"
  shows "enum_pairs k it stop = Some (Some (drop i (zip (enum_values it) (enum_names it))))"
  using assms(2-)
proof (induction k arbitrary: it i)
  case (Suc k)
  show ?case
  proof (cases "i = n")
    case True
    then show ?thesis
      using Suc.prems assms(1) by (simp add: enum_differs_def)
  next
    case False
    let ?it = "it\<lparr>enum_ii := int i + 1\<rparr>"
    have i: "i < n"
      using False Suc.prems(3) by simp
    have "enum_pairs k ?it stop = Some (Some (drop (Suc i) (zip (enum_values ?it) (enum_names ?it))))"
      using Suc.prems i by (intro Suc.IH) auto
    moreover have "drop i (zip (enum_values it) (enum_names it)) =
        (enum_values it ! i, enum_names it ! i) # drop (Suc i) (zip (enum_values it) (enum_names it))"
      using i Suc.prems(5,6) by (subst Cons_nth_drop_Suc [symmetric]) simp_all
    ultimately show ?thesis
      using Suc.prems i assms(1) by (simp add: enum_differs_def enum_deref_def enum_next_def)
  qed
qed simp

text \<open>The iterators that generated code makes give every value with its name, in order.\<close>

lemma enum_pairs_all:
  assumes "length enums = n" and "length names = n" and "n < 2 ^ 31"
  shows "enum_pairs (Suc n) (TEnumIterator_new (int n) enums names) (TEnumIterator_new (-1) [] []) =
    Some (Some (zip enums names))"
  using enum_pairs_from [of "TEnumIterator_new (-1) [] []" "TEnumIterator_new (int n) enums names" 0 n "Suc n"] assms
  by (simp add: TEnumIterator_new_def)

section \<open>Messages\<close>

text \<open>
  The output function takes what was printed and a message.  \<open>ctime\<close> is the text of the time that
  \<open>ctime_r\<close> writes, 24 characters, a newline and a NUL; the newline is cut.
\<close>

type_synonym output_fun = "string \<Rightarrow> string \<Rightarrow> string"

definition errorTimeWrapper :: "string \<Rightarrow> output_fun" where
  "errorTimeWrapper dbgtime stderr msg =
     stderr @ ''Thrift: '' @ cstr (dbgtime[24 := CHR 0x00]) @ '' '' @ cstr msg @ [CHR 0x0A]"

definition TOutput_new :: "string \<Rightarrow> output_fun" where
  "TOutput_new dbgtime = errorTimeWrapper dbgtime"

definition setOutputFunction :: "output_fun \<Rightarrow> output_fun \<Rightarrow> output_fun" where
  "setOutputFunction f old = f"

lemma errorTimeWrapper_text:
  assumes "length date = 24" and "nul_free date" and "nul_free msg"
  shows "TOutput_new (date @ [CHR 0x0A, CHR 0x00]) stderr msg = stderr @ ''Thrift: '' @ date @ '' '' @ msg @ [CHR 0x0A]"
  using assms
  by (simp add: TOutput_new_def errorTimeWrapper_def list_update_append cstr_id)

section \<open>Exceptions that are thrown later\<close>

text \<open>The wrapper is on the heap: it is deleted when it throws, and must not be used again.\<close>

record 'e wrappers =
  wrapped :: "nat \<Rightarrow> 'e option"
  next_wrapper :: nat

definition delayException :: "'e \<Rightarrow> 'e wrappers \<Rightarrow> nat \<times> 'e wrappers" where
  "delayException e h = (next_wrapper h,
     h\<lparr>wrapped := (wrapped h)(next_wrapper h \<mapsto> e), next_wrapper := Suc (next_wrapper h)\<rparr>)"

definition throw_it :: "nat \<Rightarrow> 'e wrappers \<Rightarrow> ('e \<times> 'e wrappers) ub" where
  "throw_it a h = (case wrapped h a of
     None \<Rightarrow> None
   | Some e \<Rightarrow> Some (e, h\<lparr>wrapped := (wrapped h)(a := None)\<rparr>))"

lemma thrown_once:
  assumes "delayException e h = (a, h1)" and "wrapped h (next_wrapper h) = None"
  shows "\<exists>h2. throw_it a h1 = Some (e, h2) \<and> wrapped h2 = wrapped h \<and> throw_it a h2 = None"
  using assms by (auto simp: delayException_def throw_it_def fun_upd_idem)

end
