(* ===== verification/NonblockingServer.thy ===== *)
theory NonblockingServer
  imports MemoryQueue ServerBase Complex_Main
begin

text \<open>
  The inline part of the non-blocking server and of its connections
  (src/include_deps/thrift/server/TNonblockingServer.h): the configuration, the counters, the life
  of a connection with its buffers, and the pipe by which other threads wake the event loop.  The
  loop itself, \<open>init\<close> and \<open>transition\<close> of a connection are code of the compiled library.
\<close>

section \<open>The server object\<close>

datatype TOverloadAction = T_OVERLOAD_NO_ACTION | T_OVERLOAD_CLOSE_ON_ACCEPT | T_OVERLOAD_DRAIN_TASK_QUEUE

text \<open>
  A \<open>double\<close> is a real number, or \<open>None\<close> when it is none.  The flag \<open>threadPoolProcessing_\<close> may be
  indeterminate.  The members that only compiled code works with are left out: the events of libevent,
  the descriptors of the pipe and the stack of idle connections.
\<close>

record ('p, 's, 't, 'e, 'm) TNonblockingServer = "('p, 's, 't, 'e) TServer" +
  nb_serverSocket :: int
  nb_port :: int
  nb_threadManager :: "'m option"
  nb_threadPoolProcessing :: "bool option"
  ownEventBase :: bool
  numTConnections :: "64 word"
  numActiveProcessors :: "64 word"
  connectionStackLimit :: "64 word"
  maxActiveProcessors :: "64 word"
  maxConnections :: "64 word"
  taskExpireTime :: i64
  overloadHysteresis :: "real option"
  overloadAction :: TOverloadAction
  writeBufferDefaultSize :: "64 word"
  idleReadBufferLimit :: "64 word"
  idleWriteBufferLimit :: "64 word"
  resizeBufferEveryN :: i32
  nb_overloaded :: bool
  nConnectionsDropped :: u32
  nTotalConnectionsDropped :: "64 word"

definition CONNECTION_STACK_LIMIT :: "64 word" where "CONNECTION_STACK_LIMIT = 1024"
definition MAX_CONNECTIONS :: int where "MAX_CONNECTIONS = 2147483647"
definition MAX_ACTIVE_PROCESSORS :: int where "MAX_ACTIVE_PROCESSORS = 2147483647"
definition WRITE_BUFFER_DEFAULT_SIZE :: int where "WRITE_BUFFER_DEFAULT_SIZE = 1024"
definition IDLE_READ_BUFFER_LIMIT :: int where "IDLE_READ_BUFFER_LIMIT = 1024"
definition IDLE_WRITE_BUFFER_LIMIT :: int where "IDLE_WRITE_BUFFER_LIMIT = 1024"
definition RESIZE_BUFFER_EVERY_N :: int where "RESIZE_BUFFER_EVERY_N = 512"

text \<open>\<open>base\<close> is what the constructor of the base class makes.\<close>

definition nonblocking_with :: "('p, 's, 't, 'e) TServer \<Rightarrow> int \<Rightarrow> 'm option \<Rightarrow> bool option
    \<Rightarrow> ('p, 's, 't, 'e, 'm) TNonblockingServer" where
  "nonblocking_with base port threadManager processing = TServer.extend base (TNonblockingServer.fields
     (- 1) port threadManager processing False 0 0 CONNECTION_STACK_LIMIT (of_int MAX_ACTIVE_PROCESSORS)
     (of_int MAX_CONNECTIONS) 0 (Some (8 / 10)) T_OVERLOAD_NO_ACTION (of_int WRITE_BUFFER_DEFAULT_SIZE)
     (of_int IDLE_READ_BUFFER_LIMIT) (of_int IDLE_WRITE_BUFFER_LIMIT) (of_int RESIZE_BUFFER_EVERY_N) False 0 0)"

definition TNonblockingServer_new :: "'p \<Rightarrow> int \<Rightarrow> ('p, 's, 't, 'e, 'm) TNonblockingServer" where
  "TNonblockingServer_new processor port = nonblocking_with (TServer_new processor) port None (Some False)"

text \<open>The other constructors leave the flag alone and call \<open>setThreadManager\<close>, which is compiled.\<close>

definition TNonblockingServer_managed :: "('m option \<Rightarrow> ('p, 's, 't, 'e, 'm) TNonblockingServer
    \<Rightarrow> ('p, 's, 't, 'e, 'm) TNonblockingServer) \<Rightarrow> 'p \<Rightarrow> 't protocol_factory \<Rightarrow> int \<Rightarrow> 'm option
    \<Rightarrow> ('p, 's, 't, 'e, 'm) TNonblockingServer" where
  "TNonblockingServer_managed setThreadManager processor protocolFactory port threadManager =
     setThreadManager threadManager
      (setOutputProtocolFactory protocolFactory
      (setInputProtocolFactory protocolFactory
      (setOutputTransportFactory TTransportFactory_getTransport
      (setInputTransportFactory TTransportFactory_getTransport
        (nonblocking_with (TServer_new processor) port threadManager None)))))"

definition TNonblockingServer_full :: "('m option \<Rightarrow> ('p, 's, 't, 'e, 'm) TNonblockingServer
    \<Rightarrow> ('p, 's, 't, 'e, 'm) TNonblockingServer) \<Rightarrow> 'p \<Rightarrow> 't transport_factory \<Rightarrow> 't transport_factory
    \<Rightarrow> 't protocol_factory \<Rightarrow> 't protocol_factory \<Rightarrow> int \<Rightarrow> 'm option \<Rightarrow> ('p, 's, 't, 'e, 'm) TNonblockingServer" where
  "TNonblockingServer_full setThreadManager processor itf otf ipf opf port threadManager =
     setThreadManager threadManager
      (setOutputProtocolFactory opf
      (setInputProtocolFactory ipf
      (setOutputTransportFactory otf
      (setInputTransportFactory itf
        (nonblocking_with (TServer_new processor) port threadManager None)))))"

lemmas nonblocking_defs = TNonblockingServer_new_def nonblocking_with_def TServer_new_def TServer.extend_def
  TNonblockingServer.fields_def

definition incrementNumConnections :: "('p, 's, 't, 'e, 'm) TNonblockingServer \<Rightarrow> ('p, 's, 't, 'e, 'm) TNonblockingServer" where
  "incrementNumConnections s = s\<lparr>numTConnections := numTConnections s + 1\<rparr>"

definition decrementNumConnections :: "('p, 's, 't, 'e, 'm) TNonblockingServer \<Rightarrow> ('p, 's, 't, 'e, 'm) TNonblockingServer" where
  "decrementNumConnections s = s\<lparr>numTConnections := numTConnections s - 1\<rparr>"

definition incrementActiveProcessors :: "('p, 's, 't, 'e, 'm) TNonblockingServer \<Rightarrow> ('p, 's, 't, 'e, 'm) TNonblockingServer" where
  "incrementActiveProcessors s = s\<lparr>numActiveProcessors := numActiveProcessors s + 1\<rparr>"

definition decrementActiveProcessors :: "('p, 's, 't, 'e, 'm) TNonblockingServer \<Rightarrow> ('p, 's, 't, 'e, 'm) TNonblockingServer" where
  "decrementActiveProcessors s =
     (if 0 < numActiveProcessors s then s\<lparr>numActiveProcessors := numActiveProcessors s - 1\<rparr> else s)"

definition setOverloadHysteresis :: "real option \<Rightarrow> ('p, 's, 't, 'e, 'm) TNonblockingServer \<Rightarrow> ('p, 's, 't, 'e, 'm) TNonblockingServer" where
  "setOverloadHysteresis hysteresisFraction s = (case hysteresisFraction of
     None \<Rightarrow> s
   | Some f \<Rightarrow> if f \<le> 1 \<and> 0 < f then s\<lparr>overloadHysteresis := Some f\<rparr> else s)"

text \<open>The other settings are stored as they are.\<close>

definition setConnectionStackLimit :: "64 word \<Rightarrow> ('p, 's, 't, 'e, 'm) TNonblockingServer \<Rightarrow> ('p, 's, 't, 'e, 'm) TNonblockingServer" where
  "setConnectionStackLimit sz s = s\<lparr>connectionStackLimit := sz\<rparr>"

definition setMaxConnections :: "64 word \<Rightarrow> ('p, 's, 't, 'e, 'm) TNonblockingServer \<Rightarrow> ('p, 's, 't, 'e, 'm) TNonblockingServer" where
  "setMaxConnections n s = s\<lparr>maxConnections := n\<rparr>"

definition setMaxActiveProcessors :: "64 word \<Rightarrow> ('p, 's, 't, 'e, 'm) TNonblockingServer \<Rightarrow> ('p, 's, 't, 'e, 'm) TNonblockingServer" where
  "setMaxActiveProcessors n s = s\<lparr>maxActiveProcessors := n\<rparr>"

definition setOverloadAction :: "TOverloadAction \<Rightarrow> ('p, 's, 't, 'e, 'm) TNonblockingServer \<Rightarrow> ('p, 's, 't, 'e, 'm) TNonblockingServer" where
  "setOverloadAction a s = s\<lparr>overloadAction := a\<rparr>"

definition setTaskExpireTime :: "i64 \<Rightarrow> ('p, 's, 't, 'e, 'm) TNonblockingServer \<Rightarrow> ('p, 's, 't, 'e, 'm) TNonblockingServer" where
  "setTaskExpireTime t s = s\<lparr>taskExpireTime := t\<rparr>"

definition setWriteBufferDefaultSize :: "64 word \<Rightarrow> ('p, 's, 't, 'e, 'm) TNonblockingServer \<Rightarrow> ('p, 's, 't, 'e, 'm) TNonblockingServer" where
  "setWriteBufferDefaultSize sz s = s\<lparr>writeBufferDefaultSize := sz\<rparr>"

definition setIdleReadBufferLimit :: "64 word \<Rightarrow> ('p, 's, 't, 'e, 'm) TNonblockingServer \<Rightarrow> ('p, 's, 't, 'e, 'm) TNonblockingServer" where
  "setIdleReadBufferLimit limit s = s\<lparr>idleReadBufferLimit := limit\<rparr>"

definition setIdleWriteBufferLimit :: "64 word \<Rightarrow> ('p, 's, 't, 'e, 'm) TNonblockingServer \<Rightarrow> ('p, 's, 't, 'e, 'm) TNonblockingServer" where
  "setIdleWriteBufferLimit limit s = s\<lparr>idleWriteBufferLimit := limit\<rparr>"

definition setResizeBufferEveryN :: "i32 \<Rightarrow> ('p, 's, 't, 'e, 'm) TNonblockingServer \<Rightarrow> ('p, 's, 't, 'e, 'm) TNonblockingServer" where
  "setResizeBufferEveryN n s = s\<lparr>resizeBufferEveryN := n\<rparr>"

lemmas setting_defs = setConnectionStackLimit_def setMaxConnections_def setMaxActiveProcessors_def setOverloadAction_def setTaskExpireTime_def
  setWriteBufferDefaultSize_def setIdleReadBufferLimit_def setIdleWriteBufferLimit_def setResizeBufferEveryN_def

datatype nb_setting =
  ConnectionStackLimit "64 word"
| MaxConnections "64 word"
| MaxActiveProcessors "64 word"
| OverloadAction TOverloadAction
| TaskExpireTime i64
| WriteBufferDefaultSize "64 word"
| IdleReadBufferLimit "64 word"
| IdleWriteBufferLimit "64 word"
| ResizeBufferEveryN i32

fun nb_set :: "nb_setting \<Rightarrow> ('p, 's, 't, 'e, 'm) TNonblockingServer \<Rightarrow> ('p, 's, 't, 'e, 'm) TNonblockingServer" where
  "nb_set (ConnectionStackLimit sz) s = setConnectionStackLimit sz s"
| "nb_set (MaxConnections n) s = setMaxConnections n s"
| "nb_set (MaxActiveProcessors n) s = setMaxActiveProcessors n s"
| "nb_set (OverloadAction a) s = setOverloadAction a s"
| "nb_set (TaskExpireTime t) s = setTaskExpireTime t s"
| "nb_set (WriteBufferDefaultSize sz) s = setWriteBufferDefaultSize sz s"
| "nb_set (IdleReadBufferLimit limit) s = setIdleReadBufferLimit limit s"
| "nb_set (IdleWriteBufferLimit limit) s = setIdleWriteBufferLimit limit s"
| "nb_set (ResizeBufferEveryN n) s = setResizeBufferEveryN n s"

section \<open>Connections\<close>

datatype TAppState = APP_INIT | APP_READ_FRAME_SIZE | APP_READ_REQUEST | APP_WAIT_TASK | APP_SEND_RESULT
  | APP_CLOSE_CONNECTION




section \<open>The notification pipe\<close>

text \<open>
  A thread sends the pointer of a connection; \<open>sent\<close> is what \<open>send\<close> returns.  The pipe holds the
  pointers sent and not yet received.
\<close>

definition notifyServer :: "int \<Rightarrow> 'c \<Rightarrow> 'c list \<Rightarrow> bool \<times> 'c list" where
  "notifyServer sent connection pipe = (if sent \<noteq> 8 then (False, pipe) else (True, pipe @ [connection]))"

definition forceClose :: "int \<Rightarrow> 'c \<Rightarrow> ('c \<Rightarrow> TAppState) \<times> 'c list \<Rightarrow> bool \<times> ('c \<Rightarrow> TAppState) \<times> 'c list" where
  "forceClose sent connection = (\<lambda>(states, pipe). case notifyServer sent connection pipe of
     (ok, pipe') \<Rightarrow> (ok, states(connection := APP_CLOSE_CONNECTION), pipe'))"

datatype 'c received = Whole 'c | Stopped int int

datatype handled = Returned | Logged int | Partial_read

text \<open>
  The loop that takes the pointers, with what each \<open>recv\<close> gives: a whole pointer, or another number of
  bytes (negative for an error) with the \<open>errno\<close> that is left then; 11 is both \<open>EWOULDBLOCK\<close> and
  \<open>EAGAIN\<close>, and what the empty pipe gives.
\<close>

fun taskHandler :: "('c \<Rightarrow> 's \<Rightarrow> 's) \<Rightarrow> 'c received list \<Rightarrow> 's \<Rightarrow> handled \<times> 's" where
  "taskHandler transition (Whole c # rs) s = taskHandler transition rs (transition c s)"
| "taskHandler transition (Stopped nBytes errno # rs) s =
     (if 0 < nBytes then Partial_read
      else if errno \<noteq> 0 \<and> errno \<noteq> 11 then Logged errno else Returned, s)"
| "taskHandler transition [] s = (Returned, s)"

section \<open>Counters and settings\<close>

text \<open>What threads and the event loop do with the counters.\<close>

datatype nb_event = Opened | Closed | Task_started | Task_done | Configured nb_setting | Hysteresis "real option"

fun nb_apply :: "nb_event \<Rightarrow> ('p, 's, 't, 'e, 'm) TNonblockingServer \<Rightarrow> ('p, 's, 't, 'e, 'm) TNonblockingServer" where
  "nb_apply Opened s = incrementNumConnections s"
| "nb_apply Closed s = decrementNumConnections s"
| "nb_apply Task_started s = incrementActiveProcessors s"
| "nb_apply Task_done s = decrementActiveProcessors s"
| "nb_apply (Configured c) s = nb_set c s"
| "nb_apply (Hysteresis f) s = setOverloadHysteresis f s"

text \<open>Tasks that are done without having been started do not count.\<close>

fun active :: "nb_event list \<Rightarrow> nat \<Rightarrow> nat" where
  "active [] n = n"
| "active (Task_started # es) n = active es (n + 1)"
| "active (Task_done # es) n = active es (n - 1)"
| "active (_ # es) n = active es n"

fun open_connections :: "nb_event list \<Rightarrow> int" where
  "open_connections [] = 0"
| "open_connections (Opened # es) = open_connections es + 1"
| "open_connections (Closed # es) = open_connections es - 1"
| "open_connections (_ # es) = open_connections es"

lemma numTConnections_set [simp]: "numTConnections (nb_set c s) = numTConnections s"
    "numActiveProcessors (nb_set c s) = numActiveProcessors s" "overloadHysteresis (nb_set c s) = overloadHysteresis s"
  by (cases c; simp add: setting_defs)+

lemma setOverloadHysteresis_other [simp]: "numTConnections (setOverloadHysteresis f s) = numTConnections s"
    "numActiveProcessors (setOverloadHysteresis f s) = numActiveProcessors s"
  by (simp_all add: setOverloadHysteresis_def split: option.split)

lemma connections_counted:
  "numTConnections (fold nb_apply es s) = numTConnections s + of_int (open_connections es)"
proof (induction es arbitrary: s)
  case (Cons e es)
  then show ?case
    by (cases e) (simp_all add: incrementNumConnections_def decrementNumConnections_def incrementActiveProcessors_def
        decrementActiveProcessors_def)
qed simp

lemma processors_counted:
  "unat (numActiveProcessors s) + length es < 2 ^ 64 \<Longrightarrow>
    unat (numActiveProcessors (fold nb_apply es s)) = active es (unat (numActiveProcessors s))"
proof (induction es arbitrary: s)
  case (Cons e es)
  have up: "unat (numActiveProcessors s + 1) = unat (numActiveProcessors s) + 1"
    using Cons.prems by (simp add: unat_word_ariths)
  have down: "unat (numActiveProcessors (decrementActiveProcessors s)) = unat (numActiveProcessors s) - 1"
  proof (cases "numActiveProcessors s = 0")
    case False
    then have "1 \<le> numActiveProcessors s"
      by (simp add: word_le_nat_alt Suc_le_eq unat_gt_0)
    then show ?thesis
      using False by (simp add: decrementActiveProcessors_def word_gt_0 unat_sub)
  qed (simp add: decrementActiveProcessors_def)
  have le: "unat (numActiveProcessors (nb_apply e s)) \<le> unat (numActiveProcessors s) + 1"
    "unat (numActiveProcessors (nb_apply e s)) = active [e] (unat (numActiveProcessors s))"
    using up down by (cases e; simp add: incrementNumConnections_def decrementNumConnections_def incrementActiveProcessors_def)+
  have "active (e # es) n = active es (active [e] n)" for n
    by (cases e) simp_all
  then show ?case
    using Cons.IH [of "nb_apply e s"] Cons.prems le by simp
qed simp

lemma hysteresis_in_range:
  assumes "\<exists>f. overloadHysteresis s = Some f \<and> 0 < f \<and> f \<le> 1"
  shows "\<exists>f. overloadHysteresis (fold nb_apply es s) = Some f \<and> 0 < f \<and> f \<le> 1"
  using assms
proof (induction es arbitrary: s)
  case (Cons e es)
  then have "\<exists>f. overloadHysteresis (nb_apply e s) = Some f \<and> 0 < f \<and> f \<le> 1"
    by (cases e) (auto simp: incrementNumConnections_def decrementNumConnections_def incrementActiveProcessors_def
        decrementActiveProcessors_def setOverloadHysteresis_def split: option.split)
  from Cons.IH [OF this] show ?case by simp
qed simp

section \<open>The life of a connection\<close>

lemma memory_bufferless: "memory_ok (memory_setup None 0 o1 0, h) \<longleftrightarrow> heap_ok h"
  by (simp add: memory_ok_def memory_setup_def)





lemma restrict_outside: "x \<notin> A \<Longrightarrow> (m |` (- A)) x = m x"
  by (simp add: restrict_map_def)





section \<open>Properties\<close>

text \<open>The messages of the pipe are handled once each, in the order in which they were sent.\<close>

lemma notified_in_order:
  "taskHandler transition (map Whole (foldl (\<lambda>pipe c. snd (notifyServer 8 c pipe)) [] cs)) s = (Returned, fold transition cs s)"
proof -
  have "foldl (\<lambda>pipe c. snd (notifyServer 8 c pipe)) ps cs = ps @ cs" for ps
    by (induction cs arbitrary: ps) (simp_all add: notifyServer_def)
  moreover have "taskHandler transition (map Whole cs) s = (Returned, fold transition cs s)"
    by (induction cs arbitrary: s) simp_all
  ultimately show ?thesis by simp
qed

text \<open>A new server counts what happens to it, and its hysteresis stays a fraction.\<close>

lemma nonblocking_counts:
  assumes "s = TNonblockingServer_new processor port"
  shows "numTConnections (fold nb_apply es s) = of_int (open_connections es)"
    and "length es < 2 ^ 64 \<Longrightarrow> unat (numActiveProcessors (fold nb_apply es s)) = active es 0"
    and "\<exists>f. overloadHysteresis (fold nb_apply es s) = Some f \<and> 0 < f \<and> f \<le> 1"
proof -
  have new: "numTConnections s = 0" "numActiveProcessors s = 0" "\<exists>f. overloadHysteresis s = Some f \<and> 0 < f \<and> f \<le> 1"
    by (simp_all add: assms nonblocking_defs exI [of _ "8 / 10"])
  then show "numTConnections (fold nb_apply es s) = of_int (open_connections es)"
    and "length es < 2 ^ 64 \<Longrightarrow> unat (numActiveProcessors (fold nb_apply es s)) = active es 0"
    using connections_counted [of es s] processors_counted [of s es] by simp_all
  show "\<exists>f. overloadHysteresis (fold nb_apply es s) = Some f \<and> 0 < f \<and> f \<le> 1"
    by (rule hysteresis_in_range [OF new(3)])
qed

text \<open>The longest constructor with the defaults makes what the shorter ones make, but for the flag.\<close>

lemma nonblocking_constructors:
  "TNonblockingServer_full set_tm p TTransportFactory_getTransport TTransportFactory_getTransport pf pf port tm =
    TNonblockingServer_managed set_tm p pf port tm"
  "TNonblockingServer_managed (\<lambda>_. id) p TBinaryProtocolFactory_getProtocol port None =
    (TNonblockingServer_new p port)\<lparr>nb_threadPoolProcessing := None\<rparr>"
  by (simp_all add: TNonblockingServer_full_def TNonblockingServer_managed_def server_setter_defs nonblocking_defs)



end
