(* ===== verification/Guarded.thy ===== *)
theory Guarded
  imports OZPrelude
begin

text \<open>
  Threads whose requests are served on a shared object under one mutex, as the handlers of the
  write server and of the traversal server do.  A thread is before the lock with its request,
  between lock and unlock at a position of its code, or behind with its answer.  \<open>enter\<close> gives
  the position behind the lock, \<open>step\<close> what happens at a position (\<open>None\<close> when it is undefined), and
  \<open>leave\<close> the answer at the positions where the mutex is unlocked.
\<close>

datatype ('q, 'l, 'a) thread = Before 'q | Inside 'l | After 'a

text \<open>\<open>lock_order\<close> records the order in which the threads took the mutex.\<close>

record ('s, 'q, 'l, 'a) guarded =
  owner :: "nat option"
  shared :: 's
  thread_at :: "nat \<Rightarrow> ('q, 'l, 'a) thread"
  lock_order :: "nat list"

inductive guarded_step :: "(nat \<Rightarrow> 'q \<Rightarrow> 'l) \<Rightarrow> (nat \<Rightarrow> 'l \<Rightarrow> 's \<Rightarrow> ('l \<times> 's) ub) \<Rightarrow> ('l \<Rightarrow> 'a option) \<Rightarrow> nat
    \<Rightarrow> ('s, 'q, 'l, 'a) guarded \<Rightarrow> ('s, 'q, 'l, 'a) guarded \<Rightarrow> bool" for enter step leave t s where
  lock: "owner s = None \<Longrightarrow> thread_at s t = Before q \<Longrightarrow>
    guarded_step enter step leave t s (s\<lparr>owner := Some t, thread_at := (thread_at s)(t := Inside (enter t q)),
      lock_order := lock_order s @ [t]\<rparr>)"
| inside: "thread_at s t = Inside l \<Longrightarrow> leave l = None \<Longrightarrow> step t l (shared s) = Some (l', x) \<Longrightarrow>
    guarded_step enter step leave t s (s\<lparr>shared := x, thread_at := (thread_at s)(t := Inside l')\<rparr>)"
| unlock: "thread_at s t = Inside l \<Longrightarrow> leave l = Some a \<Longrightarrow>
    guarded_step enter step leave t s (s\<lparr>owner := None, thread_at := (thread_at s)(t := After a)\<rparr>)"

inductive guarded_run :: "(nat \<Rightarrow> 'q \<Rightarrow> 'l) \<Rightarrow> (nat \<Rightarrow> 'l \<Rightarrow> 's \<Rightarrow> ('l \<times> 's) ub) \<Rightarrow> ('l \<Rightarrow> 'a option)
    \<Rightarrow> ('s, 'q, 'l, 'a) guarded \<Rightarrow> ('s, 'q, 'l, 'a) guarded \<Rightarrow> bool" for enter step leave s0 where
  start: "guarded_run enter step leave s0 s0"
| step: "guarded_run enter step leave s0 s \<Longrightarrow> guarded_step enter step leave t s s' \<Longrightarrow>
    guarded_run enter step leave s0 s'"

lemma guarded_run_trans:
  assumes "guarded_run enter step leave s1 s2" and "guarded_run enter step leave s0 s1"
  shows "guarded_run enter step leave s0 s2"
  using assms by (induction rule: guarded_run.induct) (auto intro: guarded_run.step)

lemmas guarded_one = guarded_run.step [OF guarded_run.start]

definition all_before :: "(nat \<Rightarrow> 'q) \<Rightarrow> 's \<Rightarrow> ('s, 'q, 'l, 'a) guarded" where
  "all_before reqs x = \<lparr>owner = None, shared = x, thread_at = (\<lambda>t. Before (reqs t)), lock_order = []\<rparr>"

text \<open>The reference: whole requests, one after the other.\<close>

fun in_order :: "(nat \<Rightarrow> 'q \<Rightarrow> 's \<Rightarrow> ('a \<times> 's) ub) \<Rightarrow> (nat \<Rightarrow> 'q) \<Rightarrow> nat list \<Rightarrow> 's \<Rightarrow> ((nat \<times> 'a) list \<times> 's) ub" where
  "in_order whole reqs [] x = Some ([], x)"
| "in_order whole reqs (t # ts) x = do {
     (a, y) \<leftarrow> whole t (reqs t) x;
     (rs, z) \<leftarrow> in_order whole reqs ts y;
     Some ((t, a) # rs, z)
   }"

lemma in_order_snoc:
  assumes "in_order whole reqs ts x = Some (rs, y)" and "whole t (reqs t) y = Some (a, z)"
  shows "in_order whole reqs (ts @ [t]) x = Some (rs @ [(t, a)], z)"
  using assms(1)
proof (induction ts arbitrary: x rs)
  case (Cons u ts)
  then show ?case by (fastforce split: bind_splits)
qed (use assms(2) in simp)

lemma in_order_threads: "in_order whole reqs ts x = Some (rs, y) \<Longrightarrow> map fst rs = ts"
  by (induction ts arbitrary: x rs) (auto split: bind_splits)

fun quiet :: "'q \<Rightarrow> nat \<Rightarrow> (nat \<times> 'a) list \<Rightarrow> ('q, 'l, 'a) thread \<Rightarrow> bool" where
  "quiet q u rs (Before r) \<longleftrightarrow> r = q \<and> u \<notin> fst ` set rs"
| "quiet q u rs (After a) \<longleftrightarrow> (u, a) \<in> set rs"
| "quiet q u rs (Inside l) \<longleftrightarrow> False"

lemma quiet_snoc: "quiet q u rs p \<Longrightarrow> u \<noteq> t \<Longrightarrow> quiet q u (rs @ [(t, a)]) p"
  by (cases p) auto

section \<open>The contract\<close>

text \<open>
  \<open>rest\<close> is what a thread does from a position on when it is alone, and \<open>whole\<close> the request as it is
  called; \<open>size_at\<close> bounds the steps that are left.
\<close>

locale guarded_object =
  fixes enter :: "nat \<Rightarrow> 'q \<Rightarrow> 'l" and step :: "nat \<Rightarrow> 'l \<Rightarrow> 's \<Rightarrow> ('l \<times> 's) ub" and leave :: "'l \<Rightarrow> 'a option"
    and rest :: "nat \<Rightarrow> 'l \<Rightarrow> 's \<Rightarrow> ('a \<times> 's) ub" and whole :: "nat \<Rightarrow> 'q \<Rightarrow> 's \<Rightarrow> ('a \<times> 's) ub"
    and size_at :: "'l \<Rightarrow> nat"
  assumes rest_enter: "rest t (enter t q) x = whole t q x"
    and rest_step: "leave l = None \<Longrightarrow> step t l x = Some (l', y) \<Longrightarrow> rest t l' y = rest t l x"
    and rest_stuck: "leave l = None \<Longrightarrow> step t l x = None \<Longrightarrow> rest t l x = None"
    and rest_leave: "leave l = Some a \<Longrightarrow> rest t l x = Some (a, x)"
    and size_step: "leave l = None \<Longrightarrow> step t l x = Some (l', y) \<Longrightarrow> size_at l' < size_at l"
begin

definition safe :: "(nat \<Rightarrow> 'q) \<Rightarrow> 's \<Rightarrow> ('s, 'q, 'l, 'a) guarded \<Rightarrow> bool" where
  "safe reqs x0 s \<longleftrightarrow> (\<exists>ts rs x. in_order whole reqs ts x0 = Some (rs, x) \<and> distinct (lock_order s)
     \<and> (case owner s of
          None \<Rightarrow> lock_order s = ts \<and> shared s = x \<and> (\<forall>u. quiet (reqs u) u rs (thread_at s u))
        | Some t \<Rightarrow> lock_order s = ts @ [t]
            \<and> (\<exists>l. thread_at s t = Inside l \<and> rest t l (shared s) = whole t (reqs t) x)
            \<and> (\<forall>u. u \<noteq> t \<longrightarrow> quiet (reqs u) u rs (thread_at s u))))"

lemma safe_start: "safe reqs x (all_before reqs x)"
  by (auto simp: safe_def all_before_def intro!: exI [of _ "[]"])

lemma safe_owner:
  assumes "safe reqs x0 s" and "thread_at s t = Inside l"
  obtains ts rs x where "owner s = Some t" "in_order whole reqs ts x0 = Some (rs, x)" "distinct (lock_order s)"
    "lock_order s = ts @ [t]" "rest t l (shared s) = whole t (reqs t) x"
    "\<And>u. u \<noteq> t \<Longrightarrow> quiet (reqs u) u rs (thread_at s u)"
proof (cases "owner s")
  case None
  then have "\<exists>rs. quiet (reqs t) t rs (thread_at s t)"
    using assms(1) unfolding safe_def by auto
  then show ?thesis
    using assms(2) by simp
next
  case (Some u)
  then obtain ts rs x where h: "in_order whole reqs ts x0 = Some (rs, x)" "distinct (lock_order s)" "lock_order s = ts @ [u]"
      "\<exists>l. thread_at s u = Inside l \<and> rest u l (shared s) = whole u (reqs u) x"
      "\<And>v. v \<noteq> u \<Longrightarrow> quiet (reqs v) v rs (thread_at s v)"
    using assms(1) unfolding safe_def by auto
  have "u = t"
    using h(5) [of t] assms(2) by fastforce
  then show ?thesis
    using that Some h assms(2) by auto
qed

lemma safe_step:
  assumes safe: "safe reqs x0 s" and "guarded_step enter step leave t s s'"
  shows "safe reqs x0 s'"
  using assms(2)
proof cases
  case (lock q)
  then obtain rs where h: "in_order whole reqs (lock_order s) x0 = Some (rs, shared s)" "distinct (lock_order s)"
      "\<And>u. quiet (reqs u) u rs (thread_at s u)"
    using safe unfolding safe_def by auto
  have "q = reqs t" "t \<notin> set (lock_order s)"
    using h(3) [of t] lock(3) in_order_threads [OF h(1)] by (auto simp flip: set_map)
  then show ?thesis
    unfolding safe_def using h lock(1)
    by (intro exI [of _ "lock_order s"] exI [of _ rs] exI [of _ "shared s"]) (simp add: rest_enter)
next
  case (inside l l' x)
  from safe_owner [OF safe inside(2)] obtain ts rs y where h: "owner s = Some t" "in_order whole reqs ts x0 = Some (rs, y)"
      "distinct (lock_order s)" "lock_order s = ts @ [t]" "rest t l (shared s) = whole t (reqs t) y"
      "\<And>u. u \<noteq> t \<Longrightarrow> quiet (reqs u) u rs (thread_at s u)"
    by blast
  then show ?thesis
    unfolding safe_def using inside(1) rest_step [OF inside(3,4)]
    by (intro exI [of _ ts] exI [of _ rs] exI [of _ y]) simp
next
  case (unlock l a)
  from safe_owner [OF safe unlock(2)] obtain ts rs y where h: "owner s = Some t" "in_order whole reqs ts x0 = Some (rs, y)"
      "distinct (lock_order s)" "lock_order s = ts @ [t]" "rest t l (shared s) = whole t (reqs t) y"
      "\<And>u. u \<noteq> t \<Longrightarrow> quiet (reqs u) u rs (thread_at s u)"
    by blast
  have "in_order whole reqs (ts @ [t]) x0 = Some (rs @ [(t, a)], shared s)"
    using h(2,5) rest_leave [OF unlock(3)] by (intro in_order_snoc) simp_all
  then show ?thesis
    unfolding safe_def using h(3,4,6) unlock(1)
    by (intro exI [of _ "ts @ [t]"] exI [of _ "rs @ [(t, a)]"] exI [of _ "shared s"]) (auto intro: quiet_snoc)
qed

lemma safe_run: "guarded_run enter step leave (all_before reqs x) s \<Longrightarrow> safe reqs x s"
  by (induction rule: guarded_run.induct) (auto intro: safe_start safe_step)

text \<open>Every run is a sequence of whole requests.\<close>

lemma run_in_order:
  assumes "guarded_run enter step leave (all_before reqs x) s" and "owner s = None"
  shows "\<exists>rs. in_order whole reqs (lock_order s) x = Some (rs, shared s) \<and> distinct (lock_order s)
    \<and> (\<forall>t a. thread_at s t = After a \<longrightarrow> (t, a) \<in> set rs)
    \<and> (\<forall>t. t \<in> set (lock_order s) \<longleftrightarrow> (\<exists>a. thread_at s t = After a))"
proof -
  obtain rs where rs: "in_order whole reqs (lock_order s) x = Some (rs, shared s)" "distinct (lock_order s)"
      "\<And>u. quiet (reqs u) u rs (thread_at s u)"
    using safe_run [OF assms(1)] assms(2) unfolding safe_def by auto
  have ts: "set (lock_order s) = fst ` set rs"
    using in_order_threads [OF rs(1)] by (metis set_map)
  have "t \<in> fst ` set rs \<longleftrightarrow> (\<exists>a. thread_at s t = After a)" for t
    using rs(3) [of t] by (cases "thread_at s t") force+
  moreover have "(t, a) \<in> set rs" if "thread_at s t = After a" for t a
    using rs(3) [of t] that by simp
  ultimately show ?thesis
    using rs(1,2) ts by auto
qed

text \<open>At most one thread is between lock and unlock.\<close>

lemma exclusive:
  assumes "guarded_run enter step leave (all_before reqs x) s" and "thread_at s t = Inside l" and "thread_at s u = Inside k"
  shows "t = u"
  using safe_owner [OF safe_run [OF assms(1)] assms(2)] safe_owner [OF safe_run [OF assms(1)] assms(3)]
  by (metis option.inject)

text \<open>The other way round: every sequence of whole requests is a run.\<close>

lemma rest_run:
  assumes "thread_at s t = Inside l" and "rest t l (shared s) = Some (a, y)"
  shows "guarded_run enter step leave s (s\<lparr>owner := None, shared := y, thread_at := (thread_at s)(t := After a)\<rparr>)"
  using assms
proof (induction "size_at l" arbitrary: s l rule: less_induct)
  case less
  show ?case
  proof (cases "leave l")
    case (Some b)
    then have "guarded_step enter step leave t s (s\<lparr>owner := None, thread_at := (thread_at s)(t := After a)\<rparr>)" "shared s = y"
      using less.prems rest_leave [OF Some] guarded_step.unlock [of s t l leave b] by auto
    then show ?thesis
      using guarded_one by fastforce
  next
    case None
    then obtain l' x where st: "step t l (shared s) = Some (l', x)"
      using less.prems(2) rest_stuck [OF None] by (cases "step t l (shared s)") auto
    let ?s = "s\<lparr>shared := x, thread_at := (thread_at s)(t := Inside l')\<rparr>"
    have "guarded_step enter step leave t s ?s"
      using less.prems(1) None st by (rule guarded_step.inside)
    moreover have "guarded_run enter step leave ?s (?s\<lparr>owner := None, shared := y, thread_at := (thread_at ?s)(t := After a)\<rparr>)"
      using less.prems(2) rest_step [OF None st] by (intro less.hyps [OF size_step [OF None st]]) simp_all
    ultimately show ?thesis
      using guarded_run_trans [OF _ guarded_one] by fastforce
  qed
qed

lemma whole_run:
  assumes "owner s = None" and "thread_at s t = Before q" and "whole t q (shared s) = Some (a, y)"
  shows "guarded_run enter step leave s
    (s\<lparr>shared := y, thread_at := (thread_at s)(t := After a), lock_order := lock_order s @ [t]\<rparr>)"
proof -
  let ?s = "s\<lparr>owner := Some t, thread_at := (thread_at s)(t := Inside (enter t q)), lock_order := lock_order s @ [t]\<rparr>"
  have "guarded_step enter step leave t s ?s"
    using assms(1,2) by (rule guarded_step.lock)
  moreover have "guarded_run enter step leave ?s (?s\<lparr>owner := None, shared := y, thread_at := (thread_at ?s)(t := After a)\<rparr>)"
    using assms(3) by (intro rest_run [where l = "enter t q"]) (simp_all add: rest_enter)
  ultimately have "guarded_run enter step leave s (?s\<lparr>owner := None, shared := y, thread_at := (thread_at ?s)(t := After a)\<rparr>)"
    using guarded_run_trans [OF _ guarded_one] by fast
  moreover have "?s\<lparr>owner := None, shared := y, thread_at := (thread_at ?s)(t := After a)\<rparr> =
      s\<lparr>shared := y, thread_at := (thread_at s)(t := After a), lock_order := lock_order s @ [t]\<rparr>"
    using assms(1) by (cases s) simp
  ultimately show ?thesis
    by metis
qed

lemma in_order_is_run:
  assumes "in_order whole reqs ts (shared s) = Some (rs, y)" and "distinct ts" and "owner s = None"
    and "\<forall>t \<in> set ts. thread_at s t = Before (reqs t)"
  shows "\<exists>s'. guarded_run enter step leave s s' \<and> owner s' = None \<and> shared s' = y \<and> lock_order s' = lock_order s @ ts
    \<and> (\<forall>(t, a) \<in> set rs. thread_at s' t = After a) \<and> (\<forall>t. t \<notin> set ts \<longrightarrow> thread_at s' t = thread_at s t)"
  using assms
proof (induction ts arbitrary: s rs)
  case Nil
  then show ?case
    by (auto intro: guarded_run.start)
next
  case (Cons t ts)
  then obtain a x rs' where a: "whole t (reqs t) (shared s) = Some (a, x)" "in_order whole reqs ts x = Some (rs', y)"
      "rs = (t, a) # rs'"
    by (auto split: bind_splits)
  let ?s = "s\<lparr>shared := x, thread_at := (thread_at s)(t := After a), lock_order := lock_order s @ [t]\<rparr>"
  have run: "guarded_run enter step leave s ?s"
    using Cons.prems a(1) by (intro whole_run) simp_all
  have "in_order whole reqs ts (shared ?s) = Some (rs', y)" "\<forall>u \<in> set ts. thread_at ?s u = Before (reqs u)"
    using Cons.prems(2,4) a(2) by auto
  from Cons.IH [OF this(1) _ _ this(2)] Cons.prems(2,3) obtain s' where s': "guarded_run enter step leave ?s s'"
      "owner s' = None" "shared s' = y" "lock_order s' = lock_order ?s @ ts" "\<forall>(u, b) \<in> set rs'. thread_at s' u = After b"
      "\<forall>u. u \<notin> set ts \<longrightarrow> thread_at s' u = thread_at ?s u"
    by auto
  then show ?case
    using guarded_run_trans [OF s'(1) run] Cons.prems(2) a(3) by (intro exI [of _ s']) auto
qed

end

section \<open>Objects that are kept in order\<close>

text \<open>
  A request that starts from a good state of the object is defined, leaves a good state, and
  its answer is right.
\<close>

locale guarded_service = guarded_object +
  fixes good and right
  assumes whole_good: "good x \<Longrightarrow> \<exists>a y. whole t q x = Some (a, y) \<and> good y \<and> right q a"
begin

lemma in_order_good:
  assumes "in_order whole reqs ts x = Some (rs, y)" and "good x"
  shows "good y \<and> (\<forall>(t, a) \<in> set rs. right (reqs t) a)"
  using assms
proof (induction ts arbitrary: x rs)
  case (Cons t ts)
  obtain a z where a: "whole t (reqs t) x = Some (a, z)" "good z" "right (reqs t) a"
    using whole_good [OF Cons.prems(2), of t "reqs t"] by blast
  then obtain rs' where "in_order whole reqs ts z = Some (rs', y)" "rs = (t, a) # rs'"
    using Cons.prems(1) by (auto split: bind_splits)
  with Cons.IH [OF this(1) a(2)] a(3) show ?case by simp
qed simp

lemma answers_right:
  assumes "guarded_run enter step leave (all_before reqs x) s" and "good x" and "thread_at s t = After a"
  shows "right (reqs t) a"
proof -
  obtain ts rs y where "in_order whole reqs ts x = Some (rs, y)" "(t, a) \<in> set rs"
  proof (cases "owner s")
    case None
    then show ?thesis
      using run_in_order [OF assms(1)] assms(3) that by blast
  next
    case (Some u)
    then obtain l where l: "thread_at s u = Inside l"
      using safe_run [OF assms(1)] unfolding safe_def by auto
    then have "u \<noteq> t"
      using assms(3) by auto
    with safe_owner [OF safe_run [OF assms(1)] l] obtain ts rs y where
      "in_order whole reqs ts x = Some (rs, y)" "quiet (reqs t) t rs (thread_at s t)" by metis
    then show ?thesis
      using that assms(3) by simp
  qed
  then show ?thesis
    using in_order_good assms(2) by fastforce
qed

text \<open>A thread that holds the mutex is never stuck, and gives it back.\<close>

lemma owner_defined:
  assumes "safe reqs x s" and "good x" and "owner s = Some t" and "thread_at s t = Inside l"
  shows "rest t l (shared s) \<noteq> None"
proof -
  from safe_owner [OF assms(1,4)] obtain ts rs y where h:
    "in_order whole reqs ts x = Some (rs, y)" "rest t l (shared s) = whole t (reqs t) y" by metis
  then show ?thesis
    using in_order_good [OF h(1) assms(2)] whole_good [of y t "reqs t"] by auto
qed

lemma lock_given_back:
  assumes "safe reqs x s" and "good x" and "owner s = Some t"
  shows "\<exists>s' a. guarded_run enter step leave s s' \<and> owner s' = None \<and> thread_at s' t = After a"
  using assms
proof (induction "case thread_at s t of Inside l \<Rightarrow> size_at l | _ \<Rightarrow> 0" arbitrary: s rule: less_induct)
  case less
  obtain l where l: "thread_at s t = Inside l"
    using less.prems(1,3) unfolding safe_def by auto
  show ?case
  proof (cases "leave l")
    case (Some a)
    have "guarded_step enter step leave t s (s\<lparr>owner := None, thread_at := (thread_at s)(t := After a)\<rparr>)"
      using l Some by (rule guarded_step.unlock)
    then show ?thesis
      by (intro exI [of _ "s\<lparr>owner := None, thread_at := (thread_at s)(t := After a)\<rparr>"] exI [of _ a])
        (simp add: guarded_one)
  next
    case None
    then obtain l' y where st: "step t l (shared s) = Some (l', y)"
      using owner_defined [OF less.prems l] rest_stuck [OF None] by (cases "step t l (shared s)") auto
    let ?s = "s\<lparr>shared := y, thread_at := (thread_at s)(t := Inside l')\<rparr>"
    have step: "guarded_step enter step leave t s ?s"
      using l None st by (rule guarded_step.inside)
    have "\<exists>s' a. guarded_run enter step leave ?s s' \<and> owner s' = None \<and> thread_at s' t = After a"
      using less.prems l size_step [OF None st] safe_step [OF less.prems(1) step] by (intro less.hyps) simp_all
    then show ?thesis
      using guarded_run_trans [OF _ guarded_one [OF step]] by blast
  qed
qed

end

end
