(* ===== verification/TravThreads.thy ===== *)
theory TravThreads
  imports Guarded TravServer Example
begin

text \<open>
  Threads of the traversal server (\<open>next_kv\<close> of
  src/src/server/OZTravService_server.skeleton.cc): they share one handle and one cursor, which each
  request sets and then steps, under a mutex.
\<close>

section \<open>The positions of a request\<close>












section \<open>The mutex makes requests whole\<close>





section \<open>Clients at the same time\<close>



end
