(* ===== verification/WriteBatches.thy ===== *)
theory WriteBatches
  imports Guarded WriteServer Example
begin

text \<open>
  Threads of the write server (\<open>put\<close> and \<open>puts\<close> of
  src/src/server/OZWriteService_server.skeleton.cc) that serve single values and batches at the same
  time, under the mutex of the handler.
\<close>

section \<open>The positions of a request\<close>

datatype put_request = Put_value string | Put_values "string list"

fun request_values :: "put_request \<Rightarrow> string list" where
  "request_values (Put_value val) = [val]"
| "request_values (Put_values vals) = vals"

text \<open>A batch is at the top of its loop with the values that are left, or has made the key of one.\<close>

datatype put_position =
  Put_at string
| Put_keyed string
| Batch_at nat "string list"
| Batch_keyed nat string "string list"
| Replied "unit reply"

fun put_enter :: "nat \<Rightarrow> put_request \<Rightarrow> put_position" where
  "put_enter t (Put_value val) = Put_at val"
| "put_enter t (Put_values vals) = Batch_at 0 vals"

fun put_leave :: "put_position \<Rightarrow> unit reply option" where
  "put_leave (Replied a) = Some a"
| "put_leave _ = None"

definition put_reply :: "nat \<Rightarrow> unit reply" where
  "put_reply ret = (if ret = 0 then Return () else OZError (put_why ret))"

fun put_move :: "(nat \<Rightarrow> nat \<Rightarrow> put_env) \<Rightarrow> nat \<Rightarrow> put_position \<Rightarrow> write_handler \<times> world
    \<Rightarrow> (put_position \<times> write_handler \<times> world) ub" where
  "put_move env t (Put_at val) (st, w) = map_option (\<lambda>st1. (Put_keyed val, st1, w)) (make_key st)"
| "put_move env t (Put_keyed val) (st, w) =
     map_option (\<lambda>(ret, st1, w1). (Replied (put_reply ret), st1, w1)) (write_value (env t 0) w st val)"
| "put_move env t (Batch_at i []) (st, w) = Some (Replied (Return ()), st, w)"
| "put_move env t (Batch_at i (val # vals)) (st, w) = map_option (\<lambda>st1. (Batch_keyed i val vals, st1, w)) (make_key st)"
| "put_move env t (Batch_keyed i val vals) (st, w) =
     map_option (\<lambda>(ret, st1, w1). (Batch_at (i + 1) vals, st1, w1)) (write_value (env t i) w st val)"
| "put_move env t (Replied a) (st, w) = None"

text \<open>A position and all that comes after it.\<close>

fun put_rest :: "(nat \<Rightarrow> nat \<Rightarrow> put_env) \<Rightarrow> nat \<Rightarrow> put_position \<Rightarrow> write_handler \<times> world
    \<Rightarrow> (unit reply \<times> write_handler \<times> world) ub" where
  "put_rest env t (Put_at val) (st, w) = server_put True (env t 0) w st val"
| "put_rest env t (Put_keyed val) (st, w) =
     map_option (\<lambda>(ret, st1, w1). (put_reply ret, st1, w1)) (write_value (env t 0) w st val)"
| "put_rest env t (Batch_at i vals) (st, w) = map_option (Pair (Return ())) (put_all (env t) i w st vals)"
| "put_rest env t (Batch_keyed i val vals) (st, w) = do {
     (ret, st1, w1) \<leftarrow> write_value (env t i) w st val;
     map_option (Pair (Return ())) (put_all (env t) (i + 1) w1 st1 vals) }"
| "put_rest env t (Replied a) (st, w) = Some (a, st, w)"

fun put_whole :: "(nat \<Rightarrow> nat \<Rightarrow> put_env) \<Rightarrow> nat \<Rightarrow> put_request \<Rightarrow> write_handler \<times> world
    \<Rightarrow> (unit reply \<times> write_handler \<times> world) ub" where
  "put_whole env t (Put_value val) (st, w) = server_put True (env t 0) w st val"
| "put_whole env t (Put_values vals) (st, w) = server_puts True (env t) w st vals"

fun put_size :: "put_position \<Rightarrow> nat" where
  "put_size (Put_at val) = 2"
| "put_size (Put_keyed val) = 1"
| "put_size (Batch_at i vals) = 2 * length vals + 1"
| "put_size (Batch_keyed i val vals) = 2 * length vals + 2"
| "put_size (Replied a) = 0"

lemma put_move_rest:
  assumes "put_leave l = None"
  shows "put_rest env t l x = (case put_move env t l x of None \<Rightarrow> None | Some (l', y) \<Rightarrow> put_rest env t l' y)"
  using assms
  by (cases "(env, t, l, x)" rule: put_move.cases)
    (auto simp: server_put_def put_reply_def split: option.split bind_splits)

interpretation put_guard: guarded_object put_enter "put_move env" put_leave "put_rest env" "put_whole env" put_size for env
proof
  fix t q x
  show "put_rest env t (put_enter t q) x = put_whole env t q x"
    by (cases "(env, t, q, x)" rule: put_whole.cases) (auto simp: server_puts_def split: option.split bind_splits)
next
  fix l t x l' y
  assume "put_leave l = None" "put_move env t l x = Some (l', y)"
  then show "put_rest env t l' y = put_rest env t l x" by (simp add: put_move_rest [of l])
next
  fix l t x
  assume "put_leave l = None" "put_move env t l x = None"
  then show "put_rest env t l x = None" by (simp add: put_move_rest)
next
  fix l a t x
  assume "put_leave l = Some a"
  then show "put_rest env t l x = Some (a, x)" by (cases l; cases x) simp_all
next
  fix l t x l' y
  assume "put_leave l = None" "put_move env t l x = Some (l', y)"
  then show "put_size l' < put_size l" by (cases "(env, t, l, x)" rule: put_move.cases) auto
qed

section \<open>Without faults\<close>

text \<open>What a sequence of requests stores: the values of each one in a row.\<close>

lemma put_whole_run:
  "map_option (\<lambda>(a, st', w'). (w', st')) (put_whole (\<lambda>_ _. no_faults) t q (st, w)) = run_puts put_one (w, st) (request_values q)"
proof (cases q)
  case (Put_value val)
  then show ?thesis
    by (auto simp: server_put_def put_one_pair split: option.split bind_split)
next
  case (Put_values vals)
  then show ?thesis
    using put_all_run_puts [of 0 w st vals] by (auto simp: server_puts_def split: option.splits bind_split)
qed

lemma run_puts_append: "run_puts p s (vals @ vals') = Option.bind (run_puts p s vals) (\<lambda>s'. run_puts p s' vals')"
  by (induction vals arbitrary: s) (auto split: bind_split)

definition all_values :: "(nat \<Rightarrow> put_request) \<Rightarrow> nat list \<Rightarrow> string list" where
  "all_values reqs ts = concat (map (\<lambda>t. request_values (reqs t)) ts)"

lemma in_order_run:
  "map_option (\<lambda>(rs, st', w'). (w', st')) (in_order (put_whole (\<lambda>_ _. no_faults)) reqs ts (st, w)) =
     run_puts put_one (w, st) (all_values reqs ts)"
proof (induction ts arbitrary: st w)
  case (Cons t ts)
  have "all_values reqs (t # ts) = request_values (reqs t) @ all_values reqs ts"
    by (simp add: all_values_def)
  then show ?case
    by (auto simp: run_puts_append simp flip: put_whole_run [of t] Cons.IH split: bind_splits option.split)
qed (simp add: all_values_def)

text \<open>The values of one request are in a row.\<close>

lemma values_in_a_row:
  assumes "t \<in> set ts"
  shows "\<exists>k. \<forall>j < length (request_values (reqs t)).
    k + j < length (all_values reqs ts) \<and> all_values reqs ts ! (k + j) = request_values (reqs t) ! j"
proof -
  obtain us vs where "ts = us @ t # vs"
    using assms by (auto dest: split_list)
  then have "all_values reqs ts = all_values reqs us @ request_values (reqs t) @ all_values reqs vs"
    by (simp add: all_values_def)
  then show ?thesis
    by (intro exI [of _ "length (all_values reqs us)"]) (simp add: nth_append)
qed

section \<open>Properties\<close>

text \<open>C10. Single values and batches at the same time, with any faults of the library calls: whatever the
  interleaving of the steps of the threads, when the mutex is free the handler, the files and every
  reply are those of the whole requests one after the other, each once, in the order of the lock, and
  at most one thread is ever between lock and unlock.\<close>

theorem requests_linearisable:
  assumes "guarded_run put_enter (put_move env) put_leave (all_before reqs (st, w)) s"
  shows "(owner s = None \<longrightarrow> (\<exists>rs. in_order (put_whole env) reqs (lock_order s) (st, w) = Some (rs, shared s)
      \<and> (\<forall>t a. thread_at s t = After a \<longrightarrow> (t, a) \<in> set rs)))
    \<and> distinct (lock_order s)
    \<and> (\<forall>t u l k. thread_at s t = Inside l \<longrightarrow> thread_at s u = Inside k \<longrightarrow> t = u)"
  using put_guard.run_in_order [OF assms] put_guard.exclusive [OF assms] put_guard.safe_run [OF assms]
  unfolding put_guard.safe_def by blast

definition ex_requests :: "nat \<Rightarrow> put_request" where
  "ex_requests t = (if t = 3 then Put_values [''v'', ''w''] else Put_value ''x'')"

lemma ex_batch_run:
  "\<exists>s. guarded_run put_enter (put_move (\<lambda>_ _. no_faults)) put_leave (all_before ex_requests (ex_handler, empty_world)) s
    \<and> owner s = None \<and> lock_order s = [2, 3] \<and> (\<exists>a. thread_at s 3 = After a)"
proof -
  have vals: "all_values ex_requests [2, 3] = [''x'', ''v'', ''w'']"
    by (simp add: all_values_def ex_requests_def)
  have "store_rep ''db'' (empty_world, ex_handler) 1 0 (db_map [] [])"
    using ex_server_inv ex_on_disk by (auto simp: store_rep_def ex_handler_def)
  from handler_store.run_puts_stored [OF this, of "all_values ex_requests [2, 3]"] obtain x where
    "run_puts put_one (empty_world, ex_handler) (all_values ex_requests [2, 3]) = Some x"
    by (auto simp: vals)
  then obtain rs y where run: "in_order (put_whole (\<lambda>_ _. no_faults)) ex_requests [2, 3] (ex_handler, empty_world) = Some (rs, y)"
    using in_order_run [of ex_requests "[2, 3]" ex_handler empty_world] by auto
  let ?s = "all_before ex_requests (ex_handler, empty_world)
    :: (write_handler \<times> world, put_request, put_position, unit reply) guarded"
  have "\<exists>s'. guarded_run put_enter (put_move (\<lambda>_ _. no_faults)) put_leave ?s s' \<and> owner s' = None \<and> shared s' = y
      \<and> lock_order s' = lock_order ?s @ [2, 3] \<and> (\<forall>(t, a) \<in> set rs. thread_at s' t = After a)
      \<and> (\<forall>t. t \<notin> set [2, 3] \<longrightarrow> thread_at s' t = thread_at ?s t)"
    using run by (intro put_guard.in_order_is_run) (simp_all add: all_before_def)
  moreover have "\<exists>a. (3, a) \<in> set rs"
    using in_order_threads [OF run] by (auto simp: map_eq_Cons_conv)
  ultimately show ?thesis
    by (fastforce simp: all_before_def)
qed

lemma requests_linearisable_witness:
  "\<exists>rs y. in_order (put_whole (\<lambda>_ _. no_faults)) ex_requests [2, 3] (ex_handler, empty_world) = Some (rs, y)
    \<and> (\<exists>a. (3, a) \<in> set rs)"
proof -
  obtain s a where s: "guarded_run put_enter (put_move (\<lambda>_ _. no_faults)) put_leave (all_before ex_requests (ex_handler, empty_world)) s"
      "owner s = None" "lock_order s = [2, 3]" "thread_at s 3 = After a"
    using ex_batch_run by blast
  from requests_linearisable [OF s(1), THEN conjunct1, rule_format, OF s(2)] s(3,4) show ?thesis
    by (metis (no_types))
qed

text \<open>C9. Read your writes with many writers at once: threads put single values and batches into a
  consistent database, in any interleaving.  When the mutex is free, a read server that is started on
  the directory answers with exactly the bytes of every value of every finished request, and the values
  of a batch have identifiers in a row, in their order, whatever ran at the same time.\<close>

theorem read_concurrent_writes:
  assumes "runs_sort popen now1 now2"
    and "guarded_run put_enter (put_move (\<lambda>_ _. no_faults)) put_leave (all_before reqs (st, w)) s" and "owner s = None"
    and "db_rep db (w, st) i n m" and "i + int (length (all_values reqs (lock_order s))) \<le> max_records"
    and "\<forall>val \<in> set (all_values reqs (lock_order s)). length val < 2 ^ 32 - 1"
    and "n + length (concat (all_values reqs (lock_order s))) < 2 ^ 63"
    and "thread_at s t = After a" and "request_values (reqs t) = vals"
  shows "\<exists>k. \<forall>j < length vals. vals ! j \<noteq> [] \<longrightarrow>
    start_and_get popen uninit db (snd (shared s), fst (shared s)) (dec (nat (i + int (k + j)))) = Some (Return (vals ! j))"
proof -
  let ?all = "all_values reqs (lock_order s)"
  obtain as where as: "in_order (put_whole (\<lambda>_ _. no_faults)) reqs (lock_order s) (st, w) = Some (as, shared s)"
      "t \<in> set (lock_order s)"
    using put_guard.run_in_order [OF assms(2,3)] assms(8) by blast
  have run: "run_puts put_one (w, st) ?all = Some (snd (shared s), fst (shared s))"
    using in_order_run [of reqs "lock_order s" st w] as(1) by (auto split: prod.splits)
  obtain k where k: "\<And>j. j < length vals \<Longrightarrow> k + j < length ?all \<and> ?all ! (k + j) = vals ! j"
    using values_in_a_row [OF as(2), of reqs] assms(9) by auto
  have "start_and_get popen uninit db (snd (shared s), fst (shared s)) (dec (nat (i + int (k + j)))) = Some (Return (vals ! j))"
    if "j < length vals" "vals ! j \<noteq> []" for j
    using numbered_db.get_stored [OF servers_numbered_db [OF assms(1)] assms(4-7), of "k + j"] k [OF that(1)] that(2) run
    by auto
  then show ?thesis by blast
qed

lemma read_concurrent_writes_witness:
  "\<exists>x k. start_and_get (sh_popen 0 1) zero_rec ''db'' x (dec (nat (1 + int k))) = Some (Return ''v'')
    \<and> start_and_get (sh_popen 0 1) zero_rec ''db'' x (dec (nat (1 + int (k + 1)))) = Some (Return ''w'')"
proof -
  obtain s a where s: "guarded_run put_enter (put_move (\<lambda>_ _. no_faults)) put_leave (all_before ex_requests (ex_handler, empty_world)) s"
      "owner s = None" "lock_order s = [2, 3]" "thread_at s 3 = After a"
    using ex_batch_run by blast
  have vals: "all_values ex_requests (lock_order s) = [''x'', ''v'', ''w'']" "request_values (ex_requests 3) = [''v'', ''w'']"
    by (simp_all add: s(3) all_values_def ex_requests_def)
  have "\<exists>k. \<forall>j < length [''v'', ''w'']. [''v'', ''w''] ! j \<noteq> [] \<longrightarrow>
      start_and_get (sh_popen 0 1) zero_rec ''db'' (snd (shared s), fst (shared s)) (dec (nat (1 + int (k + j)))) =
        Some (Return ([''v'', ''w''] ! j))"
    by (rule read_concurrent_writes [OF runs_sort_sh_popen s(1,2) ex_db_rep _ _ _ s(4) vals(2)])
      (simp_all add: vals(1) max_records_def OZSORT_PER_LINE_def OZSORT_MAX_SPLITS_def)
  then obtain k where k: "\<forall>j < length [''v'', ''w'']. [''v'', ''w''] ! j \<noteq> [] \<longrightarrow>
      start_and_get (sh_popen 0 1) zero_rec ''db'' (snd (shared s), fst (shared s)) (dec (nat (1 + int (k + j)))) =
        Some (Return ([''v'', ''w''] ! j))"
    by blast
  show ?thesis
    using k [rule_format, of 0] k [rule_format, of 1]
    by (intro exI [of _ "(snd (shared s), fst (shared s))"] exI [of _ k]) simp
qed

end
