(* ===== verification/Concurrency.thy ===== *)
theory Concurrency
  imports OZPrelude
begin

text \<open>
  Locks that are held for a scope (\<open>Guard\<close>, \<open>RWGuard\<close> of src/include_deps/thrift/concurrency/Mutex.h
  and \<open>Synchronized\<close> of Monitor.h), and the thread body that repeats a callback (FunctionRunner.h).
  The mutexes themselves are compiled code: their operations are parameters.
\<close>

section \<open>Guards\<close>

text \<open>\<open>lock\<close> is \<open>None\<close> when it does not return; \<open>timedlock\<close> takes milliseconds.\<close>

record 's mutex_ops =
  mx_lock :: "'s \<Rightarrow> 's ub"
  mx_trylock :: "'s \<Rightarrow> bool \<times> 's"
  mx_timedlock :: "int \<Rightarrow> 's \<Rightarrow> bool \<times> 's"
  mx_unlock :: "'s \<Rightarrow> 's"

text \<open>A guard is whether its pointer \<open>mutex_\<close> is set.\<close>

definition Guard_new :: "'s mutex_ops \<Rightarrow> int \<Rightarrow> 's \<Rightarrow> (bool \<times> 's) ub" where
  "Guard_new M timeout s =
     (if timeout = 0 then map_option (Pair True) (mx_lock M s)
      else if timeout < 0 then (case mx_trylock M s of (got, t) \<Rightarrow> Some (if \<not> got then (False, t) else (True, t)))
      else (case mx_timedlock M timeout s of (got, t) \<Rightarrow> Some (if \<not> got then (False, t) else (True, t))))"

definition Guard_delete :: "'s mutex_ops \<Rightarrow> bool \<Rightarrow> 's \<Rightarrow> 's" where
  "Guard_delete M g s = (if g then mx_unlock M s else s)"

definition Guard_bool :: "bool \<Rightarrow> bool" where
  "Guard_bool g = (g \<noteq> False)"

text \<open>\<open>Synchronized\<close> is a guard on the mutex of a monitor, without a timeout.\<close>

definition Synchronized_new :: "('m \<Rightarrow> 's mutex_ops) \<Rightarrow> 'm \<Rightarrow> 's \<Rightarrow> (bool \<times> 's) ub" where
  "Synchronized_new mutex monitor = Guard_new (mutex monitor) 0"

text \<open>A scope: the guard, what is done while it lives, and its end.\<close>

definition guard_scope :: "'s mutex_ops \<Rightarrow> int \<Rightarrow> (bool \<Rightarrow> 's \<Rightarrow> ('a \<times> 's) ub) \<Rightarrow> 's \<Rightarrow> ('a \<times> 's) ub" where
  "guard_scope M timeout body s = do {
     (g, s1) \<leftarrow> Guard_new M timeout s;
     (x, s2) \<leftarrow> body (Guard_bool g) s1;
     Some (x, Guard_delete M g s2) }"

record 's rw_ops =
  rw_acquireRead :: "'s \<Rightarrow> 's ub"
  rw_acquireWrite :: "'s \<Rightarrow> 's ub"
  rw_release :: "'s \<Rightarrow> 's"

datatype RWGuardType = RW_READ | RW_WRITE

definition RWGuard_new :: "'s rw_ops \<Rightarrow> bool \<Rightarrow> 's \<Rightarrow> 's ub" where
  "RWGuard_new M write s = (if write then rw_acquireWrite M s else rw_acquireRead M s)"

definition RWGuard_typed :: "'s rw_ops \<Rightarrow> RWGuardType \<Rightarrow> 's \<Rightarrow> 's ub" where
  "RWGuard_typed M type s = (if type = RW_WRITE then rw_acquireWrite M s else rw_acquireRead M s)"

definition RWGuard_delete :: "'s rw_ops \<Rightarrow> 's \<Rightarrow> 's" where
  "RWGuard_delete M s = rw_release M s"

text \<open>
  What is documented of a mutex, for the thread that uses it: \<open>mine s\<close> is the number of times that this
  thread holds it.
\<close>

definition mutex_ok :: "('s \<Rightarrow> nat) \<Rightarrow> 's mutex_ops \<Rightarrow> bool" where
  "mutex_ok mine M \<longleftrightarrow> (\<forall>s t. mx_lock M s = Some t \<longrightarrow> mine t = mine s + 1)
     \<and> (\<forall>s. mine (snd (mx_trylock M s)) = (if fst (mx_trylock M s) then mine s + 1 else mine s))
     \<and> (\<forall>n s. mine (snd (mx_timedlock M n s)) = (if fst (mx_timedlock M n s) then mine s + 1 else mine s))
     \<and> (\<forall>s. 0 < mine s \<longrightarrow> mine (mx_unlock M s) = mine s - 1)"

lemma Guard_new_ok:
  assumes "mutex_ok mine M" and "Guard_new M timeout s = Some (g, t)"
  shows "mine t = (if g then mine s + 1 else mine s)"
proof -
  note ok = assms(1) [unfolded mutex_ok_def]
  consider (wait) "timeout = 0" | (attempt) "timeout < 0" | (timed) "0 < timeout" by linarith
  then show ?thesis
  proof cases
    case wait
    then show ?thesis
      using assms(2) ok by (auto simp: Guard_new_def)
  next
    case attempt
    then show ?thesis
      using assms(2) spec [OF ok [THEN conjunct2, THEN conjunct1], of s]
      by (auto simp: Guard_new_def split: prod.splits if_splits)
  next
    case timed
    then show ?thesis
      using assms(2) ok [THEN conjunct2, THEN conjunct2, THEN conjunct1, rule_format, of timeout s]
      by (auto simp: Guard_new_def split: prod.splits if_splits)
  qed
qed

text \<open>
  A scope leaves the mutex as it was, whether or not it was taken, when what is done in between
  does; so scopes can be nested in any way.
\<close>

lemma guard_scope_balanced:
  assumes "mutex_ok mine M" and "\<And>g s x t. body g s = Some (x, t) \<Longrightarrow> mine t = mine s"
    and "guard_scope M timeout body s = Some (x, t)"
  shows "mine t = mine s"
proof -
  obtain g s1 s2 where s: "Guard_new M timeout s = Some (g, s1)" "body (Guard_bool g) s1 = Some (x, s2)" "t = Guard_delete M g s2"
    using assms(3) by (auto simp: guard_scope_def split: bind_splits)
  have "mine s2 = (if g then mine s + 1 else mine s)"
    using assms(2) [OF s(2)] Guard_new_ok [OF assms(1) s(1)] by simp
  then show ?thesis
    using assms(1) s(3) by (auto simp: Guard_delete_def mutex_ok_def)
qed

text \<open>Inside, the guard is true exactly when the mutex was taken, and without a timeout it always is.\<close>

lemma guard_scope_taken:
  assumes "Guard_new M timeout s = Some (g, t)" and "timeout = 0"
  shows "Guard_bool g"
  using assms by (auto simp: Guard_new_def Guard_bool_def)

section \<open>Callbacks in a thread\<close>

text \<open>
  A function object that is empty is \<open>None\<close>, and calling it throws \<open>bad_function_call\<close>.
  \<open>interval\<close> is indeterminate for the other constructors.
\<close>

record 'w FunctionRunner =
  run_func :: "('w \<Rightarrow> 'w) option"
  run_repFunc :: "('w \<Rightarrow> bool \<times> 'w) option"
  run_intervalMs :: "int option"

definition FunctionRunner_pthread :: "('v \<Rightarrow> 'w \<Rightarrow> 'r \<times> 'w) \<Rightarrow> 'v \<Rightarrow> 'w FunctionRunner" where
  "FunctionRunner_pthread func arg =
     \<lparr>run_func = Some (\<lambda>w. snd (func arg w)), run_repFunc = None, run_intervalMs = None\<rparr>"

definition FunctionRunner_void :: "('w \<Rightarrow> 'w) \<Rightarrow> 'w FunctionRunner" where
  "FunctionRunner_void cob = \<lparr>run_func = Some cob, run_repFunc = None, run_intervalMs = None\<rparr>"

definition FunctionRunner_repeat :: "('w \<Rightarrow> bool \<times> 'w) \<Rightarrow> int \<Rightarrow> 'w FunctionRunner" where
  "FunctionRunner_repeat cob intervalMs = \<lparr>run_func = None, run_repFunc = Some cob, run_intervalMs = Some intervalMs\<rparr>"

datatype 'w run_result = Returned_from 'w | Undefined_product | Bad_function_call

text \<open>
  The outer \<open>None\<close> stands for a loop that does not end.  The product of the interval is an
  \<open>int\<close>; \<open>usleep\<close> is a parameter.
\<close>

partial_function (option) run_repeat :: "(int \<Rightarrow> 'w \<Rightarrow> 'w) \<Rightarrow> ('w \<Rightarrow> bool \<times> 'w) \<Rightarrow> int \<Rightarrow> 'w \<Rightarrow> 'w run_result option" where
  "run_repeat usleep rep ms w =
     (if \<not> fst (rep w) then Some (Returned_from (snd (rep w)))
      else if ms * 1000 < - (2 ^ 31) \<or> 2 ^ 31 \<le> ms * 1000 then Some Undefined_product
      else run_repeat usleep rep ms (usleep (ms * 1000) (snd (rep w))))"

definition FunctionRunner_run :: "(int \<Rightarrow> 'w \<Rightarrow> 'w) \<Rightarrow> 'w FunctionRunner \<Rightarrow> 'w \<Rightarrow> 'w run_result option" where
  "FunctionRunner_run usleep r w = (case run_repFunc r of
     Some rep \<Rightarrow> (case run_intervalMs r of
         None \<Rightarrow> Some Undefined_product
       | Some ms \<Rightarrow> run_repeat usleep rep ms w)
   | None \<Rightarrow> (case run_func r of
         None \<Rightarrow> Some Bad_function_call
       | Some f \<Rightarrow> Some (Returned_from (f w))))"

text \<open>The world after \<open>n\<close> rounds.\<close>

definition after_rounds :: "(int \<Rightarrow> 'w \<Rightarrow> 'w) \<Rightarrow> ('w \<Rightarrow> bool \<times> 'w) \<Rightarrow> int \<Rightarrow> nat \<Rightarrow> 'w \<Rightarrow> 'w" where
  "after_rounds usleep rep ms n w = ((\<lambda>w. usleep (ms * 1000) (snd (rep w))) ^^ n) w"

lemma after_rounds_Suc:
  "after_rounds usleep rep ms (Suc n) w = after_rounds usleep rep ms n (usleep (ms * 1000) (snd (rep w)))"
  by (simp add: after_rounds_def funpow_Suc_right del: funpow.simps)

lemma run_repeat_ends:
  assumes "- 2147483 \<le> ms" and "ms \<le> 2147483"
    and "\<And>i. i < n \<Longrightarrow> fst (rep (after_rounds usleep rep ms i w))" and "\<not> fst (rep (after_rounds usleep rep ms n w))"
  shows "run_repeat usleep rep ms w = Some (Returned_from (snd (rep (after_rounds usleep rep ms n w))))"
  using assms(3,4)
proof (induction n arbitrary: w)
  case 0
  then show ?case
    by (subst run_repeat.simps) (simp add: after_rounds_def)
next
  case (Suc n)
  let ?w = "usleep (ms * 1000) (snd (rep w))"
  note round = after_rounds_Suc [of usleep rep ms _ w]
  have "fst (rep w)"
    using Suc.prems(1) [of 0] by (simp add: after_rounds_def)
  moreover have "run_repeat usleep rep ms ?w = Some (Returned_from (snd (rep (after_rounds usleep rep ms n ?w))))"
    using Suc.prems(1) [of "Suc i" for i] Suc.prems(2) unfolding round by (intro Suc.IH) simp_all
  ultimately show ?case
    using assms(1,2) unfolding round by (subst run_repeat.simps) simp
qed

lemma run_repeat_stopped:
  assumes "run_repeat usleep rep ms w = Some r" and "- 2147483 \<le> ms" and "ms \<le> 2147483"
  shows "\<exists>n. \<not> fst (rep (after_rounds usleep rep ms n w))"
proof -
  let ?P = "\<lambda>usleep rep ms w (r :: 'a run_result). - 2147483 \<le> ms \<longrightarrow> ms \<le> 2147483 \<longrightarrow>
    (\<exists>n. \<not> fst (rep (after_rounds usleep rep ms n w)))"
  have "?P usleep rep ms w r"
  proof (rule run_repeat.raw_induct [where P = ?P, OF _ assms(1)], intro impI)
    fix run and usleep :: "int \<Rightarrow> 'a \<Rightarrow> 'a" and rep ms w and r :: "'a run_result"
    assume IH: "\<And>usleep rep ms w r. run usleep rep ms w = Some r \<Longrightarrow> ?P usleep rep ms w r"
      and step: "(if \<not> fst (rep w) then Some (Returned_from (snd (rep w)))
        else if ms * 1000 < - (2 ^ 31) \<or> 2 ^ 31 \<le> ms * 1000 then Some Undefined_product
        else run usleep rep ms (usleep (ms * 1000) (snd (rep w)))) = Some r"
      and ms: "- 2147483 \<le> ms" "ms \<le> 2147483"
    show "\<exists>n. \<not> fst (rep (after_rounds usleep rep ms n w))"
    proof (cases "fst (rep w)")
      case True
      then have "run usleep rep ms (usleep (ms * 1000) (snd (rep w))) = Some r"
        using step ms by simp
      from IH [OF this] ms obtain n where "\<not> fst (rep (after_rounds usleep rep ms (Suc n) w))"
        unfolding after_rounds_Suc by blast
      then show ?thesis ..
    next
      case False
      then show ?thesis
        by (intro exI [of _ 0]) (simp add: after_rounds_def)
    qed
  qed
  with assms(2,3) show ?thesis by blast
qed

text \<open>The thread ends exactly when a call of the callback gives false.\<close>

lemma runner_ends_iff:
  assumes "- 2147483 \<le> ms" and "ms \<le> 2147483"
  shows "FunctionRunner_run usleep (FunctionRunner_repeat rep ms) w \<noteq> None
    \<longleftrightarrow> (\<exists>n. \<not> fst (rep (after_rounds usleep rep ms n w)))"
proof -
  have run: "FunctionRunner_run usleep (FunctionRunner_repeat rep ms) w = run_repeat usleep rep ms w"
    by (simp add: FunctionRunner_run_def FunctionRunner_repeat_def)
  have "(\<exists>n. \<not> fst (rep (after_rounds usleep rep ms n w))) \<Longrightarrow> run_repeat usleep rep ms w \<noteq> None"
  proof -
    assume stop: "\<exists>n. \<not> fst (rep (after_rounds usleep rep ms n w))"
    define n where "n = (LEAST n. \<not> fst (rep (after_rounds usleep rep ms n w)))"
    have "\<not> fst (rep (after_rounds usleep rep ms n w))"
      unfolding n_def using stop by (rule LeastI_ex)
    moreover have "fst (rep (after_rounds usleep rep ms i w))" if "i < n" for i
      using that not_less_Least unfolding n_def by blast
    ultimately show ?thesis
      using run_repeat_ends [OF assms, of n rep usleep w] by simp
  qed
  then show ?thesis
    unfolding run using run_repeat_stopped [OF _ assms, of usleep rep w] by (cases "run_repeat usleep rep ms w") auto
qed

end
