(* ===== verification/MoreTransports.thy ===== *)
theory MoreTransports
  imports MemoryCorrect OZone
begin

text \<open>
  The inline parts of the transport on a file (src/include_deps/thrift/transport/TFileTransport.h):
  its settings, and the state of its reader with the event that is being read; and of the transport
  that compresses (TZlibTransport.h): its constructor with four buffers, and its exception.
\<close>

section \<open>The settings of the file transport\<close>

record TFileTransport =
  ft_readBuffSize :: u32
  ft_readTimeout :: i32
  ft_chunkSize :: u32
  ft_eventBufferSize :: u32
  ft_flushMaxUs :: u32
  ft_flushMaxBytes :: u32
  ft_maxEventSize :: u32
  ft_maxCorruptedEvents :: u32
  ft_eofSleepTime :: u32
  ft_initialized :: bool

definition TAIL_READ_TIMEOUT :: i32 where "TAIL_READ_TIMEOUT = - 1"
definition NO_TAIL_READ_TIMEOUT :: i32 where "NO_TAIL_READ_TIMEOUT = 0"

definition setReadBuffSize :: "u32 \<Rightarrow> TFileTransport \<Rightarrow> TFileTransport" where
  "setReadBuffSize n f = (if n \<noteq> 0 then f\<lparr>ft_readBuffSize := n\<rparr> else f)"

definition setReadTimeout :: "i32 \<Rightarrow> TFileTransport \<Rightarrow> TFileTransport" where
  "setReadTimeout n f = f\<lparr>ft_readTimeout := n\<rparr>"

definition setChunkSize :: "u32 \<Rightarrow> TFileTransport \<Rightarrow> TFileTransport" where
  "setChunkSize n f = (if n \<noteq> 0 then f\<lparr>ft_chunkSize := n\<rparr> else f)"

text \<open>The size of the event buffers is fixed once the writer thread has them; the message is returned.\<close>

definition setEventBufferSize :: "u32 \<Rightarrow> TFileTransport \<Rightarrow> string option \<times> TFileTransport" where
  "setEventBufferSize n f =
     (if ft_initialized f then (Some ''Cannot change the buffer size after writer thread started'', f)
      else (None, f\<lparr>ft_eventBufferSize := n\<rparr>))"

definition setFlushMaxUs :: "u32 \<Rightarrow> TFileTransport \<Rightarrow> TFileTransport" where
  "setFlushMaxUs n f = (if n \<noteq> 0 then f\<lparr>ft_flushMaxUs := n\<rparr> else f)"

definition setFlushMaxBytes :: "u32 \<Rightarrow> TFileTransport \<Rightarrow> TFileTransport" where
  "setFlushMaxBytes n f = (if n \<noteq> 0 then f\<lparr>ft_flushMaxBytes := n\<rparr> else f)"

definition setMaxEventSize :: "u32 \<Rightarrow> TFileTransport \<Rightarrow> TFileTransport" where
  "setMaxEventSize n f = f\<lparr>ft_maxEventSize := n\<rparr>"

definition setMaxCorruptedEvents :: "u32 \<Rightarrow> TFileTransport \<Rightarrow> TFileTransport" where
  "setMaxCorruptedEvents n f = f\<lparr>ft_maxCorruptedEvents := n\<rparr>"

definition setEofSleepTimeUs :: "u32 \<Rightarrow> TFileTransport \<Rightarrow> TFileTransport" where
  "setEofSleepTimeUs n f = (if n \<noteq> 0 then f\<lparr>ft_eofSleepTime := n\<rparr> else f)"

lemmas file_setting_defs = setReadBuffSize_def setReadTimeout_def setChunkSize_def setEventBufferSize_def
  setFlushMaxUs_def setFlushMaxBytes_def setMaxEventSize_def setMaxCorruptedEvents_def setEofSleepTimeUs_def

datatype file_setting =
  Read_buff_size u32 | Read_timeout i32 | Chunk_size u32 | Event_buffer_size u32 | Flush_max_us u32
| Flush_max_bytes u32 | Max_event_size u32 | Max_corrupted_events u32 | Eof_sleep_time u32

fun file_set :: "file_setting \<Rightarrow> TFileTransport \<Rightarrow> TFileTransport" where
  "file_set (Read_buff_size n) f = setReadBuffSize n f"
| "file_set (Read_timeout n) f = setReadTimeout n f"
| "file_set (Chunk_size n) f = setChunkSize n f"
| "file_set (Event_buffer_size n) f = snd (setEventBufferSize n f)"
| "file_set (Flush_max_us n) f = setFlushMaxUs n f"
| "file_set (Flush_max_bytes n) f = setFlushMaxBytes n f"
| "file_set (Max_event_size n) f = setMaxEventSize n f"
| "file_set (Max_corrupted_events n) f = setMaxCorruptedEvents n f"
| "file_set (Eof_sleep_time n) f = setEofSleepTimeUs n f"

text \<open>Sizes and times that the code divides by or waits for are never set to zero.\<close>

definition file_settings_ok :: "TFileTransport \<Rightarrow> bool" where
  "file_settings_ok f \<longleftrightarrow> ft_readBuffSize f \<noteq> 0 \<and> ft_chunkSize f \<noteq> 0 \<and> ft_flushMaxUs f \<noteq> 0
     \<and> ft_flushMaxBytes f \<noteq> 0 \<and> ft_eofSleepTime f \<noteq> 0"

lemma file_set_ok: "file_settings_ok f \<Longrightarrow> file_settings_ok (file_set c f)"
  by (cases c) (simp_all add: file_settings_ok_def file_setting_defs)

lemma file_sets_ok: "file_settings_ok f \<Longrightarrow> file_settings_ok (fold file_set cs f)"
  by (induction cs arbitrary: f) (simp_all add: file_set_ok)

lemma file_sets_started:
  "ft_initialized f \<Longrightarrow> ft_eventBufferSize (fold file_set cs f) = ft_eventBufferSize f"
proof (induction cs arbitrary: f)
  case (Cons c cs)
  have "ft_initialized (file_set c f)" "ft_eventBufferSize (file_set c f) = ft_eventBufferSize f"
    using Cons.prems by (cases c; simp add: file_setting_defs)+
  with Cons.IH show ?case by simp
qed simp

section \<open>Events and the state of the reader\<close>

record eventInfo =
  eventBuff :: "block option"
  eventSize :: u32
  eventBuffPos :: u32

text \<open>The heap of the bytes, with the events that were made and not yet deleted.\<close>

record event_heap =
  event_bytes :: c_heap
  events :: "nat \<Rightarrow> eventInfo option"

definition eventInfo_new :: eventInfo where
  "eventInfo_new = \<lparr>eventBuff = None, eventSize = 0, eventBuffPos = 0\<rparr>"

definition eventInfo_destroy :: "eventInfo \<Rightarrow> c_heap \<Rightarrow> c_heap ub" where
  "eventInfo_destroy e h = (if eventBuff e \<noteq> None then c_free (eventBuff e) h else Some h)"

definition delete_event :: "nat \<Rightarrow> event_heap \<Rightarrow> event_heap ub" where
  "delete_event a h = (case events h a of
     None \<Rightarrow> None
   | Some e \<Rightarrow> map_option (\<lambda>b. h\<lparr>event_bytes := b, events := (events h)(a := None)\<rparr>) (eventInfo_destroy e (event_bytes h)))"

record readState =
  rs_event :: "nat option"
  rs_eventSizeBuffPos :: "8 word"
  rs_readingSize :: bool
  rs_bufferPtr :: i32
  rs_bufferLen :: i32
  rs_lastDispatchPtr :: i32

definition resetState :: "u32 \<Rightarrow> readState \<Rightarrow> readState" where
  "resetState lastDispatchPtr r =
     r\<lparr>rs_readingSize := True, rs_eventSizeBuffPos := 0, rs_lastDispatchPtr := ucast lastDispatchPtr\<rparr>"

definition resetAllValues :: "readState \<times> event_heap \<Rightarrow> (readState \<times> event_heap) ub" where
  "resetAllValues = (\<lambda>(r, h).
     let r1 = (resetState 0 r)\<lparr>rs_bufferPtr := 0, rs_bufferLen := 0\<rparr>
     in case rs_event r1 of
          None \<Rightarrow> Some (r1\<lparr>rs_event := None\<rparr>, h)
        | Some a \<Rightarrow> map_option (\<lambda>h1. (r1\<lparr>rs_event := None\<rparr>, h1)) (delete_event a h))"

text \<open>\<open>uninit\<close> is what the memory of the object holds before.\<close>

definition readState_new :: "readState \<Rightarrow> event_heap \<Rightarrow> (readState \<times> event_heap) ub" where
  "readState_new uninit h = resetAllValues (uninit\<lparr>rs_event := None\<rparr>, h)"

definition readState_destroy :: "readState \<times> event_heap \<Rightarrow> event_heap ub" where
  "readState_destroy = (\<lambda>(r, h). case rs_event r of None \<Rightarrow> Some h | Some a \<Rightarrow> delete_event a h)"

text \<open>A reader owns its event, and the event its bytes.\<close>

definition read_state_ok :: "readState \<Rightarrow> event_heap \<Rightarrow> bool" where
  "read_state_ok r h \<longleftrightarrow> (\<forall>a. rs_event r = Some a \<longrightarrow> (\<exists>e. events h a = Some e
     \<and> (\<forall>b. eventBuff e = Some b \<longrightarrow> blocks (event_bytes h) b \<noteq> None)))"

definition event_blocks :: "readState \<Rightarrow> event_heap \<Rightarrow> block set" where
  "event_blocks r h = {b. \<exists>a e. rs_event r = Some a \<and> events h a = Some e \<and> eventBuff e = Some b}"

lemma delete_event_ok:
  assumes "read_state_ok r h" and "rs_event r = Some a"
  shows "\<exists>h1. delete_event a h = Some h1 \<and> events h1 = (events h)(a := None)
    \<and> blocks (event_bytes h1) = blocks (event_bytes h) |` (- event_blocks r h)"
  using assms
  by (auto simp: read_state_ok_def delete_event_def eventInfo_destroy_def c_free_def event_blocks_def restrict_map_def
      fun_eq_iff split: option.splits)

text \<open>A reset frees what the reader owns and nothing else, and then the destructor has nothing left to free.\<close>

lemma reset_then_destroy:
  assumes "read_state_ok r h"
  shows "\<exists>r1 h1. resetAllValues (r, h) = Some (r1, h1) \<and> rs_event r1 = None \<and> rs_readingSize r1
    \<and> blocks (event_bytes h1) = blocks (event_bytes h) |` (- event_blocks r h)
    \<and> events h1 = events h |` (- set_option (rs_event r)) \<and> readState_destroy (r1, h1) = Some h1"
proof (cases "rs_event r")
  case None
  then show ?thesis
    by (simp add: resetAllValues_def resetState_def Let_def event_blocks_def readState_destroy_def restrict_map_def)
next
  case (Some a)
  obtain h1 where "delete_event a h = Some h1" "events h1 = (events h)(a := None)"
      "blocks (event_bytes h1) = blocks (event_bytes h) |` (- event_blocks r h)"
    using delete_event_ok [OF assms Some] by blast
  then show ?thesis
    using Some by (simp add: resetAllValues_def resetState_def Let_def readState_destroy_def restrict_map_def fun_eq_iff)
qed

lemma readState_new_ok: "\<exists>r. readState_new uninit h = Some (r, h) \<and> rs_event r = None \<and> rs_bufferLen r = 0"
  by (simp add: readState_new_def resetAllValues_def resetState_def Let_def)

section \<open>The transport that compresses\<close>

definition zlib_errorMessage :: "int \<Rightarrow> string option \<Rightarrow> string" where
  "zlib_errorMessage status msg = ''zlib error: '' @ (case msg of Some m \<Rightarrow> cstr m | None \<Rightarrow> ''(no message)'')
     @ '' (status = '' @ dec_int status @ '')''"

record TZlibTransportException =
  zlib_text :: string
  zlib_status :: int
  zlib_msg :: string

definition TZlibTransportException_new :: "int \<Rightarrow> string option \<Rightarrow> TZlibTransportException" where
  "TZlibTransportException_new status msg = \<lparr>zlib_text = zlib_errorMessage status msg, zlib_status = status,
     zlib_msg = (case msg of None \<Rightarrow> ''(null)'' | Some m \<Rightarrow> cstr m)\<rparr>"

definition MIN_DIRECT_DEFLATE_SIZE :: u32 where
  "MIN_DIRECT_DEFLATE_SIZE = 32"

record TZlibTransport =
  zt_urbuf :: block
  zt_crbuf :: block
  zt_uwbuf :: block
  zt_cwbuf :: block
  zt_urpos :: int
  zt_uwpos :: int
  zt_input_ended :: bool
  zt_output_finished :: bool
  zt_urbuf_size :: u32
  zt_crbuf_size :: u32
  zt_uwbuf_size :: u32
  zt_cwbuf_size :: u32

datatype zlib_error = Bad_args string | Bad_alloc | Init_failed

text \<open>\<open>new uint8_t[n]\<close> throws when \<open>n\<close> is negative or there is no room; deleting a null pointer is nothing.\<close>

definition new_bytes :: "int \<Rightarrow> c_heap \<Rightarrow> block option \<times> c_heap" where
  "new_bytes n h = (if n < 0 then (None, h) else c_malloc (nat n) h)"

definition delete_four :: "block option \<Rightarrow> block option \<Rightarrow> block option \<Rightarrow> block option \<Rightarrow> c_heap \<Rightarrow> c_heap ub" where
  "delete_four a b c d h = do { h1 \<leftarrow> c_free a h; h2 \<leftarrow> c_free b h1; h3 \<leftarrow> c_free c h2; c_free d h3 }"

text \<open>\<open>init\<close> stands for \<open>initZlib\<close>, which is compiled, and says whether it returned.\<close>

definition TZlibTransport_new :: "(c_heap \<Rightarrow> bool \<times> c_heap) \<Rightarrow> int \<Rightarrow> int \<Rightarrow> int \<Rightarrow> int \<Rightarrow> c_heap
    \<Rightarrow> ((zlib_error + TZlibTransport) \<times> c_heap) ub" where
  "TZlibTransport_new init ur cr uw cw h =
     (if (of_int uw :: u32) < MIN_DIRECT_DEFLATE_SIZE
      then Some (Inl (Bad_args (''TZLibTransport: uncompressed write buffer must be at least'' @ dec_int 32 @ ''.'')), h)
      else (case new_bytes ur h of
        (None, h1) \<Rightarrow> map_option (Pair (Inl Bad_alloc)) (delete_four None None None None h1)
      | (Some a, h1) \<Rightarrow> (case new_bytes cr h1 of
          (None, h2) \<Rightarrow> map_option (Pair (Inl Bad_alloc)) (delete_four (Some a) None None None h2)
        | (Some b, h2) \<Rightarrow> (case new_bytes uw h2 of
            (None, h3) \<Rightarrow> map_option (Pair (Inl Bad_alloc)) (delete_four (Some a) (Some b) None None h3)
          | (Some c, h3) \<Rightarrow> (case new_bytes cw h3 of
              (None, h4) \<Rightarrow> map_option (Pair (Inl Bad_alloc)) (delete_four (Some a) (Some b) (Some c) None h4)
            | (Some d, h4) \<Rightarrow> (case init h4 of
                (False, h5) \<Rightarrow> map_option (Pair (Inl Init_failed)) (delete_four (Some a) (Some b) (Some c) (Some d) h5)
              | (True, h5) \<Rightarrow> Some (Inr \<lparr>zt_urbuf = a, zt_crbuf = b, zt_uwbuf = c, zt_cwbuf = d, zt_urpos = 0,
                  zt_uwpos = 0, zt_input_ended = False, zt_output_finished = False, zt_urbuf_size = of_int ur,
                  zt_crbuf_size = of_int cr, zt_uwbuf_size = of_int uw, zt_cwbuf_size = of_int cw\<rparr>, h5)))))))"

lemma new_bytes_cases:
  assumes "heap_ok h"
  obtains (fails) "new_bytes n h = (None, h)"
    | (gives) h1 c where "new_bytes n h = (Some (next_block h), h1)" "heap_ok h1" "blocks h1 = (blocks h)(next_block h \<mapsto> c)"
        "next_block h1 = Suc (next_block h)" "length c = nat n" "blocks h (next_block h) = None"
proof (cases "new_bytes n h = (None, h)")
  case False
  then have "0 \<le> n" "room h (nat n)"
    by (auto simp: new_bytes_def c_malloc_def split: if_splits)
  then show ?thesis
    using assms gives by (auto simp: new_bytes_def c_malloc_def heap_ok_def)
qed (rule fails)

text \<open>
  The constructor makes all four buffers or, when one cannot be made or \<open>initZlib\<close> throws, gives
  back those that it made.
\<close>

lemma zlib_no_leak:
  assumes "heap_ok h" and "\<And>g. blocks (snd (init g)) = blocks g"
  shows "case TZlibTransport_new init ur cr uw cw h of
      None \<Rightarrow> False
    | Some (Inl e, g) \<Rightarrow> blocks g = blocks h
    | Some (Inr z, g) \<Rightarrow> distinct [zt_urbuf z, zt_crbuf z, zt_uwbuf z, zt_cwbuf z]
        \<and> blocks g |` (- {zt_urbuf z, zt_crbuf z, zt_uwbuf z, zt_cwbuf z}) = blocks h
        \<and> map_option length (blocks g (zt_uwbuf z)) = Some (nat uw) \<and> MIN_DIRECT_DEFLATE_SIZE \<le> zt_uwbuf_size z"
proof (cases "(of_int uw :: u32) < MIN_DIRECT_DEFLATE_SIZE")
  case True
  then show ?thesis
    by (simp add: TZlibTransport_new_def)
next
  case False
  note new = TZlibTransport_new_def if_not_P [OF False]
  note free = delete_four_def c_free_def
  show ?thesis
  proof (cases rule: new_bytes_cases [OF assms(1), where n = ur, case_names fails gives])
    case fails
    then show ?thesis
      by (simp add: new free)
  next
    case a: (gives h1 x)
    show ?thesis
    proof (cases rule: new_bytes_cases [OF a(2), where n = cr, case_names fails gives])
      case fails
      then show ?thesis
        using a by (simp add: new free fun_upd_idem)
    next
      case b: (gives h2 y)
      show ?thesis
      proof (cases rule: new_bytes_cases [OF b(2), where n = uw, case_names fails gives])
        case fails
        then show ?thesis
          using a b by (simp add: new free fun_eq_iff)
      next
        case c: (gives h3 z)
        show ?thesis
        proof (cases rule: new_bytes_cases [OF c(2), where n = cw, case_names fails gives])
          case fails
          then show ?thesis
            using a b c by (simp add: new free fun_eq_iff)
        next
          case d: (gives h4 v)
          obtain ok h5 where init: "init h4 = (ok, h5)" by force
          then have "blocks h5 = blocks h4"
            using assms(2) [of h4] by simp
          then show ?thesis
            using a b c d init False by (cases ok) (auto simp: new free fun_eq_iff restrict_map_def)
        qed
      qed
    qed
  qed
qed

end
