(* ===== verification/Spec2Isabelle.thy ===== *)
theory Spec2Isabelle
  imports ToolProps StoreProps ServerProps TravProps RpcProps HostileProps BufferProps TestProps Shutdown CompactProps OverProps TapProps MemoryProps LibErrors WrapperProps Stats
    Times NonblockingServer TravThreads WriteBatches Concurrency MoreTransports
begin

text \<open>
  OZoneStore: a store of values under numbers, kept in two append-only files.  This development
  models its C core (src/src/ozsort, src/src/ozcore), the three servers over it
  (src/src/server), the code that the Thrift compiler generated for them, and the binary
  protocol underneath (src/include_deps/thrift/protocol), and proves what they promise.

  How the program works.  A database is a directory with \<open>key.dat\<close> (a line \<open>key offset length\<close>
  for each value) and \<open>value.dat\<close> (the bytes).  The writer appends a value, then its line; a
  key that is written again gets a second line, and the one with the larger offset counts.
  The reader starts by running the external sort tool through \<open>popen\<close>: the lines are split
  into sorted chunk files, the chunks are merged, and one line per key, the newest, is printed
  with their number in front.  The reader keeps that table in memory and finds keys in it by
  binary search; a batch is read in the order of the offsets.  The traversal reads the lines
  in file order without sorting.  The write server numbers the values itself, under a mutex;
  the read server shares one stream of the value file among its threads; the traversal server
  has one cursor that each request sets.  Clients call them through generated stubs.

  The theories, from the bottom, and the code they model:
    \<^item> \<open>OZPrelude\<close>: undefined behaviour as \<open>None\<close> (\<open>ub\<close>), the order of \<open>strcmp\<close>, C strings,
      decimal numbers, and shared lemmas.  \<open>CLib\<close>: what the code uses of the C library: files as
      a map from paths to contents (\<open>world\<close>), append streams with a buffer, \<open>fopen\<close>, \<open>fseeko\<close>,
      \<open>fread\<close>, \<open>scanf\<close> conversions, \<open>atoi\<close>, pointers that may be null or indeterminate (\<open>ptr\<close>).
    \<^item> \<open>OZone\<close>: ozone.h, the record, the paths, and the key line that is printed and scanned.
    \<^item> \<open>SortTool\<close> (ozsort.c, main.c) and \<open>SortCorrect\<close>: chunks, merge with look-ahead, output
      and exit codes; the merge computes a stable sort, the table is sorted and has the newest
      record of each visible key.
    \<^item> \<open>ReadCore\<close> (ozread.c) and \<open>ReadCorrect\<close>: opening, binary search, single and batch reads,
      every return value, buffers with their sizes.
    \<^item> \<open>WriteCore\<close> (ozwrite.c) and \<open>Store\<close>: the writer, and the two files as a map from keys to
      values (\<open>db_map\<close>, with the invariant \<open>db_inv\<close>), which writer and reader refine.
    \<^item> \<open>TravCore\<close> (oztrav.c) and \<open>TravCorrect\<close>: loading, the cursor with its growing buffers and
      its invariant, whole traversals.
    \<^item> \<open>ReadServer\<close>, \<open>WriteServer\<close>, \<open>TravServer\<close> (the skeleton files): handlers and requests;
      \<open>WriteFaults\<close> has the write server when its writes fail;
      \<open>ReadServer\<close> and \<open>WriteThreads\<close> have the threads as step relations over what two calls of a
      request can be interrupted by.  The locale \<open>numbered_store\<close> is the contract of a put, and
      \<open>EndToEnd\<close> extends it by a get (\<open>numbered_db\<close>); both are interpreted on the handlers.
    \<^item> \<open>Guarded\<close>: threads whose requests run on a shared object under one mutex.  The locales
      \<open>guarded_object\<close> and \<open>guarded_service\<close> are the contract of such an object, and give that every run
      is a sequence of whole requests; \<open>WriteBatches\<close> interprets them on \<open>put\<close> and \<open>puts\<close>, \<open>TravThreads\<close> on
      \<open>next_kv\<close>.
    \<^item> \<open>Wire\<close> (TBinaryProtocol.tcc), \<open>WireStruct\<close> (skip of TProtocol.h, values of any type) and
      \<open>WireCodec\<close> (the loops of generated readers).  A reader takes the bytes left and gives an
      error or a value with the bytes left after it.  The locale \<open>codec\<close> is the contract of a
      writer and its reader; it is interpreted on every struct.
    \<^item> \<open>Transport\<close> (TBufferTransports.h, TTransport.h) and \<open>OverBuffer\<close>: the buffer between the
      protocol and a connection, and the protocol as the template over its transport that the
      source has.  \<open>follows\<close> is the refinement: over the buffer, in pieces of any size, the readers of
      \<open>OverBuffer\<close> read what those of \<open>Wire\<close> read from the bytes.  \<open>OverStruct\<close> and \<open>OverStub\<close> lift it
      to skipping, structs, processors and clients (\<open>serves\<close>), so that what is proved of requests on
      the bytes holds for the connections of the servers.
    \<^item> \<open>Varint\<close>, \<open>Compact\<close> (TCompactProtocol.tcc) and \<open>CompactCorrect\<close>: the compact protocol with
      the state of its object; \<open>in_step\<close> says that a reader keeps step with the writer.  \<open>Tap\<close>
      (TProtocolTap.h): reading with a copy to another protocol; the locale \<open>value_sink\<close> is the
      contract of that other protocol, interpreted on the binary and on the compact one.
    \<^item> \<open>MemoryBuffer\<close> (TMemoryBuffer of TBufferTransports.h, on a heap of blocks), \<open>MemoryCorrect\<close> (the
      invariant \<open>memory_ok\<close>, the blocks of the others) and \<open>MemoryQueue\<close> (the calls of a client and
      the queue of bytes that they refine).  \<open>LibErrors\<close>: the texts of the library's exceptions.
    \<^item> \<open>Wrappers\<close> (TShortReadTransport.h, TTransportUtils.h) and \<open>WrapperProps\<close>: transports around
      another transport, which reads short or pipes to a second one.  \<open>Stats\<close> (StatsProcessor.h):
      the processor that counts calls and prints their arguments, with the text stated as a function
      of the values.  \<open>Times\<close> (Util.h): times and ticks in signed 64 bit arithmetic.
      \<open>ServerBase\<close> (TServer.h, Thrift.h) and \<open>NonblockingServer\<close> (TNonblockingServer.h): the members of
      every server as a record that the other one extends, settings and counters of the server, the life of a
      connection with its buffers on the heap, and the notification pipe.  \<open>Concurrency\<close> (Mutex.h, Monitor.h,
      FunctionRunner.h): guards leave a mutex as they found it, a repeated callback ends when it
      says so.  \<open>MoreTransports\<close> (TFileTransport.h, TZlibTransport.h): settings, reader state, and a
      constructor that gives back what it took.
    \<^item> \<open>WireTypes\<close> (ozstore_types), \<open>RpcCore\<close> (the shape of calls, processors and clients that the
      three services repeat; locale \<open>remote_method\<close>), \<open>ReadStub\<close>, \<open>WriteStub\<close>, \<open>TravStub\<close> (the
      OZ...Service files), \<open>Remote\<close> (the handlers behind the processors).
    \<^item> \<open>Hostile\<close>: the processors on arbitrary bytes.  \<open>ServerMain\<close>: \<open>main\<close> and \<open>server_threadpool\<close> of
      the servers, from the arguments to the exit.
    \<^item> \<open>Shutdown\<close>: the signal handlers and the life of a server object, and the servers that do
      not block.  \<open>TestProgram\<close> (test.c): the functions of the test program.
    \<^item> \<open>Example\<close>: a small database for the witnesses.  \<open>ToolProps\<close>, \<open>StoreProps\<close>, \<open>ServerProps\<close>,
      \<open>TravProps\<close>, \<open>RpcProps\<close>, \<open>BufferProps\<close>, \<open>OverProps\<close>, \<open>HostileProps\<close>, \<open>TestProps\<close>, \<open>Shutdown\<close>,
      \<open>CompactProps\<close>, \<open>TapProps\<close>, \<open>MemoryProps\<close>, \<open>WrapperProps\<close>, \<open>Stats\<close>, \<open>Times\<close>, \<open>NonblockingServer\<close>,
      \<open>WriteBatches\<close>, \<open>TravThreads\<close> and this theory state the properties, each after its number.

  State and operations.  A struct is a record, a \<open>FILE\<close> for appending is a path with the bytes
  not yet flushed, and operations take and return the \<open>world\<close>.  Library calls that can fail do
  so by a parameter: \<open>alloc\<close> decides each allocation, \<open>put_env\<close> the faults of a put, \<open>popen\<close> what a
  command does (the hypothesis \<open>runs_sort\<close> says that it runs the sort tool), \<open>app_io\<close> is the code
  of the compiled RPC library for its exception (hypothesis \<open>app_round_trip\<close>), and the server loop of
  that library is a function that hands inputs to the processor (hypothesis \<open>runs_requests\<close>).  Offsets are 64
  and lengths 32 bit words, as in the code.  A step that the C standard leaves undefined is
  \<open>None\<close>, so that \<open>= Some\<close> in a theorem also says that no undefined step was taken.  The slow paths of the
  buffered transport are in the compiled library too: \<open>slow_read_ok\<close>, \<open>slow_borrow_ok\<close>, \<open>slow_write_ok\<close>
  and \<open>flush_ok\<close> state what the header documents of them, and \<open>slow_paths_ok\<close> those of the memory buffer; \<open>reads_ok\<close> is the contract of a \<open>read\<close>, and \<open>keeps_heap\<close>
  that of the compiled code that works on a connection.
  Its heap is a map from block numbers to contents, so that freeing twice is \<open>None\<close>.

  Bounds and fuel.  All loops are total functions, by structure or a measure, with two
  exceptions that take fuel: the loop over the fields of a struct gets one unit more than there are
  bytes, and no reader runs out of it (\<open>fueled_read_struct\<close>); the client that walks through the
  store gets a number of requests, and its theorem says how many are enough.  Over a connection, whose
  bytes may never end, the loops are partial functions, with \<open>None\<close> for not returning.  The sort tool
  takes less than 100 * 204800 lines (\<open>fits_splits\<close>), identifiers are read back below \<open>2 ^ 31\<close>, a value
  has less than \<open>2 ^ 32 - 1\<close> bytes, and one that crosses the wire less than \<open>2 ^ 31\<close>.

  Not modelled.  The server loops, the thread pools, the mutexes, the event loop of the non-blocking
  server and the states through which it takes a connection are code of the RPC library, which is
  not in the repository beyond its headers; so are reading and writing of the piped, file and
  compressing transports.  The framed and HTTP transports and the asynchronous processors of those
  headers are not used by the program, nor are the classes that only forward a call to a virtual
  function (TVirtualProtocol.h) and functions that only return a member.  libevent is declarations
  only.  The allocations of C++ strings and vectors succeed.  The Python client is generated code
  in another language.
\<close>

section \<open>The servers together\<close>

text \<open>C1. Read your writes, across processes: after a batch of puts at the write server, a read server
  started on the same directory answers every request for the key of a stored value with exactly
  the bytes of that value.\<close>

theorem read_your_writes:
  assumes "runs_sort popen now1 now2" and "db_rep db (w, st) i n m"
    and "i + int (length vals) \<le> max_records" and "\<forall>val \<in> set vals. length val < 2 ^ 32 - 1"
    and "n + length (concat vals) < 2 ^ 63" and "j < length vals" and "vals ! j \<noteq> []"
  shows "\<exists>st' w'. server_puts True (\<lambda>_. no_faults) w st vals = Some (Return (), st', w')
    \<and> start_and_get popen uninit db (w', st') (dec (nat (i + int j))) = Some (Return (vals ! j))"
  using numbered_db.get_stored [OF servers_numbered_db [OF assms(1)] assms(2-7)] server_puts_run by fastforce

lemma read_your_writes_witness:
  "\<exists>st' w'. server_puts True (\<lambda>_. no_faults) empty_world ex_handler [''v1'', ''v2''] = Some (Return (), st', w')
    \<and> start_and_get (sh_popen 0 1) zero_rec ''db'' (w', st') (dec 2) = Some (Return ''v2'')"
  using read_your_writes [OF runs_sort_sh_popen ex_db_rep, of "[''v1'', ''v2'']" 1 0 1 zero_rec]
  by (simp add: max_records_def OZSORT_PER_LINE_def OZSORT_MAX_SPLITS_def)

text \<open>C2. Read your writes over the wire: a client sends a batch to the write server, a read server is
  started on the directory, and a client that asks it for the key of a stored value receives
  exactly the bytes that were sent.  Generated clients, protocol, processors, handlers, storage
  and sort tool are all part of it.\<close>

theorem remote_read_your_writes:
  assumes "runs_sort popen now1 now2" and "app_round_trip app" and "db_rep db (w, st) i n m"
    and "i + int (length vals) \<le> max_records" and "short_list vals"
    and "n + length (concat vals) < 2 ^ 63" and "j < length vals" and "vals ! j \<noteq> []"
  shows "\<exists>st' w' h w''.
    OZWriteServiceClient_puts app (OZWriteServiceProcessor_process app (write_iface True (\<lambda>_ _. no_faults))) vals (w, st) =
      Some (Inr (Answer ()), (w', st'))
    \<and> read_handler_new popen uninit w' db = Some (Return h, w'')
    \<and> OZReadServiceClient_get app (OZReadServiceProcessor_process app (read_iface alloc0 (\<lambda>_ _. True))) result
        (dec (nat (i + int j))) (w'', h) = Some (Inr (Answer (vals ! j)), (w'', h))"
proof -
  let ?k = "dec (nat (i + int j))"
  have len: "\<forall>val \<in> set vals. length val < 2 ^ 32 - 1" and val: "short (vals ! j)"
    using assms(5,7) by (auto simp: short_list_def list_all_iff short_def)
  obtain w' st' where p: "server_puts True (\<lambda>_. no_faults) w st vals = Some (Return (), st', w')"
      "start_and_get popen uninit db (w', st') ?k = Some (Return (vals ! j))"
    using numbered_db.get_stored [OF servers_numbered_db [OF assms(1)] assms(3,4) len assms(6-8)]
      server_puts_run by fastforce
  obtain h w'' where h: "read_handler_new popen uninit w' db = Some (Return h, w'')"
      "server_get (\<lambda>_ _. True) w'' h ?k = Some (Return (vals ! j))"
    using start_and_get_Return [OF p(2)] by auto
  have "0 \<le> i"
    using assms(3) by (auto simp: db_rep_def server_inv_def)
  then have "key_ok ?k"
    using assms(4,7) by (intro key_ok_id) (simp_all add: max_records_def OZSORT_PER_LINE_def OZSORT_MAX_SPLITS_def)
  then have "short ?k"
    by (simp add: short_def key_ok_def OZ_KEY_BUF_SIZE_def)
  then show ?thesis
    using remote_puts_run [OF assms(2,5) p(1)] h(1)
      remote_get_db [OF assms(2) _ , where m = "Some (vals ! j)"] h(2) val by fastforce
qed

lemma remote_read_your_writes_witness:
  "\<exists>st' w' h w''.
    OZWriteServiceClient_puts ex_app (OZWriteServiceProcessor_process ex_app (write_iface True (\<lambda>_ _. no_faults)))
      [''v1'', ''v2''] (empty_world, ex_handler) = Some (Inr (Answer ()), (w', st'))
    \<and> read_handler_new (sh_popen 0 1) zero_rec w' ''db'' = Some (Return h, w'')
    \<and> OZReadServiceClient_get ex_app (OZReadServiceProcessor_process ex_app (read_iface (\<lambda>_ _. True) (\<lambda>_ _. True))) []
        (dec 2) (w'', h) = Some (Inr (Answer ''v2''), (w'', h))"
  using remote_read_your_writes [OF runs_sort_sh_popen ex_app_round_trip ex_db_rep, of "[''v1'', ''v2'']" 1 0 1 zero_rec]
  by (simp add: max_records_def OZSORT_PER_LINE_def OZSORT_MAX_SPLITS_def short_list_def short_def)

text \<open>The other way round: puts do not change what a read server answers for a key that had a value
  and is not one of the new keys.\<close>

theorem puts_keep_others:
  assumes "runs_sort popen now1 now2" and "db_rep db (w, st) i n m"
    and "i + int (length vals) \<le> max_records" and "\<forall>val \<in> set vals. length val < 2 ^ 32 - 1"
    and "n + length (concat vals) < 2 ^ 63" and "m (cstr k) = Some val"
    and "\<And>j. j < length vals \<Longrightarrow> cstr k \<noteq> dec (nat (i + int j))"
  shows "\<exists>st' w'. server_puts True (\<lambda>_. no_faults) w st vals = Some (Return (), st', w')
    \<and> start_and_get popen uninit db (w', st') k = Some (Return val)"
  using numbered_db.get_unchanged [OF servers_numbered_db [OF assms(1)] assms(2-7)] server_puts_run by fastforce

definition old_handler :: write_handler where
  "old_handler = \<lparr>ow = ex_writer, wkeybuf = [], wid = 3\<rparr>"

lemma old_db_rep: "db_rep ''db'' (ex_world, old_handler) 3 4 (db_map ex_value ex_recs)"
proof -
  have "server_inv ''db'' ex_world old_handler ex_value ex_recs"
    using ex_writer_inv ex_not_numbers by (auto simp: server_inv_def old_handler_def fresh_from_def)
  moreover have "on_disk ''db'' ex_world ex_value ex_recs"
    by (simp add: on_disk_def ex_world_def ex_paths)
  moreover have "db_place ''db'' ex_world"
    using ex_place ex_open by (simp add: db_place_def)
  moreover have "length ex_value = 4" "length ex_recs = 3"
    by (simp_all add: ex_value_def ex_recs_def)
  ultimately show ?thesis
    unfolding db_rep_def using ex_readable(1)
    by (intro exI [of _ ex_value] exI [of _ ex_recs])
      (simp add: old_handler_def max_records_def OZSORT_PER_LINE_def OZSORT_MAX_SPLITS_def)
qed

lemma puts_keep_others_witness:
  "\<exists>st' w'. server_puts True (\<lambda>_. no_faults) ex_world old_handler [''v''] = Some (Return (), st', w')
    \<and> start_and_get (sh_popen 0 1) zero_rec ''db'' (w', st') ''k'' = Some (Return ''z'')"
proof -
  have ne: "''k'' \<noteq> dec (nat (3 + int j))" for j
    using ex_not_numbers [of "ex_recs ! 0"] by (simp add: ex_recs_def)
  show ?thesis
    using ne [of 0] puts_keep_others [OF runs_sort_sh_popen old_db_rep, of "[''v'']" "''k''" "''z''" 0 1 zero_rec] ex_map
    by (simp add: max_records_def OZSORT_PER_LINE_def OZSORT_MAX_SPLITS_def)
qed

section \<open>Limits\<close>

text \<open>Two writers on one database are not kept apart, although the header of the library speaks of
  a lock: both puts succeed, and the second key is mapped to the first value.\<close>

definition two_writers :: "(nat \<times> nat \<times> string \<times> string) option" where
  "two_writers = (case ozwrite_open empty_world (Some \<lparr>wkey = Uninit, wval = Uninit\<rparr>) ''db'' of
     (_, h1, w1) \<Rightarrow> (case ozwrite_open w1 (Some \<lparr>wkey = Uninit, wval = Uninit\<rparr>) ''db'' of
       (_, h2, w2) \<Rightarrow> do {
         (r1, h3, w3) \<leftarrow> ozwrite_put no_faults w2 h1 ''1'' ''a'' 1;
         (r2, h4, w4) \<leftarrow> ozwrite_put no_faults w3 h2 ''2'' ''b'' 1;
         Some (r1, r2, content w4 (key_path ''db''), content w4 (value_path ''db''))
       }))"

theorem two_writers_mix_up:
  "\<exists>rs. two_writers = Some (0, 0, print_recs rs, ''ab'') \<and> recs_ok rs \<and> db_map ''ab'' rs ''2'' = Some ''a''"
proof -
  let ?rs = "[\<lparr>rkey = ''1'', roffset = 0, rlength = 1\<rparr>, \<lparr>rkey = ''2'', roffset = 0, rlength = 1\<rparr>]"
  have d: "dec 0 = ''0''" "dec 1 = ''1''" "dec (Suc 0) = ''1''"
    by (simp_all add: dec.simps digits_0_9 digits_0_9(2) [unfolded One_nat_def])
  have "two_writers = Some (0, 0, print_recs ?rs, ''ab'')"
    by (simp add: two_writers_def ozwrite_open_def ozwrite_put_def fopen_a_def mkdir_def empty_world_def
        ex_paths content_def no_faults_def ftello_def stream_put_def fflush_def write_file_def
        key_line_def print_rec_def d Let_def)
  moreover have "recs_ok ?rs"
    by (simp add: key_ok_def OZ_KEY_BUF_SIZE_def isspace_def)
  moreover have "db_map ''ab'' ?rs ''2'' = Some ''a''"
    by (simp add: db_map_def latest_def pick_def rec_bytes_def fread_bytes_def)
  ultimately show ?thesis by blast
qed

text \<open>A record of \<open>2 ^ 32 - 1\<close> bytes makes the size of the buffer wrap to 0, so reading any byte of
  it leaves the buffer.\<close>

theorem get_length_overflow:
  assumes "holds_table h rs" and "nul_free k" and "gkey p = Ptr k" and "fpval h = Ptr path"
    and "lookup_rec rs k = Some r" and "rlength r = - 1" and "fseeko_ok (roffset r)"
    and "alloc 0 0" and "unat (roffset r) < length (content w path)"
  shows "ozread_get alloc w (Some h) (Some p) = None"
proof -
  have "unat (- 1 :: u32) = 2 ^ 32 - 1"
    by (simp add: unsigned_minus_1_eq_mask mask_eq_exp_minus_1)
  then have "0 < length (fread_bytes (content w path) (unat (roffset r)) (unat (rlength r)))"
    using assms(6,9) by (simp add: fread_bytes_def)
  moreover have "value_bufsize (rlength r) = 0"
    using assms(6) by (simp add: value_bufsize_def)
  ultimately show ?thesis
    using get_key_correct [OF assms(1,2)] assms(3-8)
    by (simp add: ozread_get_def ozread_get_value_def buffer_read_def Let_def)
qed

lemma get_length_overflow_witness:
  "ozread_get (\<lambda>_ _. True) ex_world (Some \<lparr>recs = Ptr [Ptr \<lparr>rkey = ''a'', roffset = 0, rlength = - 1\<rparr>],
      nrecs = 1, fpval = Ptr (value_path ''db'')\<rparr>) (Some \<lparr>gkey = Ptr ''a'', gvalue = Null, glen = 0\<rparr>) = None"
  by (rule get_length_overflow [where rs = "[\<lparr>rkey = ''a'', roffset = 0, rlength = - 1\<rparr>]" and k = "''a''"
        and r = "\<lparr>rkey = ''a'', roffset = 0, rlength = - 1\<rparr>" and path = "value_path ''db''"])
    (simp_all add: holds_table_def lookup_rec_def fseeko_ok_def ex_content(2) ex_value_def)

text \<open>The copy of the merged lines to the standard output keeps each byte in a \<open>char\<close>: a byte
  \<open>0xFF\<close> in a key ends it as the end of the file does.\<close>

theorem copy_stops_at_FF:
  assumes "CHR 0xFF \<notin> set s"
  shows "copy_stdout (s @ CHR 0xFF # t) = s"
  using assms by (auto simp: copy_stdout_def intro!: takeWhile_append_stop)

lemma copy_stops_at_FF_witness: "copy_stdout (''a'' @ CHR 0xFF # ''b'') = ''a''"
  by (rule copy_stops_at_FF) simp

end
